(* ===== verification/Prelude.thy ===== *)
theory Prelude
  imports "HOL-Library.Word" "HOL-Library.Monad_Syntax"
begin

text \<open>
  What the component theories share: names for the C integer types, the
  \<^verbatim>\<open>ASSERT\<close> of \<^verbatim>\<open>lib/kernel/debug.h\<close>, the conversion of an unsigned expression to the
  \<^verbatim>\<open>int\<close> a function returns, and generic facts on lists, options and words.

  A kernel operation that can stop the machine (a failing \<^verbatim>\<open>ASSERT\<close>, a \<^verbatim>\<open>PANIC\<close>, a read
  through \<^verbatim>\<open>NULL\<close> or outside an object) is a function into \<open>option\<close>; \<open>None\<close> is that
  outcome, so "the operation returns" is always a provable statement.
\<close>

unbundle bit_operations_syntax

type_synonym u8 = "8 word"
type_synonym u16 = "16 word"
type_synonym u32 = "32 word"
type_synonym u64 = "64 word"

text \<open>\<^verbatim>\<open>DIV_ROUND_UP\<close> of \<^verbatim>\<open>kernel/global.h\<close>, in unsigned arithmetic.\<close>

definition DIV_ROUND_UP :: "u32 \<Rightarrow> u32 \<Rightarrow> u32" where
  "DIV_ROUND_UP x step = (x + step - 1) div step"

named_theorems bit_simps \<open>bits of the expressions the C code builds\<close>
named_theorems bounds \<open>facts that keep an index in range\<close>

definition ASSERT :: "bool \<Rightarrow> unit option" where
  "ASSERT c = (if c then Some () else None)"

lemma ASSERT_simps [simp]:
  "ASSERT True = Some ()"
  "ASSERT False = None"
  "(ASSERT c = Some u) = c"
  "(ASSERT c = None) = (\<not> c)"
  by (simp_all add: ASSERT_def)

lemma ASSERT_bind_Some [simp]:
  "(ASSERT c \<bind> f = Some y) = (c \<and> f () = Some y)"
  by (cases c) simp_all

text \<open>The value a C function of return type \<^verbatim>\<open>int\<close> gives for a \<^verbatim>\<open>uint32_t\<close> expression.\<close>

definition to_int :: "nat \<Rightarrow> int" where
  "to_int n = sint (word_of_nat n :: u32)"

lemma to_int_small [simp]: "n < 2 ^ 31 \<Longrightarrow> to_int n = int n"
  by (simp add: to_int_def signed_of_nat signed_take_bit_int_eq_self)

subsection \<open>Lists\<close>

text \<open>A read of a C array: outside the array nothing is known to be returned.\<close>

definition arr_get :: "'a list \<Rightarrow> nat \<Rightarrow> 'a option" where
  "arr_get xs i = (if i < length xs then Some (xs ! i) else None)"

definition arr_set :: "'a list \<Rightarrow> nat \<Rightarrow> 'a \<Rightarrow> 'a list option" where
  "arr_set xs i v = (if i < length xs then Some (xs[i := v]) else None)"

lemma arr_get_in [simp]: "i < length xs \<Longrightarrow> arr_get xs i = Some (xs ! i)"
  by (simp add: arr_get_def)

lemma arr_set_in [simp]: "i < length xs \<Longrightarrow> arr_set xs i v = Some (xs[i := v])"
  by (simp add: arr_set_def)

lemma nth_list_update_if:
  "i < length xs \<Longrightarrow> xs[i := v] ! j = (if i = j then v else xs ! j)"
  by (auto simp: nth_list_update)

lemma nth_update_same [simp]: "i < length xs \<Longrightarrow> xs[i := v] ! i = v"
  by simp

lemma fold_fun_upd [simp]: "(\<lambda>b. if b = a then v else h b) = h(a := v)"
  by (auto simp: fun_upd_def)

subsection \<open>Words\<close>

lemma bit_word_0_to_7_eqI:
  fixes a b :: u8
  assumes "\<And>i. i < 8 \<Longrightarrow> bit a i = bit b i"
  shows "a = b"
  using assms by (intro bit_word_eqI) simp

lemma u8_eq_0_iff: "(a :: u8) = 0 \<longleftrightarrow> (\<forall>i < 8. \<not> bit a i)"
  by (auto intro: bit_word_0_to_7_eqI)

lemma u8_eq_ff_iff: "(a :: u8) = 0xff \<longleftrightarrow> (\<forall>i < 8. bit a i)"
proof -
  have ff: "(0xff :: u8) = - 1" by simp
  show ?thesis unfolding ff by (auto intro!: bit_word_0_to_7_eqI)
qed

lemma and_bit_eq_0 [bit_simps]: "(a :: u8) AND push_bit n 1 = 0 \<longleftrightarrow> \<not> bit a n"
  by (simp add: bit_iff_and_push_bit_not_eq_0)

lemma and_low_mask_eq_0 [bit_simps]:
  "(a :: u8) AND (push_bit n 1 - 1) = 0 \<longleftrightarrow> (\<forall>i < n. \<not> bit a i)"
proof -
  have eq: "a AND (push_bit n 1 - 1) = take_bit n a"
    by (simp add: take_bit_eq_mask mask_eq_exp_minus_1)
  show ?thesis unfolding eq using bit_imp_le_length [of a]
    by (auto simp: bit_eq_iff bit_take_bit_iff)
qed

lemma and_high_mask_eq_0 [bit_simps]:
  assumes "n \<le> 8"
  shows "(a :: u8) AND push_bit (8 - n) (push_bit n 1 - 1) = 0 \<longleftrightarrow> (\<forall>i. 8 - n \<le> i \<and> i < 8 \<longrightarrow> \<not> bit a i)"
proof -
  have mask: "(push_bit n 1 - 1 :: u8) = mask n" by (simp add: mask_eq_exp_minus_1)
  show ?thesis unfolding mask using assms
    by (auto simp: bit_eq_iff bit_and_iff bit_push_bit_iff bit_mask_iff)
qed

lemmas and_exp_eq_0 [bit_simps] = and_bit_eq_0 [unfolded push_bit_of_1]
  and and_exp_mask_eq_0 [bit_simps] = and_low_mask_eq_0 [unfolded push_bit_of_1]
  and and_exp_high_mask_eq_0 [bit_simps] = and_high_mask_eq_0 [unfolded push_bit_of_1]

lemma unat_less_2p32 [bounds]: "unat (x :: u32) < 2 ^ 32"
  using unsigned_less [of x, where ?'a = nat] by simp

end
