(* ===== verification/Kstring.thy ===== *)
theory Kstring
  imports Prelude
begin

text \<open>
  \<^verbatim>\<open>lib/string.c\<close> over a flat byte memory: a pointer is a 32-bit address, \<^verbatim>\<open>NULL\<close> is
  address 0, pointer arithmetic wraps at \<open>2 ^ 32\<close> and overlapping buffers alias as
  they do in the C code. \<^verbatim>\<open>char\<close> is signed (the i386 ABI), so characters compare by
  \<open>sint\<close>. The loops that stop at a NUL byte are partial functions: on a memory where no
  NUL follows they do not return.

  The lemmas read a C string through \<open>cstr\<close>: every function returns on a
  NUL-terminated string and computes what its name says.
\<close>

type_synonym mem = "u32 \<Rightarrow> u8"

subsection \<open>The functions of string.c\<close>

primrec memset_loop :: "nat \<Rightarrow> mem \<Rightarrow> u32 \<Rightarrow> u8 \<Rightarrow> mem" where
  "memset_loop 0 m dst value = m"
| "memset_loop (Suc n) m dst value = memset_loop n (m(dst := value)) (dst + 1) value"

definition memset :: "mem \<Rightarrow> u32 \<Rightarrow> u8 \<Rightarrow> u32 \<Rightarrow> mem option" where
  "memset m dst value sz = do {
     ASSERT (dst \<noteq> 0);
     Some (memset_loop (unat sz) m dst value)
   }"

primrec memcpy_loop :: "nat \<Rightarrow> mem \<Rightarrow> u32 \<Rightarrow> u32 \<Rightarrow> mem" where
  "memcpy_loop 0 m dst src = m"
| "memcpy_loop (Suc n) m dst src = memcpy_loop n (m(dst := m src)) (dst + 1) (src + 1)"

definition memcpy :: "mem \<Rightarrow> u32 \<Rightarrow> u32 \<Rightarrow> u32 \<Rightarrow> mem option" where
  "memcpy m dst src sz = do {
     ASSERT (dst \<noteq> 0 \<and> src \<noteq> 0);
     Some (memcpy_loop (unat sz) m dst src)
   }"

primrec memcmp_loop :: "nat \<Rightarrow> mem \<Rightarrow> u32 \<Rightarrow> u32 \<Rightarrow> int" where
  "memcmp_loop 0 m a b = 0"
| "memcmp_loop (Suc n) m a b =
     (if m a \<noteq> m b then (if sint (m b) < sint (m a) then 1 else - 1)
      else memcmp_loop n m (a + 1) (b + 1))"

definition memcmp :: "mem \<Rightarrow> u32 \<Rightarrow> u32 \<Rightarrow> u32 \<Rightarrow> int option" where
  "memcmp m a b sz = do {
     ASSERT (a \<noteq> 0 \<and> b \<noteq> 0);
     Some (memcmp_loop (unat sz) m a b)
   }"

partial_function (option) strcpy_loop :: "mem \<Rightarrow> u32 \<Rightarrow> u32 \<Rightarrow> mem option" where
  "strcpy_loop m dst src =
     (if m src \<noteq> 0 then strcpy_loop (m(dst := m src)) (dst + 1) (src + 1)
      else Some (m(dst := m src)))"

definition strcpy :: "mem \<Rightarrow> u32 \<Rightarrow> u32 \<Rightarrow> (u32 \<times> mem) option" where
  "strcpy m dst src = do {
     ASSERT (dst \<noteq> 0 \<and> src \<noteq> 0);
     m' \<leftarrow> strcpy_loop m dst src;
     Some (dst, m')
   }"

partial_function (option) strlen_loop :: "mem \<Rightarrow> u32 \<Rightarrow> u32 option" where
  "strlen_loop m p = (if m p \<noteq> 0 then strlen_loop m (p + 1) else Some (p + 1))"

definition strlen :: "mem \<Rightarrow> u32 \<Rightarrow> u32 option" where
  "strlen m str = do {
     ASSERT (str \<noteq> 0);
     p \<leftarrow> strlen_loop m str;
     Some (p - str - 1)
   }"

partial_function (option) strcmp_loop :: "mem \<Rightarrow> u32 \<Rightarrow> u32 \<Rightarrow> (u32 \<times> u32) option" where
  "strcmp_loop m a b =
     (if m a \<noteq> 0 \<and> m a = m b then strcmp_loop m (a + 1) (b + 1) else Some (a, b))"

definition strcmp :: "mem \<Rightarrow> u32 \<Rightarrow> u32 \<Rightarrow> int option" where
  "strcmp m a b = do {
     ASSERT (a \<noteq> 0 \<and> b \<noteq> 0);
     (a', b') \<leftarrow> strcmp_loop m a b;
     Some (if sint (m a') < sint (m b') then - 1 else if sint (m b') < sint (m a') then 1 else 0)
   }"

text \<open>
  The searching functions compare a signed \<^verbatim>\<open>char\<close> with an unsigned \<^verbatim>\<open>uint8_t\<close>, both
  promoted to \<^verbatim>\<open>int\<close>.
\<close>

definition char_is :: "u8 \<Rightarrow> u8 \<Rightarrow> bool" where
  "char_is c ch \<longleftrightarrow> sint c = uint ch"

partial_function (option) strchr_loop :: "mem \<Rightarrow> u32 \<Rightarrow> u8 \<Rightarrow> u32 option" where
  "strchr_loop m str ch =
     (if m str \<noteq> 0 then (if char_is (m str) ch then Some str else strchr_loop m (str + 1) ch)
      else Some 0)"

definition strchr :: "mem \<Rightarrow> u32 \<Rightarrow> u8 \<Rightarrow> u32 option" where
  "strchr m str ch = do { ASSERT (str \<noteq> 0); strchr_loop m str ch }"

partial_function (option) strrchr_loop :: "mem \<Rightarrow> u32 \<Rightarrow> u8 \<Rightarrow> u32 \<Rightarrow> u32 option" where
  "strrchr_loop m str ch last_char =
     (if m str \<noteq> 0
      then strrchr_loop m (str + 1) ch (if char_is (m str) ch then str else last_char)
      else Some last_char)"

definition strrchr :: "mem \<Rightarrow> u32 \<Rightarrow> u8 \<Rightarrow> u32 option" where
  "strrchr m str ch = do { ASSERT (str \<noteq> 0); strrchr_loop m str ch 0 }"

partial_function (option) strchrs_loop :: "mem \<Rightarrow> u32 \<Rightarrow> u8 \<Rightarrow> u32 \<Rightarrow> u32 option" where
  "strchrs_loop m str ch index =
     (if m str \<noteq> 0
      then (if char_is (m str) ch then Some index else strchrs_loop m (str + 1) ch (index + 1))
      else Some (- 1))"

definition strchrs :: "mem \<Rightarrow> u32 \<Rightarrow> u8 \<Rightarrow> u32 option" where
  "strchrs m str ch = do { ASSERT (str \<noteq> 0); strchrs_loop m str ch 0 }"

partial_function (option) strrchrs_loop :: "mem \<Rightarrow> u32 \<Rightarrow> u8 \<Rightarrow> u32 \<Rightarrow> u32 \<Rightarrow> u32 option" where
  "strrchrs_loop m str ch i index =
     (if m str \<noteq> 0
      then strrchrs_loop m (str + 1) ch (i + 1) (if char_is (m str) ch then i else index)
      else Some index)"

definition strrchrs :: "mem \<Rightarrow> u32 \<Rightarrow> u8 \<Rightarrow> int option" where
  "strrchrs m str ch = do {
     ASSERT (str \<noteq> 0);
     index \<leftarrow> strrchrs_loop m str ch 0 (- 1);
     Some (sint index)
   }"

partial_function (option) skip_to_nul :: "mem \<Rightarrow> u32 \<Rightarrow> u32 option" where
  "skip_to_nul m p = (if m p \<noteq> 0 then skip_to_nul m (p + 1) else Some p)"

definition strcat :: "mem \<Rightarrow> u32 \<Rightarrow> u32 \<Rightarrow> (u32 \<times> mem) option" where
  "strcat m dst src = do {
     ASSERT (dst \<noteq> 0 \<and> src \<noteq> 0);
     d \<leftarrow> skip_to_nul m dst;
     m' \<leftarrow> strcpy_loop m d src;
     Some (dst, m')
   }"

partial_function (option) strcount_loop :: "mem \<Rightarrow> u32 \<Rightarrow> u8 \<Rightarrow> u32 \<Rightarrow> u32 option" where
  "strcount_loop m p ch ch_cnt =
     (if m p \<noteq> 0
      then strcount_loop m (p + 1) ch (if char_is (m p) ch then ch_cnt + 1 else ch_cnt)
      else Some ch_cnt)"

definition strcount :: "mem \<Rightarrow> u32 \<Rightarrow> u8 \<Rightarrow> u32 option" where
  "strcount m str ch = do { ASSERT (str \<noteq> 0); strcount_loop m str ch 0 }"

subsection \<open>C strings and byte regions\<close>

fun cstr :: "mem \<Rightarrow> u32 \<Rightarrow> u8 list \<Rightarrow> bool" where
  "cstr m p [] \<longleftrightarrow> m p = 0"
| "cstr m p (c # s) \<longleftrightarrow> m p = c \<and> c \<noteq> 0 \<and> cstr m (p + 1) s"

definition region :: "u32 \<Rightarrow> nat \<Rightarrow> u32 set" where
  "region p n = (\<lambda>i. p + word_of_nat i) ` {..<n}"

primrec bytes_at :: "nat \<Rightarrow> mem \<Rightarrow> u32 \<Rightarrow> u8 list" where
  "bytes_at 0 m p = []"
| "bytes_at (Suc n) m p = m p # bytes_at n m (p + 1)"

fun put_bytes :: "mem \<Rightarrow> u32 \<Rightarrow> u8 list \<Rightarrow> mem" where
  "put_bytes m p [] = m"
| "put_bytes m p (c # cs) = put_bytes (m(p := c)) (p + 1) cs"

lemma region_0 [simp]: "region p 0 = {}"
  by (simp add: region_def)

lemma region_Suc: "region p (Suc n) = insert p (region (p + 1) n)"
proof -
  have "{..<Suc n} = insert 0 (Suc ` {..<n})" by (rule lessThan_Suc_eq_insert_0)
  then have "region p (Suc n) = insert p ((\<lambda>i. p + word_of_nat (Suc i)) ` {..<n})"
    by (simp add: region_def image_image)
  then show ?thesis by (simp add: region_def algebra_simps)
qed

lemma region_first [simp]: "0 < n \<Longrightarrow> p \<in> region p n"
  by (cases n) (auto simp: region_Suc)

lemma region_next_first: "n < 2 ^ 32 \<Longrightarrow> p \<notin> region (p + 1) n"
proof
  assume n: "n < 2 ^ 32" and "p \<in> region (p + 1) n"
  then obtain i where i: "i < n" and "p = p + 1 + word_of_nat i" by (auto simp: region_def)
  then have "(word_of_nat (Suc i) :: u32) = 0"
    by (metis add.assoc add_cancel_right_right of_nat_Suc)
  then have "(2::nat) ^ 32 dvd Suc i" by (simp add: word_of_nat_eq_0_iff del: of_nat_Suc)
  with i n show False by (auto dest: dvd_imp_le)
qed

lemma put_bytes_outside: "x \<notin> region p (length cs) \<Longrightarrow> put_bytes m p cs x = m x"
  by (induction m p cs rule: put_bytes.induct) (auto simp: region_Suc)

lemma bytes_at_put_bytes:
  "length cs \<le> 2 ^ 32 \<Longrightarrow> bytes_at (length cs) (put_bytes m p cs) p = cs"
proof (induction m p cs rule: put_bytes.induct)
  case (2 m p c cs)
  then have "put_bytes (m(p := c)) (p + 1) cs p = c"
    using region_next_first [of "length cs" p] by (simp add: put_bytes_outside)
  with 2 show ?case by simp
qed simp

lemma bytes_at_cong:
  "(\<And>x. x \<in> region p n \<Longrightarrow> m x = m' x) \<Longrightarrow> bytes_at n m p = bytes_at n m' p"
  by (induction n arbitrary: p) (auto simp: region_Suc)

lemma length_bytes_at [simp]: "length (bytes_at n m p) = n"
  by (induction n arbitrary: p) auto

lemma cstr_bytes_at: "cstr m p s \<longleftrightarrow> bytes_at (Suc (length s)) m p = s @ [0] \<and> 0 \<notin> set s"
  by (induction m p s rule: cstr.induct) auto

lemma cstr_unique: "cstr m p s \<Longrightarrow> cstr m p t \<Longrightarrow> s = t"
proof (induction m p s arbitrary: t rule: cstr.induct)
  case (1 m p)
  then show ?case by (cases t) auto
next
  case (2 m p c s)
  then show ?case by (cases t) auto
qed

lemma cstr_cong: "(\<And>x. x \<in> region p (Suc (length s)) \<Longrightarrow> m x = m' x) \<Longrightarrow> cstr m p s = cstr m' p s"
  by (induction m p s rule: cstr.induct) (auto simp: region_Suc)

lemma cstr_put_bytes:
  assumes "0 \<notin> set s" and "length s < 2 ^ 32"
  shows "cstr (put_bytes m p (s @ [0])) p s"
  using assms bytes_at_put_bytes [of "s @ [0]" m p] by (simp add: cstr_bytes_at)

lemma put_bytes_append:
  "put_bytes m p (s @ t) = put_bytes (put_bytes m p s) (p + word_of_nat (length s)) t"
  by (induction m p s rule: put_bytes.induct) (simp_all add: algebra_simps)

subsection \<open>The loops on a NUL-terminated string\<close>

lemma strlen_loop_cstr:
  "cstr m p s \<Longrightarrow> strlen_loop m p = Some (p + word_of_nat (length s) + 1)"
  by (induction m p s rule: cstr.induct) (simp_all add: strlen_loop.simps algebra_simps)

lemma skip_to_nul_cstr:
  "cstr m p s \<Longrightarrow> skip_to_nul m p = Some (p + word_of_nat (length s))"
  by (induction m p s rule: cstr.induct) (simp_all add: skip_to_nul.simps algebra_simps)

lemma strcpy_loop_cstr:
  "cstr m src s \<Longrightarrow> region src (Suc (length s)) \<inter> region dst (Suc (length s)) = {} \<Longrightarrow>
   strcpy_loop m dst src = Some (put_bytes m dst (s @ [0]))"
proof (induction s arbitrary: m src dst)
  case Nil
  then show ?case by (simp add: strcpy_loop.simps)
next
  case (Cons c s)
  from Cons.prems(2) have "cstr (m(dst := c)) (src + 1) s = cstr m (src + 1) s"
    by (intro cstr_cong) (auto simp: region_Suc)
  with Cons.prems(1) have "cstr (m(dst := c)) (src + 1) s" by simp
  moreover from Cons.prems(2)
  have "region (src + 1) (Suc (length s)) \<inter> region (dst + 1) (Suc (length s)) = {}"
    by (auto simp: region_Suc)
  ultimately have "strcpy_loop (m(dst := c)) (dst + 1) (src + 1) =
      Some (put_bytes (m(dst := c)) (dst + 1) (s @ [0]))"
    by (rule Cons.IH)
  with Cons.prems(1) show ?case by (simp add: strcpy_loop.simps)
qed

lemma memcpy_loop_disjoint:
  "region src n \<inter> region dst n = {} \<Longrightarrow>
   memcpy_loop n m dst src = put_bytes m dst (bytes_at n m src)"
proof (induction n arbitrary: m src dst)
  case (Suc n)
  then have "region (src + 1) n \<inter> region (dst + 1) n = {}" by (auto simp: region_Suc)
  moreover from Suc.prems have "bytes_at n (m(dst := m src)) (src + 1) = bytes_at n m (src + 1)"
    by (intro bytes_at_cong) (auto simp: region_Suc)
  ultimately show ?case using Suc.IH [of "src + 1" "dst + 1" "m(dst := m src)"]
    by simp
qed simp

lemma memset_loop_put_bytes: "memset_loop n m dst v = put_bytes m dst (replicate n v)"
  by (induction n arbitrary: m dst) simp_all

text \<open>The order \<^verbatim>\<open>strcmp\<close> decides: lexicographic, by signed characters.\<close>

fun str_order :: "u8 list \<Rightarrow> u8 list \<Rightarrow> int" where
  "str_order [] [] = 0"
| "str_order [] (b # t) = (if 0 < sint b then - 1 else 1)"
| "str_order (a # s) [] = (if sint a < 0 then - 1 else 1)"
| "str_order (a # s) (b # t) =
     (if a = b then str_order s t else if sint a < sint b then - 1 else 1)"

lemma sint_eq_iff_u8: "sint (a :: u8) = sint b \<longleftrightarrow> a = b"
  by (rule word_eq_iff_signed [symmetric])

lemma sint_u8_linear: "(a :: u8) \<noteq> b \<Longrightarrow> \<not> sint a < sint b \<Longrightarrow> sint b < sint a"
  by (metis linorder_neqE_linordered_idom sint_eq_iff_u8)

lemma strcmp_loop_cstr:
  "cstr m a s \<Longrightarrow> cstr m b t \<Longrightarrow>
   \<exists>a' b'. strcmp_loop m a b = Some (a', b') \<and>
     str_order s t = (if sint (m a') < sint (m b') then - 1 else if sint (m b') < sint (m a') then 1 else 0)"
proof (induction s t arbitrary: a b rule: str_order.induct)
  case (2 b' t)
  then show ?case using sint_u8_linear [of 0 b'] by (auto simp: strcmp_loop.simps)
next
  case (3 a' s)
  then show ?case using sint_u8_linear [of a' 0] by (auto simp: strcmp_loop.simps)
next
  case (4 a' s b' t)
  then show ?case using sint_u8_linear [of a' b']
    by (cases "a' = b'") (auto simp: strcmp_loop.simps [of m a b])
qed (auto simp: strcmp_loop.simps)

lemma str_order_antisym: "0 \<notin> set s \<Longrightarrow> 0 \<notin> set t \<Longrightarrow> str_order t s = - str_order s t"
proof (induction s t rule: str_order.induct)
  case (2 b t)
  then show ?case using sint_u8_linear [of 0 b] by auto
next
  case (3 a s)
  then show ?case using sint_u8_linear [of a 0] by auto
next
  case (4 a s b t)
  then show ?case using sint_u8_linear [of a b] by (auto simp: sint_eq_iff_u8)
qed auto

lemma str_order_0_iff: "str_order s t = 0 \<longleftrightarrow> s = t"
  by (induction s t rule: str_order.induct) auto

lemma cstr_no_nul: "cstr m p s \<Longrightarrow> 0 \<notin> set s"
  by (simp add: cstr_bytes_at)

lemma char_is_ascii [simp]: "ch < 128 \<Longrightarrow> char_is c ch \<longleftrightarrow> c = ch"
proof -
  assume "ch < 128"
  then have "uint ch < 128" by (simp add: word_less_def)
  moreover have "- 128 \<le> uint ch" by (rule order_trans [of _ 0]) simp_all
  ultimately have "sint ch = uint ch"
    by (simp add: sint_uint signed_take_bit_int_eq_self_iff)
  then show ?thesis by (metis char_is_def sint_eq_iff_u8)
qed

lemma char_is_high: "128 \<le> ch \<Longrightarrow> \<not> char_is c ch"
proof -
  assume "128 \<le> ch"
  then have "128 \<le> uint ch" by (simp add: word_le_def)
  moreover have "sint c < 128" using sint_lt [of c] by simp
  ultimately show ?thesis by (simp add: char_is_def)
qed

lemma strchr_loop_cstr:
  assumes "ch < 128"
  shows "cstr m p s \<Longrightarrow> strchr_loop m p ch =
    Some (if ch \<in> set s then p + word_of_nat (length (takeWhile (\<lambda>c. c \<noteq> ch) s)) else 0)"
  by (induction m p s rule: cstr.induct)
    (auto simp: strchr_loop.simps algebra_simps assms)

lemma strcount_loop_cstr:
  assumes "ch < 128"
  shows "cstr m p s \<Longrightarrow> strcount_loop m p ch k = Some (k + word_of_nat (count_list s ch))"
  by (induction m p s arbitrary: k rule: cstr.induct)
    (auto simp: strcount_loop.simps algebra_simps assms)

text \<open>The last index of \<open>c\<close> in a string, counted from the left.\<close>

fun last_index :: "u8 \<Rightarrow> u8 list \<Rightarrow> nat option" where
  "last_index c [] = None"
| "last_index c (x # xs) =
     (case last_index c xs of Some i \<Rightarrow> Some (Suc i) | None \<Rightarrow> if x = c then Some 0 else None)"

lemma last_index_Some:
  "last_index c s = Some i \<longleftrightarrow> i < length s \<and> s ! i = c \<and> c \<notin> set (drop (Suc i) s)"
proof (induction s arbitrary: i)
  case (Cons x s)
  have none: "last_index c s = None \<longleftrightarrow> c \<notin> set s"
    by (induction s) (auto split: option.splits)
  show ?case
  proof (cases i)
    case 0
    with none show ?thesis by (auto split: option.splits)
  next
    case (Suc j)
    with Cons.IH [of j] show ?thesis by (auto split: option.splits)
  qed
qed simp

lemma strrchr_loop_cstr:
  assumes "ch < 128"
  shows "cstr m p s \<Longrightarrow> strrchr_loop m p ch lst =
    Some (case last_index ch s of Some i \<Rightarrow> p + word_of_nat i | None \<Rightarrow> lst)"
  by (induction m p s arbitrary: lst rule: cstr.induct)
    (auto simp: strrchr_loop.simps algebra_simps assms split: option.splits)

lemma strrchrs_loop_cstr:
  assumes "ch < 128"
  shows "cstr m p s \<Longrightarrow> strrchrs_loop m p ch k idx =
    Some (case last_index ch s of Some i \<Rightarrow> k + word_of_nat i | None \<Rightarrow> idx)"
  by (induction m p s arbitrary: k idx rule: cstr.induct)
    (auto simp: strrchrs_loop.simps algebra_simps assms split: option.splits)

subsection \<open>Properties\<close>

lemma cstr_nth: "cstr m p s \<Longrightarrow> i < length s \<Longrightarrow> m (p + word_of_nat i) \<noteq> 0"
proof (induction m p s arbitrary: i rule: cstr.induct)
  case (2 m p c s)
  then show ?case by (cases i) (auto simp: algebra_simps)
qed simp

lemma cstr_end: "cstr m p s \<Longrightarrow> m (p + word_of_nat (length s)) = 0"
  by (induction m p s rule: cstr.induct) (simp_all add: algebra_simps)

lemma cstr_length [bounds]: "cstr m p s \<Longrightarrow> length s < 2 ^ 32"
proof (rule ccontr)
  assume s: "cstr m p s" and "\<not> length s < 2 ^ 32"
  then obtain k where k: "length s = 2 ^ 32 + k" using le_Suc_ex linorder_not_less by blast
  have "m (p + word_of_nat k) \<noteq> 0" by (rule cstr_nth [OF s]) (simp add: k)
  moreover have "(word_of_nat (2 ^ 32 + k) :: u32) = word_of_nat k"
    by (simp only: of_nat_add) simp
  ultimately have "m (p + word_of_nat (length s)) \<noteq> 0" by (simp only: k not_False_eq_True)
  with cstr_end [OF s] show False by simp
qed

text \<open>
  \<^verbatim>\<open>strlen\<close> returns on every NUL-terminated string, and with its exact length: the
  subtraction of pointers never wraps.
\<close>

theorem strlen_correct:
  assumes "cstr m p s" and "p \<noteq> 0"
  shows "\<exists>n. strlen m p = Some n \<and> unat n = length s"
  using assms cstr_length [OF assms(1)]
  by (simp add: strlen_def strlen_loop_cstr unat_of_nat)

theorem strlen_correct_witness:
  "\<exists>n. strlen (put_bytes (\<lambda>_. 0) 100 [65, 66, 0]) 100 = Some n \<and> unat n = length [65 :: u8, 66]"
proof (rule strlen_correct)
  show "cstr (put_bytes (\<lambda>_. 0) 100 [65, 66, 0]) 100 [65, 66]" by simp
qed simp

text \<open>
  when source and destination do not overlap, \<^verbatim>\<open>strcpy\<close> returns the destination,
  which then holds the source string, and no byte outside the copied range changes.
\<close>

theorem strcpy_copies:
  assumes "cstr m src s" and "dst \<noteq> 0" and "src \<noteq> 0"
    and "region src (Suc (length s)) \<inter> region dst (Suc (length s)) = {}"
  shows "\<exists>m'. strcpy m dst src = Some (dst, m') \<and> cstr m' dst s \<and> cstr m' src s \<and>
    (\<forall>x. x \<notin> region dst (Suc (length s)) \<longrightarrow> m' x = m x)"
proof (intro exI conjI)
  let ?m' = "put_bytes m dst (s @ [0])"
  show "strcpy m dst src = Some (dst, ?m')"
    using assms by (simp add: strcpy_def strcpy_loop_cstr)
  show "cstr ?m' dst s"
    using assms(1) by (intro cstr_put_bytes) (auto dest: cstr_no_nul cstr_length)
  have out: "\<forall>x. x \<notin> region dst (Suc (length s)) \<longrightarrow> ?m' x = m x"
    by (simp add: put_bytes_outside)
  then show "\<forall>x. x \<notin> region dst (Suc (length s)) \<longrightarrow> ?m' x = m x" .
  have "cstr ?m' src s = cstr m src s"
    using out assms(4) by (intro cstr_cong) blast
  with assms(1) show "cstr ?m' src s" by simp
qed

theorem strcpy_copies_witness:
  "\<exists>m'. strcpy (put_bytes (\<lambda>_. 0) 100 [65, 66, 0]) 200 100 = Some (200, m') \<and>
    cstr m' 200 [65, 66] \<and> cstr m' 100 [65, 66] \<and>
    (\<forall>x. x \<notin> region 200 (Suc (length [65 :: u8, 66])) \<longrightarrow>
      m' x = put_bytes (\<lambda>_. 0) 100 [65, 66, 0] x)"
proof (rule strcpy_copies)
  show "cstr (put_bytes (\<lambda>_. 0) 100 [65, 66, 0]) 100 [65, 66]" by simp
qed (simp_all add: region_Suc)

text \<open>
  \<^verbatim>\<open>strcmp\<close> returns on two NUL-terminated strings; its result is 0 exactly for equal
  strings, is \<open>-1\<close>, \<open>0\<close> or \<open>1\<close>, is negated when the arguments are swapped, and is the
  lexicographic order by signed characters.
\<close>

theorem strcmp_decides:
  assumes "cstr m a s" and "cstr m b t" and "a \<noteq> 0" and "b \<noteq> 0"
  shows "strcmp m a b = Some (str_order s t) \<and> strcmp m b a = Some (- str_order s t) \<and>
    (str_order s t = 0 \<longleftrightarrow> s = t) \<and> str_order s t \<in> {- 1, 0, 1}"
proof -
  have eq: "strcmp m x y = Some (str_order u v)"
    if "cstr m x u" and "cstr m y v" and "x \<noteq> 0" and "y \<noteq> 0" for x y u v
    using strcmp_loop_cstr [OF that(1,2)] that(3,4) by (auto simp: strcmp_def)
  have "str_order s t \<in> {- 1, 0, 1}"
    by (induction s t rule: str_order.induct) auto
  moreover have "str_order t s = - str_order s t"
    using assms by (intro str_order_antisym) (auto dest: cstr_no_nul)
  ultimately show ?thesis
    using eq [OF assms] eq [OF assms(2,1,4,3)] by (simp add: str_order_0_iff)
qed

theorem strcmp_decides_witness:
  "let m = put_bytes (put_bytes (\<lambda>_. 0) 100 [65, 66, 0]) 200 [65, 67, 0] in
   strcmp m 100 200 = Some (str_order [65, 66] [65, 67]) \<and>
   strcmp m 200 100 = Some (- str_order [65, 66] [65, 67]) \<and>
   (str_order [65, 66] [65, 67] = 0 \<longleftrightarrow> [65 :: u8, 66] = [65, 67]) \<and>
   str_order [65, 66] [65, 67] \<in> {- 1, 0, 1}"
  unfolding Let_def by (rule strcmp_decides) simp_all

text \<open>
  \<^verbatim>\<open>strcat\<close> leaves the concatenation of the two strings at the destination when the
  source does not overlap the destination's final extent.
\<close>

theorem strcat_appends:
  assumes "cstr m dst s" and "cstr m src t" and "dst \<noteq> 0" and "src \<noteq> 0"
    and "length (s @ t) < 2 ^ 32"
    and "region src (Suc (length t)) \<inter> region dst (Suc (length (s @ t))) = {}"
  shows "\<exists>m'. strcat m dst src = Some (dst, m') \<and> cstr m' dst (s @ t)"
proof -
  let ?d = "dst + word_of_nat (length s)"
  let ?m' = "put_bytes m ?d (t @ [0])"
  have sub: "region ?d (Suc (length t)) \<subseteq> region dst (Suc (length (s @ t)))"
  proof
    fix x assume "x \<in> region ?d (Suc (length t))"
    then obtain i where "i < Suc (length t)" and "x = dst + word_of_nat (length s + i)"
      by (auto simp: region_def algebra_simps)
    then show "x \<in> region dst (Suc (length (s @ t)))"
      unfolding region_def by (intro image_eqI [where x = "length s + i"]) auto
  qed
  with assms(6) have "region src (Suc (length t)) \<inter> region ?d (Suc (length t)) = {}" by blast
  with assms have cat: "strcat m dst src = Some (dst, ?m')"
    by (simp add: strcat_def skip_to_nul_cstr strcpy_loop_cstr)
  have "bytes_at (length s) m dst = s" using assms(1)
    by (induction s arbitrary: dst) auto
  then have m: "put_bytes m dst s = m"
    by (induction s arbitrary: dst) (auto simp: fun_upd_idem)
  have "?m' = put_bytes m dst ((s @ t) @ [0])"
    by (simp add: put_bytes_append m)
  moreover have "0 \<notin> set (s @ t)" using assms(1,2) by (auto dest: cstr_no_nul)
  ultimately have "cstr ?m' dst (s @ t)" using assms(5) by (simp add: cstr_put_bytes del: append_assoc)
  with cat show ?thesis by blast
qed

theorem strcat_appends_witness:
  "\<exists>m'. strcat (put_bytes (put_bytes (\<lambda>_. 0) 100 [47, 97, 0]) 200 [47, 0]) 100 200 = Some (100, m') \<and>
     cstr m' 100 ([47, 97] @ [47])"
  by (rule strcat_appends) (simp_all add: region_Suc)

text \<open>
  for an ASCII character, \<^verbatim>\<open>strrchr\<close> returns the address of its last occurrence and
  \<^verbatim>\<open>NULL\<close> when there is none; for a character above \<^verbatim>\<open>0x7f\<close> it never finds anything, since a
  signed \<^verbatim>\<open>char\<close> is compared with an unsigned byte.
\<close>

theorem strrchr_finds_last:
  assumes "cstr m p s" and "p \<noteq> 0"
  shows "(ch < 128 \<longrightarrow> (\<forall>i < length s. s ! i = ch \<and> ch \<notin> set (drop (Suc i) s) \<longrightarrow>
      strrchr m p ch = Some (p + word_of_nat i))) \<and>
    (ch < 128 \<longrightarrow> ch \<notin> set s \<longrightarrow> strrchr m p ch = Some 0) \<and>
    (128 \<le> ch \<longrightarrow> strrchr m p ch = Some 0)"
proof (intro conjI impI allI)
  fix i assume "ch < 128" and "i < length s" and "s ! i = ch \<and> ch \<notin> set (drop (Suc i) s)"
  then have "last_index ch s = Some i" by (simp add: last_index_Some)
  with assms \<open>ch < 128\<close> show "strrchr m p ch = Some (p + word_of_nat i)"
    by (simp add: strrchr_def strrchr_loop_cstr)
next
  assume "ch < 128" and "ch \<notin> set s"
  then have "last_index ch s = None" by (induction s) auto
  with assms \<open>ch < 128\<close> show "strrchr m p ch = Some 0"
    by (simp add: strrchr_def strrchr_loop_cstr)
next
  assume "128 \<le> ch"
  then have "strrchr_loop m p ch 0 = Some 0" using assms(1)
    by (induction m p s rule: cstr.induct) (simp_all add: strrchr_loop.simps char_is_high)
  with assms(2) show "strrchr m p ch = Some 0" by (simp add: strrchr_def)
qed

theorem strrchr_finds_last_witness:
  "strrchr (put_bytes (\<lambda>_. 0) 100 [47, 97, 47, 98, 0]) 100 47 = Some 102"
proof -
  have "cstr (put_bytes (\<lambda>_. 0) 100 [47, 97, 47, 98, 0]) 100 [47, 97, 47, 98]" by simp
  from strrchr_finds_last [OF this, of 47] show ?thesis
    by (auto dest!: spec [where x = 2])
qed

end
