(* ===== verification/Fifo.thy ===== *)
theory Fifo
  imports Prelude
begin

text \<open>
  The contract of a first-in first-out container, shared by the intrusive lists (waiter queues,
  free lists, the list of all threads) and the keyboard ring buffer. An operation sequence is run
  on the abstract sequence (\<open>arun\<close>) and on the implementation (\<open>crun\<close>); the locale's lemma is
  that whatever the abstract run gives, the implementation gives too.
\<close>

datatype 'a fop = Put 'a | Get

primrec arun :: "('a list \<Rightarrow> 'a \<Rightarrow> bool) \<Rightarrow> 'a fop list \<Rightarrow> 'a list \<Rightarrow> ('a list \<times> 'a list) option" where
  "arun cap [] q = Some ([], q)"
| "arun cap (op # ops) q = (case op of
     Put x \<Rightarrow> (if cap q x then arun cap ops (q @ [x]) else None)
   | Get \<Rightarrow> (case q of [] \<Rightarrow> None | x # q' \<Rightarrow> map_option (\<lambda>(out, r). (x # out, r)) (arun cap ops q')))"

primrec crun :: "('a \<Rightarrow> 's \<Rightarrow> 's option) \<Rightarrow> ('s \<Rightarrow> ('a \<times> 's) option) \<Rightarrow> 'a fop list \<Rightarrow> 's \<Rightarrow> ('a list \<times> 's) option" where
  "crun put get [] s = Some ([], s)"
| "crun put get (op # ops) s = (case op of
     Put x \<Rightarrow> do { s \<leftarrow> put x s; crun put get ops s }
   | Get \<Rightarrow> do { (x, s) \<leftarrow> get s; (out, s) \<leftarrow> crun put get ops s; Some (x # out, s) })"

locale fifo =
  fixes repr :: "'s \<Rightarrow> 'a list \<Rightarrow> bool"
    and cap :: "'a list \<Rightarrow> 'a \<Rightarrow> bool"
    and put :: "'a \<Rightarrow> 's \<Rightarrow> 's option"
    and get :: "'s \<Rightarrow> ('a \<times> 's) option"
  assumes put_repr: "repr s q \<Longrightarrow> cap q x \<Longrightarrow> \<exists>s'. put x s = Some s' \<and> repr s' (q @ [x])"
    and get_repr: "repr s (x # q) \<Longrightarrow> \<exists>s'. get s = Some (x, s') \<and> repr s' q"
begin

lemma run_refines:
  assumes "repr s q" and "arun cap ops q = Some (out, q')"
  shows "\<exists>s'. crun put get ops s = Some (out, s') \<and> repr s' q'"
  using assms
proof (induction ops arbitrary: s q out)
  case (Cons op ops)
  show ?case
  proof (cases op)
    case (Put x)
    with Cons.prems(2) have "cap q x" "arun cap ops (q @ [x]) = Some (out, q')" by (auto split: if_splits)
    with put_repr [OF Cons.prems(1)] Cons.IH show ?thesis by (fastforce simp: Put)
  next
    case Get
    with Cons.prems(2) obtain x q1 out1 where q: "q = x # q1" "out = x # out1" "arun cap ops q1 = Some (out1, q')"
      by (auto split: list.splits)
    from get_repr [of s x q1] Cons.prems(1) q(1) obtain s1 where "get s = Some (x, s1)" "repr s1 q1" by blast
    with Cons.IH [OF this(2) q(3)] q(2) show ?thesis by (auto simp: Get)
  qed
qed simp

end

end
