(* ===== verification/Interrupt.thy ===== *)
theory Interrupt
  imports Prelude
begin

text \<open>
  \<^verbatim>\<open>kernel/interrupt.c\<close>: the interrupt flag of \<^verbatim>\<open>EFLAGS\<close> as the critical-section primitive
  (\<open>intr_disable\<close>/\<open>intr_set_status\<close> around every list and scheduler operation), the gate
  descriptors of the IDT, the table of C handlers behind them, and the commands sent to the
  two 8259A controllers. The register is a 32-bit word, \<^verbatim>\<open>cli\<close> and \<^verbatim>\<open>sti\<close> clear and set its
  bit 9; port writes are collected in a list in the order they are made.
\<close>

datatype intr_status = INTR_OFF | INTR_ON

definition EFLAGS_IF :: u32 where "EFLAGS_IF = 0x200"

definition cli :: "u32 \<Rightarrow> u32" where "cli eflags = eflags AND NOT EFLAGS_IF"

definition sti :: "u32 \<Rightarrow> u32" where "sti eflags = eflags OR EFLAGS_IF"

definition intr_get_status :: "u32 \<Rightarrow> intr_status" where
  "intr_get_status eflags = (if EFLAGS_IF AND eflags \<noteq> 0 then INTR_ON else INTR_OFF)"

definition intr_enable :: "u32 \<Rightarrow> intr_status \<times> u32" where
  "intr_enable eflags =
     (if intr_get_status eflags = INTR_ON then (INTR_ON, eflags) else (INTR_OFF, sti eflags))"

definition intr_disable :: "u32 \<Rightarrow> intr_status \<times> u32" where
  "intr_disable eflags =
     (if intr_get_status eflags = INTR_ON then (INTR_ON, cli eflags) else (INTR_OFF, eflags))"

definition intr_set_status :: "intr_status \<Rightarrow> u32 \<Rightarrow> intr_status \<times> u32" where
  "intr_set_status status eflags = (if status = INTR_ON then intr_enable eflags else intr_disable eflags)"

subsection \<open>Gates and handlers\<close>

record gate_desc =
  func_offset_low_word :: u16
  selector :: u16
  dcount :: u8
  attribute :: u8
  func_offset_high_word :: u16

definition IDT_DESC_CNT :: nat where "IDT_DESC_CNT = 0x81"
definition SELECTOR_K_CODE :: u16 where "SELECTOR_K_CODE = 8"
definition IDT_DESC_ATTR_DPL0 :: u8 where "IDT_DESC_ATTR_DPL0 = push_bit 7 1 + push_bit 5 0 + 0xE"
definition IDT_DESC_ATTR_DPL3 :: u8 where "IDT_DESC_ATTR_DPL3 = push_bit 7 1 + push_bit 5 3 + 0xE"

definition make_idt_desc :: "u8 \<Rightarrow> u32 \<Rightarrow> gate_desc" where
  "make_idt_desc attr function =
     \<lparr>func_offset_low_word = ucast (function AND 0x0000FFFF), selector = SELECTOR_K_CODE, dcount = 0,
      attribute = attr, func_offset_high_word = ucast (drop_bit 16 (function AND 0xFFFF0000))\<rparr>"

text \<open>The loop over all vectors, then the system call gate written over its entry.\<close>

definition idt_desc_init :: "(nat \<Rightarrow> u32) \<Rightarrow> u32 \<Rightarrow> gate_desc list" where
  "idt_desc_init intr_entry_table syscall_handler =
     (map (\<lambda>i. make_idt_desc IDT_DESC_ATTR_DPL0 (intr_entry_table i)) [0..<IDT_DESC_CNT])
       [0x80 := make_idt_desc IDT_DESC_ATTR_DPL3 syscall_handler]"

text \<open>The C handlers; registered ones (timer, keyboard, disk, ...) are named by a number.\<close>

datatype intr_handler = general_intr_handler | page_fault_handler | Handler nat

definition exception_init :: "intr_handler list" where
  "exception_init = (replicate IDT_DESC_CNT general_intr_handler)[14 := page_fault_handler]"

definition register_handler :: "u8 \<Rightarrow> intr_handler \<Rightarrow> intr_handler list \<Rightarrow> intr_handler list option" where
  "register_handler vector_no function idt_table = arr_set idt_table (unat vector_no) function"

text \<open>\<open>general_intr_handler\<close> returns (\<open>True\<close>) or stops the machine (\<open>False\<close>).\<close>

definition general_returns :: "u8 \<Rightarrow> bool" where
  "general_returns vec_nr =
     (if vec_nr = 0x27 \<or> vec_nr = 0x2f then True
      else if vec_nr = 0x20 \<or> vec_nr = 0x21 then True else False)"

definition pic_init :: "(u16 \<times> u8) list" where
  "pic_init =
     [(0x20, 0x11), (0x21, 0x20), (0x21, 0x04), (0x21, 0x01),
      (0xa0, 0x11), (0xa1, 0x28), (0xa1, 0x02), (0xa1, 0x01),
      (0x21, 0xf8), (0xa1, 0xbf)]"

text \<open>\<^verbatim>\<open>idt_init\<close> for a table at address \<open>idt\<close>: the descriptors, the handlers, the commands to the controllers, and the operand of
  \<^verbatim>\<open>lidt\<close> (limit in the low 16 bits, address above).\<close>

definition idt_operand :: "u32 \<Rightarrow> u64" where
  "idt_operand idt = word_of_nat (IDT_DESC_CNT * 8 - 1) OR push_bit 16 (ucast idt)"

definition idt_init :: "(nat \<Rightarrow> u32) \<Rightarrow> u32 \<Rightarrow> u32 \<Rightarrow> gate_desc list \<times> intr_handler list \<times> (u16 \<times> u8) list \<times> u64" where
  "idt_init intr_entry_table syscall_handler idt =
     (idt_desc_init intr_entry_table syscall_handler, exception_init, pic_init, idt_operand idt)"

subsection \<open>The interrupt flag\<close>

lemma EFLAGS_IF_exp: "EFLAGS_IF = 2 ^ 9"
  by (simp add: EFLAGS_IF_def)

lemma EFLAGS_IF_bit [bit_simps]: "bit EFLAGS_IF i \<longleftrightarrow> i = 9"
  unfolding EFLAGS_IF_exp bit_exp_iff by auto

lemma status_bit: "intr_get_status eflags = (if bit eflags 9 then INTR_ON else INTR_OFF)"
proof -
  have "EFLAGS_IF AND eflags = 0 \<longleftrightarrow> \<not> bit eflags 9"
    unfolding EFLAGS_IF_exp by (simp only: and.commute [of "2 ^ 9"] and_exp_eq_0_iff_not_bit)
  then show ?thesis by (simp add: intr_get_status_def)
qed

lemma cli_bit: "i < 32 \<Longrightarrow> bit (cli e) i \<longleftrightarrow> i \<noteq> 9 \<and> bit e i"
  by (auto simp: cli_def bit_and_iff bit_not_iff EFLAGS_IF_bit)

lemma sti_bit: "bit (sti e) i \<longleftrightarrow> i = 9 \<or> bit e i"
  by (auto simp: sti_def bit_or_iff EFLAGS_IF_bit)

lemma sti_cli: "bit e 9 \<Longrightarrow> sti (cli e) = e"
  by (rule bit_word_eqI) (auto simp: cli_bit sti_bit)

lemma cli_off [simp]: "intr_get_status (cli e) = INTR_OFF"
  by (simp add: status_bit cli_bit)

lemma intr_disable_off [simp]: "intr_get_status (snd (intr_disable e)) = INTR_OFF"
  by (cases "intr_get_status e") (simp_all add: intr_disable_def)

lemma intr_restore [simp]: "snd (intr_set_status (fst (intr_disable e)) (snd (intr_disable e))) = e"
  by (auto simp: intr_set_status_def intr_disable_def intr_enable_def sti_cli status_bit cli_bit split: if_splits)

text \<open>A critical section \<open>old = intr_disable(); ...; intr_set_status(old)\<close> whose body leaves the
  flags alone runs with interrupts off and leaves the flags register exactly as it was, so
  sections nest: an inner section never turns interrupts on inside an outer one.\<close>

theorem intr_section_restores:
  shows "intr_get_status (snd (intr_disable e)) = INTR_OFF \<and>
    snd (intr_set_status (fst (intr_disable e)) (snd (intr_disable e))) = e \<and>
    snd (intr_disable (snd (intr_disable e))) = snd (intr_disable e) \<and>
    fst (intr_disable (snd (intr_disable e))) = INTR_OFF"
proof -
  have "intr_disable (snd (intr_disable e)) = (INTR_OFF, snd (intr_disable e))"
    using intr_disable_off [of e] by (simp add: intr_disable_def [of "snd (intr_disable e)"])
  then show ?thesis by simp
qed

subsection \<open>The descriptor table\<close>

definition gate_offset :: "gate_desc \<Rightarrow> u32" where
  "gate_offset g = push_bit 16 (ucast (func_offset_high_word g)) OR ucast (func_offset_low_word g)"

definition gate_dpl :: "gate_desc \<Rightarrow> nat" where
  "gate_dpl g = unat (drop_bit 5 (attribute g) AND 3)"

lemma gate_offset_make: "gate_offset (make_idt_desc attr f) = f"
proof (rule bit_word_eqI)
  fix n assume "n < LENGTH(32)"
  have m: "(0x0000FFFF :: u32) = mask 16" "(0xFFFF0000 :: u32) = push_bit 16 (mask 16)"
    by (simp_all add: mask_eq_exp_minus_1)
  show "bit (gate_offset (make_idt_desc attr f)) n = bit f n"
    using \<open>n < LENGTH(32)\<close> unfolding gate_offset_def make_idt_desc_def m
    by (auto simp: bit_or_iff bit_push_bit_iff bit_ucast_iff bit_and_iff bit_drop_bit_eq bit_mask_iff)
qed



end
