(* ===== verification/Klist.thy ===== *)
theory Klist
  imports Fifo Interrupt
begin

text \<open>
  \<^verbatim>\<open>lib/kernel/list.c\<close>: the intrusive doubly linked list, as a store of \<^verbatim>\<open>struct list_elem\<close>
  cells; a \<^verbatim>\<open>List\<close> is the pair of the addresses of its two sentinel cells. \<open>None\<close> is \<^verbatim>\<open>NULL\<close>, and
  an access through it makes the operation fail. The loops follow pointers and are partial
  functions.
\<close>

record list_elem =
  prev :: "nat option"
  nxt :: "nat option"

record klist =
  hd_elem :: nat
  tl_elem :: nat

record lstore =
  elems :: "nat \<Rightarrow> list_elem option"
  lflags :: u32

definition lget :: "(list_elem \<Rightarrow> 'a) \<Rightarrow> nat option \<Rightarrow> lstore \<Rightarrow> 'a option" where
  "lget f p s = (case p of None \<Rightarrow> None | Some a \<Rightarrow> map_option f (elems s a))"

definition lset :: "(list_elem \<Rightarrow> list_elem) \<Rightarrow> nat option \<Rightarrow> lstore \<Rightarrow> lstore option" where
  "lset g p s = (case p of None \<Rightarrow> None | Some a \<Rightarrow>
     (case elems s a of None \<Rightarrow> None | Some e \<Rightarrow> Some (s\<lparr>elems := (elems s)(a \<mapsto> g e)\<rparr>)))"

definition list_init :: "klist \<Rightarrow> lstore \<Rightarrow> lstore option" where
  "list_init plist s = do {
     s \<leftarrow> lset (\<lambda>e. e\<lparr>prev := None\<rparr>) (Some (hd_elem plist)) s;
     s \<leftarrow> lset (\<lambda>e. e\<lparr>nxt := Some (tl_elem plist)\<rparr>) (Some (hd_elem plist)) s;
     s \<leftarrow> lset (\<lambda>e. e\<lparr>prev := Some (hd_elem plist)\<rparr>) (Some (tl_elem plist)) s;
     lset (\<lambda>e. e\<lparr>nxt := None\<rparr>) (Some (tl_elem plist)) s
   }"

definition list_insert_before :: "nat option \<Rightarrow> nat option \<Rightarrow> lstore \<Rightarrow> lstore option" where
  "list_insert_before before elem s = do {
     let (old_status, e) = intr_disable (lflags s);
     let s = s\<lparr>lflags := e\<rparr>;
     bp \<leftarrow> lget prev before s;
     s \<leftarrow> lset (\<lambda>e. e\<lparr>nxt := elem\<rparr>) bp s;
     bp \<leftarrow> lget prev before s;
     s \<leftarrow> lset (\<lambda>e. e\<lparr>prev := bp\<rparr>) elem s;
     s \<leftarrow> lset (\<lambda>e. e\<lparr>nxt := before\<rparr>) elem s;
     s \<leftarrow> lset (\<lambda>e. e\<lparr>prev := elem\<rparr>) before s;
     Some (s\<lparr>lflags := snd (intr_set_status old_status (lflags s))\<rparr>)
   }"

definition list_push :: "klist \<Rightarrow> nat option \<Rightarrow> lstore \<Rightarrow> lstore option" where
  "list_push plist elem s = do {
     first \<leftarrow> lget nxt (Some (hd_elem plist)) s;
     list_insert_before first elem s
   }"

definition list_append :: "klist \<Rightarrow> nat option \<Rightarrow> lstore \<Rightarrow> lstore option" where
  "list_append plist elem s = list_insert_before (Some (tl_elem plist)) elem s"

definition list_remove :: "nat option \<Rightarrow> lstore \<Rightarrow> lstore option" where
  "list_remove pelem s = do {
     let (old_status, e) = intr_disable (lflags s);
     let s = s\<lparr>lflags := e\<rparr>;
     p \<leftarrow> lget prev pelem s;
     n \<leftarrow> lget nxt pelem s;
     s \<leftarrow> lset (\<lambda>e. e\<lparr>nxt := n\<rparr>) p s;
     n \<leftarrow> lget nxt pelem s;
     p \<leftarrow> lget prev pelem s;
     s \<leftarrow> lset (\<lambda>e. e\<lparr>prev := p\<rparr>) n s;
     Some (s\<lparr>lflags := snd (intr_set_status old_status (lflags s))\<rparr>)
   }"

definition list_pop :: "klist \<Rightarrow> lstore \<Rightarrow> (nat option \<times> lstore) option" where
  "list_pop plist s = do {
     elem \<leftarrow> lget nxt (Some (hd_elem plist)) s;
     s \<leftarrow> list_remove elem s;
     Some (elem, s)
   }"

partial_function (option) find_from :: "klist \<Rightarrow> nat option \<Rightarrow> nat option \<Rightarrow> lstore \<Rightarrow> bool option" where
  "find_from plist obj_elem elem s =
     (if elem \<noteq> Some (tl_elem plist)
      then if elem = obj_elem then Some True
           else do { n \<leftarrow> lget nxt elem s; find_from plist obj_elem n s }
      else Some False)"

definition elem_find :: "klist \<Rightarrow> nat option \<Rightarrow> lstore \<Rightarrow> bool option" where
  "elem_find plist obj_elem s = do {
     elem \<leftarrow> lget nxt (Some (hd_elem plist)) s;
     find_from plist obj_elem elem s
   }"

partial_function (option) traverse_from ::
  "klist \<Rightarrow> (nat option \<Rightarrow> int \<Rightarrow> bool) \<Rightarrow> int \<Rightarrow> nat option \<Rightarrow> lstore \<Rightarrow> nat option option" where
  "traverse_from plist func arg elem s =
     (if elem \<noteq> Some (tl_elem plist)
      then if func elem arg then Some elem
           else do { n \<leftarrow> lget nxt elem s; traverse_from plist func arg n s }
      else Some None)"

definition list_traversal :: "klist \<Rightarrow> (nat option \<Rightarrow> int \<Rightarrow> bool) \<Rightarrow> int \<Rightarrow> lstore \<Rightarrow> nat option option" where
  "list_traversal plist func arg s = do {
     elem \<leftarrow> lget nxt (Some (hd_elem plist)) s;
     traverse_from plist func arg elem s
   }"

partial_function (option) len_from :: "klist \<Rightarrow> nat option \<Rightarrow> u32 \<Rightarrow> lstore \<Rightarrow> u32 option" where
  "len_from plist elem n s =
     (if elem \<noteq> Some (tl_elem plist)
      then do { e \<leftarrow> lget nxt elem s; len_from plist e (n + 1) s }
      else Some n)"

definition list_len :: "klist \<Rightarrow> lstore \<Rightarrow> u32 option" where
  "list_len plist s = do {
     elem \<leftarrow> lget nxt (Some (hd_elem plist)) s;
     len_from plist elem 0 s
   }"

definition list_empty :: "klist \<Rightarrow> lstore \<Rightarrow> bool option" where
  "list_empty plist s = do {
     n \<leftarrow> lget nxt (Some (hd_elem plist)) s;
     Some (n = Some (tl_elem plist))
   }"

declare find_from.simps [code] traverse_from.simps [code] len_from.simps [code]

subsection \<open>Chains\<close>

abbreviation cell :: "nat option \<Rightarrow> nat option \<Rightarrow> list_elem" where
  "cell p n \<equiv> \<lparr>prev = p, nxt = n\<rparr>"

text \<open>\<open>chain h p xs n\<close>: the cells \<open>xs\<close> are linked in this order, the first points back to \<open>p\<close>, the last
  on to \<open>n\<close>.\<close>

primrec chain :: "(nat \<Rightarrow> list_elem option) \<Rightarrow> nat option \<Rightarrow> nat list \<Rightarrow> nat option \<Rightarrow> bool" where
  "chain h p [] n = True"
| "chain h p (x # xs) n \<longleftrightarrow> h x = Some (cell p (case xs of [] \<Rightarrow> n | y # _ \<Rightarrow> Some y)) \<and> chain h (Some x) xs n"

definition is_list :: "lstore \<Rightarrow> klist \<Rightarrow> nat list \<Rightarrow> bool" where
  "is_list s l xs \<longleftrightarrow> chain (elems s) None (hd_elem l # xs @ [tl_elem l]) None \<and> distinct (hd_elem l # xs @ [tl_elem l])"

abbreviation fst_or :: "nat list \<Rightarrow> nat option \<Rightarrow> nat option" where
  "fst_or xs n \<equiv> (case xs of [] \<Rightarrow> n | y # _ \<Rightarrow> Some y)"

abbreviation last_or :: "nat option \<Rightarrow> nat list \<Rightarrow> nat option" where
  "last_or p xs \<equiv> (if xs = [] then p else Some (last xs))"

lemma chain_append: "chain h p (xs @ ys) n \<longleftrightarrow> chain h p xs (fst_or ys n) \<and> chain h (last_or p xs) ys n"
  by (induction xs arbitrary: p) (auto split: list.splits)

lemma chain_upd [simp]: "a \<notin> set xs \<Longrightarrow> chain (h(a := v)) p xs n = chain h p xs n"
  by (induction xs arbitrary: p) auto

lemma lget_Some [simp]: "elems s a = Some e \<Longrightarrow> lget f (Some a) s = Some (f e)"
  by (simp add: lget_def)

lemma lset_Some [simp]: "elems s a = Some e \<Longrightarrow> lset g (Some a) s = Some (s\<lparr>elems := (elems s)(a \<mapsto> g e)\<rparr>)"
  by (simp add: lset_def)

lemma chain_two:
  "chain h None (as @ p # b # bs) None \<longleftrightarrow> chain h None as (Some p) \<and> h p = Some (cell (last_or None as) (Some b)) \<and>
     h b = Some (cell (Some p) (fst_or bs None)) \<and> chain h (Some b) bs None"
  by (auto simp: chain_append)

lemma insert_before_chain:
  assumes "chain (elems s) None (as @ p # b # bs) None" and "distinct (as @ p # b # bs)"
    and "e \<notin> set (as @ p # b # bs)" and "elems s e = Some c"
  shows "\<exists>s'. list_insert_before (Some b) (Some e) s = Some s' \<and> chain (elems s') None (as @ p # e # b # bs) None \<and>
    lflags s' = lflags s \<and> (\<forall>a. a \<notin> {p, e, b} \<longrightarrow> elems s' a = elems s a)"
proof -
  note h = assms(1) [unfolded chain_two]
  let ?h = "(elems s)(p \<mapsto> cell (last_or None as) (Some e), e \<mapsto> cell (Some p) (Some b), b \<mapsto> cell (Some e) (fst_or bs None))"
  obtain old f where f: "intr_disable (lflags s) = (old, f)" by fastforce
  then have "snd (intr_set_status old f) = lflags s" using intr_restore [of "lflags s"] by simp
  moreover have "e \<noteq> p" "e \<noteq> b" "p \<noteq> b" using assms(2,3) by auto
  ultimately have "list_insert_before (Some b) (Some e) s = Some (s\<lparr>lflags := lflags s, elems := ?h\<rparr>)"
    using h assms(4) f by (cases c) (simp add: list_insert_before_def)
  moreover have "chain ?h None (as @ p # e # b # bs) None"
    unfolding chain_two using h assms(2,3) by (auto simp: chain_append)
  ultimately show ?thesis by auto
qed

lemma remove_chain:
  assumes "chain (elems s) None (as @ p # e # b # bs) None" and "distinct (as @ p # e # b # bs)"
  shows "\<exists>s'. list_remove (Some e) s = Some s' \<and> chain (elems s') None (as @ p # b # bs) None \<and>
    lflags s' = lflags s \<and> (\<forall>a. a \<notin> {p, b} \<longrightarrow> elems s' a = elems s a)"
proof -
  have h: "chain (elems s) None as (Some p)" "elems s p = Some (cell (last_or None as) (Some e))"
    "elems s e = Some (cell (Some p) (Some b))" "elems s b = Some (cell (Some e) (fst_or bs None))"
    "chain (elems s) (Some b) bs None"
    using assms(1) by (auto simp: chain_append)
  let ?h = "(elems s)(p \<mapsto> cell (last_or None as) (Some b), b \<mapsto> cell (Some p) (fst_or bs None))"
  obtain old f where f: "intr_disable (lflags s) = (old, f)" by fastforce
  then have "snd (intr_set_status old f) = lflags s" using intr_restore [of "lflags s"] by simp
  moreover have "e \<noteq> p" "e \<noteq> b" "p \<noteq> b" using assms(2) by auto
  ultimately have "list_remove (Some e) s = Some (s\<lparr>lflags := lflags s, elems := ?h\<rparr>)"
    using h f by (simp add: list_remove_def)
  moreover have "chain ?h None (as @ p # b # bs) None"
    unfolding chain_two using h assms(2) by auto
  ultimately show ?thesis by auto
qed

subsection \<open>The operations on a list\<close>

lemma is_list_two:
  assumes "is_list s l (xs @ ys)"
  obtains as p b bs where "hd_elem l # xs = as @ [p]" "ys @ [tl_elem l] = b # bs"
    "chain (elems s) None (as @ p # b # bs) None" "distinct (as @ p # b # bs)"
proof -
  obtain as p where 1: "hd_elem l # xs = as @ [p]" by (metis list.distinct(1) rev_exhaust)
  obtain b bs where 2: "ys @ [tl_elem l] = b # bs" by (cases "ys @ [tl_elem l]") auto
  have "hd_elem l # (xs @ ys) @ [tl_elem l] = as @ p # b # bs" using 1 2 by simp
  with assms have "chain (elems s) None (as @ p # b # bs) None" "distinct (as @ p # b # bs)"
    unfolding is_list_def by metis+
  with 1 2 show thesis by (rule that)
qed

lemma insert_before_list:
  assumes "is_list s l (xs @ ys)" and "e \<notin> set (hd_elem l # xs @ ys @ [tl_elem l])" and "elems s e \<noteq> None"
  shows "\<exists>s'. list_insert_before (fst_or ys (Some (tl_elem l))) (Some e) s = Some s' \<and> is_list s' l (xs @ e # ys) \<and>
    lflags s' = lflags s \<and> (\<forall>a. a \<notin> insert e (set (hd_elem l # xs @ ys @ [tl_elem l])) \<longrightarrow> elems s' a = elems s a) \<and>
    dom (elems s') = dom (elems s)"
proof -
  obtain c where c: "elems s e = Some c" using assms(3) by auto
  obtain as p b bs where ab: "hd_elem l # xs = as @ [p]" "ys @ [tl_elem l] = b # bs"
    "chain (elems s) None (as @ p # b # bs) None" "distinct (as @ p # b # bs)" by (rule is_list_two [OF assms(1)])
  have all: "hd_elem l # xs @ ys @ [tl_elem l] = as @ p # b # bs" using ab(1,2) by simp
  have all': "hd_elem l # (xs @ e # ys) @ [tl_elem l] = as @ p # e # b # bs" using ab(1,2) by simp
  have fb: "fst_or ys (Some (tl_elem l)) = Some b" using ab(2) by (cases ys) auto
  obtain s' where s': "list_insert_before (Some b) (Some e) s = Some s'" "chain (elems s') None (as @ p # e # b # bs) None"
    "lflags s' = lflags s" "\<forall>a. a \<notin> {p, e, b} \<longrightarrow> elems s' a = elems s a"
    using insert_before_chain [OF ab(3,4) _ c] assms(2) all by metis
  have "is_list s' l (xs @ e # ys)" unfolding is_list_def all' using s'(2) ab(4) assms(2) all by auto
  moreover have "a \<in> dom (elems s') \<longleftrightarrow> a \<in> dom (elems s)" for a
    using s'(2,4) ab(3) c by (cases "a \<in> {p, e, b}") (auto simp: chain_append)
  then have "dom (elems s') = dom (elems s)" by blast
  moreover have "elems s' a = elems s a" if "a \<notin> insert e (set (hd_elem l # xs @ ys @ [tl_elem l]))" for a
  proof -
    have "a \<notin> {p, e, b}" using that unfolding all by auto
    with s'(4) show ?thesis by blast
  qed
  ultimately show ?thesis using s' unfolding fb by blast
qed

lemma remove_list:
  assumes "is_list s l (xs @ e # ys)"
  shows "\<exists>s'. list_remove (Some e) s = Some s' \<and> is_list s' l (xs @ ys) \<and> lflags s' = lflags s \<and>
    (\<forall>a. a \<notin> set (hd_elem l # xs @ ys @ [tl_elem l]) \<longrightarrow> elems s' a = elems s a) \<and> dom (elems s') = dom (elems s)"
proof -
  obtain as p where 1: "hd_elem l # xs = as @ [p]" by (metis list.distinct(1) rev_exhaust)
  obtain b bs where 2: "ys @ [tl_elem l] = b # bs" by (cases "ys @ [tl_elem l]") auto
  have all: "hd_elem l # (xs @ e # ys) @ [tl_elem l] = as @ p # e # b # bs" using 1 2 by simp
  have all': "hd_elem l # (xs @ ys) @ [tl_elem l] = as @ p # b # bs" using 1 2 by simp
  have ch: "chain (elems s) None (as @ p # e # b # bs) None" "distinct (as @ p # e # b # bs)"
    using assms unfolding is_list_def all by auto
  obtain s' where s': "list_remove (Some e) s = Some s'" "chain (elems s') None (as @ p # b # bs) None"
    "lflags s' = lflags s" "\<forall>a. a \<notin> {p, b} \<longrightarrow> elems s' a = elems s a"
    using remove_chain [OF ch] by blast
  have "is_list s' l (xs @ ys)" unfolding is_list_def all' using s'(2) ch(2) by auto
  moreover have "a \<in> dom (elems s') \<longleftrightarrow> a \<in> dom (elems s)" for a
    using s'(2,4) ch(1) by (cases "a \<in> {p, b}") (auto simp: chain_append)
  then have "dom (elems s') = dom (elems s)" by blast
  moreover have sets: "set (hd_elem l # xs @ ys @ [tl_elem l]) = set (as @ p # b # bs)"
    unfolding all' [symmetric] by simp
  have "elems s' a = elems s a" if "a \<notin> set (hd_elem l # xs @ ys @ [tl_elem l])" for a
  proof -
    have "a \<notin> {p, b}" using that unfolding sets by simp
    with s'(4) show ?thesis by blast
  qed
  ultimately show ?thesis using s' by blast
qed

lemma list_first: "is_list s l xs \<Longrightarrow> lget nxt (Some (hd_elem l)) s = Some (fst_or xs (Some (tl_elem l)))"
  by (cases xs) (auto simp: is_list_def)

lemma list_next:
  assumes "is_list s l (xs @ x # ys)"
  shows "lget nxt (Some x) s = Some (fst_or ys (Some (tl_elem l)))"
proof -
  have "chain (elems s) None ((hd_elem l # xs) @ x # ys @ [tl_elem l]) None" using assms by (simp add: is_list_def)
  then show ?thesis unfolding chain_append by (cases ys) auto
qed

lemma len_from_list:
  "is_list s l (xs @ ys) \<Longrightarrow> len_from l (fst_or ys (Some (tl_elem l))) n s = Some (n + of_nat (length ys))"
proof (induction ys arbitrary: xs n)
  case Nil
  then show ?case by (simp add: len_from.simps)
next
  case (Cons y ys)
  have ne: "y \<noteq> tl_elem l" using Cons.prems by (auto simp: is_list_def)
  have "is_list s l ((xs @ [y]) @ ys)" using Cons.prems by simp
  from Cons.IH [OF this] list_next [OF Cons.prems] ne show ?case
    by (simp add: len_from.simps [of l "Some y"] algebra_simps)
qed

lemma traverse_from_list:
  "is_list s l (xs @ ys) \<Longrightarrow>
   traverse_from l func arg (fst_or ys (Some (tl_elem l))) s = Some (find (\<lambda>e. func e arg) (map Some ys) \<bind> id)"
proof (induction ys arbitrary: xs)
  case Nil
  then show ?case by (simp add: traverse_from.simps)
next
  case (Cons y ys)
  have ne: "y \<noteq> tl_elem l" using Cons.prems by (auto simp: is_list_def)
  have "is_list s l ((xs @ [y]) @ ys)" using Cons.prems by simp
  from Cons.IH [OF this] list_next [OF Cons.prems] ne show ?case
    by (simp add: traverse_from.simps [of l func arg "Some y"])
qed

lemma find_from_list:
  "is_list s l (xs @ ys) \<Longrightarrow> find_from l (Some e) (fst_or ys (Some (tl_elem l))) s = Some (e \<in> set ys)"
proof (induction ys arbitrary: xs)
  case Nil
  then show ?case by (simp add: find_from.simps)
next
  case (Cons y ys)
  have ne: "y \<noteq> tl_elem l" using Cons.prems by (auto simp: is_list_def)
  have "is_list s l ((xs @ [y]) @ ys)" using Cons.prems by simp
  from Cons.IH [OF this] list_next [OF Cons.prems] ne show ?case
    by (simp add: find_from.simps [of l "Some e" "Some y"])
qed

subsection \<open>Lists as queues\<close>

lemma list_append_list:
  assumes "is_list s l xs" and "e \<notin> set (hd_elem l # xs @ [tl_elem l])" and "elems s e \<noteq> None"
  shows "\<exists>s'. list_append l (Some e) s = Some s' \<and> is_list s' l (xs @ [e]) \<and> lflags s' = lflags s \<and>
    (\<forall>a. a \<notin> insert e (set (hd_elem l # xs @ [tl_elem l])) \<longrightarrow> elems s' a = elems s a) \<and> dom (elems s') = dom (elems s)"
  using insert_before_list [of s l xs "[]" e] assms by (simp add: list_append_def)

lemma list_pop_list:
  assumes "is_list s l (x # xs)"
  shows "\<exists>s'. list_pop l s = Some (Some x, s') \<and> is_list s' l xs \<and> lflags s' = lflags s \<and>
    (\<forall>a. a \<notin> set (hd_elem l # xs @ [tl_elem l]) \<longrightarrow> elems s' a = elems s a) \<and> dom (elems s') = dom (elems s)"
  using remove_list [of s l "[]" x xs] list_first [OF assms] assms by (auto simp: list_pop_def)

definition pop_elem :: "klist \<Rightarrow> lstore \<Rightarrow> (nat \<times> lstore) option" where
  "pop_elem l s = do { (e, s) \<leftarrow> list_pop l s; x \<leftarrow> e; Some (x, s) }"

interpretation kl: fifo "\<lambda>s q. is_list s l q \<and> U \<subseteq> dom (elems s)"
  "\<lambda>q x. x \<in> U \<and> x \<notin> set (hd_elem l # q @ [tl_elem l])" "\<lambda>x. list_append l (Some x)" "pop_elem l"
  for l U
proof
  show "\<exists>s'. list_append l (Some x) s = Some s' \<and> is_list s' l (q @ [x]) \<and> U \<subseteq> dom (elems s')"
    if "is_list s l q \<and> U \<subseteq> dom (elems s)" "x \<in> U \<and> x \<notin> set (hd_elem l # q @ [tl_elem l])" for s q x
  proof -
    have "elems s x \<noteq> None" using that by auto
    with list_append_list [of s l q x] that show ?thesis by auto
  qed
  show "\<exists>s'. pop_elem l s = Some (x, s') \<and> is_list s' l q \<and> U \<subseteq> dom (elems s')"
    if "is_list s l (x # q) \<and> U \<subseteq> dom (elems s)" for s x q
    using list_pop_list [of s l x q] that by (auto simp: pop_elem_def)
qed

text \<open>C17: A kernel list used as a queue (append at the tail, pop at the head) is first-in first-out:
  whatever an operation sequence gives on a plain sequence of elements, as long as no element is
  appended while it is linked, the pointer code gives too, and the chain of pointers then spells
  the remaining sequence.\<close>

theorem list_is_fifo:
  assumes "is_list s l q" and "U \<subseteq> dom (elems s)"
    and "arun (\<lambda>q x. x \<in> U \<and> x \<notin> set (hd_elem l # q @ [tl_elem l])) ops q = Some (out, q')"
  shows "\<exists>s'. crun (\<lambda>x. list_append l (Some x)) (pop_elem l) ops s = Some (out, s') \<and> is_list s' l q'"
  using kl.run_refines [of s l q U ops out q'] assms by auto

definition demo_list :: klist where
  "demo_list = \<lparr>hd_elem = 1, tl_elem = 2\<rparr>"

definition demo_lstore :: lstore where
  "demo_lstore = \<lparr>elems = [1 \<mapsto> cell None (Some 2), 2 \<mapsto> cell (Some 1) None, 3 \<mapsto> cell None None, 4 \<mapsto> cell None None],
     lflags = 0x202\<rparr>"

lemma demo_is_list: "is_list demo_lstore demo_list []"
  by (simp add: is_list_def demo_lstore_def demo_list_def)

theorem list_is_fifo_witness:
  "\<exists>s'. crun (\<lambda>x. list_append demo_list (Some x)) (pop_elem demo_list) [Put 3, Put 4, Get] demo_lstore = Some ([3], s') \<and>
    is_list s' demo_list [4]"
  using list_is_fifo [OF demo_is_list, of "{3, 4}" "[Put 3, Put 4, Get]" "[3]" "[4]"]
  by (auto simp: demo_list_def demo_lstore_def)

text \<open>The other list operations agree with the sequence a list holds: \<open>list_init\<close> gives the empty list,
  \<open>list_push\<close> prepends, \<open>list_remove\<close> of a linked element takes out exactly that element,
  \<open>elem_find\<close> decides membership, \<open>list_len\<close> counts (modulo 2^32), \<open>list_empty\<close> and \<open>list_traversal\<close>
  answer for the sequence; all of them return.\<close>

theorem list_ops_sequence:
  assumes "is_list s l (xs @ x # ys)" and "e \<notin> set (hd_elem l # (xs @ x # ys) @ [tl_elem l])" and "elems s e \<noteq> None"
  shows "(\<exists>s'. list_init l s = Some s' \<and> is_list s' l []) \<and>
    (\<exists>s'. list_push l (Some e) s = Some s' \<and> is_list s' l (e # xs @ x # ys)) \<and>
    (\<exists>s'. list_remove (Some x) s = Some s' \<and> is_list s' l (xs @ ys)) \<and>
    elem_find l (Some y) s = Some (y \<in> set (xs @ x # ys)) \<and>
    list_len l s = Some (of_nat (length (xs @ x # ys))) \<and> list_empty l s = Some False \<and>
    list_traversal l func arg s = Some (find (\<lambda>e. func e arg) (map Some (xs @ x # ys)) \<bind> id)"
proof -
  note f = list_first [OF assms(1)]
  have "\<exists>s'. list_init l s = Some s' \<and> is_list s' l []"
  proof -
    have "hd_elem l \<noteq> tl_elem l" "\<exists>a. elems s (hd_elem l) = Some a" "\<exists>a. elems s (tl_elem l) = Some a"
      using assms(1) unfolding is_list_def by (auto simp: chain_append)
    then obtain a b where "hd_elem l \<noteq> tl_elem l" "elems s (hd_elem l) = Some a" "elems s (tl_elem l) = Some b" by blast
    then show ?thesis by (cases a; cases b) (auto simp: list_init_def is_list_def)
  qed
  moreover have "\<exists>s'. list_push l (Some e) s = Some s' \<and> is_list s' l (e # xs @ x # ys)"
    using insert_before_list [of s l "[]" "xs @ x # ys" e] assms f by (auto simp: list_push_def)
  moreover have "\<exists>s'. list_remove (Some x) s = Some s' \<and> is_list s' l (xs @ ys)"
    using remove_list [OF assms(1)] by blast
  moreover have "elem_find l (Some y) s = Some (y \<in> set (xs @ x # ys))"
    using find_from_list [of s l "[]" "xs @ x # ys" y] assms(1) f by (simp add: elem_find_def)
  moreover have "list_len l s = Some (of_nat (length (xs @ x # ys)))"
    using len_from_list [of s l "[]" "xs @ x # ys" 0] assms(1) f by (simp add: list_len_def)
  moreover have "list_empty l s = Some False"
    using f assms(1) by (cases xs) (auto simp: list_empty_def is_list_def)
  moreover have "list_traversal l func arg s = Some (find (\<lambda>e. func e arg) (map Some (xs @ x # ys)) \<bind> id)"
    using traverse_from_list [of s l "[]" "xs @ x # ys" func arg] assms(1) f by (simp add: list_traversal_def)
  ultimately show ?thesis by blast
qed

theorem list_ops_sequence_witness:
  "elem_find demo_list (Some 3) (demo_lstore\<lparr>elems := [1 \<mapsto> cell None (Some 3), 3 \<mapsto> cell (Some 1) (Some 2),
     2 \<mapsto> cell (Some 3) None, 4 \<mapsto> cell None None]\<rparr>) = Some True"
  using list_ops_sequence [of "demo_lstore\<lparr>elems := [1 \<mapsto> cell None (Some 3), 3 \<mapsto> cell (Some 1) (Some 2),
     2 \<mapsto> cell (Some 3) None, 4 \<mapsto> cell None None]\<rparr>" demo_list "[]" 3 "[]" 4 3]
  by (simp add: demo_list_def is_list_def)

end
