(* ===== verification/Bitmap.thy ===== *)
theory Bitmap
  imports Prelude
begin

text \<open>
  \<^verbatim>\<open>lib/kernel/bitmap.c\<close>: the byte array of a \<^verbatim>\<open>Bitmap\<close> is a list of bytes, its length
  field a 32-bit word. Byte and bit indices of the loops are naturals (they stay below
  \<^verbatim>\<open>btmp_bytes_len\<close> and do not wrap); the value returned is the C expression at its width.
  A mask assigned to a \<^verbatim>\<open>uint8_t\<close> is computed on 8-bit words, which is the truncation C makes.

  Shown: \<open>bitmap_set\<close> changes exactly one bit; \<open>bitmap_scan\<close> returns only runs of clear
  bits inside the map; for fewer than 8 bits it is first-fit and complete; for 8 bits or
  more it finds a run whenever enough consecutive zero bytes exist, and misses some runs
  that are not byte-aligned.
\<close>

record bitmap =
  btmp_bytes_len :: u32
  bits :: "u8 list"

definition bitmap_init :: "bitmap \<Rightarrow> bitmap option" where
  "bitmap_init btmp =
     (let n = unat (btmp_bytes_len btmp) in
      if n \<le> length (bits btmp)
      then Some (btmp\<lparr>bits := replicate n 0 @ drop n (bits btmp)\<rparr>) else None)"

definition bitmap_scan_test :: "bitmap \<Rightarrow> u32 \<Rightarrow> bool option" where
  "bitmap_scan_test btmp bit_idx = do {
     let byte_idx = unat (bit_idx div 8);
     let bit_odd = unat (bit_idx mod 8);
     byte \<leftarrow> arr_get (bits btmp) byte_idx;
     Some (byte AND push_bit bit_odd 1 \<noteq> 0)
   }"

definition bitmap_set :: "bitmap \<Rightarrow> u32 \<Rightarrow> u8 \<Rightarrow> bitmap option" where
  "bitmap_set btmp bit_idx val = do {
     ASSERT (val = 0 \<or> val = 1);
     let byte_idx = unat (bit_idx div 8);
     let bit_odd = unat (bit_idx mod 8);
     byte \<leftarrow> arr_get (bits btmp) byte_idx;
     bs \<leftarrow> arr_set (bits btmp) byte_idx
       (if val \<noteq> 0 then byte OR push_bit bit_odd 1 else byte AND NOT (push_bit bit_odd 1));
     Some (btmp\<lparr>bits := bs\<rparr>)
   }"

text \<open>The bit-by-bit branch of \<^verbatim>\<open>bitmap_scan\<close>: the inner \<^verbatim>\<open>for\<close> over one byte, then the
  \<^verbatim>\<open>while\<close> over the bytes. \<open>Inl i\<close> is the early return at bit \<open>i\<close>.\<close>

function scan_byte :: "u8 \<Rightarrow> nat \<Rightarrow> nat \<Rightarrow> nat \<Rightarrow> nat + nat" where
  "scan_byte byte bit_len now_cnt i =
     (if i < 8
      then (if byte AND push_bit i 1 = 0
            then (if now_cnt + 1 = bit_len then Inl i
                  else scan_byte byte bit_len (now_cnt + 1) (i + 1))
            else scan_byte byte bit_len 0 (i + 1))
      else Inr now_cnt)"
  by pat_completeness auto
termination
  by (relation "measure (\<lambda>(byte, bit_len, now_cnt, i). 8 - i)") auto

declare scan_byte.simps [simp del]

function scan_bits :: "u8 list \<Rightarrow> nat \<Rightarrow> nat \<Rightarrow> nat \<Rightarrow> nat \<Rightarrow> int option" where
  "scan_bits bs len bit_len idx_byte now_cnt =
     (if idx_byte < len
      then do {
        byte \<leftarrow> arr_get bs idx_byte;
        if byte = 0xff then scan_bits bs len bit_len (idx_byte + 1) 0
        else (case scan_byte byte bit_len now_cnt 0 of
            Inl i \<Rightarrow> Some (sint (word_of_nat (idx_byte * 8 + i) - word_of_nat bit_len + 1 :: u32))
          | Inr now_cnt' \<Rightarrow> scan_bits bs len bit_len (idx_byte + 1) now_cnt')
      }
      else Some (- 1))"
  by pat_completeness auto
termination
  by (relation "measure (\<lambda>(bs, len, bit_len, idx_byte, now_cnt). len - idx_byte)") auto

declare scan_bits.simps [simp del]

text \<open>The byte-wise branch: the count \<open>j\<close> of zero bytes at \<open>idx_byte\<close>, then the two cases
  of the source. The inner option is the early return, \<open>None\<close> the fall through.\<close>

function zero_run :: "u8 list \<Rightarrow> nat \<Rightarrow> nat \<Rightarrow> nat \<Rightarrow> nat \<Rightarrow> nat option" where
  "zero_run bs len byte_len idx_byte j =
     (if j < byte_len \<and> idx_byte + j < len
      then do {
        byte \<leftarrow> arr_get bs (idx_byte + j);
        if byte \<noteq> 0 then Some j else zero_run bs len byte_len idx_byte (j + 1)
      }
      else Some j)"
  by pat_completeness auto
termination
  by (relation "measure (\<lambda>(bs, len, byte_len, idx_byte, j). byte_len - j)") auto

declare zero_run.simps [simp del]

definition scan_full_run :: "u8 list \<Rightarrow> nat \<Rightarrow> nat \<Rightarrow> nat \<Rightarrow> nat \<Rightarrow> int option option" where
  "scan_full_run bs len byte_len bit_len idx_byte =
     (if bit_len = 0 then Some (Some (to_int (idx_byte * 8)))
      else do {
        let next_byte = idx_byte + byte_len;
        after \<leftarrow> (if next_byte < len
                  then do { byte \<leftarrow> arr_get bs next_byte;
                            Some (byte AND (push_bit bit_len 1 - 1) = 0) }
                  else Some False);
        if after then Some (Some (to_int (idx_byte * 8)))
        else if 0 < idx_byte
        then do {
          let prev_byte = idx_byte - 1;
          byte \<leftarrow> arr_get bs prev_byte;
          Some (if byte AND push_bit (8 - bit_len) (push_bit bit_len 1 - 1) = 0
                then Some (to_int (prev_byte * 8 + (8 - bit_len))) else None)
        }
        else Some None
      })"

primrec high_zero_bits :: "u8 \<Rightarrow> nat \<Rightarrow> nat \<Rightarrow> nat" where
  "high_zero_bits byte 0 prev_zero_bits = prev_zero_bits"
| "high_zero_bits byte (Suc b) prev_zero_bits =
     (if byte AND push_bit b 1 = 0 then high_zero_bits byte b (prev_zero_bits + 1)
      else prev_zero_bits)"

definition scan_short_run :: "u8 list \<Rightarrow> nat \<Rightarrow> nat \<Rightarrow> nat \<Rightarrow> nat \<Rightarrow> int option option" where
  "scan_short_run bs len cnt byte_len idx_byte = do {
     let need_bits = cnt - (byte_len - 1) * 8;
     let next_byte = idx_byte + (byte_len - 1);
     if 0 < idx_byte
     then do {
       let prev_byte = idx_byte - 1;
       byte \<leftarrow> arr_get bs prev_byte;
       let prev_zero_bits = high_zero_bits byte 8 0;
       if need_bits \<le> prev_zero_bits then Some (Some (to_int (prev_byte * 8 + (8 - need_bits))))
       else if next_byte < len
       then do {
         let remain_bits = need_bits - prev_zero_bits;
         byte' \<leftarrow> arr_get bs next_byte;
         Some (if byte' AND (push_bit remain_bits 1 - 1) = 0
               then Some (to_int (prev_byte * 8 + (8 - prev_zero_bits))) else None)
       }
       else Some None
     }
     else if next_byte < len
     then do {
       byte' \<leftarrow> arr_get bs next_byte;
       Some (if byte' AND (push_bit need_bits 1 - 1) = 0 then Some (to_int (idx_byte * 8)) else None)
     }
     else Some None
   }"

function scan_bytes :: "u8 list \<Rightarrow> nat \<Rightarrow> nat \<Rightarrow> nat \<Rightarrow> nat \<Rightarrow> nat \<Rightarrow> int option" where
  "scan_bytes bs len cnt byte_len bit_len idx_byte =
     (if idx_byte < len
      then do {
        byte \<leftarrow> arr_get bs idx_byte;
        if byte \<noteq> 0 then scan_bytes bs len cnt byte_len bit_len (idx_byte + 1)
        else do {
          j \<leftarrow> zero_run bs len byte_len idx_byte 0;
          if j = byte_len
          then do {
            r \<leftarrow> scan_full_run bs len byte_len bit_len idx_byte;
            (case r of Some v \<Rightarrow> Some v
             | None \<Rightarrow> scan_bytes bs len cnt byte_len bit_len (idx_byte + (byte_len + 1)))
          }
          else if j = byte_len - 1 \<and> 0 < byte_len
          then do {
            r \<leftarrow> scan_short_run bs len cnt byte_len idx_byte;
            (case r of Some v \<Rightarrow> Some v
             | None \<Rightarrow> scan_bytes bs len cnt byte_len bit_len (idx_byte + (j + 1)))
          }
          else scan_bytes bs len cnt byte_len bit_len (idx_byte + (j + 1))
        }
      }
      else Some (- 1))"
  by pat_completeness auto
termination
  by (relation "measure (\<lambda>(bs, len, cnt, byte_len, bit_len, idx_byte). len - idx_byte)") auto

declare scan_bytes.simps [simp del]

definition bitmap_scan :: "bitmap \<Rightarrow> u32 \<Rightarrow> int option" where
  "bitmap_scan btmp cnt = do {
     ASSERT (0 < cnt);
     let byte_len = unat (cnt div 8);
     let bit_len = unat (cnt mod 8);
     if byte_len = 0
     then scan_bits (bits btmp) (unat (btmp_bytes_len btmp)) bit_len 0 0
     else scan_bytes (bits btmp) (unat (btmp_bytes_len btmp)) (unat cnt) byte_len bit_len 0
   }"

subsection \<open>Reading a bitmap bit by bit\<close>

definition clear :: "u8 list \<Rightarrow> nat \<Rightarrow> bool" where
  "clear bs i \<longleftrightarrow> \<not> bit (bs ! (i div 8)) (i mod 8)"

definition all_clear :: "u8 list \<Rightarrow> nat \<Rightarrow> nat \<Rightarrow> bool" where
  "all_clear bs s n \<longleftrightarrow> (\<forall>i. s \<le> i \<and> i < s + n \<longrightarrow> clear bs i)"

definition wf_bitmap :: "bitmap \<Rightarrow> bool" where
  "wf_bitmap btmp \<longleftrightarrow> length (bits btmp) = unat (btmp_bytes_len btmp) \<and>
     8 * length (bits btmp) < 2 ^ 31"

definition bitmap_used :: "bitmap \<Rightarrow> nat set" where
  "bitmap_used btmp = {i. i < 8 * length (bits btmp) \<and> \<not> clear (bits btmp) i}"

lemma clear_byte: "i < 8 \<Longrightarrow> clear bs (k * 8 + i) \<longleftrightarrow> \<not> bit (bs ! k) i"
  by (simp add: clear_def)

lemma all_clear_0 [simp]: "all_clear bs s 0"
  by (auto simp: all_clear_def)

lemma all_clear_Suc: "all_clear bs s (Suc n) \<longleftrightarrow> all_clear bs s n \<and> clear bs (s + n)"
  by (auto simp: all_clear_def less_Suc_eq)

lemma all_clear_append:
  "all_clear bs s n \<Longrightarrow> all_clear bs (s + n) k \<Longrightarrow> all_clear bs s (n + k)"
  unfolding all_clear_def by (metis add.assoc linorder_not_less)

lemma all_clear_zero_bytes:
  assumes "\<And>k. k < n \<Longrightarrow> bs ! (b + k) = 0"
  shows "all_clear bs (b * 8) (n * 8)"
  unfolding all_clear_def
proof (intro allI impI)
  fix i assume i: "b * 8 \<le> i \<and> i < b * 8 + n * 8"
  then have "i div 8 - b < n" and "b + (i div 8 - b) = i div 8" by auto
  with assms [of "i div 8 - b"] show "clear bs i" by (simp add: clear_def)
qed

lemma all_clear_low_bits:
  "(\<forall>i < n. \<not> bit (bs ! b) i) \<Longrightarrow> n \<le> 8 \<Longrightarrow> all_clear bs (b * 8) n"
  unfolding all_clear_def
proof (intro allI impI)
  fix i assume z: "\<forall>i < n. \<not> bit (bs ! b) i" and "n \<le> 8" and i: "b * 8 \<le> i \<and> i < b * 8 + n"
  then have "i = b * 8 + (i - b * 8)" and "i - b * 8 < n" and "i - b * 8 < 8" by auto
  then show "clear bs i" using z by (metis clear_byte)
qed

lemma all_clear_high_bits:
  assumes "\<forall>i. 8 - n \<le> i \<and> i < 8 \<longrightarrow> \<not> bit (bs ! b) i" and "n \<le> 8"
  shows "all_clear bs (b * 8 + (8 - n)) n"
  unfolding all_clear_def
proof (intro allI impI)
  fix i assume "b * 8 + (8 - n) \<le> i \<and> i < b * 8 + (8 - n) + n"
  with assms(2) have "i = b * 8 + (i - b * 8)" and "8 - n \<le> i - b * 8 \<and> i - b * 8 < 8" by auto
  then show "clear bs i" using assms(1) by (metis clear_byte)
qed

subsection \<open>Setting and testing one bit\<close>

lemma bitmap_set_Some:
  assumes "unat bit_idx div 8 < length (bits btmp)" and "v = 0 \<or> v = 1"
  shows "\<exists>btmp'. bitmap_set btmp bit_idx v = Some btmp' \<and>
     btmp_bytes_len btmp' = btmp_bytes_len btmp \<and> length (bits btmp') = length (bits btmp) \<and>
     (\<forall>i < 8 * length (bits btmp). clear (bits btmp') i = (if i = unat bit_idx then v = 0 else clear (bits btmp) i))"
proof -
  let ?b = "unat bit_idx div 8" and ?o = "unat bit_idx mod 8"
  let ?byte = "bits btmp ! ?b"
  let ?new = "if v \<noteq> 0 then ?byte OR push_bit ?o 1 else ?byte AND NOT (push_bit ?o 1)"
  have bits_new: "bit ?new k = (if k = ?o then v \<noteq> 0 else bit ?byte k)" if "k < 8" for k
    using that by (auto simp: bit_or_iff bit_and_iff bit_not_iff bit_exp_iff)
  have "clear ((bits btmp)[?b := ?new]) i = (if i = unat bit_idx then v = 0 else clear (bits btmp) i)" for i
  proof (cases "i div 8 = ?b")
    case True
    then have "i mod 8 = ?o \<longleftrightarrow> i = unat bit_idx" by (metis div_mult_mod_eq)
    with True assms(1) show ?thesis by (simp only: clear_def nth_list_update_eq bits_new mod_less_divisor) auto
  next
    case False
    then show ?thesis by (auto simp: clear_def)
  qed
  then show ?thesis using assms
    by (simp add: bitmap_set_def unat_div unat_mod Let_def)
qed

subsection \<open>The bit-by-bit scan\<close>

definition no_run :: "u8 list \<Rightarrow> nat \<Rightarrow> nat \<Rightarrow> bool" where
  "no_run bs bit_len pos \<longleftrightarrow> (\<forall>s. s + bit_len \<le> pos \<longrightarrow> \<not> all_clear bs s bit_len)"

text \<open>At bit position \<open>pos\<close>: the last \<open>now\<close> bits are clear, the one before them is not, and
  no run ends at or before \<open>pos\<close>.\<close>

definition scan_inv :: "u8 list \<Rightarrow> nat \<Rightarrow> nat \<Rightarrow> nat \<Rightarrow> bool" where
  "scan_inv bs bit_len pos now \<longleftrightarrow> now \<le> pos \<and> now < bit_len \<and> all_clear bs (pos - now) now \<and>
     (now = pos \<or> \<not> clear bs (pos - now - 1)) \<and> no_run bs bit_len pos"

lemma scan_inv_set:
  assumes "scan_inv bs bit_len pos now" and "\<not> clear bs pos"
  shows "scan_inv bs bit_len (Suc pos) 0"
proof -
  have "\<not> all_clear bs s bit_len" if "s + bit_len \<le> Suc pos" for s
  proof (cases "s + bit_len = Suc pos")
    case True
    then have "s \<le> pos \<and> pos < s + bit_len" using assms(1) by (auto simp: scan_inv_def)
    with assms(2) show ?thesis by (auto simp: all_clear_def)
  next
    case False
    with that assms(1) show ?thesis by (auto simp: scan_inv_def no_run_def)
  qed
  with assms show ?thesis by (auto simp: scan_inv_def no_run_def)
qed

lemma scan_inv_clear:
  assumes inv: "scan_inv bs bit_len pos now" and "clear bs pos" and "now + 1 \<noteq> bit_len"
  shows "scan_inv bs bit_len (Suc pos) (now + 1)"
proof -
  have "\<not> all_clear bs s bit_len" if "s + bit_len \<le> Suc pos" for s
  proof (cases "s + bit_len = Suc pos")
    case True
    then have "s < pos - now" and "now \<noteq> pos" using assms by (auto simp: scan_inv_def)
    then have "s \<le> pos - now - 1 \<and> pos - now - 1 < s + bit_len" and "\<not> clear bs (pos - now - 1)"
      using True inv by (auto simp: scan_inv_def)
    then show ?thesis by (auto simp: all_clear_def)
  next
    case False
    with that inv show ?thesis by (auto simp: scan_inv_def no_run_def)
  qed
  moreover have "all_clear bs (pos - now) (Suc now)"
    using inv assms(2) by (simp add: all_clear_Suc scan_inv_def)
  ultimately show ?thesis using assms by (auto simp: scan_inv_def no_run_def)
qed

lemma scan_inv_found:
  assumes inv: "scan_inv bs bit_len pos now" and "clear bs pos" and "now + 1 = bit_len"
  shows "bit_len \<le> Suc pos \<and> all_clear bs (Suc pos - bit_len) bit_len \<and>
    (\<forall>s < Suc pos - bit_len. \<not> all_clear bs s bit_len)"
proof -
  have "all_clear bs (pos - now) (Suc now)"
    using inv assms(2) by (simp add: all_clear_Suc scan_inv_def)
  moreover have "\<not> all_clear bs s bit_len" if "s < Suc pos - bit_len" for s
    using inv that by (auto simp: scan_inv_def no_run_def)
  ultimately show ?thesis using inv assms(3) by (auto simp: scan_inv_def)
qed

lemma scan_byte_correct:
  "scan_inv bs bit_len (k * 8 + i) now \<Longrightarrow> i \<le> 8 \<Longrightarrow>
   (case scan_byte (bs ! k) bit_len now i of
      Inl i' \<Rightarrow> i' < 8 \<and> bit_len \<le> k * 8 + i' + 1 \<and> all_clear bs (k * 8 + i' + 1 - bit_len) bit_len \<and>
        (\<forall>s < k * 8 + i' + 1 - bit_len. \<not> all_clear bs s bit_len)
    | Inr now' \<Rightarrow> scan_inv bs bit_len (k * 8 + 8) now')"
proof (induction "bs ! k" bit_len now i rule: scan_byte.induct)
  case (1 bit_len now i)
  show ?case
  proof (cases "i < 8")
    case True
    have cl: "clear bs (k * 8 + i) \<longleftrightarrow> bs ! k AND push_bit i 1 = 0"
      using True by (simp add: clear_byte bit_simps)
    show ?thesis
    proof (cases "clear bs (k * 8 + i)")
      case c: True
      show ?thesis
      proof (cases "now + 1 = bit_len")
        case True
        with c cl \<open>i < 8\<close> scan_inv_found [OF 1(3) c] show ?thesis
          by (simp add: scan_byte.simps [of "bs ! k" bit_len now i])
      next
        case False
        with c cl \<open>i < 8\<close> 1(1) scan_inv_clear [OF 1(3) c] show ?thesis
          by (simp add: scan_byte.simps [of "bs ! k" bit_len now i])
      qed
    next
      case False
      with cl \<open>i < 8\<close> 1(2) scan_inv_set [OF 1(3)] show ?thesis
        by (simp add: scan_byte.simps [of "bs ! k" bit_len now i])
    qed
  next
    case False
    with 1(3,4) show ?thesis by (simp add: scan_byte.simps)
  qed
qed

lemma scan_inv_full_byte:
  assumes "scan_inv bs bit_len (k * 8) now" and "bs ! k = 0xff"
  shows "scan_inv bs bit_len (k * 8 + 8) 0"
proof -
  have set: "\<not> clear bs (k * 8 + i)" if "i < 8" for i
    using assms(2) that by (simp add: clear_byte u8_eq_ff_iff)
  have "scan_inv bs bit_len (k * 8 + Suc n) 0" if "n < 8" for n
    using that
  proof (induction n)
    case 0
    then show ?case using scan_inv_set [OF assms(1)] set [of 0] by simp
  next
    case (Suc n)
    then show ?case using scan_inv_set [of bs bit_len "k * 8 + Suc n" 0] set [of "Suc n"] by simp
  qed
  from this [of 7] show ?thesis by simp
qed

lemma ret_bit_index:
  "bit_len \<le> n + 1 \<Longrightarrow> n < 2 ^ 31 \<Longrightarrow> 0 < bit_len \<Longrightarrow>
   sint (word_of_nat n - word_of_nat bit_len + 1 :: u32) = int (n + 1 - bit_len)"
proof -
  assume a: "bit_len \<le> n + 1" "n < 2 ^ 31" "0 < bit_len"
  then have "(word_of_nat n - word_of_nat bit_len + 1 :: u32) = word_of_nat (n + 1 - bit_len)"
    by (simp add: of_nat_diff)
  with a show ?thesis using to_int_small [of "n + 1 - bit_len"]
    by (simp only: to_int_def)
qed

lemma scan_bits_correct:
  assumes "scan_inv bs bit_len (idx * 8) now" and "idx \<le> length bs" and "8 * length bs < 2 ^ 31"
  shows "(\<exists>s. scan_bits bs (length bs) bit_len idx now = Some (int s) \<and> s + bit_len \<le> 8 * length bs \<and>
            all_clear bs s bit_len \<and> (\<forall>s' < s. \<not> all_clear bs s' bit_len)) \<or>
         scan_bits bs (length bs) bit_len idx now = Some (- 1) \<and>
         (\<forall>s. s + bit_len \<le> 8 * length bs \<longrightarrow> \<not> all_clear bs s bit_len)"
  using assms
proof (induction "length bs - idx" arbitrary: idx now)
  case 0
  then show ?case by (auto simp: scan_bits.simps scan_inv_def no_run_def mult.commute)
next
  case (Suc n)
  then have idx: "idx < length bs" and next_inv: "n = length bs - Suc idx" by auto
  note unfold = scan_bits.simps [of bs "length bs" bit_len idx now]
  show ?case
  proof (cases "bs ! idx = 0xff")
    case True
    with scan_inv_full_byte [OF Suc.prems(1)] Suc.hyps(1) [OF next_inv, of 0] idx Suc.prems(3)
    show ?thesis by (simp add: unfold add.commute)
  next
    case False
    show ?thesis
    proof (cases "scan_byte (bs ! idx) bit_len now 0")
      case (Inl i)
      with scan_byte_correct [of bs bit_len idx 0 now] Suc.prems(1)
      have i: "i < 8" "bit_len \<le> idx * 8 + i + 1" "all_clear bs (idx * 8 + i + 1 - bit_len) bit_len"
        "\<forall>s < idx * 8 + i + 1 - bit_len. \<not> all_clear bs s bit_len" by auto
      have "0 < bit_len" using Suc.prems(1) by (auto simp: scan_inv_def)
      then have "sint (word_of_nat (idx * 8 + i) - word_of_nat bit_len + 1 :: u32) =
          int (idx * 8 + i + 1 - bit_len)"
        using i idx Suc.prems(3) by (intro ret_bit_index) auto
      with False Inl idx have "scan_bits bs (length bs) bit_len idx now =
          Some (int (idx * 8 + i + 1 - bit_len))" by (simp only: unfold) simp
      moreover have "idx * 8 + i + 1 - bit_len + bit_len \<le> 8 * length bs" using i idx by auto
      ultimately show ?thesis using i by blast
    next
      case (Inr now')
      with scan_byte_correct [of bs bit_len idx 0 now] Suc.prems(1)
      have "scan_inv bs bit_len (Suc idx * 8) now'" by (simp add: add.commute)
      with Suc.hyps(1) [OF next_inv, of now'] idx Suc.prems(3) False Inr
      show ?thesis by (simp add: unfold)
    qed
  qed
qed


subsection \<open>The byte-wise scan\<close>

lemma zero_run_correct:
  assumes "len \<le> length bs"
  shows "\<exists>j'. zero_run bs len byte_len idx j = Some j' \<and> j \<le> j' \<and> (j' \<le> byte_len \<or> j' = j) \<and>
     (\<forall>k. j \<le> k \<and> k < j' \<longrightarrow> idx + k < len \<and> bs ! (idx + k) = 0) \<and>
     (j' < byte_len \<longrightarrow> len \<le> idx + j' \<or> bs ! (idx + j') \<noteq> 0)"
proof (induction "byte_len - j" arbitrary: j)
  case 0
  then show ?case by (auto simp: zero_run.simps)
next
  case (Suc n)
  then have j: "j < byte_len" and n: "n = byte_len - (j + 1)" by auto
  note unfold = zero_run.simps [of bs len byte_len idx j]
  show ?case
  proof (cases "idx + j < len \<and> bs ! (idx + j) = 0")
    case True
    from Suc.hyps(1) [OF n] obtain j' where "zero_run bs len byte_len idx (j + 1) = Some j'"
      and "j + 1 \<le> j'" and "j' \<le> byte_len \<or> j' = j + 1"
      and all: "\<forall>k. j + 1 \<le> k \<and> k < j' \<longrightarrow> idx + k < len \<and> bs ! (idx + k) = 0"
      and "j' < byte_len \<longrightarrow> len \<le> idx + j' \<or> bs ! (idx + j') \<noteq> 0" by blast
    moreover have "\<forall>k. j \<le> k \<and> k < j' \<longrightarrow> idx + k < len \<and> bs ! (idx + k) = 0"
      using all True by (metis Suc_eq_plus1 Suc_leI le_neq_implies_less)
    moreover have "zero_run bs len byte_len idx j = zero_run bs len byte_len idx (j + 1)"
      using True j assms by (simp add: unfold)
    ultimately show ?thesis using j by (intro exI [of _ j']) auto
  next
    case False
    with j assms show ?thesis by (auto simp: unfold)
  qed
qed

lemma high_zero_bits_spec:
  "high_zero_bits byte k acc - acc \<le> k \<and> acc \<le> high_zero_bits byte k acc \<and>
   (\<forall>i. k - (high_zero_bits byte k acc - acc) \<le> i \<and> i < k \<longrightarrow> \<not> bit byte i)"
proof (induction k arbitrary: acc)
  case (Suc k)
  show ?case
  proof (cases "bit byte k")
    case True
    then show ?thesis by (auto simp: bit_simps)
  next
    case False
    let ?h = "high_zero_bits byte k (acc + 1)"
    have h: "?h - (acc + 1) \<le> k" "acc + 1 \<le> ?h"
      "\<forall>i. k - (?h - (acc + 1)) \<le> i \<and> i < k \<longrightarrow> \<not> bit byte i"
      using Suc.IH [of "acc + 1"] by auto
    moreover have "\<not> bit byte i" if "Suc k - (?h - acc) \<le> i \<and> i < Suc k" for i
      using that h False by (cases "i = k") auto
    ultimately show ?thesis using False by (auto simp: bit_simps)
  qed
qed simp

definition run_at :: "u8 list \<Rightarrow> nat \<Rightarrow> int \<Rightarrow> bool" where
  "run_at bs cnt r \<longleftrightarrow> (\<exists>s. r = int s \<and> s + cnt \<le> 8 * length bs \<and> all_clear bs s cnt)"

lemma run_atI:
  "all_clear bs s cnt \<Longrightarrow> s + cnt \<le> 8 * length bs \<Longrightarrow> 8 * length bs < 2 ^ 31 \<Longrightarrow>
   run_at bs cnt (to_int s)"
  by (auto simp: run_at_def)

lemma scan_full_run_correct:
  assumes len: "8 * length bs < 2 ^ 31" and cnt: "cnt = byte_len * 8 + bit_len" and "bit_len < 8"
    and zero: "\<forall>k < byte_len. idx + k < length bs \<and> bs ! (idx + k) = 0"
    and idx: "idx < length bs" and "0 < byte_len"
  shows "\<exists>r. scan_full_run bs (length bs) byte_len bit_len idx = Some r \<and>
    (case r of Some v \<Rightarrow> run_at bs cnt v
     | None \<Rightarrow> 0 < bit_len \<and> \<not> (idx + byte_len < length bs \<and> bs ! (idx + byte_len) = 0))"
proof -
  have mid: "all_clear bs (idx * 8) (byte_len * 8)"
    using zero by (intro all_clear_zero_bytes) auto
  have last: "idx + byte_len \<le> length bs" using zero \<open>0 < byte_len\<close>
    by (metis Suc_leI add_Suc_right diff_Suc_less Suc_pred)
  let ?after = "idx + byte_len < length bs \<and> (\<forall>i < bit_len. \<not> bit (bs ! (idx + byte_len)) i)"
  let ?before = "0 < idx \<and> (\<forall>i. 8 - bit_len \<le> i \<and> i < 8 \<longrightarrow> \<not> bit (bs ! (idx - 1)) i)"
  have after: "run_at bs cnt (to_int (idx * 8))" if "bit_len = 0 \<or> ?after"
  proof (rule run_atI [OF _ _ len])
    have "all_clear bs (idx * 8 + byte_len * 8) bit_len"
    proof (cases "bit_len = 0")
      case False
      with that have "all_clear bs ((idx + byte_len) * 8) bit_len"
        using \<open>bit_len < 8\<close> by (intro all_clear_low_bits) auto
      then show ?thesis by (simp add: algebra_simps)
    qed simp
    with mid show "all_clear bs (idx * 8) cnt" by (simp add: cnt all_clear_append)
    show "idx * 8 + cnt \<le> 8 * length bs" using that last \<open>bit_len < 8\<close> by (auto simp: cnt)
  qed
  have before: "run_at bs cnt (to_int ((idx - 1) * 8 + (8 - bit_len)))" if ?before
  proof (rule run_atI [OF _ _ len])
    have eq: "(idx - 1) * 8 + (8 - bit_len) + bit_len = idx * 8"
      using that \<open>bit_len < 8\<close> by (auto simp: algebra_simps)
    have "all_clear bs ((idx - 1) * 8 + (8 - bit_len)) bit_len"
      using that \<open>bit_len < 8\<close> by (intro all_clear_high_bits) auto
    moreover have "all_clear bs ((idx - 1) * 8 + (8 - bit_len) + bit_len) (byte_len * 8)"
      unfolding eq by (rule mid)
    ultimately have "all_clear bs ((idx - 1) * 8 + (8 - bit_len)) (bit_len + byte_len * 8)"
      by (rule all_clear_append)
    then show "all_clear bs ((idx - 1) * 8 + (8 - bit_len)) cnt" by (simp add: cnt add.commute)
    show "(idx - 1) * 8 + (8 - bit_len) + cnt \<le> 8 * length bs" using last eq by (simp add: cnt)
  qed
  have not_zero: "bs ! (idx + byte_len) \<noteq> 0" if "idx + byte_len < length bs" "\<not> ?after"
    using that \<open>bit_len < 8\<close> by (metis bit_0_eq bot_apply bot_bool_def)
  show ?thesis
    using after before not_zero idx \<open>bit_len < 8\<close>
    by (auto simp: scan_full_run_def Let_def and_low_mask_eq_0 and_high_mask_eq_0
        simp del: push_bit_of_1)
qed


lemma scan_short_run_correct:
  assumes len: "8 * length bs < 2 ^ 31" and cnt: "cnt = byte_len * 8 + bit_len"
    and zero: "\<forall>k < byte_len - 1. idx + k < length bs \<and> bs ! (idx + k) = 0"
    and stop: "length bs \<le> idx + (byte_len - 1) \<or> bs ! (idx + (byte_len - 1)) \<noteq> 0"
    and idx: "idx < length bs" and pos: "0 < byte_len"
  shows "\<exists>r. scan_short_run bs (length bs) cnt byte_len idx = Some r \<and>
    (case r of Some v \<Rightarrow> run_at bs cnt v | None \<Rightarrow> True)"
proof -
  let ?j = "byte_len - 1"
  let ?need = "cnt - ?j * 8"
  let ?pz = "high_zero_bits (bs ! (idx - 1)) 8 0"
  have need: "?need = 8 + bit_len" "?j * 8 + ?need = cnt" using pos cnt by auto
  have last: "idx + ?j \<le> length bs" using zero idx
    by (cases "?j") auto
  have mid: "all_clear bs (idx * 8) (?j * 8)"
    using zero by (intro all_clear_zero_bytes) auto
  have pz: "?pz \<le> 8" "\<forall>i. 8 - ?pz \<le> i \<and> i < 8 \<longrightarrow> \<not> bit (bs ! (idx - 1)) i"
    using high_zero_bits_spec [of "bs ! (idx - 1)" 8 0] by auto
  have short: "n < 8" if "idx + ?j < length bs" "\<forall>i < n. \<not> bit (bs ! (idx + ?j)) i" for n
    using that stop by (meson linorder_not_le order_less_le_trans u8_eq_0_iff)
  have run: "run_at bs cnt (to_int ((idx - 1) * 8 + (8 - p)))"
    if "0 < idx" "p \<le> ?pz" "p + ?j * 8 + n = cnt"
      "n = 0 \<or> idx + ?j < length bs \<and> (\<forall>i < n. \<not> bit (bs ! (idx + ?j)) i)" for p n
  proof (rule run_atI [OF _ _ len])
    have p8: "p \<le> 8" using that(2) pz(1) by simp
    have eq: "(idx - 1) * 8 + (8 - p) + p = idx * 8" using that(1) p8 by (auto simp: algebra_simps)
    have n8: "n \<le> 8" using that(4) short [of n] by auto
    have "all_clear bs ((idx - 1) * 8 + (8 - p)) p"
      using pz(2) that(2) p8 by (intro all_clear_high_bits) auto
    moreover have "all_clear bs ((idx - 1) * 8 + (8 - p) + p) (?j * 8)" unfolding eq by (rule mid)
    ultimately have left: "all_clear bs ((idx - 1) * 8 + (8 - p)) (p + ?j * 8)"
      by (rule all_clear_append)
    have "all_clear bs ((idx + ?j) * 8) n"
    proof (cases "n = 0")
      case False
      with that(4) n8 show ?thesis by (intro all_clear_low_bits) auto
    qed simp
    moreover have eq2: "(idx - 1) * 8 + (8 - p) + (p + ?j * 8) = (idx + ?j) * 8"
      using eq by (simp add: algebra_simps)
    ultimately have "all_clear bs ((idx - 1) * 8 + (8 - p) + (p + ?j * 8)) n" by (simp only: eq2)
    with left have "all_clear bs ((idx - 1) * 8 + (8 - p)) (p + ?j * 8 + n)"
      by (rule all_clear_append)
    then show "all_clear bs ((idx - 1) * 8 + (8 - p)) cnt" by (simp only: that(3))
    have "(idx + ?j) * 8 + n \<le> 8 * length bs" using that(4) n8 last by auto
    moreover have "(idx - 1) * 8 + (8 - p) + cnt = (idx - 1) * 8 + (8 - p) + (p + ?j * 8) + n"
      by (simp only: that(3) [symmetric] add.assoc)
    ultimately show "(idx - 1) * 8 + (8 - p) + cnt \<le> 8 * length bs" by (simp only: eq2)
  qed
  show ?thesis
  proof (cases "0 < idx")
    case True
    have A: "run_at bs cnt (to_int ((idx - 1) * 8 + (8 - ?need)))" if "?need \<le> ?pz"
      using run [of ?need 0] True that need by simp
    have B: "run_at bs cnt (to_int ((idx - 1) * 8 + (8 - ?pz)))"
      if "\<not> ?need \<le> ?pz" "idx + ?j < length bs" "\<forall>i < ?need - ?pz. \<not> bit (bs ! (idx + ?j)) i"
      using run [of ?pz "?need - ?pz"] True that need by simp
    show ?thesis using True idx A B
      by (auto simp: scan_short_run_def Let_def and_low_mask_eq_0 simp del: push_bit_of_1)
  next
    case False
    have "\<not> (\<forall>i < ?need. \<not> bit (bs ! (idx + ?j)) i)" if "idx + ?j < length bs"
      using short [of ?need] that need by auto
    with False show ?thesis
      by (auto simp: scan_short_run_def Let_def and_low_mask_eq_0 simp del: push_bit_of_1)
  qed
qed

text \<open>Zero bytes enough for \<open>cnt\<close> bits, starting at byte \<open>k\<close>.\<close>

definition zero_bytes :: "u8 list \<Rightarrow> nat \<Rightarrow> nat \<Rightarrow> bool" where
  "zero_bytes bs k n \<longleftrightarrow> k + n \<le> length bs \<and> (\<forall>i < n. bs ! (k + i) = 0)"

lemma zero_bytes_blocked:
  assumes "length bs \<le> idx + j \<or> bs ! (idx + j) \<noteq> 0" and "j < n"
  shows "\<forall>k. idx \<le> k \<and> k < idx + (j + 1) \<longrightarrow> \<not> zero_bytes bs k n"
proof (intro allI impI notI)
  fix k assume k: "idx \<le> k \<and> k < idx + (j + 1)" and z: "zero_bytes bs k n"
  then have "idx + j < length bs" using \<open>j < n\<close> by (auto simp: zero_bytes_def)
  moreover have "idx + j - k < n" using k \<open>j < n\<close> by linarith
  with z have "bs ! (k + (idx + j - k)) = 0" unfolding zero_bytes_def by blast
  ultimately show False using assms(1) k by auto
qed

lemma scan_bytes_correct:
  assumes len: "8 * length bs < 2 ^ 31" and cnt: "cnt = byte_len * 8 + bit_len" and "bit_len < 8"
    and pos: "0 < byte_len"
  shows "\<exists>r. scan_bytes bs (length bs) cnt byte_len bit_len idx = Some r \<and>
    (run_at bs cnt r \<or> r = - 1 \<and>
       (\<forall>k \<ge> idx. \<not> zero_bytes bs k (byte_len + (if bit_len = 0 then 0 else 1))))"
proof (induction "length bs - idx" arbitrary: idx rule: less_induct)
  case less
  let ?n = "byte_len + (if bit_len = 0 then 0 else 1)"
  let ?goal = "\<lambda>i. \<exists>r. scan_bytes bs (length bs) cnt byte_len bit_len i = Some r \<and>
    (run_at bs cnt r \<or> r = - 1 \<and> (\<forall>k \<ge> i. \<not> zero_bytes bs k ?n))"
  note unfold = scan_bytes.simps [of bs "length bs" cnt byte_len bit_len idx]
  have skip: "?goal idx"
    if "scan_bytes bs (length bs) cnt byte_len bit_len idx = scan_bytes bs (length bs) cnt byte_len bit_len i"
      "idx < i" "idx < length bs" "\<forall>k. idx \<le> k \<and> k < i \<longrightarrow> \<not> zero_bytes bs k ?n" for i
  proof -
    have "?goal i" using less(1) [of i] that(2,3) by simp
    with that show ?thesis by (metis linorder_not_le)
  qed
  show ?case
  proof (cases "idx < length bs")
    case False
    then show ?thesis using pos by (auto simp: unfold zero_bytes_def)
  next
    case True
    show ?thesis
    proof (cases "bs ! idx = 0")
      case False
      show ?thesis
      proof (rule skip [of "idx + 1"])
        have "\<not> zero_bytes bs idx ?n" using False pos by (auto simp: zero_bytes_def dest: spec [where x = 0])
        then show "\<forall>k. idx \<le> k \<and> k < idx + 1 \<longrightarrow> \<not> zero_bytes bs k ?n" by (metis Suc_eq_plus1 le_less_Suc_eq)
      qed (use True False in \<open>simp_all add: unfold\<close>)
    next
      case zero: True
      obtain j where j: "zero_run bs (length bs) byte_len idx 0 = Some j" "j \<le> byte_len"
        and zs: "\<forall>k < j. idx + k < length bs \<and> bs ! (idx + k) = 0"
        and stop: "j < byte_len \<longrightarrow> length bs \<le> idx + j \<or> bs ! (idx + j) \<noteq> 0"
        using zero_run_correct [of "length bs" bs byte_len idx 0] by auto
      note blocked = zero_bytes_blocked [of bs idx j ?n]
      show ?thesis
      proof (cases "j = byte_len")
        case full: True
        with zs have "\<forall>k < byte_len. idx + k < length bs \<and> bs ! (idx + k) = 0" by simp
        from scan_full_run_correct [OF len cnt \<open>bit_len < 8\<close> this True pos]
        obtain r where r: "scan_full_run bs (length bs) byte_len bit_len idx = Some r"
          and res: "case r of Some v \<Rightarrow> run_at bs cnt v
            | None \<Rightarrow> 0 < bit_len \<and> \<not> (idx + byte_len < length bs \<and> bs ! (idx + byte_len) = 0)"
          by blast
        show ?thesis
        proof (cases r)
          case None
          with res full have "length bs \<le> idx + j \<or> bs ! (idx + j) \<noteq> 0" and "j < ?n" by auto
          from blocked [OF this] show ?thesis
            by (intro skip [of "idx + (byte_len + 1)"])
              (use True zero j r full None in \<open>simp_all add: unfold\<close>)
        next
          case (Some v)
          with res True zero j r full show ?thesis by (simp add: unfold)
        qed
      next
        case False
        with j(2) have lt: "j < byte_len" by simp
        then have "j < ?n" by simp
        with blocked stop lt have bl: "\<forall>k. idx \<le> k \<and> k < idx + (j + 1) \<longrightarrow> \<not> zero_bytes bs k ?n"
          by blast
        show ?thesis
        proof (cases "j = byte_len - 1")
          case short: True
          from scan_short_run_correct [OF len cnt _ _ True pos] zs stop lt short
          obtain r where r: "scan_short_run bs (length bs) cnt byte_len idx = Some r"
            and res: "case r of Some v \<Rightarrow> run_at bs cnt v | None \<Rightarrow> True" by auto
          show ?thesis
          proof (cases r)
            case None
            from bl show ?thesis
              by (intro skip [of "idx + (j + 1)"])
                (use True zero j r short pos lt None in \<open>simp_all add: unfold\<close>)
          next
            case (Some v)
            with res True zero j r short pos lt show ?thesis by (simp add: unfold)
          qed
        next
          case neither: False
          from bl show ?thesis
            by (intro skip [of "idx + (j + 1)"])
              (use True zero j neither lt in \<open>simp_all add: unfold\<close>)
        qed
      qed
    qed
  qed
qed


subsection \<open>The whole scan\<close>

lemma bitmap_scan_small:
  assumes "wf_bitmap btmp" and "0 < cnt" and "cnt < 8"
  shows "(\<exists>s. bitmap_scan btmp cnt = Some (int s) \<and> s + unat cnt \<le> 8 * length (bits btmp) \<and>
            all_clear (bits btmp) s (unat cnt) \<and> (\<forall>s' < s. \<not> all_clear (bits btmp) s' (unat cnt))) \<or>
         bitmap_scan btmp cnt = Some (- 1) \<and>
         (\<forall>s. s + unat cnt \<le> 8 * length (bits btmp) \<longrightarrow> \<not> all_clear (bits btmp) s (unat cnt))"
proof -
  have cnt: "unat cnt < 8" "0 < unat cnt" using assms(2,3) by (auto simp: word_less_nat_alt)
  then have "unat (cnt div 8) = 0" and "unat (cnt mod 8) = unat cnt"
    by (simp_all add: unat_div unat_mod)
  then have "bitmap_scan btmp cnt = scan_bits (bits btmp) (length (bits btmp)) (unat cnt) 0 0"
    using assms(1,2) by (simp add: bitmap_scan_def wf_bitmap_def)
  moreover have "scan_inv (bits btmp) (unat cnt) (0 * 8) 0"
    using cnt by (auto simp: scan_inv_def no_run_def)
  ultimately show ?thesis
    using scan_bits_correct [of "bits btmp" "unat cnt" 0 0] assms(1) by (simp add: wf_bitmap_def)
qed

lemma bitmap_scan_large:
  assumes "wf_bitmap btmp" and "8 \<le> cnt"
  shows "\<exists>r. bitmap_scan btmp cnt = Some r \<and> (run_at (bits btmp) (unat cnt) r \<or> r = - 1 \<and>
     (\<forall>k. \<not> zero_bytes (bits btmp) k ((unat cnt + 7) div 8)))"
proof -
  let ?q = "unat cnt div 8" and ?m = "unat cnt mod 8"
  have cnt: "8 \<le> unat cnt" using assms(2) by (simp add: word_le_nat_alt)
  then have q: "0 < ?q" by (simp add: div_greater_zero_iff)
  have up: "(unat cnt + 7) div 8 = ?q + (if ?m = 0 then 0 else 1)" by presburger
  have "0 < cnt" using assms(2) by (auto simp: word_less_nat_alt word_le_nat_alt)
  then have "bitmap_scan btmp cnt = scan_bytes (bits btmp) (length (bits btmp)) (unat cnt) ?q ?m 0"
    using assms(1) q by (simp add: bitmap_scan_def wf_bitmap_def unat_div unat_mod)
  moreover have "8 * length (bits btmp) < 2 ^ 31" using assms(1) by (simp add: wf_bitmap_def)
  ultimately show ?thesis
    using scan_bytes_correct [of "bits btmp" "unat cnt" ?q ?m 0] q unfolding up by auto
qed

lemma bitmap_scan_run:
  assumes "wf_bitmap btmp" and "0 < cnt"
  shows "\<exists>r. bitmap_scan btmp cnt = Some r \<and> (r = - 1 \<or> 0 \<le> r \<and>
    nat r + unat cnt \<le> 8 * length (bits btmp) \<and>
    (\<forall>i < unat cnt. nat r + i \<notin> bitmap_used btmp))"
proof -
  have "\<exists>r. bitmap_scan btmp cnt = Some r \<and> (r = - 1 \<or> run_at (bits btmp) (unat cnt) r)"
  proof (cases "cnt < 8")
    case True
    with bitmap_scan_small [OF assms] show ?thesis by (auto simp: run_at_def)
  next
    case False
    with bitmap_scan_large [OF assms(1), of cnt] show ?thesis by (auto simp: linorder_not_less)
  qed
  then show ?thesis by (auto simp: run_at_def all_clear_def bitmap_used_def)
qed

lemma bitmap_set_used:
  assumes "wf_bitmap btmp" and "unat i < 8 * length (bits btmp)" and "v = 0 \<or> v = 1"
  shows "\<exists>btmp'. bitmap_set btmp i v = Some btmp' \<and> wf_bitmap btmp' \<and> length (bits btmp') = length (bits btmp) \<and>
    bitmap_scan_test btmp' i = Some (v \<noteq> 0) \<and>
    bitmap_used btmp' = (if v = 0 then bitmap_used btmp - {unat i} else insert (unat i) (bitmap_used btmp))"
proof -
  have idx: "unat i div 8 < length (bits btmp)" using assms(2) by (simp add: less_mult_imp_div_less mult.commute)
  from bitmap_set_Some [OF this assms(3)] obtain btmp' where b: "bitmap_set btmp i v = Some btmp'"
    "btmp_bytes_len btmp' = btmp_bytes_len btmp" "length (bits btmp') = length (bits btmp)"
    and cl: "\<forall>k < 8 * length (bits btmp). clear (bits btmp') k = (if k = unat i then v = 0 else clear (bits btmp) k)"
    by blast
  have "bitmap_scan_test btmp' i = Some (\<not> clear (bits btmp') (unat i))"
    using idx b(3) by (simp add: bitmap_scan_test_def Let_def unat_div unat_mod clear_def bit_simps)
  moreover have "bitmap_used btmp' =
      (if v = 0 then bitmap_used btmp - {unat i} else insert (unat i) (bitmap_used btmp))"
    using cl b(3) assms(2) by (auto simp: bitmap_used_def split: if_splits)
  ultimately show ?thesis using b assms(1,2) cl by (auto simp: wf_bitmap_def)
qed

text \<open>
  C30: \<^verbatim>\<open>bitmap_scan\<close> always returns, and an index it returns (anything but \<open>-1\<close>) starts a run
  of \<open>cnt\<close> clear bits that lies inside the bitmap. Every allocator of the kernel rests on this.
\<close>

theorem bitmap_scan_sound:
  assumes "wf_bitmap btmp" and "0 < cnt"
  shows "\<exists>r. bitmap_scan btmp cnt = Some r \<and> (r = - 1 \<or> 0 \<le> r \<and>
    nat r + unat cnt \<le> 8 * length (bits btmp) \<and>
    (\<forall>i < unat cnt. nat r + i \<notin> bitmap_used btmp))"
  by (rule bitmap_scan_run [OF assms])

theorem bitmap_scan_sound_witness:
  "\<exists>r. bitmap_scan \<lparr>btmp_bytes_len = 3, bits = [0xff, 0x0f, 0]\<rparr> 10 = Some r \<and> (r = - 1 \<or> 0 \<le> r \<and>
    nat r + unat (10 :: u32) \<le> 8 * length (bits \<lparr>btmp_bytes_len = 3, bits = [0xff, 0x0f, 0]\<rparr>) \<and>
    (\<forall>i < unat (10 :: u32). nat r + i \<notin> bitmap_used \<lparr>btmp_bytes_len = 3, bits = [0xff, 0x0f, 0]\<rparr>))"
  by (rule bitmap_scan_sound) (simp_all add: wf_bitmap_def)

text \<open>
  C31: for fewer than 8 bits \<^verbatim>\<open>bitmap_scan\<close> is first-fit and complete: it returns the lowest
  run of clear bits there is, and \<open>-1\<close> only when there is none. (The page, block and inode
  allocators ask for one bit.)
\<close>

theorem bitmap_scan_first_fit:
  assumes "wf_bitmap btmp" and "0 < cnt" and "cnt < 8"
  shows "bitmap_scan btmp cnt =
    Some (if \<exists>s. s + unat cnt \<le> 8 * length (bits btmp) \<and> all_clear (bits btmp) s (unat cnt)
          then int (LEAST s. s + unat cnt \<le> 8 * length (bits btmp) \<and> all_clear (bits btmp) s (unat cnt))
          else - 1)"
  using bitmap_scan_small [OF assms]
proof (elim disjE exE conjE)
  fix s assume s: "bitmap_scan btmp cnt = Some (int s)" "s + unat cnt \<le> 8 * length (bits btmp)"
    "all_clear (bits btmp) s (unat cnt)" "\<forall>s' < s. \<not> all_clear (bits btmp) s' (unat cnt)"
  then have "(LEAST s. s + unat cnt \<le> 8 * length (bits btmp) \<and> all_clear (bits btmp) s (unat cnt)) = s"
    by (intro Least_equality) (auto simp: linorder_not_less [symmetric])
  with s show ?thesis by auto
qed auto

theorem bitmap_scan_first_fit_witness:
  "bitmap_scan \<lparr>btmp_bytes_len = 1, bits = [0xf1]\<rparr> 1 =
    Some (if \<exists>s. s + unat (1 :: u32) \<le> 8 * length (bits \<lparr>btmp_bytes_len = 1, bits = [0xf1]\<rparr>) \<and>
            all_clear (bits \<lparr>btmp_bytes_len = 1, bits = [0xf1]\<rparr>) s (unat (1 :: u32))
          then int (LEAST s. s + unat (1 :: u32) \<le> 8 * length (bits \<lparr>btmp_bytes_len = 1, bits = [0xf1]\<rparr>) \<and>
            all_clear (bits \<lparr>btmp_bytes_len = 1, bits = [0xf1]\<rparr>) s (unat (1 :: u32)))
          else - 1)"
  by (rule bitmap_scan_first_fit) (simp_all add: wf_bitmap_def)

text \<open>
  for 8 bits or more \<^verbatim>\<open>bitmap_scan\<close> succeeds whenever \<open>cnt / 8\<close> (rounded up) consecutive
  bytes of the map are zero.
\<close>

theorem bitmap_scan_finds_zero_bytes:
  assumes "wf_bitmap btmp" and "8 \<le> cnt" and "zero_bytes (bits btmp) k ((unat cnt + 7) div 8)"
  shows "\<exists>s. bitmap_scan btmp cnt = Some (int s) \<and> s + unat cnt \<le> 8 * length (bits btmp) \<and>
    all_clear (bits btmp) s (unat cnt)"
  using bitmap_scan_large [OF assms(1,2)] assms(3) by (auto simp: run_at_def)

theorem bitmap_scan_finds_zero_bytes_witness:
  "\<exists>s. bitmap_scan \<lparr>btmp_bytes_len = 4, bits = [0, 1, 0, 0]\<rparr> 12 = Some (int s) \<and>
    s + unat (12 :: u32) \<le> 8 * length (bits \<lparr>btmp_bytes_len = 4, bits = [0, 1, 0, 0]\<rparr>) \<and>
    all_clear (bits \<lparr>btmp_bytes_len = 4, bits = [0, 1, 0, 0]\<rparr>) s (unat (12 :: u32))"
  by (rule bitmap_scan_finds_zero_bytes [where k = 2])
    (auto simp: wf_bitmap_def zero_bytes_def dest!: less_2_cases)

text \<open>
  for 8 bits or more the scan is not complete: in \<open>0f f0\<close> (bits 4 to 11 clear) it does
  not find the 8 clear bits, because no whole byte is zero, and in \<open>3f 00 fc\<close> (12 clear bits)
  it does not find 12 bits, because it tries to extend the zero byte on one side only.
\<close>

theorem bitmap_scan_misses_runs:
  "bitmap_scan \<lparr>btmp_bytes_len = 2, bits = [0x0f, 0xf0]\<rparr> 8 = Some (- 1) \<and>
   all_clear [0x0f, 0xf0] 4 8 \<and>
   bitmap_scan \<lparr>btmp_bytes_len = 3, bits = [0x3f, 0, 0xfc]\<rparr> 12 = Some (- 1) \<and>
   all_clear [0x3f, 0, 0xfc] 6 12"
proof (intro conjI)
  show "bitmap_scan \<lparr>btmp_bytes_len = 2, bits = [0x0f, 0xf0]\<rparr> 8 = Some (- 1)"
    by (simp add: bitmap_scan_def scan_bytes.simps)
  show "bitmap_scan \<lparr>btmp_bytes_len = 3, bits = [0x3f, 0, 0xfc]\<rparr> 12 = Some (- 1)"
    by (simp add: bitmap_scan_def scan_bytes.simps zero_run.simps scan_full_run_def)
  have "\<forall>i \<in> {4..<12}. clear [0x0f, 0xf0] i" by code_simp
  then show "all_clear [0x0f, 0xf0] 4 8" by (auto simp: all_clear_def)
  have "\<forall>i \<in> {6..<18}. clear [0x3f, 0, 0xfc] i" by code_simp
  then show "all_clear [0x3f, 0, 0xfc] 6 12" by (auto simp: all_clear_def)
qed

text \<open>
  \<^verbatim>\<open>bitmap_set\<close> followed by \<^verbatim>\<open>bitmap_scan_test\<close>: the bit just written reads back, every
  other bit of the map is unchanged, and the map stays well-formed.
\<close>

theorem bitmap_set_test:
  assumes "wf_bitmap btmp" and "unat i < 8 * length (bits btmp)" and "v = 0 \<or> v = 1"
  shows "\<exists>btmp'. bitmap_set btmp i v = Some btmp' \<and> wf_bitmap btmp' \<and>
    bitmap_scan_test btmp' i = Some (v \<noteq> 0) \<and>
    bitmap_used btmp' = (if v = 0 then bitmap_used btmp - {unat i} else insert (unat i) (bitmap_used btmp))"
  using bitmap_set_used [OF assms] by blast

theorem bitmap_set_test_witness:
  "\<exists>btmp'. bitmap_set \<lparr>btmp_bytes_len = 2, bits = [0, 0]\<rparr> 9 1 = Some btmp' \<and> wf_bitmap btmp' \<and>
    bitmap_scan_test btmp' 9 = Some ((1 :: u8) \<noteq> 0) \<and>
    bitmap_used btmp' = (if (1 :: u8) = 0 then bitmap_used \<lparr>btmp_bytes_len = 2, bits = [0, 0]\<rparr> - {unat (9 :: u32)}
      else insert (unat (9 :: u32)) (bitmap_used \<lparr>btmp_bytes_len = 2, bits = [0, 0]\<rparr>))"
  by (rule bitmap_set_test) (simp_all add: wf_bitmap_def)

end
