(* ===== verification/Rbtree.thy ===== *)
theory Rbtree
  imports Prelude
begin

text \<open>
  \<^verbatim>\<open>lib/kernel/rbtree.c\<close> and \<^verbatim>\<open>rbtree.h\<close>: the intrusive red-black tree of the scheduler, at
  the level of its pointers. The store maps the address of a \<^verbatim>\<open>struct rb_node\<close> to its four
  fields; \<open>None\<close> is \<^verbatim>\<open>NULL\<close>, and a read or write through \<^verbatim>\<open>NULL\<close> makes the whole operation
  fail. Loops that follow pointers are partial functions, since on a cyclic store they do
  not return.

  This theory holds the translated code; \<open>Rbtree_Shape\<close> relates a store to the tree in
  it, \<open>Rbtree_Insert\<close> and \<open>Rbtree_Erase\<close> prove the operations.
\<close>

datatype rb_colour = RB_RED | RB_BLACK

type_synonym ptr = "nat option"

record rb_node =
  rb_parent :: ptr
  rb_left :: ptr
  rb_right :: ptr
  rb_color :: rb_colour

record rb_state =
  nodes :: "nat \<Rightarrow> rb_node option"
  root :: ptr

text \<open>Reading a field through a pointer, and writing one.\<close>

definition ld :: "(rb_node \<Rightarrow> 'a) \<Rightarrow> ptr \<Rightarrow> rb_state \<Rightarrow> 'a option" where
  "ld f p s = (case p of None \<Rightarrow> None | Some a \<Rightarrow> map_option f (nodes s a))"

definition st :: "(rb_node \<Rightarrow> rb_node) \<Rightarrow> ptr \<Rightarrow> rb_state \<Rightarrow> rb_state option" where
  "st g p s = (case p of None \<Rightarrow> None | Some a \<Rightarrow>
     (case nodes s a of None \<Rightarrow> None | Some n \<Rightarrow> Some (s\<lparr>nodes := (nodes s)(a \<mapsto> g n)\<rparr>)))"

subsection \<open>Colour and parent accessors\<close>

definition get_color :: "ptr \<Rightarrow> rb_state \<Rightarrow> rb_colour option" where
  "get_color node s = (if node \<noteq> None then ld rb_color node s else Some RB_BLACK)"

definition rb_set_color :: "ptr \<Rightarrow> rb_colour \<Rightarrow> rb_state \<Rightarrow> rb_state option" where
  "rb_set_color node c s = (if node \<noteq> None then st (\<lambda>n. n\<lparr>rb_color := c\<rparr>) node s else Some s)"

definition get_parent :: "ptr \<Rightarrow> rb_state \<Rightarrow> ptr option" where
  "get_parent node s = (if node \<noteq> None then ld rb_parent node s else Some None)"

definition rb_set_parent :: "ptr \<Rightarrow> ptr \<Rightarrow> rb_state \<Rightarrow> rb_state option" where
  "rb_set_parent node parent s =
     (if node \<noteq> None then st (\<lambda>n. n\<lparr>rb_parent := parent\<rparr>) node s else Some s)"

text \<open>"Update the child pointer of the parent", as the rotations write it.\<close>

definition replace_child :: "ptr \<Rightarrow> ptr \<Rightarrow> ptr \<Rightarrow> rb_state \<Rightarrow> rb_state option" where
  "replace_child parent x y s =
     (if parent = None then Some (s\<lparr>root := y\<rparr>)
      else do {
        l \<leftarrow> ld rb_left parent s;
        if x = l then st (\<lambda>n. n\<lparr>rb_left := y\<rparr>) parent s
        else st (\<lambda>n. n\<lparr>rb_right := y\<rparr>) parent s
      })"

subsection \<open>Rotations\<close>

definition rb_rotate_left :: "ptr \<Rightarrow> rb_state \<Rightarrow> rb_state option" where
  "rb_rotate_left x s = do {
     y \<leftarrow> ld rb_right x s;
     parent \<leftarrow> get_parent x s;
     yl \<leftarrow> ld rb_left y s;
     s \<leftarrow> st (\<lambda>n. n\<lparr>rb_right := yl\<rparr>) x s;
     s \<leftarrow> (if yl \<noteq> None then rb_set_parent yl x s else Some s);
     s \<leftarrow> rb_set_parent y parent s;
     s \<leftarrow> replace_child parent x y s;
     s \<leftarrow> st (\<lambda>n. n\<lparr>rb_left := x\<rparr>) y s;
     rb_set_parent x y s
   }"

definition rb_rotate_right :: "ptr \<Rightarrow> rb_state \<Rightarrow> rb_state option" where
  "rb_rotate_right y s = do {
     x \<leftarrow> ld rb_left y s;
     parent \<leftarrow> get_parent y s;
     xr \<leftarrow> ld rb_right x s;
     s \<leftarrow> st (\<lambda>n. n\<lparr>rb_left := xr\<rparr>) y s;
     s \<leftarrow> (if xr \<noteq> None then rb_set_parent xr y s else Some s);
     s \<leftarrow> rb_set_parent x parent s;
     s \<leftarrow> replace_child parent y x s;
     s \<leftarrow> st (\<lambda>n. n\<lparr>rb_right := y\<rparr>) x s;
     rb_set_parent y x s
   }"

subsection \<open>Insertion\<close>

text \<open>A \<^verbatim>\<open>struct rb_node**\<close>: the address of the root pointer or of a child field.\<close>

datatype rb_link = Root_Link | Left_Link nat | Right_Link nat

fun link_get :: "rb_link \<Rightarrow> rb_state \<Rightarrow> ptr option" where
  "link_get Root_Link s = Some (root s)"
| "link_get (Left_Link a) s = ld rb_left (Some a) s"
| "link_get (Right_Link a) s = ld rb_right (Some a) s"

fun link_set :: "rb_link \<Rightarrow> ptr \<Rightarrow> rb_state \<Rightarrow> rb_state option" where
  "link_set Root_Link p s = Some (s\<lparr>root := p\<rparr>)"
| "link_set (Left_Link a) p s = st (\<lambda>n. n\<lparr>rb_left := p\<rparr>) (Some a) s"
| "link_set (Right_Link a) p s = st (\<lambda>n. n\<lparr>rb_right := p\<rparr>) (Some a) s"

definition rb_link_node :: "ptr \<Rightarrow> ptr \<Rightarrow> rb_link \<Rightarrow> rb_state \<Rightarrow> rb_state option" where
  "rb_link_node node parent rb_link s = do {
     s \<leftarrow> st (\<lambda>n. n\<lparr>rb_parent := parent\<rparr>) node s;
     s \<leftarrow> st (\<lambda>n. n\<lparr>rb_color := RB_RED\<rparr>) node s;
     s \<leftarrow> st (\<lambda>n. n\<lparr>rb_right := None\<rparr>) node s;
     s \<leftarrow> st (\<lambda>n. n\<lparr>rb_left := None\<rparr>) node s;
     link_set rb_link node s
   }"

text \<open>
  One iteration of the \<^verbatim>\<open>while\<close> of \<^verbatim>\<open>rb_insert_color\<close>: \<open>None\<close> when the loop condition fails,
  otherwise the node the next iteration looks at. The two halves are the source's
  "parent is a left child" branch and its mirror image.
\<close>

definition insert_fix_left :: "ptr \<Rightarrow> ptr \<Rightarrow> ptr \<Rightarrow> rb_state \<Rightarrow> (ptr \<times> rb_state) option" where
  "insert_fix_left node parent gparent s = do {
     uncle \<leftarrow> ld rb_right gparent s;
     uc \<leftarrow> get_color uncle s;
     if uncle \<noteq> None \<and> uc = RB_RED
     then do {
       s \<leftarrow> rb_set_color parent RB_BLACK s;
       s \<leftarrow> rb_set_color uncle RB_BLACK s;
       s \<leftarrow> rb_set_color gparent RB_RED s;
       Some (gparent, s)
     }
     else do {
       pr \<leftarrow> ld rb_right parent s;
       (node, parent, s) \<leftarrow>
         (if node = pr then do { s \<leftarrow> rb_rotate_left parent s; Some (parent, node, s) }
          else Some (node, parent, s));
       s \<leftarrow> rb_set_color parent RB_BLACK s;
       s \<leftarrow> rb_set_color gparent RB_RED s;
       s \<leftarrow> rb_rotate_right gparent s;
       Some (node, s)
     }
   }"

definition insert_fix_right :: "ptr \<Rightarrow> ptr \<Rightarrow> ptr \<Rightarrow> rb_state \<Rightarrow> (ptr \<times> rb_state) option" where
  "insert_fix_right node parent gparent s = do {
     uncle \<leftarrow> ld rb_left gparent s;
     uc \<leftarrow> get_color uncle s;
     if uncle \<noteq> None \<and> uc = RB_RED
     then do {
       s \<leftarrow> rb_set_color parent RB_BLACK s;
       s \<leftarrow> rb_set_color uncle RB_BLACK s;
       s \<leftarrow> rb_set_color gparent RB_RED s;
       Some (gparent, s)
     }
     else do {
       pl \<leftarrow> ld rb_left parent s;
       (node, parent, s) \<leftarrow>
         (if node = pl then do { s \<leftarrow> rb_rotate_right parent s; Some (parent, node, s) }
          else Some (node, parent, s));
       s \<leftarrow> rb_set_color parent RB_BLACK s;
       s \<leftarrow> rb_set_color gparent RB_RED s;
       s \<leftarrow> rb_rotate_left gparent s;
       Some (node, s)
     }
   }"

definition insert_fix_step :: "ptr \<Rightarrow> rb_state \<Rightarrow> (ptr \<times> rb_state) option option" where
  "insert_fix_step node s = do {
     parent \<leftarrow> get_parent node s;
     pc \<leftarrow> get_color parent s;
     if parent \<noteq> None \<and> pc = RB_RED
     then do {
       gparent \<leftarrow> get_parent parent s;
       gl \<leftarrow> ld rb_left gparent s;
       r \<leftarrow> (if parent = gl then insert_fix_left node parent gparent s
             else insert_fix_right node parent gparent s);
       Some (Some r)
     }
     else Some None
   }"

partial_function (option) insert_fix_loop :: "ptr \<Rightarrow> rb_state \<Rightarrow> rb_state option" where
  "insert_fix_loop node s = do {
     r \<leftarrow> insert_fix_step node s;
     (case r of None \<Rightarrow> Some s | Some (node', s') \<Rightarrow> insert_fix_loop node' s')
   }"

definition rb_insert_color :: "ptr \<Rightarrow> rb_state \<Rightarrow> rb_state option" where
  "rb_insert_color node s = do {
     s \<leftarrow> insert_fix_loop node s;
     rb_set_color (root s) RB_BLACK s
   }"

subsection \<open>Removal\<close>

text \<open>
  One iteration of the \<^verbatim>\<open>while\<close> of \<^verbatim>\<open>rb_erase_color\<close>, again in two halves, each in the order of
  the source: its case 1 (red sibling), its case 2 and 3 (the nephews), its case 4. \<open>Inl (node, parent, s)\<close>
  continues the loop, \<open>Inr (node, s)\<close> is the \<^verbatim>\<open>break\<close>.
\<close>

type_synonym erase_next = "(ptr \<times> ptr \<times> rb_state) + (ptr \<times> rb_state)"

definition black_kid :: "(rb_node \<Rightarrow> ptr) \<Rightarrow> ptr \<Rightarrow> rb_state \<Rightarrow> bool option" where
  "black_kid f sibling s = do {
     k \<leftarrow> ld f sibling s;
     c \<leftarrow> get_color k s;
     Some (k = None \<or> c = RB_BLACK)
   }"

definition erase_red_sibling_left :: "ptr \<Rightarrow> rb_state \<Rightarrow> (ptr \<times> rb_state) option" where
  "erase_red_sibling_left parent s = do {
     sibling \<leftarrow> ld rb_right parent s;
     sc \<leftarrow> get_color sibling s;
     if sc = RB_RED
     then do {
       s \<leftarrow> rb_set_color sibling RB_BLACK s;
       s \<leftarrow> rb_set_color parent RB_RED s;
       s \<leftarrow> rb_rotate_left parent s;
       sibling \<leftarrow> ld rb_right parent s;
       Some (sibling, s)
     }
     else Some (sibling, s)
   }"

definition erase_far_kid_left :: "ptr \<Rightarrow> ptr \<Rightarrow> rb_state \<Rightarrow> erase_next option" where
  "erase_far_kid_left parent sibling s = do {
     pc \<leftarrow> get_color parent s;
     s \<leftarrow> rb_set_color sibling pc s;
     s \<leftarrow> rb_set_color parent RB_BLACK s;
     k \<leftarrow> ld rb_right sibling s;
     s \<leftarrow> rb_set_color k RB_BLACK s;
     s \<leftarrow> rb_rotate_left parent s;
     Some (Inr (root s, s))
   }"

definition erase_black_sibling_left :: "ptr \<Rightarrow> ptr \<Rightarrow> rb_state \<Rightarrow> erase_next option" where
  "erase_black_sibling_left parent sibling s = do {
     bl \<leftarrow> black_kid rb_left sibling s;
     br \<leftarrow> black_kid rb_right sibling s;
     if bl \<and> br
     then do {
       s \<leftarrow> rb_set_color sibling RB_RED s;
       parent' \<leftarrow> get_parent parent s;
       Some (Inl (parent, parent', s))
     }
     else if br
     then do {
       k \<leftarrow> ld rb_left sibling s;
       s \<leftarrow> rb_set_color k RB_BLACK s;
       s \<leftarrow> rb_set_color sibling RB_RED s;
       s \<leftarrow> rb_rotate_right sibling s;
       sibling \<leftarrow> ld rb_right parent s;
       erase_far_kid_left parent sibling s
     }
     else erase_far_kid_left parent sibling s
   }"

definition erase_fix_left :: "ptr \<Rightarrow> ptr \<Rightarrow> rb_state \<Rightarrow> erase_next option" where
  "erase_fix_left node parent s = do {
     (sibling, s) \<leftarrow> erase_red_sibling_left parent s;
     erase_black_sibling_left parent sibling s
   }"

definition erase_red_sibling_right :: "ptr \<Rightarrow> rb_state \<Rightarrow> (ptr \<times> rb_state) option" where
  "erase_red_sibling_right parent s = do {
     sibling \<leftarrow> ld rb_left parent s;
     sc \<leftarrow> get_color sibling s;
     if sc = RB_RED
     then do {
       s \<leftarrow> rb_set_color sibling RB_BLACK s;
       s \<leftarrow> rb_set_color parent RB_RED s;
       s \<leftarrow> rb_rotate_right parent s;
       sibling \<leftarrow> ld rb_left parent s;
       Some (sibling, s)
     }
     else Some (sibling, s)
   }"

definition erase_far_kid_right :: "ptr \<Rightarrow> ptr \<Rightarrow> rb_state \<Rightarrow> erase_next option" where
  "erase_far_kid_right parent sibling s = do {
     pc \<leftarrow> get_color parent s;
     s \<leftarrow> rb_set_color sibling pc s;
     s \<leftarrow> rb_set_color parent RB_BLACK s;
     k \<leftarrow> ld rb_left sibling s;
     s \<leftarrow> rb_set_color k RB_BLACK s;
     s \<leftarrow> rb_rotate_right parent s;
     Some (Inr (root s, s))
   }"

definition erase_black_sibling_right :: "ptr \<Rightarrow> ptr \<Rightarrow> rb_state \<Rightarrow> erase_next option" where
  "erase_black_sibling_right parent sibling s = do {
     bl \<leftarrow> black_kid rb_left sibling s;
     br \<leftarrow> black_kid rb_right sibling s;
     if bl \<and> br
     then do {
       s \<leftarrow> rb_set_color sibling RB_RED s;
       parent' \<leftarrow> get_parent parent s;
       Some (Inl (parent, parent', s))
     }
     else if bl
     then do {
       k \<leftarrow> ld rb_right sibling s;
       s \<leftarrow> rb_set_color k RB_BLACK s;
       s \<leftarrow> rb_set_color sibling RB_RED s;
       s \<leftarrow> rb_rotate_left sibling s;
       sibling \<leftarrow> ld rb_left parent s;
       erase_far_kid_right parent sibling s
     }
     else erase_far_kid_right parent sibling s
   }"

definition erase_fix_right :: "ptr \<Rightarrow> ptr \<Rightarrow> rb_state \<Rightarrow> erase_next option" where
  "erase_fix_right node parent s = do {
     (sibling, s) \<leftarrow> erase_red_sibling_right parent s;
     erase_black_sibling_right parent sibling s
   }"

partial_function (option) erase_fix_loop :: "ptr \<Rightarrow> ptr \<Rightarrow> rb_state \<Rightarrow> (ptr \<times> rb_state) option" where
  "erase_fix_loop node parent s = do {
     c \<leftarrow> get_color node s;
     if (node = None \<or> c = RB_BLACK) \<and> node \<noteq> root s
     then do {
       pl \<leftarrow> ld rb_left parent s;
       r \<leftarrow> (if pl = node then erase_fix_left node parent s else erase_fix_right node parent s);
       (case r of Inl (node', parent', s') \<Rightarrow> erase_fix_loop node' parent' s'
        | Inr q \<Rightarrow> Some q)
     }
     else Some (node, s)
   }"

definition rb_erase_color :: "ptr \<Rightarrow> ptr \<Rightarrow> rb_state \<Rightarrow> rb_state option" where
  "rb_erase_color node parent s = do {
     (node, s) \<leftarrow> erase_fix_loop node parent s;
     if node \<noteq> None then rb_set_color node RB_BLACK s else Some s
   }"

partial_function (option) leftmost :: "ptr \<Rightarrow> rb_state \<Rightarrow> ptr option" where
  "leftmost node s = do {
     l \<leftarrow> ld rb_left node s;
     if l \<noteq> None then leftmost l s else Some node
   }"

partial_function (option) rightmost :: "ptr \<Rightarrow> rb_state \<Rightarrow> ptr option" where
  "rightmost node s = do {
     r \<leftarrow> ld rb_right node s;
     if r \<noteq> None then rightmost r s else Some node
   }"

text \<open>The branch of \<^verbatim>\<open>rb_erase\<close> for a node with two children.\<close>

definition erase_two_kids :: "ptr \<Rightarrow> rb_state \<Rightarrow> rb_state option" where
  "erase_two_kids node s = do {
     r \<leftarrow> ld rb_right node s;
     successor \<leftarrow> leftmost r s;
     np \<leftarrow> get_parent node s;
     s \<leftarrow> replace_child np node successor s;
     child \<leftarrow> ld rb_right successor s;
     parent \<leftarrow> get_parent successor s;
     color \<leftarrow> get_color successor s;
     (parent, s) \<leftarrow>
       (if parent = node then Some (successor, s)
        else do {
          s \<leftarrow> (if child \<noteq> None then rb_set_parent child parent s else Some s);
          s \<leftarrow> st (\<lambda>n. n\<lparr>rb_left := child\<rparr>) parent s;
          nr \<leftarrow> ld rb_right node s;
          s \<leftarrow> st (\<lambda>n. n\<lparr>rb_right := nr\<rparr>) successor s;
          s \<leftarrow> rb_set_parent nr successor s;
          Some (parent, s)
        });
     np \<leftarrow> ld rb_parent node s;
     s \<leftarrow> st (\<lambda>n. n\<lparr>rb_parent := np\<rparr>) successor s;
     nc \<leftarrow> ld rb_color node s;
     s \<leftarrow> st (\<lambda>n. n\<lparr>rb_color := nc\<rparr>) successor s;
     nl \<leftarrow> ld rb_left node s;
     s \<leftarrow> st (\<lambda>n. n\<lparr>rb_left := nl\<rparr>) successor s;
     s \<leftarrow> rb_set_parent nl successor s;
     if color = RB_BLACK then rb_erase_color child parent s else Some s
   }"

definition erase_one_kid :: "ptr \<Rightarrow> ptr \<Rightarrow> rb_state \<Rightarrow> rb_state option" where
  "erase_one_kid node child s = do {
     parent \<leftarrow> get_parent node s;
     color \<leftarrow> get_color node s;
     s \<leftarrow> (if child \<noteq> None then rb_set_parent child parent s else Some s);
     s \<leftarrow> replace_child parent node child s;
     if color = RB_BLACK then rb_erase_color child parent s else Some s
   }"

definition rb_erase :: "ptr \<Rightarrow> rb_state \<Rightarrow> rb_state option" where
  "rb_erase node s = do {
     l \<leftarrow> ld rb_left node s;
     r \<leftarrow> ld rb_right node s;
     if l = None then erase_one_kid node r s
     else if r = None then erase_one_kid node l s
     else erase_two_kids node s
   }"

subsection \<open>Traversal\<close>

definition rb_first :: "rb_state \<Rightarrow> ptr option" where
  "rb_first s = (if root s = None then Some None else leftmost (root s) s)"

definition rb_last :: "rb_state \<Rightarrow> ptr option" where
  "rb_last s = (if root s = None then Some None else rightmost (root s) s)"

partial_function (option) climb_right :: "ptr \<Rightarrow> rb_state \<Rightarrow> ptr option" where
  "climb_right node s = do {
     parent \<leftarrow> get_parent node s;
     if parent = None then Some None
     else do {
       pr \<leftarrow> ld rb_right parent s;
       if node = pr then climb_right parent s else Some parent
     }
   }"

partial_function (option) climb_left :: "ptr \<Rightarrow> rb_state \<Rightarrow> ptr option" where
  "climb_left node s = do {
     parent \<leftarrow> get_parent node s;
     if parent = None then Some None
     else do {
       pl \<leftarrow> ld rb_left parent s;
       if node = pl then climb_left parent s else Some parent
     }
   }"

definition rb_next :: "ptr \<Rightarrow> rb_state \<Rightarrow> ptr option" where
  "rb_next node s =
     (if node = None then Some None
      else do {
        r \<leftarrow> ld rb_right node s;
        if r \<noteq> None then leftmost r s else climb_right node s
      })"

definition rb_prev :: "ptr \<Rightarrow> rb_state \<Rightarrow> ptr option" where
  "rb_prev node s =
     (if node = None then Some None
      else do {
        l \<leftarrow> ld rb_left node s;
        if l \<noteq> None then rightmost l s else climb_left node s
      })"

text \<open>The loops are executable.\<close>

declare insert_fix_loop.simps [code] erase_fix_loop.simps [code] leftmost.simps [code] rightmost.simps [code]
  climb_right.simps [code] climb_left.simps [code]

end
