(* ===== verification/Task.thy ===== *)
theory Task
  imports Bitmap Interrupt Rbtree
begin

text \<open>
  The data every kernel component works on: the process control block of
  \<^verbatim>\<open>thread/thread.h\<close>, the address-space structures of \<^verbatim>\<open>kernel/memory.h\<close>, and the kernel state
  with the CPU registers the C code reads or writes (\<^verbatim>\<open>EFLAGS\<close>, \<^verbatim>\<open>CR3\<close>), the TSS stack field, the
  physical memory the paging code works on, and the run queue of \<^verbatim>\<open>kernel/sched.c\<close>.

  Physical memory \<open>pm\<close> is a map from physical addresses to 32-bit words. An access of the C code through
  a virtual address goes through the two-level walk of the i386 from the directory in \<^verbatim>\<open>CR3\<close>; an access
  whose walk meets an entry without the present bit is a page fault, \<open>None\<close>. The access rights in
  the entries do not matter for kernel accesses, and the TLB is taken as coherent.

  A PCB is named by its address. Its \<^verbatim>\<open>rb_node\<close> member lives in the store of the run-queue tree
  under the same name, so \<^verbatim>\<open>rb_entry\<close> (address minus member offset) is the identity; the list
  members are the positions of the name in the lists it is linked into. \<open>running\<close> is the PCB
  of the stack in use, what \<^verbatim>\<open>running_thread()\<close> computes from \<^verbatim>\<open>esp\<close>; \<open>current_thread\<close> is the
  scheduler's variable.
\<close>

datatype task_status =
  TASK_RUNNING | TASK_READY | TASK_BLOCKED | TASK_WAITING | TASK_HANGING | TASK_DIED

record virtual_addr =
  vaddr_bitmap :: bitmap
  vaddr_start :: u32

record mem_block_desc =
  block_size :: u32
  blocks_per_arena :: u32
  free_list :: "u32 list"

record task_struct =
  self_kstack :: u32
  pid :: u32
  status :: task_status
  priority :: u8
  name :: "u8 list"
  task_ticks :: u8
  elapsed_ticks :: u32
  vruntime :: u64
  weight :: u32
  exec_start :: u64
  sum_exec_runtime :: u64
  pgdir :: u32
  userprog_vaddr :: virtual_addr
  u_block_descs :: "mem_block_desc list"
  fd_table :: "int list"
  cwd_inode_nr :: u32
  stack_magic :: u32

record kernel =
  tasks :: "nat \<Rightarrow> task_struct option"
  tasks_timeline :: rb_state
  rb_leftmost :: ptr
  min_vruntime :: u64
  nr_running :: u32
  current_thread :: ptr
  idle_thread :: ptr
  running :: nat
  eflags :: u32
  cr3 :: u32
  tss_esp0 :: u32
  pm :: "u32 \<Rightarrow> u32"

text \<open>Access to a PCB through a pointer.\<close>

definition task_of :: "ptr \<Rightarrow> 'a kernel_scheme \<Rightarrow> task_struct option" where
  "task_of p s = (case p of None \<Rightarrow> None | Some a \<Rightarrow> tasks s a)"

definition upd_task :: "ptr \<Rightarrow> (task_struct \<Rightarrow> task_struct) \<Rightarrow> 'a kernel_scheme \<Rightarrow> 'a kernel_scheme option" where
  "upd_task p f s = (case p of None \<Rightarrow> None | Some a \<Rightarrow>
     (case tasks s a of None \<Rightarrow> None | Some t \<Rightarrow> Some (s\<lparr>tasks := (tasks s)(a \<mapsto> f t)\<rparr>)))"

lemma task_of_Some [simp]: "task_of (Some a) s = tasks s a"
  by (simp add: task_of_def)

lemma upd_task_Some [simp]:
  "tasks s a = Some t \<Longrightarrow> upd_task (Some a) f s = Some (s\<lparr>tasks := (tasks s)(a \<mapsto> f t)\<rparr>)"
  by (simp add: upd_task_def)

subsection \<open>Interrupts on the kernel state\<close>

definition k_intr_disable :: "'a kernel_scheme \<Rightarrow> intr_status \<times> 'a kernel_scheme" where
  "k_intr_disable s = (let (old, e) = intr_disable (eflags s) in (old, s\<lparr>eflags := e\<rparr>))"

definition k_intr_set_status :: "intr_status \<Rightarrow> 'a kernel_scheme \<Rightarrow> 'a kernel_scheme" where
  "k_intr_set_status old s = s\<lparr>eflags := snd (intr_set_status old (eflags s))\<rparr>"

abbreviation intr_off :: "'a kernel_scheme \<Rightarrow> bool" where
  "intr_off s \<equiv> intr_get_status (eflags s) = INTR_OFF"

subsection \<open>Page-table addresses (\<^verbatim>\<open>kernel/memory.c\<close>)\<close>

definition PG_SIZE :: u32 where "PG_SIZE = 4096"

definition PDE_IDX :: "u32 \<Rightarrow> u32" where "PDE_IDX addr = drop_bit 22 (addr AND 0xffc00000)"

definition PTE_IDX :: "u32 \<Rightarrow> u32" where "PTE_IDX addr = drop_bit 12 (addr AND 0x003ff000)"

definition pte_ptr :: "u32 \<Rightarrow> u32" where
  "pte_ptr vaddr = 0xffc00000 + drop_bit 10 (vaddr AND 0xffc00000) + PTE_IDX vaddr * 4"

definition pde_ptr :: "u32 \<Rightarrow> u32" where
  "pde_ptr vaddr = 0xfffff000 + PDE_IDX vaddr * 4"

subsection \<open>Memory accesses through the page tables\<close>

definition frame :: "u32 \<Rightarrow> u32" where "frame entry = entry AND 0xfffff000"

definition present :: "u32 \<Rightarrow> bool" where "present entry \<longleftrightarrow> entry AND 1 \<noteq> 0"

text \<open>The physical address of the directory entry and of the table entry of a virtual address, and
  the walk.\<close>

definition pde_phys :: "u32 \<Rightarrow> u32 \<Rightarrow> u32" where
  "pde_phys dir va = frame dir + PDE_IDX va * 4"

definition pte_phys :: "(u32 \<Rightarrow> u32) \<Rightarrow> u32 \<Rightarrow> u32 \<Rightarrow> u32" where
  "pte_phys mem dir va = frame (mem (pde_phys dir va)) + PTE_IDX va * 4"

definition walk :: "(u32 \<Rightarrow> u32) \<Rightarrow> u32 \<Rightarrow> u32 \<Rightarrow> u32 option" where
  "walk mem dir va =
     (if present (mem (pde_phys dir va)) \<and> present (mem (pte_phys mem dir va))
      then Some (frame (mem (pte_phys mem dir va)) + (va AND 0xfff)) else None)"

definition vread :: "u32 \<Rightarrow> 'a kernel_scheme \<Rightarrow> u32 option" where
  "vread va s = map_option (pm s) (walk (pm s) (cr3 s) va)"

definition vwrite :: "u32 \<Rightarrow> u32 \<Rightarrow> 'a kernel_scheme \<Rightarrow> 'a kernel_scheme option" where
  "vwrite va v s = map_option (\<lambda>pa. s\<lparr>pm := (pm s)(pa := v)\<rparr>) (walk (pm s) (cr3 s) va)"

definition addr_v2p :: "u32 \<Rightarrow> 'a kernel_scheme \<Rightarrow> u32 option" where
  "addr_v2p vaddr s = do {
     pte \<leftarrow> vread (pte_ptr vaddr) s;
     Some ((pte AND 0xfffff000) + (vaddr AND 0x00000fff))
   }"

subsection \<open>Activating an address space (\<^verbatim>\<open>userprog/process.c\<close>, \<^verbatim>\<open>tss.c\<close>)\<close>

definition page_dir_activate :: "task_struct \<Rightarrow> 'a kernel_scheme \<Rightarrow> 'a kernel_scheme option" where
  "page_dir_activate t s = do {
     pagedir_phy_addr \<leftarrow> (if pgdir t \<noteq> 0 then addr_v2p (pgdir t) s else Some 0x100000);
     Some (s\<lparr>cr3 := pagedir_phy_addr\<rparr>)
   }"

definition update_tss_esp :: "nat \<Rightarrow> 'a kernel_scheme \<Rightarrow> 'a kernel_scheme" where
  "update_tss_esp p s = s\<lparr>tss_esp0 := of_nat p + PG_SIZE\<rparr>"

definition process_activate :: "ptr \<Rightarrow> 'a kernel_scheme \<Rightarrow> 'a kernel_scheme option" where
  "process_activate p_thread s = (case p_thread of None \<Rightarrow> None | Some p \<Rightarrow> do {
     t \<leftarrow> tasks s p;
     s \<leftarrow> page_dir_activate t s;
     Some (if pgdir t \<noteq> 0 then update_tss_esp p s else s)
   })"

end
