(* ===== verification/Rbtree_Shape.thy ===== *)
theory Rbtree_Shape
  imports Rbtree
begin

text \<open>
  What a store means: the tree of addresses and colours that hangs off its root
  (\<open>holds\<close>), and the same tree seen from one of its subtrees (\<open>plug\<close> of a subtree into
  the path above it). The lemmas describe the loads, stores and rotations of \<open>Rbtree\<close> as
  changes of that tree, together with the frame: no node outside the tree is written.
\<close>

datatype tr = E | T rb_colour tr nat tr

datatype side = L | R

text \<open>A frame: which child of the node the path goes through, the node's colour and
  address, and its other subtree.\<close>

type_synonym frame = "side \<times> rb_colour \<times> nat \<times> tr"

fun rootp :: "tr \<Rightarrow> ptr" where
  "rootp E = None"
| "rootp (T c l a r) = Some a"

fun addrs :: "tr \<Rightarrow> nat list" where
  "addrs E = []"
| "addrs (T c l a r) = addrs l @ a # addrs r"

fun fill :: "tr \<Rightarrow> frame \<Rightarrow> tr" where
  "fill t (L, c, a, sib) = T c t a sib"
| "fill t (R, c, a, sib) = T c sib a t"

definition plug :: "tr \<Rightarrow> frame list \<Rightarrow> tr" where
  "plug t k = foldl fill t k"

lemma plug_simps [simp]:
  "plug t [] = t"
  "plug t (f # k) = plug (fill t f) k"
  by (simp_all add: plug_def)

lemma plug_append: "plug t (k1 @ k2) = plug (plug t k1) k2"
  by (simp add: plug_def)

abbreviation mk :: "ptr \<Rightarrow> ptr \<Rightarrow> ptr \<Rightarrow> rb_colour \<Rightarrow> rb_node" where
  "mk p l r c \<equiv> \<lparr>rb_parent = p, rb_left = l, rb_right = r, rb_color = c\<rparr>"

primrec tree_at :: "(nat \<Rightarrow> rb_node option) \<Rightarrow> ptr \<Rightarrow> tr \<Rightarrow> bool" where
  "tree_at h par E = True"
| "tree_at h par (T c l a r) \<longleftrightarrow>
     h a = Some (mk par (rootp l) (rootp r) c) \<and> tree_at h (Some a) l \<and> tree_at h (Some a) r"

fun hole_par :: "ptr \<Rightarrow> frame list \<Rightarrow> ptr" where
  "hole_par par [] = par"
| "hole_par par ((d, c, a, sib) # k) = Some a"

fun top :: "ptr \<Rightarrow> frame list \<Rightarrow> ptr" where
  "top p [] = p"
| "top p ((d, c, a, sib) # k) = top (Some a) k"

primrec path_at :: "(nat \<Rightarrow> rb_node option) \<Rightarrow> ptr \<Rightarrow> ptr \<Rightarrow> frame list \<Rightarrow> bool" where
  "path_at h par p [] = True"
| "path_at h par p (f # k) = (case f of (d, c, a, sib) \<Rightarrow>
     h a = Some (if d = L then mk (hole_par par k) p (rootp sib) c
                 else mk (hole_par par k) (rootp sib) p c) \<and>
     tree_at h (Some a) sib \<and> path_at h par (Some a) k)"

fun path_addrs :: "frame list \<Rightarrow> nat list" where
  "path_addrs [] = []"
| "path_addrs ((d, c, a, sib) # k) = a # addrs sib @ path_addrs k"

definition holds :: "rb_state \<Rightarrow> tr \<Rightarrow> bool" where
  "holds s t \<longleftrightarrow> tree_at (nodes s) None t \<and> root s = rootp t \<and> distinct (addrs t)"

definition same_outside :: "nat set \<Rightarrow> rb_state \<Rightarrow> rb_state \<Rightarrow> bool" where
  "same_outside A s s' \<longleftrightarrow> (\<forall>a. a \<notin> A \<longrightarrow> nodes s' a = nodes s a)"

lemma same_outside_refl [simp]: "same_outside A s s"
  by (simp add: same_outside_def)

lemma same_outside_trans: "same_outside A s s' \<Longrightarrow> same_outside A s' s'' \<Longrightarrow> same_outside A s s''"
  by (simp add: same_outside_def)

subsection \<open>The tree seen from a subtree\<close>

lemma rootp_fill [simp]: "rootp (fill t f) = Some (fst (snd (snd f)))"
  by (cases "(t, f)" rule: fill.cases) auto

lemma rootp_plug: "rootp (plug t k) = top (rootp t) k"
  by (induction k arbitrary: t) (auto simp: split_paired_all)

lemma tree_at_fill:
  "tree_at h par (fill t f) \<longleftrightarrow> tree_at h (hole_par par [f]) t \<and> path_at h par (rootp t) [f]"
  by (cases "(t, f)" rule: fill.cases) auto

lemma tree_at_plug:
  "tree_at h par (plug t k) \<longleftrightarrow> tree_at h (hole_par par k) t \<and> path_at h par (rootp t) k"
proof (induction k arbitrary: t)
  case (Cons f k)
  obtain d c a sib where f: "f = (d, c, a, sib)" by (cases f) auto
  show ?case unfolding f plug_simps Cons.IH by (cases d) auto
qed simp

lemma set_addrs_fill: "set (addrs (fill t f)) = set (addrs t) \<union> set (path_addrs [f])"
  by (cases "(t, f)" rule: fill.cases) auto

lemma set_addrs_plug: "set (addrs (plug t k)) = set (addrs t) \<union> set (path_addrs k)"
proof (induction k arbitrary: t)
  case (Cons f k)
  obtain d c a sib where f: "f = (d, c, a, sib)" by (cases f) auto
  show ?case unfolding f plug_simps Cons.IH set_addrs_fill by auto
qed simp

lemma distinct_addrs_plug:
  "distinct (addrs (plug t k)) \<longleftrightarrow>
     distinct (addrs t) \<and> distinct (path_addrs k) \<and> set (addrs t) \<inter> set (path_addrs k) = {}"
proof (induction k arbitrary: t)
  case (Cons f k)
  obtain d c a sib where f: "f = (d, c, a, sib)" by (cases f) auto
  show ?case unfolding f plug_simps Cons.IH by (cases d) (auto simp: set_addrs_fill)
qed simp

lemma addrs_plug_cong: "addrs t = addrs t' \<Longrightarrow> addrs (plug t k) = addrs (plug t' k)"
proof (induction k arbitrary: t t')
  case (Cons f k)
  obtain d c a sib where f: "f = (d, c, a, sib)" by (cases f) auto
  show ?case unfolding f plug_simps by (rule Cons.IH) (use Cons.prems in \<open>cases d; simp\<close>)
qed simp

lemma rootp_in_addrs: "rootp t = Some a \<Longrightarrow> a \<in> set (addrs t)"
  by (cases t) auto

lemma holds_plug:
  "holds s (plug t k) \<longleftrightarrow> tree_at (nodes s) (hole_par None k) t \<and> path_at (nodes s) None (rootp t) k \<and>
     root s = top (rootp t) k \<and> distinct (addrs t) \<and> distinct (path_addrs k) \<and>
     set (addrs t) \<inter> set (path_addrs k) = {}"
  by (auto simp: holds_def tree_at_plug rootp_plug distinct_addrs_plug)

lemma holds_node:
  "holds s (plug (T c l a r) k) \<Longrightarrow> nodes s a = Some (mk (hole_par None k) (rootp l) (rootp r) c)"
  by (simp add: holds_plug)

lemma hole_par_fill [simp]: "hole_par par (f # k) = Some (fst (snd (snd f)))"
  by (cases f) auto

subsection \<open>Updates outside a tree or path\<close>

lemma tree_at_upd [simp]: "a \<notin> set (addrs t) \<Longrightarrow> tree_at (h(a := v)) par t = tree_at h par t"
  by (induction t arbitrary: par) auto

lemma path_at_upd [simp]: "a \<notin> set (path_addrs k) \<Longrightarrow> path_at (h(a := v)) par p k = path_at h par p k"
proof (induction k arbitrary: p)
  case (Cons f k)
  then show ?case by (cases f) auto
qed simp

subsection \<open>Loads and stores\<close>

lemma ld_Some [simp]: "nodes s a = Some n \<Longrightarrow> ld f (Some a) s = Some (f n)"
  by (simp add: ld_def)

lemma st_Some [simp]:
  "nodes s a = Some n \<Longrightarrow> st g (Some a) s = Some (s\<lparr>nodes := (nodes s)(a \<mapsto> g n)\<rparr>)"
  by (simp add: st_def)

fun colour :: "tr \<Rightarrow> rb_colour" where
  "colour E = RB_BLACK"
| "colour (T c l a r) = c"

fun paint :: "rb_colour \<Rightarrow> tr \<Rightarrow> tr" where
  "paint c E = E"
| "paint c (T c' l a r) = T c l a r"

lemma addrs_paint [simp]: "addrs (paint c t) = addrs t"
  by (cases t) auto

lemma rootp_paint [simp]: "rootp (paint c t) = rootp t"
  by (cases t) auto

lemma colour_paint: "t \<noteq> E \<Longrightarrow> colour (paint c t) = c"
  by (cases t) auto

lemma rootp_None [simp]: "rootp t = None \<longleftrightarrow> t = E" "None = rootp t \<longleftrightarrow> t = E"
  by (cases t; simp)+

lemma get_color_tree: "tree_at (nodes s) par t \<Longrightarrow> get_color (rootp t) s = Some (colour t)"
  by (cases t) (auto simp: get_color_def)

lemma get_parent_node: "nodes s a = Some n \<Longrightarrow> get_parent (Some a) s = Some (rb_parent n)"
  by (simp add: get_parent_def)

lemma set_color_holds:
  assumes "holds s (plug t k)"
  shows "\<exists>s'. rb_set_color (rootp t) c s = Some s' \<and> holds s' (plug (paint c t) k) \<and>
    same_outside (set (addrs (plug t k))) s s'"
proof (cases t)
  case E
  with assms show ?thesis by (simp add: rb_set_color_def)
next
  case (T c' l a r)
  from assms have n: "nodes s a = Some (mk (hole_par None k) (rootp l) (rootp r) c')"
    unfolding T by (rule holds_node)
  with assms show ?thesis unfolding T
    by (auto simp: rb_set_color_def holds_plug same_outside_def set_addrs_plug)
qed

text \<open>Redirecting the child pointer above a subtree.\<close>

lemma replace_child_path:
  assumes "path_at (nodes s) None (Some x) k" and "root s = top (Some x) k"
    and "x \<notin> set (path_addrs k)" and "distinct (path_addrs k)"
  shows "\<exists>s'. replace_child (hole_par None k) (Some x) y s = Some s' \<and>
    path_at (nodes s') None y k \<and> root s' = top y k \<and>
    (\<forall>a. Some a \<noteq> hole_par None k \<longrightarrow> nodes s' a = nodes s a)"
proof (cases k)
  case Nil
  with assms show ?thesis by (simp add: replace_child_def)
next
  case (Cons f k')
  obtain d c p sib where f: "f = (d, c, p, sib)" by (cases f) auto
  have "rootp sib \<noteq> Some x" using assms(3) unfolding Cons f by (auto dest: rootp_in_addrs)
  with assms show ?thesis unfolding Cons f
    by (cases d) (auto simp: replace_child_def)
qed


text \<open>Hanging a subtree below another node: only its root's parent field changes.\<close>

fun reparent :: "ptr \<Rightarrow> ptr \<Rightarrow> (nat \<Rightarrow> rb_node option) \<Rightarrow> nat \<Rightarrow> rb_node option" where
  "reparent None par h = h"
| "reparent (Some a) par h = (case h a of None \<Rightarrow> h | Some n \<Rightarrow> h(a \<mapsto> n\<lparr>rb_parent := par\<rparr>))"

lemma set_parent_tree:
  "tree_at (nodes s) par t \<Longrightarrow>
   rb_set_parent (rootp t) par' s = Some (s\<lparr>nodes := reparent (rootp t) par' (nodes s)\<rparr>)"
  by (cases t) (auto simp: rb_set_parent_def)

lemma set_parent_if: "(if p \<noteq> None then rb_set_parent p par s else Some s) = rb_set_parent p par s"
  by (simp add: rb_set_parent_def)

lemma reparent_other [simp]: "p \<noteq> Some a \<Longrightarrow> reparent p par h a = h a"
  by (cases p) (auto split: option.splits)

lemma reparent_notin [simp]: "a \<notin> set (addrs t) \<Longrightarrow> reparent (rootp t) par h a = h a"
  by (metis reparent_other rootp_in_addrs)

lemma reparent_tree:
  "tree_at h par t \<Longrightarrow> distinct (addrs t) \<Longrightarrow> tree_at (reparent (rootp t) par' h) par' t"
  by (cases t) auto

lemma tree_at_cong: "(\<And>a. a \<in> set (addrs t) \<Longrightarrow> h a = h' a) \<Longrightarrow> tree_at h par t = tree_at h' par t"
  by (induction t arbitrary: par) auto

lemma path_at_cong: "(\<And>a. a \<in> set (path_addrs k) \<Longrightarrow> h a = h' a) \<Longrightarrow> path_at h par p k = path_at h' par p k"
proof (induction k arbitrary: p)
  case (Cons f k)
  obtain d c a sib where f: "f = (d, c, a, sib)" by (cases f) auto
  have "tree_at h (Some a) sib = tree_at h' (Some a) sib"
    using Cons.prems unfolding f by (intro tree_at_cong) auto
  with Cons show ?case unfolding f by auto
qed simp

lemma reparent_disjoint [simp]:
  "set (addrs t) \<inter> set (addrs u) = {} \<Longrightarrow> tree_at (reparent (rootp u) par' h) par t = tree_at h par t"
  by (rule tree_at_cong) (metis IntI empty_iff reparent_other rootp_in_addrs)

lemma hole_par_in: "hole_par None k = Some a \<Longrightarrow> a \<in> set (path_addrs k)"
proof (cases k)
  case (Cons f k')
  then show "hole_par None k = Some a \<Longrightarrow> a \<in> set (path_addrs k)" by (cases f) auto
qed simp

subsection \<open>Rotations\<close>

lemma rotate_left_holds:
  assumes "holds s (plug (T c A x (T c' B y C)) k)"
  shows "\<exists>s'. rb_rotate_left (Some x) s = Some s' \<and> holds s' (plug (T c' (T c A x B) y C) k) \<and>
    same_outside (set (addrs (plug (T c A x (T c' B y C)) k))) s s'"
proof -
  let ?h = "nodes s" and ?P = "hole_par None k"
  note h = assms [unfolded holds_plug, simplified]
  let ?h1 = "?h(x \<mapsto> mk ?P (rootp A) (rootp B) c)"
  let ?h2 = "reparent (rootp B) (Some x) ?h1"
  let ?h3 = "?h2(y \<mapsto> mk ?P (rootp B) (rootp C) c')"
  have xB: "rootp B \<noteq> Some x" "rootp B \<noteq> Some y" using h by (auto dest: rootp_in_addrs)
  have dp: "a \<noteq> x" "a \<noteq> y" "a \<notin> set (addrs B)" if "a \<in> set (path_addrs k)" for a
    using h that by blast+
  have dA: "a \<noteq> x" "a \<noteq> y" "a \<notin> set (addrs B)" "a \<notin> set (path_addrs k)" if "a \<in> set (addrs A)" for a
    using h that by blast+
  have dB: "a \<noteq> x" "a \<noteq> y" "a \<notin> set (path_addrs k)" if "a \<in> set (addrs B)" for a
    using h that by blast+
  have dC: "a \<noteq> x" "a \<noteq> y" "a \<notin> set (addrs B)" "a \<notin> set (path_addrs k)" if "a \<in> set (addrs C)" for a
    using h that by blast+
  have "path_at ?h3 None (Some x) k = path_at ?h None (Some x) k"
    using dp by (intro path_at_cong) simp
  then obtain s4 where s4: "replace_child ?P (Some x) (Some y) (s\<lparr>nodes := ?h3\<rparr>) = Some s4"
    "path_at (nodes s4) None (Some y) k" "root s4 = top (Some y) k"
    "\<forall>a. Some a \<noteq> ?P \<longrightarrow> nodes s4 a = ?h3 a"
    using replace_child_path [of "s\<lparr>nodes := ?h3\<rparr>" x k "Some y"] h by auto
  have keep: "nodes s4 a = ?h3 a" if "a \<notin> set (path_addrs k)" for a
    using s4(4) that by (metis hole_par_in)
  have B1: "tree_at ?h1 (Some y) B" using h by simp
  have x4: "nodes s4 x = Some (mk ?P (rootp A) (rootp B) c)" and y4: "nodes s4 y = ?h3 y"
    using keep h xB by auto
  let ?s' = "s4\<lparr>nodes := (nodes s4)(y \<mapsto> mk ?P (Some x) (rootp C) c', x \<mapsto> mk (Some y) (rootp A) (rootp B) c)\<rparr>"
  have setB: "rb_set_parent (rootp B) (Some x) (s\<lparr>nodes := ?h1\<rparr>) = Some (s\<lparr>nodes := ?h2\<rparr>)"
    using set_parent_tree [of "s\<lparr>nodes := ?h1\<rparr>" "Some y" B "Some x"] B1 by simp
  have run: "rb_rotate_left (Some x) s = Some ?s'"
    unfolding rb_rotate_left_def set_parent_if using h xB s4(1) x4 y4 setB
    by (simp add: get_parent_def rb_set_parent_def [of "Some _"])
  have "tree_at (nodes s4) (Some x) A = tree_at ?h (Some x) A"
    using dA keep by (intro tree_at_cong) simp
  moreover have "tree_at (nodes s4) (Some x) B = tree_at ?h2 (Some x) B"
    using dB keep by (intro tree_at_cong) simp
  moreover have "tree_at (nodes s4) (Some y) C = tree_at ?h (Some y) C"
    using dC keep by (intro tree_at_cong) simp
  moreover have "tree_at ?h2 (Some x) B" using h B1 by (intro reparent_tree) auto
  ultimately have "holds ?s' (plug (T c' (T c A x B) y C) k)"
    using h s4 by (auto simp: holds_plug)
  moreover have "same_outside (set (addrs (plug (T c A x (T c' B y C)) k))) s ?s'"
    using keep by (simp add: same_outside_def set_addrs_plug)
  ultimately show ?thesis using run by blast
qed


lemma rotate_right_holds:
  assumes "holds s (plug (T c' (T c A x B) y C) k)"
  shows "\<exists>s'. rb_rotate_right (Some y) s = Some s' \<and> holds s' (plug (T c A x (T c' B y C)) k) \<and>
    same_outside (set (addrs (plug (T c' (T c A x B) y C) k))) s s'"
proof -
  let ?h = "nodes s" and ?P = "hole_par None k"
  note h = assms [unfolded holds_plug, simplified]
  let ?h1 = "?h(y \<mapsto> mk ?P (rootp B) (rootp C) c')"
  let ?h2 = "reparent (rootp B) (Some y) ?h1"
  let ?h3 = "?h2(x \<mapsto> mk ?P (rootp A) (rootp B) c)"
  have yB: "rootp B \<noteq> Some x" "rootp B \<noteq> Some y" using h by (auto dest: rootp_in_addrs)
  have dp: "a \<noteq> x" "a \<noteq> y" "a \<notin> set (addrs B)" if "a \<in> set (path_addrs k)" for a
    using h that by blast+
  have dA: "a \<noteq> x" "a \<noteq> y" "a \<notin> set (addrs B)" "a \<notin> set (path_addrs k)" if "a \<in> set (addrs A)" for a
    using h that by blast+
  have dB: "a \<noteq> x" "a \<noteq> y" "a \<notin> set (path_addrs k)" if "a \<in> set (addrs B)" for a
    using h that by blast+
  have dC: "a \<noteq> x" "a \<noteq> y" "a \<notin> set (addrs B)" "a \<notin> set (path_addrs k)" if "a \<in> set (addrs C)" for a
    using h that by blast+
  have "path_at ?h3 None (Some y) k = path_at ?h None (Some y) k"
    using dp by (intro path_at_cong) simp
  then obtain s4 where s4: "replace_child ?P (Some y) (Some x) (s\<lparr>nodes := ?h3\<rparr>) = Some s4"
    "path_at (nodes s4) None (Some x) k" "root s4 = top (Some x) k"
    "\<forall>a. Some a \<noteq> ?P \<longrightarrow> nodes s4 a = ?h3 a"
    using replace_child_path [of "s\<lparr>nodes := ?h3\<rparr>" y k "Some x"] h by auto
  have keep: "nodes s4 a = ?h3 a" if "a \<notin> set (path_addrs k)" for a
    using s4(4) that by (metis hole_par_in)
  have B1: "tree_at ?h1 (Some x) B" using h by simp
  have y4: "nodes s4 y = Some (mk ?P (rootp B) (rootp C) c')" and x4: "nodes s4 x = ?h3 x"
    using keep h yB by auto
  let ?s' = "s4\<lparr>nodes := (nodes s4)(x \<mapsto> mk ?P (rootp A) (Some y) c, y \<mapsto> mk (Some x) (rootp B) (rootp C) c')\<rparr>"
  have setB: "rb_set_parent (rootp B) (Some y) (s\<lparr>nodes := ?h1\<rparr>) = Some (s\<lparr>nodes := ?h2\<rparr>)"
    using set_parent_tree [of "s\<lparr>nodes := ?h1\<rparr>" "Some x" B "Some y"] B1 by simp
  have run: "rb_rotate_right (Some y) s = Some ?s'"
    unfolding rb_rotate_right_def set_parent_if using h yB s4(1) x4 y4 setB
    by (simp add: get_parent_def rb_set_parent_def [of "Some _"])
  have "tree_at (nodes s4) (Some x) A = tree_at ?h (Some x) A"
    using dA keep by (intro tree_at_cong) simp
  moreover have "tree_at (nodes s4) (Some y) B = tree_at ?h2 (Some y) B"
    using dB keep by (intro tree_at_cong) simp
  moreover have "tree_at (nodes s4) (Some y) C = tree_at ?h (Some y) C"
    using dC keep by (intro tree_at_cong) simp
  moreover have "tree_at ?h2 (Some y) B" using h B1 by (intro reparent_tree) auto
  ultimately have "holds ?s' (plug (T c A x (T c' B y C)) k)"
    using h s4 by (auto simp: holds_plug)
  moreover have "same_outside (set (addrs (plug (T c' (T c A x B) y C) k))) s ?s'"
    using keep by (simp add: same_outside_def set_addrs_plug)
  ultimately show ?thesis using run by blast
qed

subsection \<open>Walks\<close>

lemma addrs_Nil [simp]: "addrs t = [] \<longleftrightarrow> t = E"
  by (cases t) auto

lemma leftmost_tree:
  assumes "tree_at (nodes s) par t" and "t \<noteq> E"
  shows "leftmost (rootp t) s = Some (Some (hd (addrs t)))"
  using assms
proof (induction t arbitrary: par)
  case (T c l a r)
  then have "ld rb_left (Some a) s = Some (rootp l)" by simp
  with T show ?case by (cases "l = E") (auto simp: leftmost.simps [of "Some a"] hd_append split: list.splits)
qed simp

lemma rightmost_tree:
  assumes "tree_at (nodes s) par t" and "t \<noteq> E"
  shows "rightmost (rootp t) s = Some (Some (last (addrs t)))"
  using assms
proof (induction t arbitrary: par)
  case (T c l a r)
  then have "ld rb_right (Some a) s = Some (rootp r)" by simp
  with T show ?case by (cases "r = E") (auto simp: rightmost.simps [of "Some a"])
qed simp

text \<open>The addresses left and right of a subtree in the in-order sequence.\<close>

fun before :: "frame list \<Rightarrow> nat list" where
  "before [] = []"
| "before ((L, c, a, sib) # k) = before k"
| "before ((R, c, a, sib) # k) = before k @ addrs sib @ [a]"

fun after :: "frame list \<Rightarrow> nat list" where
  "after [] = []"
| "after ((L, c, a, sib) # k) = a # addrs sib @ after k"
| "after ((R, c, a, sib) # k) = after k"

lemma addrs_plug: "addrs (plug t k) = before k @ addrs t @ after k"
  by (induction k arbitrary: t rule: before.induct) auto

definition hd_ptr :: "nat list \<Rightarrow> ptr" where
  "hd_ptr xs = (case xs of [] \<Rightarrow> None | x # _ \<Rightarrow> Some x)"

lemma hd_ptr_simps [simp]: "hd_ptr [] = None" "hd_ptr (x # xs) = Some x"
  "xs \<noteq> [] \<Longrightarrow> hd_ptr (xs @ ys) = hd_ptr xs" "xs \<noteq> [] \<Longrightarrow> hd_ptr xs = Some (hd xs)"
  by (cases xs; simp add: hd_ptr_def)+

lemma climb_right_path:
  assumes "nodes s a = Some n" and "rb_parent n = hole_par None k"
    and "path_at (nodes s) None (Some a) k" and "a \<notin> set (path_addrs k)" and "distinct (path_addrs k)"
  shows "climb_right (Some a) s = Some (hd_ptr (after k))"
  using assms
proof (induction k arbitrary: a n)
  case Nil
  then show ?case by (simp add: climb_right.simps get_parent_def)
next
  case (Cons f k)
  obtain d c p sib where f: "f = (d, c, p, sib)" by (cases f) auto
  have ne: "rootp sib \<noteq> Some a" using Cons.prems(4) unfolding f by (auto dest: rootp_in_addrs)
  note step = climb_right.simps [of "Some a"]
  show ?case
  proof (cases d)
    case L
    with Cons.prems ne show ?thesis unfolding f by (auto simp: step get_parent_def)
  next
    case R
    with Cons.prems have "climb_right (Some p) s = Some (hd_ptr (after k))"
      unfolding f by (intro Cons.IH) auto
    with Cons.prems R show ?thesis unfolding f by (auto simp: step get_parent_def)
  qed
qed

lemma climb_left_path:
  assumes "nodes s a = Some n" and "rb_parent n = hole_par None k"
    and "path_at (nodes s) None (Some a) k" and "a \<notin> set (path_addrs k)" and "distinct (path_addrs k)"
  shows "climb_left (Some a) s = Some (hd_ptr (rev (before k)))"
  using assms
proof (induction k arbitrary: a n)
  case Nil
  then show ?case by (simp add: climb_left.simps get_parent_def)
next
  case (Cons f k)
  obtain d c p sib where f: "f = (d, c, p, sib)" by (cases f) auto
  have ne: "rootp sib \<noteq> Some a" using Cons.prems(4) unfolding f by (auto dest: rootp_in_addrs)
  note step = climb_left.simps [of "Some a"]
  show ?case
  proof (cases d)
    case R
    with Cons.prems ne show ?thesis unfolding f by (auto simp: step get_parent_def)
  next
    case L
    with Cons.prems have "climb_left (Some p) s = Some (hd_ptr (rev (before k)))"
      unfolding f by (intro Cons.IH) auto
    with Cons.prems L show ?thesis unfolding f by (auto simp: step get_parent_def)
  qed
qed

text \<open>Every address of a tree is the root of a subtree of it.\<close>

lemma addr_in_plug:
  "a \<in> set (addrs t) \<Longrightarrow> \<exists>c l r k. t = plug (T c l a r) k"
proof (induction t)
  case (T c l b r)
  consider "a = b" | "a \<in> set (addrs l)" | "a \<in> set (addrs r)" using T.prems by auto
  then show ?case
  proof cases
    case 1
    then show ?thesis by (intro exI [of _ c] exI [of _ l] exI [of _ r] exI [of _ "[]"]) simp
  next
    case 2
    with T.IH obtain c' l' r' k where "l = plug (T c' l' a r') k" by blast
    then have "T c l b r = plug (T c' l' a r') (k @ [(L, c, b, r)])" by (simp add: plug_append)
    then show ?thesis by blast
  next
    case 3
    with T.IH obtain c' l' r' k where "r = plug (T c' l' a r') k" by blast
    then have "T c l b r = plug (T c' l' a r') (k @ [(R, c, b, l)])" by (simp add: plug_append)
    then show ?thesis by blast
  qed
qed simp

lemma rb_next_plug:
  assumes "holds s (plug (T c l a r) k)"
  shows "rb_next (Some a) s = Some (hd_ptr (addrs r @ after k))"
proof (cases "r = E")
  case True
  then show ?thesis using assms climb_right_path [of s a _ k]
    by (auto simp: rb_next_def holds_plug)
next
  case False
  then show ?thesis using assms leftmost_tree [of s "Some a" r]
    by (auto simp: rb_next_def holds_plug)
qed

lemma rb_prev_plug:
  assumes "holds s (plug (T c l a r) k)"
  shows "rb_prev (Some a) s = Some (hd_ptr (rev (before k @ addrs l)))"
proof (cases "l = E")
  case True
  then show ?thesis using assms climb_left_path [of s a _ k]
    by (auto simp: rb_prev_def holds_plug)
next
  case False
  then show ?thesis using assms rightmost_tree [of s "Some a" l]
    by (auto simp: rb_prev_def holds_plug hd_rev)
qed

end
