(* ===== verification/Rbtree_Insert.thy ===== *)
theory Rbtree_Insert
  imports Rbtree_Shape
begin

text \<open>
  The red-black invariants (no red node has a red child, every path has the same number of
  black nodes, the root is black) and the insertion side of \<^verbatim>\<open>rbtree.c\<close>: starting from a tree
  in which only the freshly linked red node can break the colour rule, \<open>rb_insert_color\<close>
  returns, keeps the in-order sequence, and leaves a red-black tree.
\<close>

fun bheight :: "tr \<Rightarrow> nat" where
  "bheight E = 0"
| "bheight (T c l a r) = (if c = RB_BLACK then Suc (bheight l) else bheight l)"

fun invc :: "tr \<Rightarrow> bool" where
  "invc E = True"
| "invc (T c l a r) \<longleftrightarrow>
     (c = RB_RED \<longrightarrow> colour l = RB_BLACK \<and> colour r = RB_BLACK) \<and> invc l \<and> invc r"

fun invh :: "tr \<Rightarrow> bool" where
  "invh E = True"
| "invh (T c l a r) \<longleftrightarrow> bheight l = bheight r \<and> invh l \<and> invh r"

definition rbt :: "tr \<Rightarrow> bool" where
  "rbt t \<longleftrightarrow> invc t \<and> invh t \<and> colour t = RB_BLACK"

text \<open>The path above a subtree of black height \<open>n\<close>: everything off the path is a red-black
  tree of the right height, no two adjacent frames are red, and the topmost is black.\<close>

fun top_black :: "frame list \<Rightarrow> bool" where
  "top_black [] = False"
| "top_black ((d, c, a, sib) # k) = (c = RB_BLACK)"

fun cinv :: "frame list \<Rightarrow> nat \<Rightarrow> bool" where
  "cinv [] n = True"
| "cinv ((d, c, a, sib) # k) n \<longleftrightarrow> invc sib \<and> invh sib \<and> bheight sib = n \<and>
     (c = RB_RED \<longrightarrow> colour sib = RB_BLACK \<and> top_black k) \<and>
     cinv k (if c = RB_BLACK then Suc n else n)"

lemma colour_cases: "c \<noteq> RB_RED \<longleftrightarrow> c = RB_BLACK" "c \<noteq> RB_BLACK \<longleftrightarrow> c = RB_RED"
  by (cases c; simp)+

lemma bheight_paint: "bheight (paint RB_BLACK t) = (if colour t = RB_RED then Suc (bheight t) else bheight t)"
  by (cases t) (auto simp: colour_cases)

lemma invh_paint: "invh t \<Longrightarrow> invh (paint c t)"
  by (cases t) auto

lemma invc_paint: "invc t \<Longrightarrow> invc (paint RB_BLACK t)"
  by (cases t) auto

lemma inv_plug:
  assumes "invc t" and "invh t" and "cinv k (bheight t)" and "colour t = RB_RED \<Longrightarrow> k = [] \<or> top_black k"
  shows "invc (plug t k) \<and> invh (plug t k) \<and> (k \<noteq> [] \<longrightarrow> colour (plug t k) = RB_BLACK)"
  using assms
proof (induction k arbitrary: t)
  case (Cons f k)
  obtain d c a sib where f: "f = (d, c, a, sib)" by (cases f) auto
  have "c = RB_BLACK \<or> colour t = RB_BLACK" using Cons.prems(4) unfolding f by (cases c; cases "colour t") auto
  then have t': "invc (fill t f)" "invh (fill t f)"
    "bheight (fill t f) = (if c = RB_BLACK then Suc (bheight t) else bheight t)" "colour (fill t f) = c"
    using Cons.prems(1-3) unfolding f by (cases d; auto)+
  have "invc (plug (fill t f) k) \<and> invh (plug (fill t f) k) \<and> (k \<noteq> [] \<longrightarrow> colour (plug (fill t f) k) = RB_BLACK)"
    using Cons.prems t' unfolding f by (intro Cons.IH) (auto simp: colour_cases)
  moreover have "k = [] \<Longrightarrow> c = RB_BLACK" using Cons.prems(3) unfolding f by (auto simp: colour_cases)
  ultimately show ?case using t'(4) by auto
qed simp

text \<open>The converse: the invariants seen from a subtree.\<close>

lemma cinv_plug:
  assumes "invc (plug t k)" and "invh (plug t k)" and "k \<noteq> [] \<Longrightarrow> colour (plug t k) = RB_BLACK"
  shows "invc t \<and> invh t \<and> cinv k (bheight t) \<and> (colour t = RB_RED \<longrightarrow> k = [] \<or> top_black k)"
  using assms
proof (induction k arbitrary: t)
  case (Cons f k)
  obtain d c a sib where f: "f = (d, c, a, sib)" by (cases f) auto
  have "invc (fill t f) \<and> invh (fill t f) \<and> cinv k (bheight (fill t f)) \<and>
      (colour (fill t f) = RB_RED \<longrightarrow> k = [] \<or> top_black k)"
    using Cons.prems by (intro Cons.IH) auto
  moreover have "k = [] \<Longrightarrow> c = RB_BLACK" using Cons.prems(3) unfolding f by (cases d) auto
  ultimately show ?case unfolding f by (cases d) (auto simp: colour_cases)
qed simp

subsection \<open>From one store to the next\<close>

definition turns :: "rb_state \<Rightarrow> tr \<Rightarrow> rb_state \<Rightarrow> tr \<Rightarrow> bool" where
  "turns s t s' t' \<longleftrightarrow> holds s' t' \<and> same_outside (set (addrs t)) s s' \<and> addrs t' = addrs t"

lemma turns_refl [simp]: "holds s t \<Longrightarrow> turns s t s t"
  by (simp add: turns_def)

lemma turns_trans [trans]: "turns s t s' t' \<Longrightarrow> turns s' t' s'' t'' \<Longrightarrow> turns s t s'' t''"
  by (auto simp: turns_def intro: same_outside_trans)

lemma turns_holds [dest]: "turns s t s' t' \<Longrightarrow> holds s' t'"
  by (simp add: turns_def)

lemma set_color_turns:
  "holds s (plug t k) \<Longrightarrow>
   \<exists>s'. rb_set_color (rootp t) c s = Some s' \<and> turns s (plug t k) s' (plug (paint c t) k)"
  using set_color_holds [of s t k c] addrs_plug_cong [of "paint c t" t k] by (auto simp: turns_def)

lemma set_color_node_turns:
  "holds s (plug (T c l a r) k) \<Longrightarrow>
   \<exists>s'. rb_set_color (Some a) c' s = Some s' \<and> turns s (plug (T c l a r) k) s' (plug (T c' l a r) k)"
  using set_color_turns [of s "T c l a r" k c'] by simp

lemma rotate_left_turns:
  "holds s (plug (T c A x (T c' B y C)) k) \<Longrightarrow>
   \<exists>s'. rb_rotate_left (Some x) s = Some s' \<and>
     turns s (plug (T c A x (T c' B y C)) k) s' (plug (T c' (T c A x B) y C) k)"
  using rotate_left_holds [of s c A x c' B y C k]
  by (auto simp: turns_def intro!: addrs_plug_cong)

lemma rotate_right_turns:
  "holds s (plug (T c' (T c A x B) y C) k) \<Longrightarrow>
   \<exists>s'. rb_rotate_right (Some y) s = Some s' \<and>
     turns s (plug (T c' (T c A x B) y C) k) s' (plug (T c A x (T c' B y C)) k)"
  using rotate_right_holds [of s c' c A x B y C k]
  by (auto simp: turns_def intro!: addrs_plug_cong)

subsection \<open>One iteration of the repair loop\<close>

lemma insert_fix_left_uncle:
  assumes "holds s (plug (T c (T RB_RED pl p pr) g (T RB_RED ul u ur)) k)"
  shows "\<exists>s'. insert_fix_left node (Some p) (Some g) s = Some (Some g, s') \<and>
    turns s (plug (T c (T RB_RED pl p pr) g (T RB_RED ul u ur)) k)
      s' (plug (T RB_RED (T RB_BLACK pl p pr) g (T RB_BLACK ul u ur)) k)"
proof -
  obtain s1 where s1: "rb_set_color (Some p) RB_BLACK s = Some s1"
    "turns s (plug (T c (T RB_RED pl p pr) g (T RB_RED ul u ur)) k)
      s1 (plug (T c (T RB_BLACK pl p pr) g (T RB_RED ul u ur)) k)"
    using set_color_node_turns [of s RB_RED pl p pr "(L, c, g, T RB_RED ul u ur) # k" RB_BLACK] assms by auto
  obtain s2 where s2: "rb_set_color (Some u) RB_BLACK s1 = Some s2"
    "turns s1 (plug (T c (T RB_BLACK pl p pr) g (T RB_RED ul u ur)) k)
      s2 (plug (T c (T RB_BLACK pl p pr) g (T RB_BLACK ul u ur)) k)"
    using set_color_node_turns [of s1 RB_RED ul u ur "(R, c, g, T RB_BLACK pl p pr) # k" RB_BLACK] s1(2) by auto
  obtain s3 where s3: "rb_set_color (Some g) RB_RED s2 = Some s3"
    "turns s2 (plug (T c (T RB_BLACK pl p pr) g (T RB_BLACK ul u ur)) k)
      s3 (plug (T RB_RED (T RB_BLACK pl p pr) g (T RB_BLACK ul u ur)) k)"
    using set_color_node_turns [of s2 c _ g _ k RB_RED] s2(2) by auto
  have "nodes s g = Some (mk (hole_par None k) (Some p) (Some u) c)"
    and "nodes s u = Some (mk (Some g) (rootp ul) (rootp ur) RB_RED)"
    using assms by (auto simp: holds_plug)
  with s1(1) s2(1) s3(1) have "insert_fix_left node (Some p) (Some g) s = Some (Some g, s3)"
    by (simp add: insert_fix_left_def get_color_def)
  with turns_trans [OF turns_trans [OF s1(2) s2(2)] s3(2)] show ?thesis by blast
qed

lemma insert_fix_left_outer:
  assumes "holds s (plug (T RB_BLACK (T RB_RED X p pr) g u) k)" and "rootp X = Some x" and "colour u = RB_BLACK"
  shows "\<exists>s'. insert_fix_left (Some x) (Some p) (Some g) s = Some (Some x, s') \<and>
    turns s (plug (T RB_BLACK (T RB_RED X p pr) g u) k) s' (plug (T RB_BLACK X p (T RB_RED pr g u)) k)"
proof -
  obtain s1 where s1: "rb_set_color (Some p) RB_BLACK s = Some s1"
    "turns s (plug (T RB_BLACK (T RB_RED X p pr) g u) k) s1 (plug (T RB_BLACK (T RB_BLACK X p pr) g u) k)"
    using set_color_node_turns [of s RB_RED X p pr "(L, RB_BLACK, g, u) # k" RB_BLACK] assms(1) by auto
  obtain s2 where s2: "rb_set_color (Some g) RB_RED s1 = Some s2"
    "turns s1 (plug (T RB_BLACK (T RB_BLACK X p pr) g u) k) s2 (plug (T RB_RED (T RB_BLACK X p pr) g u) k)"
    using set_color_node_turns [of s1 RB_BLACK _ g u k RB_RED] s1(2) by auto
  obtain s3 where s3: "rb_rotate_right (Some g) s2 = Some s3"
    "turns s2 (plug (T RB_RED (T RB_BLACK X p pr) g u) k) s3 (plug (T RB_BLACK X p (T RB_RED pr g u)) k)"
    using rotate_right_turns [of s2 RB_RED RB_BLACK X p pr g u k] s2(2) by auto
  have "nodes s g = Some (mk (hole_par None k) (Some p) (rootp u) RB_BLACK)"
    and "nodes s p = Some (mk (Some g) (Some x) (rootp pr) RB_RED)"
    and "tree_at (nodes s) (Some g) u" and "rootp pr \<noteq> Some x"
    using assms by (auto simp: holds_plug dest: rootp_in_addrs)
  with s1(1) s2(1) s3(1) assms(3)
  have "insert_fix_left (Some x) (Some p) (Some g) s = Some (Some x, s3)"
    by (simp add: insert_fix_left_def get_color_tree)
  with turns_trans [OF turns_trans [OF s1(2) s2(2)] s3(2)] show ?thesis by blast
qed

lemma insert_fix_left_inner:
  assumes "holds s (plug (T RB_BLACK (T RB_RED pl p (T RB_RED l x r)) g u) k)" and "colour u = RB_BLACK"
  shows "\<exists>s'. insert_fix_left (Some x) (Some p) (Some g) s = Some (Some p, s') \<and>
    turns s (plug (T RB_BLACK (T RB_RED pl p (T RB_RED l x r)) g u) k)
      s' (plug (T RB_BLACK (T RB_RED pl p l) x (T RB_RED r g u)) k)"
proof -
  obtain s0 where s0: "rb_rotate_left (Some p) s = Some s0"
    "turns s (plug (T RB_BLACK (T RB_RED pl p (T RB_RED l x r)) g u) k)
      s0 (plug (T RB_BLACK (T RB_RED (T RB_RED pl p l) x r) g u) k)"
    using rotate_left_turns [of s RB_RED pl p RB_RED l x r "(L, RB_BLACK, g, u) # k"] assms(1) by auto
  obtain s1 where s1: "rb_set_color (Some x) RB_BLACK s0 = Some s1"
    "turns s0 (plug (T RB_BLACK (T RB_RED (T RB_RED pl p l) x r) g u) k)
      s1 (plug (T RB_BLACK (T RB_BLACK (T RB_RED pl p l) x r) g u) k)"
    using set_color_node_turns [of s0 RB_RED _ x r "(L, RB_BLACK, g, u) # k" RB_BLACK] s0(2) by auto
  obtain s2 where s2: "rb_set_color (Some g) RB_RED s1 = Some s2"
    "turns s1 (plug (T RB_BLACK (T RB_BLACK (T RB_RED pl p l) x r) g u) k)
      s2 (plug (T RB_RED (T RB_BLACK (T RB_RED pl p l) x r) g u) k)"
    using set_color_node_turns [of s1 RB_BLACK _ g u k RB_RED] s1(2) by auto
  obtain s3 where s3: "rb_rotate_right (Some g) s2 = Some s3"
    "turns s2 (plug (T RB_RED (T RB_BLACK (T RB_RED pl p l) x r) g u) k)
      s3 (plug (T RB_BLACK (T RB_RED pl p l) x (T RB_RED r g u)) k)"
    using rotate_right_turns [of s2 RB_RED RB_BLACK _ x r g u k] s2(2) by auto
  have "nodes s g = Some (mk (hole_par None k) (Some p) (rootp u) RB_BLACK)"
    and "nodes s p = Some (mk (Some g) (rootp pl) (Some x) RB_RED)"
    and "tree_at (nodes s) (Some g) u"
    using assms by (auto simp: holds_plug)
  with s0(1) s1(1) s2(1) s3(1) assms(2)
  have "insert_fix_left (Some x) (Some p) (Some g) s = Some (Some p, s3)"
    by (simp add: insert_fix_left_def get_color_tree)
  with turns_trans [OF turns_trans [OF turns_trans [OF s0(2) s1(2)] s2(2)] s3(2)] show ?thesis by blast
qed


text \<open>The mirror image: the parent is a right child.\<close>

lemma insert_fix_right_uncle:
  assumes "holds s (plug (T c (T RB_RED ul u ur) g (T RB_RED pl p pr)) k)"
  shows "\<exists>s'. insert_fix_right node (Some p) (Some g) s = Some (Some g, s') \<and>
    turns s (plug (T c (T RB_RED ul u ur) g (T RB_RED pl p pr)) k)
      s' (plug (T RB_RED (T RB_BLACK ul u ur) g (T RB_BLACK pl p pr)) k)"
proof -
  obtain s1 where s1: "rb_set_color (Some p) RB_BLACK s = Some s1"
    "turns s (plug (T c (T RB_RED ul u ur) g (T RB_RED pl p pr)) k)
      s1 (plug (T c (T RB_RED ul u ur) g (T RB_BLACK pl p pr)) k)"
    using set_color_node_turns [of s RB_RED pl p pr "(R, c, g, T RB_RED ul u ur) # k" RB_BLACK] assms by auto
  obtain s2 where s2: "rb_set_color (Some u) RB_BLACK s1 = Some s2"
    "turns s1 (plug (T c (T RB_RED ul u ur) g (T RB_BLACK pl p pr)) k)
      s2 (plug (T c (T RB_BLACK ul u ur) g (T RB_BLACK pl p pr)) k)"
    using set_color_node_turns [of s1 RB_RED ul u ur "(L, c, g, T RB_BLACK pl p pr) # k" RB_BLACK] s1(2) by auto
  obtain s3 where s3: "rb_set_color (Some g) RB_RED s2 = Some s3"
    "turns s2 (plug (T c (T RB_BLACK ul u ur) g (T RB_BLACK pl p pr)) k)
      s3 (plug (T RB_RED (T RB_BLACK ul u ur) g (T RB_BLACK pl p pr)) k)"
    using set_color_node_turns [of s2 c _ g _ k RB_RED] s2(2) by auto
  have "nodes s g = Some (mk (hole_par None k) (Some u) (Some p) c)"
    and "nodes s u = Some (mk (Some g) (rootp ul) (rootp ur) RB_RED)"
    using assms by (auto simp: holds_plug)
  with s1(1) s2(1) s3(1) have "insert_fix_right node (Some p) (Some g) s = Some (Some g, s3)"
    by (simp add: insert_fix_right_def get_color_def)
  with turns_trans [OF turns_trans [OF s1(2) s2(2)] s3(2)] show ?thesis by blast
qed

lemma insert_fix_right_outer:
  assumes "holds s (plug (T RB_BLACK u g (T RB_RED pl p X)) k)" and "rootp X = Some x" and "colour u = RB_BLACK"
  shows "\<exists>s'. insert_fix_right (Some x) (Some p) (Some g) s = Some (Some x, s') \<and>
    turns s (plug (T RB_BLACK u g (T RB_RED pl p X)) k) s' (plug (T RB_BLACK (T RB_RED u g pl) p X) k)"
proof -
  obtain s1 where s1: "rb_set_color (Some p) RB_BLACK s = Some s1"
    "turns s (plug (T RB_BLACK u g (T RB_RED pl p X)) k) s1 (plug (T RB_BLACK u g (T RB_BLACK pl p X)) k)"
    using set_color_node_turns [of s RB_RED pl p X "(R, RB_BLACK, g, u) # k" RB_BLACK] assms(1) by auto
  obtain s2 where s2: "rb_set_color (Some g) RB_RED s1 = Some s2"
    "turns s1 (plug (T RB_BLACK u g (T RB_BLACK pl p X)) k) s2 (plug (T RB_RED u g (T RB_BLACK pl p X)) k)"
    using set_color_node_turns [of s1 RB_BLACK u g _ k RB_RED] s1(2) by auto
  obtain s3 where s3: "rb_rotate_left (Some g) s2 = Some s3"
    "turns s2 (plug (T RB_RED u g (T RB_BLACK pl p X)) k) s3 (plug (T RB_BLACK (T RB_RED u g pl) p X) k)"
    using rotate_left_turns [of s2 RB_RED u g RB_BLACK pl p X k] s2(2) by auto
  have "nodes s g = Some (mk (hole_par None k) (rootp u) (Some p) RB_BLACK)"
    and "nodes s p = Some (mk (Some g) (rootp pl) (Some x) RB_RED)"
    and "tree_at (nodes s) (Some g) u" and "rootp pl \<noteq> Some x"
    using assms by (auto simp: holds_plug dest!: rootp_in_addrs)
  with s1(1) s2(1) s3(1) assms(3)
  have "insert_fix_right (Some x) (Some p) (Some g) s = Some (Some x, s3)"
    by (simp add: insert_fix_right_def get_color_tree)
  with turns_trans [OF turns_trans [OF s1(2) s2(2)] s3(2)] show ?thesis by blast
qed

lemma insert_fix_right_inner:
  assumes "holds s (plug (T RB_BLACK u g (T RB_RED (T RB_RED l x r) p pr)) k)" and "colour u = RB_BLACK"
  shows "\<exists>s'. insert_fix_right (Some x) (Some p) (Some g) s = Some (Some p, s') \<and>
    turns s (plug (T RB_BLACK u g (T RB_RED (T RB_RED l x r) p pr)) k)
      s' (plug (T RB_BLACK (T RB_RED u g l) x (T RB_RED r p pr)) k)"
proof -
  obtain s0 where s0: "rb_rotate_right (Some p) s = Some s0"
    "turns s (plug (T RB_BLACK u g (T RB_RED (T RB_RED l x r) p pr)) k)
      s0 (plug (T RB_BLACK u g (T RB_RED l x (T RB_RED r p pr))) k)"
    using rotate_right_turns [of s RB_RED RB_RED l x r p pr "(R, RB_BLACK, g, u) # k"] assms(1) by auto
  obtain s1 where s1: "rb_set_color (Some x) RB_BLACK s0 = Some s1"
    "turns s0 (plug (T RB_BLACK u g (T RB_RED l x (T RB_RED r p pr))) k)
      s1 (plug (T RB_BLACK u g (T RB_BLACK l x (T RB_RED r p pr))) k)"
    using set_color_node_turns [of s0 RB_RED l x _ "(R, RB_BLACK, g, u) # k" RB_BLACK] s0(2) by auto
  obtain s2 where s2: "rb_set_color (Some g) RB_RED s1 = Some s2"
    "turns s1 (plug (T RB_BLACK u g (T RB_BLACK l x (T RB_RED r p pr))) k)
      s2 (plug (T RB_RED u g (T RB_BLACK l x (T RB_RED r p pr))) k)"
    using set_color_node_turns [of s1 RB_BLACK u g _ k RB_RED] s1(2) by auto
  obtain s3 where s3: "rb_rotate_left (Some g) s2 = Some s3"
    "turns s2 (plug (T RB_RED u g (T RB_BLACK l x (T RB_RED r p pr))) k)
      s3 (plug (T RB_BLACK (T RB_RED u g l) x (T RB_RED r p pr)) k)"
    using rotate_left_turns [of s2 RB_RED u g RB_BLACK l x _ k] s2(2) by auto
  have "nodes s g = Some (mk (hole_par None k) (rootp u) (Some p) RB_BLACK)"
    and "nodes s p = Some (mk (Some g) (Some x) (rootp pr) RB_RED)"
    and "tree_at (nodes s) (Some g) u"
    using assms by (auto simp: holds_plug)
  with s0(1) s1(1) s2(1) s3(1) assms(2)
  have "insert_fix_right (Some x) (Some p) (Some g) s = Some (Some p, s3)"
    by (simp add: insert_fix_right_def get_color_tree)
  with turns_trans [OF turns_trans [OF turns_trans [OF s0(2) s1(2)] s2(2)] s3(2)] show ?thesis by blast
qed

subsection \<open>The loop\<close>

lemma insert_fix_step_red:
  assumes "holds s (plug (T c l x r) ((d, RB_RED, p, sib) # (d', c', g, u) # k))"
  shows "insert_fix_step (Some x) s = map_option Some
    (if d' = L then insert_fix_left (Some x) (Some p) (Some g) s else insert_fix_right (Some x) (Some p) (Some g) s)"
proof -
  have "nodes s x = Some (mk (Some p) (rootp l) (rootp r) c)"
    "\<exists>a b. nodes s p = Some (mk (Some g) a b RB_RED)"
    "\<exists>b. nodes s g = Some (mk (hole_par None k) (if d' = L then Some p else rootp u) b c')"
    and "rootp u \<noteq> Some p"
    using assms by (cases d; cases d'; auto simp: holds_plug dest!: rootp_in_addrs)+
  then show ?thesis
    by (auto simp: insert_fix_step_def get_parent_def get_color_def map_conv_bind_option comp_def)
qed

lemma insert_fix_loop_stops:
  assumes "holds s (plug (T c l x r) k)" and "\<not> (\<exists>d p sib k'. k = (d, RB_RED, p, sib) # k')"
  shows "insert_fix_loop (Some x) s = Some s"
proof (cases k)
  case Nil
  with holds_node [OF assms(1)] show ?thesis
    by (simp add: insert_fix_loop.simps [of "Some x"] insert_fix_step_def get_parent_def get_color_def)
next
  case (Cons f k')
  obtain d c' p sib where f: "f = (d, c', p, sib)" by (cases f) auto
  with assms Cons have "c' = RB_BLACK" by (auto simp: colour_cases)
  with assms(1) show ?thesis unfolding Cons f
    by (cases d) (auto simp: insert_fix_loop.simps [of "Some x"] insert_fix_step_def holds_plug get_parent_def get_color_def)
qed

text \<open>The result of a loop that started with the tree \<open>t\<close>.\<close>

definition repaired :: "ptr \<Rightarrow> rb_state \<Rightarrow> tr \<Rightarrow> bool" where
  "repaired p s t \<longleftrightarrow> (\<exists>s' t'. insert_fix_loop p s = Some s' \<and> turns s t s' t' \<and> invh t' \<and> invc (paint RB_BLACK t'))"

lemma repaired_stop:
  assumes "holds s (plug (T c l x r) k)" and "\<not> (\<exists>d p sib k'. k = (d, RB_RED, p, sib) # k')"
    and "invc (T c l x r)" and "invh (T c l x r)" and "cinv k (bheight (T c l x r))"
  shows "repaired (Some x) s (plug (T c l x r) k)"
proof -
  have "colour (T c l x r) = RB_RED \<Longrightarrow> k = [] \<or> top_black k"
    using assms(2) by (cases k) (auto simp: colour_cases)
  then have "invc (plug (T c l x r) k) \<and> invh (plug (T c l x r) k)"
    using inv_plug [OF assms(3-5)] by blast
  with insert_fix_loop_stops [OF assms(1,2)] turns_refl [OF assms(1)] invc_paint show ?thesis
    unfolding repaired_def by blast
qed

lemma repaired_step:
  assumes "holds s (plug (T c l x r) ((d, RB_RED, p, sib) # (d', c', g, u) # k))"
    and "(if d' = L then insert_fix_left (Some x) (Some p) (Some g) s
      else insert_fix_right (Some x) (Some p) (Some g) s) = Some (q, s')"
    and "turns s (plug (T c l x r) ((d, RB_RED, p, sib) # (d', c', g, u) # k)) s' t'" and "repaired q s' t'"
  shows "repaired (Some x) s (plug (T c l x r) ((d, RB_RED, p, sib) # (d', c', g, u) # k))"
proof -
  have "insert_fix_loop (Some x) s = insert_fix_loop q s'"
    using insert_fix_step_red [OF assms(1)] assms(2) by (simp add: insert_fix_loop.simps [of "Some x"])
  with assms(3,4) show ?thesis by (auto simp: repaired_def intro: turns_trans)
qed


abbreviation fix_at :: "side \<Rightarrow> ptr \<Rightarrow> ptr \<Rightarrow> ptr \<Rightarrow> rb_state \<Rightarrow> (ptr \<times> rb_state) option" where
  "fix_at d x p g s \<equiv> (if d = L then insert_fix_left x p g s else insert_fix_right x p g s)"

text \<open>A red uncle: the violation moves two levels up.\<close>

lemma red_uncle_step:
  assumes "holds s (plug (T RB_RED l x r) ((d, RB_RED, p, sib) # (d', RB_BLACK, g, T RB_RED ul b ur) # k))"
    and "invc (T RB_RED l x r)" and "invh (T RB_RED l x r)"
    and "cinv ((d, RB_RED, p, sib) # (d', RB_BLACK, g, T RB_RED ul b ur) # k) (bheight l)"
  shows "\<exists>s' A B. fix_at d' (Some x) (Some p) (Some g) s = Some (Some g, s') \<and>
    turns s (plug (T RB_RED l x r) ((d, RB_RED, p, sib) # (d', RB_BLACK, g, T RB_RED ul b ur) # k))
      s' (plug (T RB_RED A g B) k) \<and>
    invc (T RB_RED A g B) \<and> invh (T RB_RED A g B) \<and> cinv k (bheight A)"
proof -
  let ?X = "T RB_RED l x r"
  let ?pl = "if d = L then ?X else sib" and ?pr = "if d = L then sib else ?X"
  have P: "fill ?X (d, c, p, sib) = T c ?pl p ?pr" for c by (cases d) auto
  have inv: "invc (T RB_BLACK ?pl p ?pr)" "invh (T RB_BLACK ?pl p ?pr)"
    "bheight (T RB_BLACK ?pl p ?pr) = Suc (bheight l)"
    and u: "invc (T RB_BLACK ul b ur)" "invh (T RB_BLACK ul b ur)" "bheight (T RB_BLACK ul b ur) = Suc (bheight l)"
    and k: "cinv k (Suc (bheight l))"
    using assms(2-4) by auto
  show ?thesis
  proof (cases d')
    case L
    from insert_fix_left_uncle [of s RB_BLACK ?pl p ?pr g ul b ur k "Some x"] assms(1) obtain s' where
      "insert_fix_left (Some x) (Some p) (Some g) s = Some (Some g, s')"
      "turns s (plug ?X ((d, RB_RED, p, sib) # (d', RB_BLACK, g, T RB_RED ul b ur) # k))
        s' (plug (T RB_RED (T RB_BLACK ?pl p ?pr) g (T RB_BLACK ul b ur)) k)"
      unfolding L plug_simps P by auto
    with L inv u k show ?thesis
      by (intro exI [of _ s'] exI [of _ "T RB_BLACK ?pl p ?pr"] exI [of _ "T RB_BLACK ul b ur"]) simp
  next
    case R
    from insert_fix_right_uncle [of s RB_BLACK ul b ur g ?pl p ?pr k "Some x"] assms(1) obtain s' where
      "insert_fix_right (Some x) (Some p) (Some g) s = Some (Some g, s')"
      "turns s (plug ?X ((d, RB_RED, p, sib) # (d', RB_BLACK, g, T RB_RED ul b ur) # k))
        s' (plug (T RB_RED (T RB_BLACK ul b ur) g (T RB_BLACK ?pl p ?pr)) k)"
      unfolding R plug_simps P by auto
    with R inv u k show ?thesis
      by (intro exI [of _ s'] exI [of _ "T RB_BLACK ul b ur"] exI [of _ "T RB_BLACK ?pl p ?pr"]) simp
  qed
qed

text \<open>A black uncle: one or two rotations, after which the node's parent is black.\<close>

lemma black_uncle_step:
  assumes h: "holds s (plug (T RB_RED l x r) ((d, RB_RED, p, sib) # (d', RB_BLACK, g, u) # k))"
    and i: "invc (T RB_RED l x r)" "invh (T RB_RED l x r)"
    "cinv ((d, RB_RED, p, sib) # (d', RB_BLACK, g, u) # k) (bheight l)" and u: "colour u = RB_BLACK"
  shows "\<exists>s' A q B dd y C. fix_at d' (Some x) (Some p) (Some g) s = Some (Some q, s') \<and>
    turns s (plug (T RB_RED l x r) ((d, RB_RED, p, sib) # (d', RB_BLACK, g, u) # k))
      s' (plug (T RB_RED A q B) ((dd, RB_BLACK, y, C) # k)) \<and>
    invc (T RB_RED A q B) \<and> invh (T RB_RED A q B) \<and> cinv ((dd, RB_BLACK, y, C) # k) (bheight A)"
    (is "\<exists>s' A q B dd y C. ?P s' A q B dd y C")
proof (cases d'; cases d)
  assume d: "d' = L" "d = L"
  from insert_fix_left_outer [of s "T RB_RED l x r" p sib g u k x] h u d obtain s' where
    "insert_fix_left (Some x) (Some p) (Some g) s = Some (Some x, s')"
    "turns s (plug (T RB_RED l x r) ((d, RB_RED, p, sib) # (d', RB_BLACK, g, u) # k))
      s' (plug (T RB_RED l x r) ((L, RB_BLACK, p, T RB_RED sib g u) # k))" by auto
  with i u d have "?P s' l x r L p (T RB_RED sib g u)" by simp
  then show ?thesis by blast
next
  assume d: "d' = L" "d = R"
  from insert_fix_left_inner [of s sib p l x r g u k] h u d obtain s' where
    "insert_fix_left (Some x) (Some p) (Some g) s = Some (Some p, s')"
    "turns s (plug (T RB_RED l x r) ((d, RB_RED, p, sib) # (d', RB_BLACK, g, u) # k))
      s' (plug (T RB_RED sib p l) ((L, RB_BLACK, x, T RB_RED r g u) # k))" by auto
  with i u d have "?P s' sib p l L x (T RB_RED r g u)" by simp
  then show ?thesis by blast
next
  assume d: "d' = R" "d = R"
  from insert_fix_right_outer [of s u g sib p "T RB_RED l x r" k x] h u d obtain s' where
    "insert_fix_right (Some x) (Some p) (Some g) s = Some (Some x, s')"
    "turns s (plug (T RB_RED l x r) ((d, RB_RED, p, sib) # (d', RB_BLACK, g, u) # k))
      s' (plug (T RB_RED l x r) ((R, RB_BLACK, p, T RB_RED u g sib) # k))" by auto
  with i u d have "?P s' l x r R p (T RB_RED u g sib)" by simp
  then show ?thesis by blast
next
  assume d: "d' = R" "d = L"
  from insert_fix_right_inner [of s u g l x r p sib k] h u d obtain s' where
    "insert_fix_right (Some x) (Some p) (Some g) s = Some (Some p, s')"
    "turns s (plug (T RB_RED l x r) ((d, RB_RED, p, sib) # (d', RB_BLACK, g, u) # k))
      s' (plug (T RB_RED r p sib) ((R, RB_BLACK, x, T RB_RED u g l) # k))" by auto
  with i u d have "?P s' r p sib R x (T RB_RED u g l)" by simp
  then show ?thesis by blast
qed

lemma insert_fix_loop_repairs:
  assumes "holds s (plug (T RB_RED l x r) k)" and "invc (T RB_RED l x r)" and "invh (T RB_RED l x r)"
    and "cinv k (bheight l)"
  shows "repaired (Some x) s (plug (T RB_RED l x r) k)"
  using assms
proof (induction "length k" arbitrary: k l x r s rule: less_induct)
  case less
  show ?case
  proof (cases "\<exists>d p sib k'. k = (d, RB_RED, p, sib) # k'")
    case False
    with less.prems show ?thesis by (intro repaired_stop) auto
  next
    case True
    then obtain d p sib k1 where k1: "k = (d, RB_RED, p, sib) # k1" by blast
    with less.prems(4) have "top_black k1" by simp
    then obtain d' g u k' where k: "k = (d, RB_RED, p, sib) # (d', RB_BLACK, g, u) # k'"
      using k1 by (cases k1 rule: top_black.cases) auto
    note step = repaired_step [OF less.prems(1) [unfolded k]]
    show ?thesis
    proof (cases "colour u = RB_RED")
      case True
      then obtain ul b ur where u: "u = T RB_RED ul b ur" by (cases u) auto
      from red_uncle_step [OF less.prems [unfolded k u]] obtain s' A B where
        s': "fix_at d' (Some x) (Some p) (Some g) s = Some (Some g, s')"
        "turns s (plug (T RB_RED l x r) k) s' (plug (T RB_RED A g B) k')"
        and i: "invc (T RB_RED A g B)" "invh (T RB_RED A g B)" "cinv k' (bheight A)"
        unfolding k u by blast
      have "repaired (Some g) s' (plug (T RB_RED A g B) k')"
        by (rule less.hyps) (use i s' k in auto)
      then show ?thesis unfolding k by (rule step [OF s'(1) s'(2) [unfolded k]])
    next
      case False
      then have u: "colour u = RB_BLACK" by (simp add: colour_cases)
      from black_uncle_step [OF less.prems [unfolded k] u] obtain s' A q B dd y C where
        s': "fix_at d' (Some x) (Some p) (Some g) s = Some (Some q, s')"
        "turns s (plug (T RB_RED l x r) k) s' (plug (T RB_RED A q B) ((dd, RB_BLACK, y, C) # k'))"
        and i: "invc (T RB_RED A q B)" "invh (T RB_RED A q B)" "cinv ((dd, RB_BLACK, y, C) # k') (bheight A)"
        unfolding k by blast
      have "repaired (Some q) s' (plug (T RB_RED A q B) ((dd, RB_BLACK, y, C) # k'))"
        by (rule repaired_stop) (use i s' in auto)
      then show ?thesis unfolding k by (rule step [OF s'(1) s'(2) [unfolded k]])
    qed
  qed
qed

text \<open>\<open>rb_link_node\<close> writes the fields of the new node and the child pointer it is hung on; seen
  from the empty position \<open>k\<close> of the tree, it puts a red leaf there.\<close>

fun link_of :: "frame list \<Rightarrow> rb_link" where
  "link_of [] = Root_Link"
| "link_of ((L, c, p, sib) # k) = Left_Link p"
| "link_of ((R, c, p, sib) # k) = Right_Link p"

lemma rb_link_node_holds:
  assumes "holds s (plug E k)" and "x \<notin> set (addrs (plug E k))" and "nodes s x = Some n"
  shows "\<exists>s'. rb_link_node (Some x) (hole_par None k) (link_of k) s = Some s' \<and>
    holds s' (plug (T RB_RED E x E) k) \<and> same_outside (insert x (set (addrs (plug E k)))) s s'"
proof (cases k rule: top_black.cases)
  case 1
  with assms show ?thesis by (cases n) (auto simp: rb_link_node_def holds_def same_outside_def)
next
  case (2 d c p sib k')
  have x: "x \<noteq> p" "x \<notin> set (path_addrs k)" using assms(2) by (auto simp: set_addrs_plug set_addrs_fill 2)
  with assms show ?thesis unfolding 2
    by (cases d; cases n)
      (auto simp: rb_link_node_def holds_plug same_outside_def set_addrs_plug set_addrs_fill)
qed

lemma rb_insert_color_holds:
  assumes "rbt (plug E k)" and "holds s (plug (T RB_RED E x E) k)"
  shows "\<exists>s' t'. rb_insert_color (Some x) s = Some s' \<and> turns s (plug (T RB_RED E x E) k) s' t' \<and> rbt t'"
proof -
  have "cinv k 0" using cinv_plug [of E k] assms(1) by (simp add: rbt_def)
  then have "repaired (Some x) s (plug (T RB_RED E x E) k)"
    by (intro insert_fix_loop_repairs assms) auto
  then obtain s1 t1 where s1: "insert_fix_loop (Some x) s = Some s1"
    "turns s (plug (T RB_RED E x E) k) s1 t1" "invh t1" "invc (paint RB_BLACK t1)"
    by (auto simp: repaired_def)
  from set_color_turns [of s1 t1 "[]" RB_BLACK] s1(2) obtain s2 where
    s2: "rb_set_color (rootp t1) RB_BLACK s1 = Some s2" "turns s1 t1 s2 (paint RB_BLACK t1)" by auto
  have "root s1 = rootp t1" using s1(2) by (auto simp: turns_def holds_def)
  moreover have "colour (paint RB_BLACK t1) = RB_BLACK" by (cases t1) auto
  ultimately show ?thesis using s1 s2 turns_trans [OF s1(2) s2(2)] invh_paint
    by (auto simp: rb_insert_color_def rbt_def)
qed

end
