(* ===== verification/Rbtree_Erase.thy ===== *)
theory Rbtree_Erase
  imports Rbtree_Insert
begin

text \<open>
  The removal side of \<^verbatim>\<open>rbtree.c\<close>. The repair loop \<open>rb_erase_color\<close> starts from a tree in which
  one subtree has a black height one too small; every iteration either moves that subtree one
  level up or mends the tree. The two mirror-image halves of the code are treated at once:
  \<open>N d c near a far\<close> is a node whose child on side \<open>d\<close> is \<open>near\<close>.
\<close>

definition N :: "side \<Rightarrow> rb_colour \<Rightarrow> tr \<Rightarrow> nat \<Rightarrow> tr \<Rightarrow> tr" where
  "N d c l a r = (if d = L then T c l a r else T c r a l)"

fun flip :: "side \<Rightarrow> side" where
  "flip L = R"
| "flip R = L"

abbreviation rot :: "side \<Rightarrow> ptr \<Rightarrow> rb_state \<Rightarrow> rb_state option" where
  "rot d \<equiv> (if d = L then rb_rotate_left else rb_rotate_right)"

lemma fill_N [simp]: "fill t (d, c, a, sib) = N d c t a sib"
  by (cases d) (simp_all add: N_def)

lemma N_flip [simp]: "N (flip d) c l a r = N d c r a l"
  by (cases d) (simp_all add: N_def)

declare fill.simps [simp del]

lemma N_simps [simp]:
  "rootp (N d c l a r) = Some a" "colour (N d c l a r) = c" "paint c' (N d c l a r) = N d c' l a r"
  "set (addrs (N d c l a r)) = insert a (set (addrs l) \<union> set (addrs r))"
  "invc (N d c l a r) \<longleftrightarrow> (c = RB_RED \<longrightarrow> colour l = RB_BLACK \<and> colour r = RB_BLACK) \<and> invc l \<and> invc r"
  "invh (N d c l a r) \<longleftrightarrow> bheight l = bheight r \<and> invh l \<and> invh r"
  "bheight l = bheight r \<Longrightarrow> bheight (N d c l a r) = (if c = RB_BLACK then Suc (bheight l) else bheight l)"
  by (auto simp: N_def)

lemma tree_cases_N: "t = E \<or> (\<exists>c l a r. t = N d c l a r)"
  by (cases t; cases d) (auto simp: N_def)

lemma set_color_N:
  "holds s (plug (N d c l a r) k) \<Longrightarrow>
   \<exists>s'. rb_set_color (Some a) c' s = Some s' \<and> turns s (plug (N d c l a r) k) s' (plug (N d c' l a r) k)"
  using set_color_turns [of s "N d c l a r" k c'] by simp

lemma rot_N:
  "holds s (plug (N d c A x (N d c' B y C)) k) \<Longrightarrow>
   \<exists>s'. rot d (Some x) s = Some s' \<and>
     turns s (plug (N d c A x (N d c' B y C)) k) s' (plug (N d c' (N d c A x B) y C) k)"
  using rotate_left_turns [of s c A x c' B y C k] rotate_right_turns [of s c c' C y B x A k]
  by (cases d) (auto simp: N_def)

lemma rot_flip_N:
  "holds s (plug (N d c (N d c' A x B) y C) k) \<Longrightarrow>
   \<exists>s'. rot (flip d) (Some y) s = Some s' \<and>
     turns s (plug (N d c (N d c' A x B) y C) k) s' (plug (N d c' A x (N d c B y C)) k)"
  using rot_N [of s "flip d" c C y c' B x A k] by simp

definition far :: "side \<Rightarrow> rb_node \<Rightarrow> ptr" where
  "far d n = (if d = L then rb_right n else rb_left n)"

definition near :: "side \<Rightarrow> rb_node \<Rightarrow> ptr" where
  "near d n = (if d = L then rb_left n else rb_right n)"

lemma ld_N:
  assumes "holds s (plug (N d c l a r) k)"
  shows "ld (near d) (Some a) s = Some (rootp l)" "ld (far d) (Some a) s = Some (rootp r)"
    "get_color (Some a) s = Some c" "get_parent (Some a) s = Some (hole_par None k)"
  using assms by (cases d; auto simp: N_def near_def far_def holds_plug get_color_def get_parent_def)+

lemma get_color_holds: "holds s (plug t k) \<Longrightarrow> get_color (rootp t) s = Some (colour t)"
  by (auto simp: holds_plug intro: get_color_tree)

lemma black_kid_N:
  assumes "holds s (plug (N d c l a r) k)"
  shows "black_kid (near d) (Some a) s = Some (colour l = RB_BLACK)"
    "black_kid (far d) (Some a) s = Some (colour r = RB_BLACK)"
proof -
  have "get_color (rootp l) s = Some (colour l)" "get_color (rootp r) s = Some (colour r)"
    using get_color_holds [of s l "(d, c, a, r) # k"] get_color_holds [of s r "(flip d, c, a, l) # k"] assms
    by simp_all
  with ld_N [OF assms] show "black_kid (near d) (Some a) s = Some (colour l = RB_BLACK)"
    "black_kid (far d) (Some a) s = Some (colour r = RB_BLACK)"
    by (auto simp: black_kid_def)
qed

subsection \<open>The halves of an iteration, by side\<close>

abbreviation erase_red_sibling :: "side \<Rightarrow> ptr \<Rightarrow> rb_state \<Rightarrow> (ptr \<times> rb_state) option" where
  "erase_red_sibling d \<equiv> (if d = L then erase_red_sibling_left else erase_red_sibling_right)"

abbreviation erase_black_sibling :: "side \<Rightarrow> ptr \<Rightarrow> ptr \<Rightarrow> rb_state \<Rightarrow> erase_next option" where
  "erase_black_sibling d \<equiv> (if d = L then erase_black_sibling_left else erase_black_sibling_right)"

abbreviation erase_far_kid :: "side \<Rightarrow> ptr \<Rightarrow> ptr \<Rightarrow> rb_state \<Rightarrow> erase_next option" where
  "erase_far_kid d \<equiv> (if d = L then erase_far_kid_left else erase_far_kid_right)"

abbreviation erase_fix :: "side \<Rightarrow> ptr \<Rightarrow> ptr \<Rightarrow> rb_state \<Rightarrow> erase_next option" where
  "erase_fix d \<equiv> (if d = L then erase_fix_left else erase_fix_right)"

lemma far_near_eta: "far L = rb_right" "far R = rb_left" "near L = rb_left" "near R = rb_right"
  by (auto simp: far_def near_def)

lemma erase_red_sibling_eq:
  "erase_red_sibling d parent s = do {
     sibling \<leftarrow> ld (far d) parent s;
     sc \<leftarrow> get_color sibling s;
     if sc = RB_RED
     then do {
       s \<leftarrow> rb_set_color sibling RB_BLACK s;
       s \<leftarrow> rb_set_color parent RB_RED s;
       s \<leftarrow> rot d parent s;
       sibling \<leftarrow> ld (far d) parent s;
       Some (sibling, s)
     }
     else Some (sibling, s)
   }"
  by (cases d) (simp_all add: erase_red_sibling_left_def erase_red_sibling_right_def far_near_eta)

lemma erase_far_kid_eq:
  "erase_far_kid d parent sibling s = do {
     pc \<leftarrow> get_color parent s;
     s \<leftarrow> rb_set_color sibling pc s;
     s \<leftarrow> rb_set_color parent RB_BLACK s;
     k \<leftarrow> ld (far d) sibling s;
     s \<leftarrow> rb_set_color k RB_BLACK s;
     s \<leftarrow> rot d parent s;
     Some (Inr (root s, s))
   }"
  by (cases d) (simp_all add: erase_far_kid_left_def erase_far_kid_right_def far_near_eta)

lemma erase_black_sibling_eq:
  assumes "black_kid (near d) sibling s = Some bn" and "black_kid (far d) sibling s = Some bf"
  shows "erase_black_sibling d parent sibling s =
    (if bn \<and> bf
     then do {
       s \<leftarrow> rb_set_color sibling RB_RED s;
       parent' \<leftarrow> get_parent parent s;
       Some (Inl (parent, parent', s))
     }
     else if bf
     then do {
       k \<leftarrow> ld (near d) sibling s;
       s \<leftarrow> rb_set_color k RB_BLACK s;
       s \<leftarrow> rb_set_color sibling RB_RED s;
       s \<leftarrow> rot (flip d) sibling s;
       sibling \<leftarrow> ld (far d) parent s;
       erase_far_kid d parent sibling s
     }
     else erase_far_kid d parent sibling s)"
  using assms
  by (cases d) (simp_all add: erase_black_sibling_left_def erase_black_sibling_right_def far_near_eta conj_commute)

lemma erase_fix_eq: "erase_fix d node parent s = do {
    (sibling, s) \<leftarrow> erase_red_sibling d parent s;
    erase_black_sibling d parent sibling s }"
  by (cases d) (simp_all add: erase_fix_left_def erase_fix_right_def)

subsection \<open>What one iteration does to the tree\<close>

text \<open>Case 4: the far nephew is red.\<close>

lemma erase_far_kid_turns:
  assumes "holds s (plug (N d c t p (N d c' wl w wr)) k)"
  shows "\<exists>s'. erase_far_kid d (Some p) (Some w) s = Some (Inr (root s', s')) \<and>
    turns s (plug (N d c t p (N d c' wl w wr)) k) s' (plug (N d c (N d RB_BLACK t p wl) w (paint RB_BLACK wr)) k)"
proof -
  obtain s1 where s1: "rb_set_color (Some w) c s = Some s1"
    "turns s (plug (N d c t p (N d c' wl w wr)) k) s1 (plug (N d c t p (N d c wl w wr)) k)"
    using set_color_N [of s d c' wl w wr "(flip d, c, p, t) # k" c] assms by auto
  obtain s2 where s2: "rb_set_color (Some p) RB_BLACK s1 = Some s2"
    "turns s1 (plug (N d c t p (N d c wl w wr)) k) s2 (plug (N d RB_BLACK t p (N d c wl w wr)) k)"
    using set_color_N [of s1 d c t p _ k RB_BLACK] s1(2) by blast
  obtain s3 where s3: "rb_set_color (rootp wr) RB_BLACK s2 = Some s3"
    "turns s2 (plug (N d RB_BLACK t p (N d c wl w wr)) k) s3 (plug (N d RB_BLACK t p (N d c wl w (paint RB_BLACK wr))) k)"
    using set_color_turns [of s2 wr "(flip d, c, w, wl) # (flip d, RB_BLACK, p, t) # k" RB_BLACK] s2(2) by auto
  obtain s4 where s4: "rot d (Some p) s3 = Some s4"
    "turns s3 (plug (N d RB_BLACK t p (N d c wl w (paint RB_BLACK wr))) k)
      s4 (plug (N d c (N d RB_BLACK t p wl) w (paint RB_BLACK wr)) k)"
    using rot_N [of s3 d RB_BLACK t p c wl w "paint RB_BLACK wr" k] s3(2) by blast
  have "get_color (Some p) s = Some c" using ld_N [OF assms] by simp
  moreover have "ld (far d) (Some w) s2 = Some (rootp wr)"
    using ld_N [of s2 d c wl w wr "(flip d, RB_BLACK, p, t) # k"] s2(2) by auto
  ultimately have "erase_far_kid d (Some p) (Some w) s = Some (Inr (root s4, s4))"
    unfolding erase_far_kid_eq using s1(1) s2(1) s3(1) s4(1) by simp
  with turns_trans [OF turns_trans [OF turns_trans [OF s1(2) s2(2)] s3(2)] s4(2)] show ?thesis by blast
qed

text \<open>Case 2: both nephews are black.\<close>

lemma erase_black_sibling_up:
  assumes "holds s (plug (N d c t p (N d c' wl w wr)) k)"
    and "colour wl = RB_BLACK" and "colour wr = RB_BLACK"
  shows "\<exists>s'. erase_black_sibling d (Some p) (Some w) s = Some (Inl (Some p, hole_par None k, s')) \<and>
    turns s (plug (N d c t p (N d c' wl w wr)) k) s' (plug (N d c t p (N d RB_RED wl w wr)) k)"
proof -
  have w: "holds s (plug (N d c' wl w wr) ((flip d, c, p, t) # k))" using assms(1) by simp
  obtain s1 where s1: "rb_set_color (Some w) RB_RED s = Some s1"
    "turns s (plug (N d c t p (N d c' wl w wr)) k) s1 (plug (N d c t p (N d RB_RED wl w wr)) k)"
    using set_color_N [OF w, of RB_RED] by auto
  have "get_parent (Some p) s1 = Some (hole_par None k)"
    using ld_N [of s1 d c t p _ k] s1(2) by blast
  with s1(1) have "erase_black_sibling d (Some p) (Some w) s = Some (Inl (Some p, hole_par None k, s1))"
    unfolding erase_black_sibling_eq [OF black_kid_N [OF w]] using assms(2,3) by simp
  with s1(2) show ?thesis by blast
qed

text \<open>Cases 3 and 4: some nephew is red.\<close>

lemma erase_black_sibling_mends:
  assumes h: "holds s (plug (N d c t p (N d RB_BLACK wl w wr)) k)"
    and red: "colour wl = RB_RED \<or> colour wr = RB_RED"
    and i: "colour t = RB_BLACK" "invc t" "invh t" "invc (N d RB_BLACK wl w wr)" "invh (N d RB_BLACK wl w wr)"
    "bheight wl = bheight t"
  shows "\<exists>s' t'. erase_black_sibling d (Some p) (Some w) s = Some (Inr (root s', s')) \<and>
    turns s (plug (N d c t p (N d RB_BLACK wl w wr)) k) s' (plug t' k) \<and>
    colour t' = c \<and> invc t' \<and> invh t' \<and> bheight t' = (if c = RB_BLACK then Suc (Suc (bheight t)) else Suc (bheight t))"
proof -
  have w: "holds s (plug (N d RB_BLACK wl w wr) ((flip d, c, p, t) # k))" using h by simp
  note eq = erase_black_sibling_eq [OF black_kid_N [OF w], of "Some p"]
  have black: "colour (paint RB_BLACK x) = RB_BLACK" for x by (cases x) auto
  show ?thesis
  proof (cases "colour wr = RB_RED")
    case True
    then have "bheight (paint RB_BLACK wr) = Suc (bheight t)" using i by (simp add: bheight_paint)
    with True erase_far_kid_turns [OF h] i show ?thesis unfolding eq
      by (auto simp: black invh_paint invc_paint
        intro!: exI [of _ "N d c (N d RB_BLACK t p wl) w (paint RB_BLACK wr)"])
  next
    case False
    then have wr: "colour wr = RB_BLACK" "colour wl = RB_RED" using red by (auto simp: colour_cases)
    then obtain A v B where wl: "wl = N d RB_RED A v B" using tree_cases_N [of wl d] by auto
    obtain s1 where s1: "rb_set_color (Some v) RB_BLACK s = Some s1"
      "turns s (plug (N d c t p (N d RB_BLACK wl w wr)) k) s1 (plug (N d c t p (N d RB_BLACK (N d RB_BLACK A v B) w wr)) k)"
      using set_color_N [of s d RB_RED A v B "(d, RB_BLACK, w, wr) # (flip d, c, p, t) # k" RB_BLACK] h
      by (auto simp: wl)
    obtain s2 where s2: "rb_set_color (Some w) RB_RED s1 = Some s2"
      "turns s1 (plug (N d c t p (N d RB_BLACK (N d RB_BLACK A v B) w wr)) k)
        s2 (plug (N d c t p (N d RB_RED (N d RB_BLACK A v B) w wr)) k)"
      using set_color_N [of s1 d RB_BLACK "N d RB_BLACK A v B" w wr "(flip d, c, p, t) # k" RB_RED] s1(2) by auto
    obtain s3 where s3: "rot (flip d) (Some w) s2 = Some s3"
      "turns s2 (plug (N d c t p (N d RB_RED (N d RB_BLACK A v B) w wr)) k)
        s3 (plug (N d c t p (N d RB_BLACK A v (N d RB_RED B w wr))) k)"
      using rot_flip_N [of s2 d RB_RED RB_BLACK A v B w wr "(flip d, c, p, t) # k"] s2(2) by auto
    obtain s4 where s4: "erase_far_kid d (Some p) (Some v) s3 = Some (Inr (root s4, s4))"
      "turns s3 (plug (N d c t p (N d RB_BLACK A v (N d RB_RED B w wr))) k)
        s4 (plug (N d c (N d RB_BLACK t p A) v (N d RB_BLACK B w wr)) k)"
      using erase_far_kid_turns [of s3 d c t p RB_BLACK A v "N d RB_RED B w wr" k] s3(2) by auto
    have "ld (far d) (Some p) s3 = Some (Some v)" using ld_N [of s3 d c t p _ k] s3(2) by fastforce
    with ld_N [OF w] s1(1) s2(1) s3(1) s4(1)
    have "erase_black_sibling d (Some p) (Some w) s = Some (Inr (root s4, s4))"
      unfolding eq by (cases d; simp add: wr; simp add: wl)
    moreover have "bheight A = bheight B" "bheight B = bheight t" "bheight wr = bheight t"
      using i by (auto simp: wl)
    ultimately show ?thesis
      using turns_trans [OF turns_trans [OF turns_trans [OF s1(2) s2(2)] s3(2)] s4(2)] i wr
      by (intro exI [of _ s4] exI [of _ "N d c (N d RB_BLACK t p A) v (N d RB_BLACK B w wr)"]) (simp add: wl)
  qed
qed

text \<open>Case 1: a red sibling is rotated above the parent.\<close>

lemma erase_red_sibling_turns:
  assumes "holds s (plug (N d c t p (N d RB_RED B y C)) k)"
  shows "\<exists>s'. erase_red_sibling d (Some p) s = Some (rootp B, s') \<and>
    turns s (plug (N d c t p (N d RB_RED B y C)) k) s' (plug (N d RB_RED t p B) ((d, RB_BLACK, y, C) # k))"
proof -
  have y: "holds s (plug (N d RB_RED B y C) ((flip d, c, p, t) # k))" using assms by simp
  obtain s1 where s1: "rb_set_color (Some y) RB_BLACK s = Some s1"
    "turns s (plug (N d c t p (N d RB_RED B y C)) k) s1 (plug (N d c t p (N d RB_BLACK B y C)) k)"
    using set_color_N [OF y, of RB_BLACK] by auto
  obtain s2 where s2: "rb_set_color (Some p) RB_RED s1 = Some s2"
    "turns s1 (plug (N d c t p (N d RB_BLACK B y C)) k) s2 (plug (N d RB_RED t p (N d RB_BLACK B y C)) k)"
    using set_color_N [of s1 d c t p _ k RB_RED] s1(2) by blast
  obtain s3 where s3: "rot d (Some p) s2 = Some s3"
    "turns s2 (plug (N d RB_RED t p (N d RB_BLACK B y C)) k) s3 (plug (N d RB_RED t p B) ((d, RB_BLACK, y, C) # k))"
    using rot_N [of s2 d RB_RED t p RB_BLACK B y C k] s2(2) by auto
  have "ld (far d) (Some p) s3 = Some (rootp B)"
    using ld_N [of s3 d RB_RED t p B "(d, RB_BLACK, y, C) # k"] s3(2) by blast
  with ld_N [OF assms] ld_N(3) [OF y] s1(1) s2(1) s3(1)
  have "erase_red_sibling d (Some p) s = Some (rootp B, s3)"
    unfolding erase_red_sibling_eq by simp
  with turns_trans [OF turns_trans [OF s1(2) s2(2)] s3(2)] show ?thesis by blast
qed

lemma erase_red_sibling_black:
  assumes "holds s (plug (N d c t p (N d RB_BLACK B y C)) k)"
  shows "erase_red_sibling d (Some p) s = Some (Some y, s)"
  using ld_N [OF assms] ld_N(3) [of s d RB_BLACK B y C "(flip d, c, p, t) # k"] assms
  unfolding erase_red_sibling_eq by simp

subsection \<open>The repair loop\<close>

definition mended :: "ptr \<Rightarrow> ptr \<Rightarrow> rb_state \<Rightarrow> tr \<Rightarrow> bool" where
  "mended node parent s t \<longleftrightarrow>
     (\<exists>s' t'. rb_erase_color node parent s = Some s' \<and> turns s t s' t' \<and> rbt t')"

lemma top_in_path: "k \<noteq> [] \<Longrightarrow> \<exists>a. top p k = Some a \<and> a \<in> set (path_addrs k)"
proof (induction k arbitrary: p)
  case (Cons f k)
  then show ?case by (cases f; cases k) auto
qed simp

lemma holds_root: "holds s (plug t k) \<Longrightarrow> rootp t = root s \<longleftrightarrow> k = []"
proof (cases "k = []")
  case False
  assume h: "holds s (plug t k)"
  obtain a where a: "root s = Some a" "a \<in> set (path_addrs k)"
    using top_in_path [OF False] h by (auto simp: holds_plug)
  then have "rootp t \<noteq> Some a" using h rootp_in_addrs by (fastforce simp: holds_plug)
  with a False show ?thesis by simp
qed (simp add: holds_def)

lemma rbt_plug:
  assumes "invc t" and "invh t" and "cinv k (bheight t)" and "colour t = RB_BLACK \<or> top_black k"
  shows "rbt (plug t k)"
  using inv_plug [OF assms(1-3)] assms(4) by (cases k) (auto simp: rbt_def)

lemma mended_stop:
  assumes "holds s (plug t k)" and "colour t = RB_RED \<or> k = []"
    and "invc (paint RB_BLACK t)" and "invh t" and "cinv k (Suc (bheight t))"
  shows "mended (rootp t) (hole_par None k) s (plug t k)"
proof -
  have stop: "erase_fix_loop (rootp t) (hole_par None k) s = Some (rootp t, s)"
    using get_color_holds [OF assms(1)] holds_root [OF assms(1)] assms(2)
    by (cases t) (auto simp: erase_fix_loop.simps)
  obtain s' where s': "rb_set_color (rootp t) RB_BLACK s = Some s'"
    "turns s (plug t k) s' (plug (paint RB_BLACK t) k)"
    using set_color_turns [OF assms(1)] by blast
  have "cinv k (bheight (paint RB_BLACK t))" using assms(2,5) by (auto simp: bheight_paint colour_cases)
  moreover have "colour (paint RB_BLACK t) = RB_BLACK" by (cases t) auto
  ultimately have "rbt (plug (paint RB_BLACK t) k)" using assms(3,4) by (intro rbt_plug) (auto simp: invh_paint)
  with s' stop show ?thesis
    by (auto simp: mended_def rb_erase_color_def rb_set_color_def split: if_splits)
qed

text \<open>An iteration on a black node below a parent.\<close>

lemma erase_fix_loop_step:
  assumes "holds s (plug t ((d, c, p, sib) # k))" and "colour t = RB_BLACK" and "sib \<noteq> E"
  shows "erase_fix_loop (rootp t) (Some p) s = do {
    r \<leftarrow> erase_fix d (rootp t) (Some p) s;
    (case r of Inl (node', parent', s') \<Rightarrow> erase_fix_loop node' parent' s' | Inr q \<Rightarrow> Some q) }"
proof -
  have ne: "rootp t \<noteq> root s" using holds_root [OF assms(1)] by simp
  have "rootp sib \<noteq> rootp t"
    using assms(1,3) by (cases t; cases sib; cases d) (auto simp: holds_plug N_def)
  moreover have "ld rb_left (Some p) s = Some (if d = L then rootp t else rootp sib)"
    using assms(1) by (cases d) (auto simp: holds_plug N_def)
  ultimately show ?thesis
    using ne get_color_holds [OF assms(1)] assms(2)
    by (cases d) (simp_all add: erase_fix_loop.simps [of "rootp t"])
qed

lemma mended_continue:
  assumes "holds s (plug t ((d, c, p, sib) # k))" and "colour t = RB_BLACK" and "sib \<noteq> E"
    and "erase_fix d (rootp t) (Some p) s = Some (Inl (q, par, s'))"
    and "turns s (plug t ((d, c, p, sib) # k)) s' t'" and "mended q par s' t'"
  shows "mended (rootp t) (Some p) s (plug t ((d, c, p, sib) # k))"
proof -
  have "erase_fix_loop (rootp t) (Some p) s = erase_fix_loop q par s'"
    using erase_fix_loop_step [OF assms(1-3)] assms(4) by simp
  with assms(5,6) show ?thesis
    by (auto simp: mended_def rb_erase_color_def intro: turns_trans)
qed

lemma mended_break:
  assumes "holds s (plug t ((d, c, p, sib) # k))" and "colour t = RB_BLACK" and "sib \<noteq> E"
    and "erase_fix d (rootp t) (Some p) s = Some (Inr (root s', s'))"
    and "turns s (plug t ((d, c, p, sib) # k)) s' t'" and "rbt t'"
  shows "mended (rootp t) (Some p) s (plug t ((d, c, p, sib) # k))"
proof -
  have "erase_fix_loop (rootp t) (Some p) s = Some (root s', s')"
    using erase_fix_loop_step [OF assms(1-3)] assms(4) by simp
  moreover have "root s' = rootp t'" using assms(5) by (auto simp: turns_def holds_def)
  moreover obtain s2 where s2: "rb_set_color (rootp t') RB_BLACK s' = Some s2" "turns s' t' s2 (paint RB_BLACK t')"
    using set_color_turns [of s' t' "[]" RB_BLACK] assms(5) by auto
  moreover have "paint RB_BLACK t' = t'" using assms(6) by (cases t') (auto simp: rbt_def)
  ultimately show ?thesis using turns_trans [OF assms(5) s2(2)] assms(6)
    by (auto simp: mended_def rb_erase_color_def rb_set_color_def split: if_splits)
qed

text \<open>A black sibling, for a tree \<open>t\<close> one black node short.\<close>

lemma mended_black_sibling:
  assumes h: "holds s0 (plug t ((d, c0, p, sib0) # k0))" "colour t = RB_BLACK" "sib0 \<noteq> E"
    and s: "erase_red_sibling d (Some p) s0 = Some (Some w, s)"
    "turns s0 (plug t ((d, c0, p, sib0) # k0)) s (plug (N d c t p (N d RB_BLACK wl w wr)) k)"
    and i: "invc t" "invh t" "invc (N d RB_BLACK wl w wr)" "invh (N d RB_BLACK wl w wr)" "bheight wl = bheight t"
    "cinv k (if c = RB_BLACK then Suc (Suc (bheight t)) else Suc (bheight t))" "c = RB_RED \<Longrightarrow> top_black k"
    and up: "\<And>s' t'. holds s' (plug t' k) \<Longrightarrow> rootp t' = Some p \<Longrightarrow> colour t' = c \<Longrightarrow>
      invc (paint RB_BLACK t') \<Longrightarrow> (c = RB_BLACK \<Longrightarrow> invc t') \<Longrightarrow> invh t' \<Longrightarrow> cinv k (Suc (bheight t')) \<Longrightarrow>
      mended (Some p) (hole_par None k) s' (plug t' k)"
  shows "mended (rootp t) (Some p) s0 (plug t ((d, c0, p, sib0) # k0))"
proof (cases "colour wl = RB_BLACK \<and> colour wr = RB_BLACK")
  case True
  obtain s' where s': "erase_black_sibling d (Some p) (Some w) s = Some (Inl (Some p, hole_par None k, s'))"
    "turns s (plug (N d c t p (N d RB_BLACK wl w wr)) k) s' (plug (N d c t p (N d RB_RED wl w wr)) k)"
    using erase_black_sibling_up [of s d c t p RB_BLACK wl w wr k] s(2) True by blast
  have "mended (Some p) (hole_par None k) s' (plug (N d c t p (N d RB_RED wl w wr)) k)"
    using s'(2) i True h(2) by (intro up) (auto simp: colour_cases)
  moreover have "erase_fix d (rootp t) (Some p) s0 = Some (Inl (Some p, hole_par None k, s'))"
    unfolding erase_fix_eq s(1) using s'(1) by simp
  ultimately show ?thesis using mended_continue [OF h _ turns_trans [OF s(2) s'(2)]] by blast
next
  case False
  then have red: "colour wl = RB_RED \<or> colour wr = RB_RED" by (simp add: colour_cases)
  obtain s' t' where s': "erase_black_sibling d (Some p) (Some w) s = Some (Inr (root s', s'))"
    "turns s (plug (N d c t p (N d RB_BLACK wl w wr)) k) s' (plug t' k)" "colour t' = c" "invc t'" "invh t'"
    "bheight t' = (if c = RB_BLACK then Suc (Suc (bheight t)) else Suc (bheight t))"
    using erase_black_sibling_mends [OF _ red h(2) i(1-5)] s(2) by blast
  have "rbt (plug t' k)" using i(6,7) s' by (cases c; intro rbt_plug) simp_all
  moreover have "erase_fix d (rootp t) (Some p) s0 = Some (Inr (root s', s'))"
    unfolding erase_fix_eq s(1) using s'(1) by simp
  ultimately show ?thesis using mended_break [OF h _ turns_trans [OF s(2) s'(2)]] by blast
qed

lemma rb_erase_color_mends:
  assumes "holds s (plug t k)" and "invc (paint RB_BLACK t)" and "colour t = RB_BLACK \<Longrightarrow> invc t" and "invh t"
    and "cinv k (Suc (bheight t))"
  shows "mended (rootp t) (hole_par None k) s (plug t k)"
  using assms
proof (induction "length k" arbitrary: k t s rule: less_induct)
  case less
  show ?case
  proof (cases "colour t = RB_RED \<or> k = []")
    case True
    with less.prems show ?thesis by (intro mended_stop)
  next
    case False
    then obtain d c p sib k' where k: "k = (d, c, p, sib) # k'" by (cases k) auto
    have t: "colour t = RB_BLACK" using False by (simp add: colour_cases)
    with less.prems(3) have it: "invc t" by simp
    have sib: "invc sib" "invh sib" "bheight sib = Suc (bheight t)"
      and ck: "c = RB_RED \<Longrightarrow> colour sib = RB_BLACK \<and> top_black k'"
      "cinv k' (if c = RB_BLACK then Suc (Suc (bheight t)) else Suc (bheight t))"
      using less.prems(5) by (auto simp: k)
    have "sib \<noteq> E" using sib(3) by auto
    then obtain sc B y C where S: "sib = N d sc B y C" using tree_cases_N [of sib d] by auto
    have h: "holds s (plug (N d c t p (N d sc B y C)) k')" using less.prems(1) by (simp add: k S)
    note go = mended_black_sibling [OF less.prems(1) [unfolded k] t \<open>sib \<noteq> E\<close> _ _ it less.prems(4)]
    show ?thesis
    proof (cases sc)
      case RB_BLACK
      have "mended (Some p) (hole_par None k') s' (plug t' k')"
        if "holds s' (plug t' k')" "rootp t' = Some p" "invc (paint RB_BLACK t')" "colour t' = c"
          "c = RB_BLACK \<Longrightarrow> invc t'" "invh t'" "cinv k' (Suc (bheight t'))" for s' t'
        using less.hyps [of k' s' t'] that by (simp add: k)
      then have "mended (rootp t) (Some p) s (plug t ((d, c, p, sib) # k'))"
        using erase_red_sibling_black [OF h [unfolded RB_BLACK]] h sib ck
        by (intro go [of y s c B C k']) (auto simp: S RB_BLACK)
      then show ?thesis by (simp add: k)
    next
      case RB_RED
      then have c: "c = RB_BLACK" using ck(1) by (cases c) (auto simp: S)
      have B: "colour B = RB_BLACK" "bheight B = Suc (bheight t)" using sib by (auto simp: S RB_RED)
      then obtain wl w wr where BN: "B = N d RB_BLACK wl w wr" using tree_cases_N [of B d] by auto
      obtain s' where s': "erase_red_sibling d (Some p) s = Some (Some w, s')"
        "turns s (plug (N d c t p (N d RB_RED B y C)) k') s' (plug (N d RB_RED t p B) ((d, RB_BLACK, y, C) # k'))"
        using erase_red_sibling_turns [OF h [unfolded RB_RED]] by (auto simp: BN)
      have "mended (rootp t) (Some p) s (plug t ((d, c, p, sib) # k'))"
      proof (rule go [of w s' RB_RED wl wr "(d, RB_BLACK, y, C) # k'"])
        show "mended (Some p) (hole_par None ((d, RB_BLACK, y, C) # k')) s'' (plug t' ((d, RB_BLACK, y, C) # k'))"
          if "holds s'' (plug t' ((d, RB_BLACK, y, C) # k'))" "rootp t' = Some p" "colour t' = RB_RED"
            "invc (paint RB_BLACK t')" "invh t'" "cinv ((d, RB_BLACK, y, C) # k') (Suc (bheight t'))" for s'' t'
          using mended_stop [of s'' t'] that by metis
      qed (use s' sib ck c B in \<open>auto simp: S RB_RED BN\<close>)
      then show ?thesis by (simp add: k)
    qed
  qed
qed

end
