(* ===== verification/Rbtree_Unlink.thy ===== *)
theory Rbtree_Unlink
  imports Rbtree_Erase
begin

text \<open>
  \<^verbatim>\<open>rb_erase\<close> itself: how the node is taken out of the linked structure (its only child moves
  up, or its in-order successor takes its place) before the colours are repaired, and the
  correctness of the whole operation.
\<close>

lemma hole_par_append: "hole_par par (j @ k) = hole_par (hole_par par k) j"
proof (cases j)
  case (Cons f j')
  then show ?thesis by (cases f) auto
qed simp

lemma path_at_append:
  "path_at h par p (j @ k) \<longleftrightarrow> path_at h (hole_par par k) p j \<and> path_at h par (top p j) k"
proof (induction j arbitrary: p)
  case (Cons f j)
  then show ?case by (cases f) (auto simp: hole_par_append)
qed simp

lemma top_append: "top p (j @ k) = top (top p j) k"
proof (induction j arbitrary: p)
  case (Cons f j)
  then show ?case by (cases f) auto
qed simp

lemma path_addrs_append: "path_addrs (j @ k) = path_addrs j @ path_addrs k"
proof (induction j)
  case (Cons f j)
  then show ?case by (cases f) auto
qed simp

text \<open>The leftmost node of a tree, and the left spine above it.\<close>

lemma leftmost_spine:
  "t \<noteq> E \<Longrightarrow> \<exists>c m r j. t = plug (T c E m r) j \<and> (\<forall>f \<in> set j. fst f = L) \<and> before j = []"
proof (induction t)
  case (T c l a r)
  show ?case
  proof (cases "l = E")
    case True
    then show ?thesis by (intro exI [of _ c] exI [of _ a] exI [of _ r] exI [of _ "[]"]) simp
  next
    case False
    with T.IH(1) obtain c' m r' j where
      "l = plug (T c' E m r') j" "\<forall>f \<in> set j. fst f = L" by blast
    moreover have "before js = []" if "\<forall>f \<in> set js. fst f = L" for js
      using that by (induction js rule: before.induct) auto
    ultimately show ?thesis
      by (intro exI [of _ c'] exI [of _ m] exI [of _ r'] exI [of _ "j @ [(L, c, a, r)]"])
        (auto simp: plug_append N_def)
  qed
qed simp

text \<open>Redirecting the lower and the upper end of a path.\<close>

lemma path_hole_upd:
  assumes "path_at h par p ((L, c, q, sib) # j)" and "distinct (path_addrs ((L, c, q, sib) # j))"
  shows "\<exists>n. h q = Some n \<and> path_at (h(q \<mapsto> n\<lparr>rb_left := p'\<rparr>)) par p' ((L, c, q, sib) # j)"
  using assms by auto

lemma path_par_upd:
  assumes "path_at h par p j" and "j \<noteq> []" and "distinct (path_addrs j)"
  shows "path_at (reparent (top p j) par' h) par' p j"
  using assms
proof (induction j arbitrary: p)
  case (Cons f j)
  obtain d c a sib where f: "f = (d, c, a, sib)" by (cases f) auto
  show ?case
  proof (cases "j = []")
    case True
    with Cons.prems show ?thesis unfolding f by (cases d) auto
  next
    case False
    obtain b where b: "top (Some a) j = Some b" "b \<in> set (path_addrs j)"
      using top_in_path [OF False] by blast
    have "b \<noteq> a" "b \<notin> set (addrs sib)" using b(2) Cons.prems(3) unfolding f by auto
    moreover have "hole_par par' j = hole_par par j" using False by (cases j) auto
    moreover have "tree_at (reparent (Some b) par' h) (Some a) sib = tree_at h (Some a) sib"
      using \<open>b \<notin> set (addrs sib)\<close> by (intro tree_at_cong) (auto split: option.splits)
    moreover have "path_at (reparent (Some b) par' h) par' (Some a) j"
      using Cons.IH [of "Some a"] Cons.prems b(1) False unfolding f by simp
    ultimately show ?thesis using Cons.prems b(1) unfolding f by (simp del: reparent.simps)
  qed
qed simp

lemma reparent_path [simp]:
  "set (addrs t) \<inter> set (path_addrs k) = {} \<Longrightarrow> path_at (reparent (rootp t) par' h) par p k = path_at h par p k"
  by (rule path_at_cong) (metis IntI empty_iff reparent_other rootp_in_addrs)

definition unlinked :: "nat \<Rightarrow> tr \<Rightarrow> rb_state \<Rightarrow> tr \<Rightarrow> rb_state \<Rightarrow> bool" where
  "unlinked a t s t' s' \<longleftrightarrow> holds s' t' \<and> same_outside (set (addrs t) - {a}) s s' \<and> addrs t' = remove1 a (addrs t)"

subsection \<open>At most one child\<close>

lemma erase_one_kid_unlinks:
  assumes h: "holds s (plug (T c l a r) k)" and t: "l = E \<and> t = r \<or> r = E \<and> t = l"
  shows "\<exists>s'. erase_one_kid (Some a) (rootp t) s =
      (if c = RB_BLACK then rb_erase_color (rootp t) (hole_par None k) s' else Some s') \<and>
    unlinked a (plug (T c l a r) k) s (plug t k) s'"
proof -
  let ?P = "hole_par None k"
  note hp = h [unfolded holds_plug, simplified]
  let ?s1 = "s\<lparr>nodes := reparent (rootp t) ?P (nodes s)\<rparr>"
  have ta: "tree_at (nodes s) (Some a) t" "distinct (addrs t)" "set (addrs t) \<inter> set (path_addrs k) = {}"
    "a \<notin> set (addrs t)"
    using hp t by auto
  have s1: "rb_set_parent (rootp t) ?P s = Some ?s1" by (rule set_parent_tree [OF ta(1)])
  obtain s2 where s2: "replace_child ?P (Some a) (rootp t) ?s1 = Some s2"
    "path_at (nodes s2) None (rootp t) k" "root s2 = top (rootp t) k"
    "\<forall>b. Some b \<noteq> ?P \<longrightarrow> nodes s2 b = nodes ?s1 b"
    using replace_child_path [of ?s1 a k "rootp t"] hp ta by auto
  have keep: "nodes s2 b = nodes ?s1 b" if "b \<notin> set (path_addrs k)" for b
    using s2(4) that by (metis hole_par_in)
  have "tree_at (nodes s2) ?P t = tree_at (nodes ?s1) ?P t"
    using ta(3) by (intro tree_at_cong keep) auto
  with reparent_tree [OF ta(1,2)] s2 hp ta have "holds s2 (plug t k)" by (simp add: holds_plug)
  moreover have "same_outside (set (addrs (plug (T c l a r) k)) - {a}) s s2"
    using keep t ta hp by (auto simp: same_outside_def set_addrs_plug)
  moreover have "addrs (plug t k) = remove1 a (addrs (plug (T c l a r) k))"
  proof -
    have "a \<notin> set (before k)" "a \<notin> set (addrs l)" using h by (auto simp: holds_def addrs_plug)
    then show ?thesis using t by (auto simp: addrs_plug remove1_append)
  qed
  moreover have "get_parent (Some a) s = Some ?P" "get_color (Some a) s = Some c"
    using hp by (auto simp: get_parent_def get_color_def)
  ultimately show ?thesis using s1 s2(1)
    unfolding erase_one_kid_def set_parent_if unlinked_def by (intro exI [of _ s2]) simp
qed

subsection \<open>Two children\<close>

text \<open>The successor is the right child itself.\<close>

lemma erase_two_kids_near:
  assumes h: "holds s (plug (T c l a (T cm E m rr)) k)" and "l \<noteq> E"
  shows "\<exists>s'. erase_two_kids (Some a) s =
      (if cm = RB_BLACK then rb_erase_color (rootp rr) (Some m) s' else Some s') \<and>
    holds s' (plug rr ((R, c, m, l) # k)) \<and> same_outside (set (addrs (plug (T c l a (T cm E m rr)) k)) - {a}) s s'"
proof -
  let ?P = "hole_par None k"
  note hp = h [unfolded holds_plug, simplified]
  obtain s1 where s1: "replace_child ?P (Some a) (Some m) s = Some s1"
    "path_at (nodes s1) None (Some m) k" "root s1 = top (Some m) k"
    "\<forall>b. Some b \<noteq> ?P \<longrightarrow> nodes s1 b = nodes s b"
    using replace_child_path [of s a k "Some m"] hp by auto
  have keep: "nodes s1 b = nodes s b" if "b \<notin> set (path_addrs k)" for b
    using s1(4) that by (metis hole_par_in)
  let ?h2 = "(nodes s1)(m \<mapsto> mk ?P (rootp l) (rootp rr) c)"
  let ?h3 = "reparent (rootp l) (Some m) ?h2"
  have n1: "nodes s1 a = Some (mk ?P (rootp l) (Some m) c)" "nodes s1 m = Some (mk (Some a) None (rootp rr) cm)"
    using hp keep by auto
  have ml: "rootp l \<noteq> Some m" using hp by (auto dest: rootp_in_addrs)
  have dis: "set (addrs rr) \<inter> set (addrs l) = {}" "set (addrs l) \<inter> set (path_addrs k) = {}" using hp by auto
  have "tree_at (nodes s1) (Some a) l = tree_at (nodes s) (Some a) l"
    using hp by (intro tree_at_cong keep) auto
  then have l2: "tree_at ?h2 (Some a) l" using hp by simp
  have set_l: "rb_set_parent (rootp l) (Some m) (s1\<lparr>nodes := ?h2\<rparr>) = Some (s1\<lparr>nodes := ?h3\<rparr>)"
    using set_parent_tree [of "s1\<lparr>nodes := ?h2\<rparr>" "Some a" l "Some m"] l2 by simp
  have run: "erase_two_kids (Some a) s =
      (if cm = RB_BLACK then rb_erase_color (rootp rr) (Some m) (s1\<lparr>nodes := ?h3\<rparr>) else Some (s1\<lparr>nodes := ?h3\<rparr>))"
    using leftmost_tree [of s "Some a" "T cm E m rr"] hp s1(1) n1 set_l
    by (simp add: erase_two_kids_def get_parent_def get_color_def)
  have "tree_at (nodes s1) (Some m) rr = tree_at (nodes s) (Some m) rr"
    using hp by (intro tree_at_cong keep) auto
  then have "tree_at ?h3 (Some m) rr" using hp dis by simp
  moreover have "tree_at ?h3 (Some m) l" using hp l2 by (intro reparent_tree) auto
  moreover have "path_at ?h3 None (Some m) k" using s1(2) hp dis by simp
  ultimately have "holds (s1\<lparr>nodes := ?h3\<rparr>) (plug rr ((R, c, m, l) # k))"
    unfolding holds_plug using hp s1(3) ml by (auto simp del: fill_N plug_simps)
  moreover have "same_outside (set (addrs (plug (T c l a (T cm E m rr)) k)) - {a}) s (s1\<lparr>nodes := ?h3\<rparr>)"
    using keep n1 hp by (auto simp: same_outside_def set_addrs_plug)
  ultimately show ?thesis using run by blast
qed

text \<open>The successor is further down the left spine of the right subtree. \<open>lift_successor\<close> are
  the heap updates the code makes on the way, with the redundant ones collapsed.\<close>

definition lift_successor ::
  "ptr \<Rightarrow> rb_colour \<Rightarrow> tr \<Rightarrow> nat \<Rightarrow> tr \<Rightarrow> nat \<Rightarrow> frame list \<Rightarrow> (nat \<Rightarrow> rb_node option) \<Rightarrow> nat \<Rightarrow> rb_node option" where
  "lift_successor P c l m rr q j h =
     (let h2 = reparent (rootp rr) (Some q) h;
          h3 = h2(q \<mapsto> (the (h2 q))\<lparr>rb_left := rootp rr\<rparr>);
          h5 = reparent (top (Some m) j) (Some m) h3
      in reparent (rootp l) (Some m) (h5(m \<mapsto> mk P (rootp l) (top (Some m) j) c)))"

lemma lift_successor_shape:
  fixes P :: ptr and c :: rb_colour
  assumes p: "path_at h (Some a) (Some m) ((L, cq, q, sq) # j)" and rr: "tree_at h (Some m) rr" and l: "tree_at h (Some a) l"
    and d: "distinct (path_addrs ((L, cq, q, sq) # j))" "distinct (addrs rr)" "distinct (addrs l)"
    "set (addrs rr) \<inter> set (path_addrs ((L, cq, q, sq) # j)) = {}"
    "set (addrs l) \<inter> (set (addrs rr) \<union> set (path_addrs ((L, cq, q, sq) # j))) = {}"
    "m \<notin> set (addrs rr) \<union> set (addrs l) \<union> set (path_addrs ((L, cq, q, sq) # j))"
  defines "h' \<equiv> lift_successor P c l m rr q ((L, cq, q, sq) # j) h"
  shows "path_at h' (Some m) (rootp rr) ((L, cq, q, sq) # j)" and "tree_at h' (Some q) rr" and "tree_at h' (Some m) l"
    and "h' m = Some (mk P (rootp l) (top (Some m) ((L, cq, q, sq) # j)) c)"
    and "\<And>b. b \<noteq> m \<Longrightarrow> b \<notin> set (addrs rr) \<union> set (addrs l) \<union> set (path_addrs ((L, cq, q, sq) # j)) \<Longrightarrow> h' b = h b"
proof -
  let ?j = "(L, cq, q, sq) # j"
  let ?h2 = "reparent (rootp rr) (Some q) h"
  let ?h3 = "?h2(q \<mapsto> (the (?h2 q))\<lparr>rb_left := rootp rr\<rparr>)"
  let ?h5 = "reparent (top (Some m) ?j) (Some m) ?h3"
  let ?h6 = "?h5(m \<mapsto> mk P (rootp l) (top (Some m) ?j) c)"
  have h': "h' = reparent (rootp l) (Some m) ?h6" by (simp add: h'_def lift_successor_def Let_def)
  obtain b where b: "top (Some m) ?j = Some b" "top (rootp rr) ?j = Some b" "b \<in> set (path_addrs ?j)"
    using top_in_path [of ?j "Some m"] by auto
  have off: "tree_at (reparent (Some b) x g) par t = tree_at g par t" if "b \<notin> set (addrs t)" for x g par t
    using that by (intro tree_at_cong reparent_other) auto
  have "path_at ?h2 (Some a) (Some m) ?j" using p d(4) by (simp only: reparent_path)
  then have "path_at ?h3 (Some a) (rootp rr) ?j" using path_hole_upd [of ?h2 "Some a" "Some m" cq q sq j "rootp rr"] d(1) by auto
  then have "path_at ?h5 (Some m) (rootp rr) ?j"
    unfolding b(1) using path_par_upd [of ?h3 "Some a" "rootp rr" ?j "Some m"] b(2) d(1) by simp
  then show "path_at h' (Some m) (rootp rr) ?j" unfolding h' using d(5,6) by (subst reparent_path) (auto simp del: path_at.simps)
  have "tree_at ?h2 (Some q) rr" using reparent_tree [OF rr d(2)] .
  moreover have "b \<notin> set (addrs rr)" "q \<notin> set (addrs rr)" "m \<notin> set (addrs rr)" using d(4,6) b(3) by auto
  ultimately have "tree_at ?h6 (Some q) rr" unfolding b(1) by (simp add: off del: reparent.simps)
  then show "tree_at h' (Some q) rr" unfolding h' using d(5) by (subst reparent_disjoint) auto
  have "tree_at ?h2 (Some a) l" using l d(5) by (subst reparent_disjoint) auto
  moreover have "b \<notin> set (addrs l)" "q \<notin> set (addrs l)" "m \<notin> set (addrs l)" using d(5,6) b(3) by auto
  ultimately have "tree_at ?h6 (Some a) l" unfolding b(1) by (simp add: off del: reparent.simps)
  then show "tree_at h' (Some m) l" unfolding h' using d(3) by (rule reparent_tree)
  show "h' m = Some (mk P (rootp l) (top (Some m) ?j) c)" unfolding h' using d(6) by simp
  show "h' x = h x" if "x \<noteq> m" "x \<notin> set (addrs rr) \<union> set (addrs l) \<union> set (path_addrs ?j)" for x
  proof -
    have "x \<noteq> b" "x \<noteq> q" using that b(3) by auto
    then have "?h5 x = h x" unfolding b(1) using that by (simp del: reparent.simps)
    then show ?thesis unfolding h' using that by simp
  qed
qed


lemma path_top_node:
  "path_at h par p k \<Longrightarrow> k \<noteq> [] \<Longrightarrow> top p k = Some b \<Longrightarrow> \<exists>n. h b = Some n"
proof (induction k arbitrary: p)
  case (Cons f k)
  obtain d c a sib where f: "f = (d, c, a, sib)" by (cases f) auto
  with Cons show ?case by (cases "k = []") auto
qed simp

lemma set_parent_Some:
  "nodes s a = Some n \<Longrightarrow> rb_set_parent (Some a) p s = Some (s\<lparr>nodes := (nodes s)(a \<mapsto> n\<lparr>rb_parent := p\<rparr>)\<rparr>)"
  by (simp add: rb_set_parent_def)

lemma upd_between: "b \<noteq> m \<Longrightarrow> h(m \<mapsto> x, b \<mapsto> y, m \<mapsto> z) = h(b \<mapsto> y, m \<mapsto> z)"
  by (rule ext) simp

lemma erase_two_kids_run:
  assumes n: "nodes s1 a = Some (mk P (rootp l) (Some b) c)" "nodes s1 m = Some (mk (Some q) None (rootp rr) cm)"
    "nodes s1 q = Some nq" "nodes s1 b = Some nb"
    and s1: "replace_child P (Some a) (Some m) s = Some s1" and s: "nodes s a = nodes s1 a" "leftmost (Some b) s = Some (Some m)"
    and tr: "tree_at (nodes s1) (Some m) rr" "tree_at (nodes s1) (Some a) l" and top: "top (Some m) k = Some b"
    and d: "set (addrs rr) \<inter> set (addrs l) = {}" "distinct [a, q, m]" "distinct [a, b, m]"
    "set [a, b, q, m] \<inter> (set (addrs rr) \<union> set (addrs l)) = {}"
  shows "erase_two_kids (Some a) s =
    (let s' = s1\<lparr>nodes := lift_successor P c l m rr q k (nodes s1)\<rparr>
     in if cm = RB_BLACK then rb_erase_color (rootp rr) (Some q) s' else Some s')"
proof -
  let ?h2 = "reparent (rootp rr) (Some q) (nodes s1)"
  let ?h3 = "?h2(q \<mapsto> nq\<lparr>rb_left := rootp rr\<rparr>)"
  let ?h6 = "(reparent (Some b) (Some m) ?h3)(m \<mapsto> mk P (rootp l) (Some b) c)"
  have h2: "?h2 x = nodes s1 x" if "x \<in> set [a, b, q, m]" for x using d(4) that by (intro reparent_notin) auto
  have lift: "lift_successor P c l m rr q k (nodes s1) = reparent (rootp l) (Some m) ?h6"
    using h2 [of q] n(3) top by (simp add: lift_successor_def Let_def del: reparent.simps)
  obtain nb' where nb': "?h3 b = Some nb'" using h2 [of b] n(4) by (cases "b = q") auto
  have rb: "reparent (Some b) (Some m) ?h3 = ?h3(b \<mapsto> nb'\<lparr>rb_parent := Some m\<rparr>)"
    unfolding reparent.simps nb' by simp
  have eq: "?h3(m \<mapsto> X, b \<mapsto> nb'\<lparr>rb_parent := Some m\<rparr>, m \<mapsto> mk P (rootp l) (Some b) c) = ?h6" for X
    using upd_between [of b m] d(3) unfolding rb by auto
  have "tree_at ?h2 (Some a) l" using tr(2) d(1) by (subst reparent_disjoint) auto
  then have "tree_at ?h6 (Some a) l"
    using d(4) unfolding rb by auto
  then have set_l: "rb_set_parent (rootp l) (Some m) (s1\<lparr>nodes := ?h6\<rparr>) = Some (s1\<lparr>nodes := reparent (rootp l) (Some m) ?h6\<rparr>)"
    using set_parent_tree [of "s1\<lparr>nodes := ?h6\<rparr>" "Some a" l "Some m"] by simp
  have set_rr: "rb_set_parent (rootp rr) (Some q) s1 = Some (s1\<lparr>nodes := ?h2\<rparr>)"
    by (rule set_parent_tree [OF tr(1)])
  show ?thesis
    unfolding erase_two_kids_def set_parent_if
    using n(1-3) s1 s d(2,3) h2 [of a] h2 [of m] h2 [of q] nb' set_rr set_l eq
    by (cases "b = q")
      (simp_all add: get_parent_def get_color_def set_parent_Some lift Let_def del: reparent.simps)
qed

lemma erase_two_kids_far:
  assumes h: "holds s (plug (T c l a (plug (T cm E m rr) ((L, cq, q, sq) # j))) k)" and l: "l \<noteq> E"
    and spine: "before ((L, cq, q, sq) # j) = []"
  shows "\<exists>s'. erase_two_kids (Some a) s =
      (if cm = RB_BLACK then rb_erase_color (rootp rr) (Some q) s' else Some s') \<and>
    holds s' (plug rr (((L, cq, q, sq) # j) @ (R, c, m, l) # k)) \<and>
    same_outside (set (addrs (plug (T c l a (plug (T cm E m rr) ((L, cq, q, sq) # j))) k)) - {a}) s s'"
proof -
  let ?P = "hole_par None k" and ?j = "(L, cq, q, sq) # j"
  let ?r = "plug (T cm E m rr) ?j"
  have ad: "addrs ?r = m # addrs rr @ after ?j" unfolding addrs_plug using spine by simp
  have sets: "set (addrs ?r) = insert m (set (addrs rr) \<union> set (path_addrs ?j))" by (simp only: set_addrs_plug) auto
  have root_r: "rootp ?r = top (Some m) ?j" by (simp only: rootp_plug) simp
  have H: "tree_at (nodes s) (Some a) l" "tree_at (nodes s) (Some q) (T cm E m rr)"
    "path_at (nodes s) (Some a) (Some m) ?j" "nodes s a = Some (mk ?P (rootp l) (top (Some m) ?j) c)"
    "tree_at (nodes s) (Some a) ?r"
    using h root_r unfolding holds_plug by (auto simp only: tree_at.simps tree_at_plug hole_par.simps rootp.simps)
  have D: "distinct (a # m # addrs l @ addrs rr @ path_addrs ?j @ path_addrs k)"
    using h unfolding holds_plug by (auto simp only: addrs.simps distinct_append distinct.simps set_append list.set sets
      distinct_addrs_plug)
  obtain b where b: "top (Some m) ?j = Some b" "b \<in> set (path_addrs ?j)" using top_in_path [of ?j "Some m"] by auto
  obtain s1 where s1: "replace_child ?P (Some a) (Some m) s = Some s1"
    "path_at (nodes s1) None (Some m) k" "root s1 = top (Some m) k"
    "\<forall>x. Some x \<noteq> ?P \<longrightarrow> nodes s1 x = nodes s x"
    using replace_child_path [of s a k "Some m"] h D by (auto simp: holds_plug)
  have keep: "nodes s1 x = nodes s x" if "x \<notin> set (path_addrs k)" for x
    using s1(4) that by (metis hole_par_in)
  have H1: "tree_at (nodes s1) (Some a) l" "tree_at (nodes s1) (Some m) rr" "path_at (nodes s1) (Some a) (Some m) ?j"
    "nodes s1 m = Some (mk (Some q) None (rootp rr) cm)" "nodes s1 a = Some (mk ?P (rootp l) (Some b) c)"
  proof -
    have "tree_at (nodes s1) (Some a) l = tree_at (nodes s) (Some a) l"
      "tree_at (nodes s1) (Some m) rr = tree_at (nodes s) (Some m) rr"
      "path_at (nodes s1) (Some a) (Some m) ?j = path_at (nodes s) (Some a) (Some m) ?j"
      using D by (intro tree_at_cong path_at_cong keep; auto)+
    then show "tree_at (nodes s1) (Some a) l" "tree_at (nodes s1) (Some m) rr" "path_at (nodes s1) (Some a) (Some m) ?j"
      using H(1-3) by simp_all
    show "nodes s1 m = Some (mk (Some q) None (rootp rr) cm)" "nodes s1 a = Some (mk ?P (rootp l) (Some b) c)"
      using H(2,4) D keep [of m] keep [of a] b(1) by auto
  qed
  obtain nq nb where q: "nodes s1 q = Some nq" "nodes s1 b = Some nb"
    using H1(3) path_top_node [OF H1(3) _ b(1)] by auto
  have sa: "nodes s a = nodes s1 a" using H(4) H1(5) b(1) by simp
  let ?s' = "s1\<lparr>nodes := lift_successor ?P c l m rr q ?j (nodes s1)\<rparr>"
  have left: "leftmost (Some b) s = Some (Some m)"
  proof -
    have "?r \<noteq> E" using root_r b(1) by (metis option.distinct(1) rootp.simps(1))
    from leftmost_tree [OF H(5) this] show ?thesis unfolding root_r b(1) ad by simp
  qed
  have dq: "distinct [a, q, m]" "distinct [a, b, m]" "set [a, b, q, m] \<inter> (set (addrs rr) \<union> set (addrs l)) = {}"
    "set (addrs rr) \<inter> set (addrs l) = {}" using D b(2) by auto
  have run: "erase_two_kids (Some a) s =
      (if cm = RB_BLACK then rb_erase_color (rootp rr) (Some q) ?s' else Some ?s')"
    unfolding erase_two_kids_run [OF H1(5,4) q s1(1) sa left H1(2,1) b(1) dq(4,1,2,3)] Let_def by simp
  have dj: "distinct (path_addrs ?j)" "distinct (addrs rr)" "distinct (addrs l)"
    "set (addrs rr) \<inter> set (path_addrs ?j) = {}" "set (addrs l) \<inter> (set (addrs rr) \<union> set (path_addrs ?j)) = {}"
    "m \<notin> set (addrs rr) \<union> set (addrs l) \<union> set (path_addrs ?j)" using D by auto
  note shape = lift_successor_shape [OF H1(3,2,1) dj, where P = ?P and c = c]
  have "path_at (nodes ?s') None (Some m) k = path_at (nodes s1) None (Some m) k"
    using D by (intro path_at_cong) (simp del: path_addrs.simps, intro shape(5), auto)
  then have "holds ?s' (plug rr (?j @ (R, c, m, l) # k))"
    unfolding holds_plug path_at_append hole_par_append top_append path_addrs_append
    using shape(1-4) s1(2,3) D b(1) by auto
  moreover have "same_outside (set (addrs (plug (T c l a ?r) k)) - {a}) s ?s'"
    unfolding same_outside_def set_addrs_plug addrs.simps set_append list.set sets
    using shape(5) keep D by auto
  ultimately show ?thesis using run by blast
qed

lemma erase_two_kids_unlinks:
  assumes h: "holds s (plug (T c l a r) k)" and "l \<noteq> E" and "r \<noteq> E"
  shows "\<exists>cm m rr j s'. r = plug (T cm E m rr) j \<and>
    erase_two_kids (Some a) s =
      (if cm = RB_BLACK then rb_erase_color (rootp rr) (hole_par None (j @ (R, c, m, l) # k)) s' else Some s') \<and>
    unlinked a (plug (T c l a r) k) s (plug rr (j @ (R, c, m, l) # k)) s'"
proof -
  obtain cm m rr j where r: "r = plug (T cm E m rr) j" and j: "\<forall>f \<in> set j. fst f = L" "before j = []"
    using leftmost_spine [OF assms(3)] by blast
  have a: "a \<notin> set (before k)" "a \<notin> set (addrs l)" using h by (auto simp: holds_def addrs_plug)
  have ad: "addrs (plug rr (j @ (R, c, m, l) # k)) = remove1 a (addrs (plug (T c l a r) k))"
    unfolding r plug_append addrs_plug using a j(2) by (simp add: addrs_plug remove1_append)
  have "\<exists>s'. erase_two_kids (Some a) s =
      (if cm = RB_BLACK then rb_erase_color (rootp rr) (hole_par None (j @ (R, c, m, l) # k)) s' else Some s') \<and>
    holds s' (plug rr (j @ (R, c, m, l) # k)) \<and> same_outside (set (addrs (plug (T c l a r) k)) - {a}) s s'"
  proof (cases j)
    case Nil
    show ?thesis using erase_two_kids_near [of s c l a cm m rr k] h assms(2)
      unfolding r Nil by (simp only: plug_simps(1) append_Nil hole_par.simps simp_thms)
  next
    case (Cons f j')
    then obtain cq q sq where f: "f = (L, cq, q, sq)" using j(1) by (cases f) auto
    show ?thesis using erase_two_kids_far [of s c l a cm m rr cq q sq j' k] h assms(2) j(2)
      unfolding r Cons f by (simp only: hole_par_append hole_par.simps append_Cons simp_thms)
  qed
  with r ad show ?thesis unfolding unlinked_def by blast
qed

subsection \<open>The whole operation\<close>

lemma cinv_addr: "cinv (j @ (d, c, a, t) # k) n \<longleftrightarrow> cinv (j @ (d, c, b, t) # k) n"
proof (induction j arbitrary: n)
  case (Cons f j)
  obtain d' c' a' t' where f: "f = (d', c', a', t')" by (cases f) auto
  have "top_black (j @ (d, c, a, t) # k) = top_black (j @ (d, c, b, t) # k)"
  proof (cases j)
    case (Cons g j')
    then show ?thesis by (cases g) auto
  qed simp
  with Cons show ?case unfolding f by auto
qed simp

lemma finish_erase:
  assumes u: "unlinked a t0 s (plug t k) s'" and "distinct (addrs t0)" and "invc t" and "invh t"
    and "cinv k (if c = RB_BLACK then Suc (bheight t) else bheight t)" and "c = RB_RED \<Longrightarrow> colour t = RB_BLACK"
  shows "\<exists>s'' t''. (if c = RB_BLACK then rb_erase_color (rootp t) (hole_par None k) s' else Some s') = Some s'' \<and>
    unlinked a t0 s t'' s'' \<and> rbt t''"
proof (cases c)
  case RB_RED
  with assms have "rbt (plug t k)" by (intro rbt_plug) auto
  with u RB_RED show ?thesis by auto
next
  case RB_BLACK
  have "mended (rootp t) (hole_par None k) s' (plug t k)"
    using assms RB_BLACK by (intro rb_erase_color_mends invc_paint) (auto simp: unlinked_def)
  then obtain s'' t'' where s'': "rb_erase_color (rootp t) (hole_par None k) s' = Some s''"
    "turns s' (plug t k) s'' t''" "rbt t''" by (auto simp: mended_def)
  have "set (addrs (plug t k)) = set (addrs t0) - {a}" using u assms(2) by (simp add: unlinked_def)
  with u s''(2) have "unlinked a t0 s t'' s''"
    by (auto simp: unlinked_def turns_def intro: same_outside_trans)
  with s'' RB_BLACK show ?thesis by auto
qed

lemma rb_erase_unlinks:
  assumes "rbt t" and h: "holds s t" and "a \<in> set (addrs t)"
  shows "\<exists>s' t'. rb_erase (Some a) s = Some s' \<and> unlinked a t s t' s' \<and> rbt t'"
proof -
  obtain c l r k where t: "t = plug (T c l a r) k" using addr_in_plug [OF assms(3)] by blast
  have n: "nodes s a = Some (mk (hole_par None k) (rootp l) (rootp r) c)"
    using h unfolding t by (rule holds_node)
  have d: "distinct (addrs t)" using h by (simp add: holds_def)
  have inv: "invc (T c l a r)" "invh (T c l a r)" "cinv k (bheight (T c l a r))"
    using cinv_plug [of "T c l a r" k] assms(1) by (auto simp: t rbt_def)
  show ?thesis
  proof (cases "l = E \<or> r = E")
    case True
    then obtain t0 where t0: "l = E \<and> t0 = r \<or> r = E \<and> t0 = l" by blast
    obtain s1 where s1: "erase_one_kid (Some a) (rootp t0) s =
        (if c = RB_BLACK then rb_erase_color (rootp t0) (hole_par None k) s1 else Some s1)"
      "unlinked a t s (plug t0 k) s1"
      using erase_one_kid_unlinks [OF h [unfolded t] t0] unfolding t by blast
    have "rb_erase (Some a) s = erase_one_kid (Some a) (rootp t0) s" using n t0 by (auto simp: rb_erase_def)
    moreover have "cinv k (if c = RB_BLACK then Suc (bheight t0) else bheight t0)" using inv t0 by auto
    ultimately show ?thesis unfolding s1(1) using s1(2) d inv t0 by (simp only:) (rule finish_erase, auto)
  next
    case False
    obtain cm m rr j s1 where r: "r = plug (T cm E m rr) j" and s1: "erase_two_kids (Some a) s =
        (if cm = RB_BLACK then rb_erase_color (rootp rr) (hole_par None (j @ (R, c, m, l) # k)) s1 else Some s1)"
      "unlinked a t s (plug rr (j @ (R, c, m, l) # k)) s1"
      using erase_two_kids_unlinks [OF h [unfolded t]] False unfolding t by blast
    have "t = plug (T cm E m rr) (j @ (R, c, a, l) # k)" by (simp add: t r plug_append N_def)
    then have i: "invc (T cm E m rr)" "invh (T cm E m rr)" "cinv (j @ (R, c, m, l) # k) (bheight (T cm E m rr))"
      using cinv_plug [of "T cm E m rr" "j @ (R, c, a, l) # k"] assms(1) by (auto simp: rbt_def cinv_addr [of j R c a l k _ m])
    have "rb_erase (Some a) s = erase_two_kids (Some a) s" using n False by (auto simp: rb_erase_def)
    moreover have "cinv (j @ (R, c, m, l) # k) (if cm = RB_BLACK then Suc (bheight rr) else bheight rr)" using i by auto
    ultimately show ?thesis unfolding s1(1) using s1(2) d i by (simp only:) (rule finish_erase, auto)
  qed
qed

end
