(* ===== verification/Rbtree_Correct.thy ===== *)
theory Rbtree_Correct
  imports Rbtree_Unlink
begin

text \<open>
  The red-black tree as its clients see it: a sequence of node addresses, in tree order.
  Linking and recolouring inserts one address at the chosen place, \<open>rb_erase\<close> removes exactly
  one, \<open>rb_first\<close>/\<open>rb_next\<close> and \<open>rb_last\<close>/\<open>rb_prev\<close> enumerate it, and every operation leaves a
  red-black tree, returns, dereferences no null pointer, and writes no node outside the tree.
\<close>

lemma rb_first_holds: "holds s t \<Longrightarrow> rb_first s = Some (hd_ptr (addrs t))"
  using leftmost_tree [of s None t] by (cases t) (auto simp: rb_first_def holds_def)

lemma rb_last_holds: "holds s t \<Longrightarrow> rb_last s = Some (hd_ptr (rev (addrs t)))"
  using rightmost_tree [of s None t] by (cases t) (auto simp: rb_last_def holds_def hd_rev)

lemma hd_ptr_drop: "hd_ptr (drop i xs) = (if i < length xs then Some (xs ! i) else None)"
  by (cases "i < length xs") (simp_all add: Cons_nth_drop_Suc [symmetric])

lemma rb_next_holds:
  assumes "holds s t" and "i < length (addrs t)"
  shows "rb_next (Some (addrs t ! i)) s = Some (hd_ptr (drop (Suc i) (addrs t)))"
proof -
  let ?a = "addrs t ! i"
  obtain c l r k where t: "t = plug (T c l ?a r) k" using addr_in_plug [of ?a t] assms(2) by auto
  let ?b = "before k @ addrs l"
  have ad: "addrs t = ?b @ ?a # addrs r @ after k" by (subst t) (simp add: addrs_plug)
  have "addrs t ! length ?b = ?a" by (subst ad) (simp only: nth_append_length)
  moreover have "length ?b < length (addrs t)" by (subst ad) simp
  moreover have "distinct (addrs t)" using assms(1) by (simp add: holds_def)
  ultimately have "i = length ?b" using assms(2) nth_eq_iff_index_eq by blast
  then have "drop (Suc i) (addrs t) = addrs r @ after k" by (subst ad) simp
  with rb_next_plug [of s c l ?a r k] t assms(1) show ?thesis by simp
qed

lemma rb_prev_holds:
  assumes "holds s t" and "i < length (addrs t)"
  shows "rb_prev (Some (addrs t ! i)) s = Some (hd_ptr (rev (take i (addrs t))))"
proof -
  let ?a = "addrs t ! i"
  obtain c l r k where t: "t = plug (T c l ?a r) k" using addr_in_plug [of ?a t] assms(2) by auto
  let ?b = "before k @ addrs l"
  have ad: "addrs t = ?b @ ?a # addrs r @ after k" by (subst t) (simp add: addrs_plug)
  have "addrs t ! length ?b = ?a" by (subst ad) (simp only: nth_append_length)
  moreover have "length ?b < length (addrs t)" by (subst ad) simp
  moreover have "distinct (addrs t)" using assms(1) by (simp add: holds_def)
  ultimately have "i = length ?b" using assms(2) nth_eq_iff_index_eq by blast
  then have "take i (addrs t) = ?b" by (subst ad) simp
  with rb_prev_plug [of s c l ?a r k] t assms(1) show ?thesis by simp
qed

definition rb_insert_at :: "frame list \<Rightarrow> nat \<Rightarrow> rb_state \<Rightarrow> rb_state option" where
  "rb_insert_at k x s = do {
     s \<leftarrow> rb_link_node (Some x) (hole_par None k) (link_of k) s;
     rb_insert_color (Some x) s
   }"

lemma rb_insert_at_holds:
  assumes "rbt (plug E k)" and "holds s (plug E k)" and "x \<notin> set (addrs (plug E k))" and "nodes s x = Some n"
  shows "\<exists>s' t'. rb_insert_at k x s = Some s' \<and> holds s' t' \<and> rbt t' \<and>
    addrs t' = before k @ x # after k \<and> same_outside (insert x (set (addrs (plug E k)))) s s'"
proof -
  obtain s1 where s1: "rb_link_node (Some x) (hole_par None k) (link_of k) s = Some s1"
    "holds s1 (plug (T RB_RED E x E) k)" "same_outside (insert x (set (addrs (plug E k)))) s s1"
    using rb_link_node_holds [OF assms(2-4)] by blast
  obtain s2 t2 where s2: "rb_insert_color (Some x) s1 = Some s2" "turns s1 (plug (T RB_RED E x E) k) s2 t2" "rbt t2"
    using rb_insert_color_holds [OF assms(1) s1(2)] by blast
  have "set (addrs (plug (T RB_RED E x E) k)) = insert x (set (addrs (plug E k)))" by (simp add: set_addrs_plug)
  with s1 s2 have "same_outside (insert x (set (addrs (plug E k)))) s s2"
    by (auto simp: turns_def intro: same_outside_trans)
  with s1 s2 show ?thesis by (auto simp: rb_insert_at_def turns_def addrs_plug)
qed

subsection \<open>Properties\<close>

text \<open>C10: Inserting a node: linking a fresh node \<open>x\<close> at an empty position \<open>k\<close> of a red-black tree and
  running \<open>rb_insert_color\<close> returns, without any null dereference; the result is again a red-black
  tree with black root, whose in-order sequence is the old one with \<open>x\<close> put at that position, and
  no node outside the tree was written.\<close>

theorem rb_insert_keeps_tree:
  assumes "rbt (plug E k)" and "holds s (plug E k)" and "x \<notin> set (addrs (plug E k))" and "nodes s x \<noteq> None"
  shows "\<exists>s' t'. rb_insert_at k x s = Some s' \<and> holds s' t' \<and> rbt t' \<and>
    addrs (plug E k) = before k @ after k \<and> addrs t' = before k @ x # after k \<and>
    (\<forall>a. a \<noteq> x \<and> a \<notin> set (addrs t') \<longrightarrow> nodes s' a = nodes s a)"
proof -
  obtain n where n: "nodes s x = Some n" using assms(4) by auto
  from rb_insert_at_holds [OF assms(1-3) n] obtain s' t' where
    "rb_insert_at k x s = Some s'" "holds s' t'" "rbt t'" "addrs t' = before k @ x # after k"
    "same_outside (insert x (set (addrs (plug E k)))) s s'" by blast
  then show ?thesis by (auto simp: addrs_plug same_outside_def)
qed

text \<open>A store with the red-black tree 1 - 2 - 3 (root 2 black, leaves red) and a free node 4.\<close>

definition demo_nodes :: "nat \<Rightarrow> rb_node option" where
  "demo_nodes = [1 \<mapsto> mk (Some 2) None None RB_RED, 2 \<mapsto> mk None (Some 1) (Some 3) RB_BLACK,
     3 \<mapsto> mk (Some 2) None None RB_RED, 4 \<mapsto> mk None None None RB_BLACK]"

definition demo_tree :: tr where
  "demo_tree = T RB_BLACK (T RB_RED E 1 E) 2 (T RB_RED E 3 E)"

lemma demo_holds: "holds \<lparr>nodes = demo_nodes, root = Some 2\<rparr> demo_tree" "rbt demo_tree"
  by (simp_all add: holds_def demo_nodes_def demo_tree_def rbt_def)

lemma demo_slot: "plug E [(R, RB_RED, 3, E), (R, RB_BLACK, 2, T RB_RED E 1 E)] = demo_tree"
  by (simp add: demo_tree_def N_def)

theorem rb_insert_keeps_tree_witness:
  "\<exists>s' t'. rb_insert_at [(R, RB_RED, 3, E), (R, RB_BLACK, 2, T RB_RED E 1 E)] 4
     \<lparr>nodes = demo_nodes, root = Some 2\<rparr> = Some s' \<and> holds s' t' \<and> rbt t' \<and> addrs t' = [1, 2, 3, 4]"
  using rb_insert_keeps_tree [of "[(R, RB_RED, 3, E), (R, RB_BLACK, 2, T RB_RED E 1 E)]"
      "\<lparr>nodes = demo_nodes, root = Some 2\<rparr>" 4] demo_holds
  unfolding demo_slot by (auto simp: demo_tree_def demo_nodes_def)

text \<open>C11: Removing a node: \<open>rb_erase\<close> of any node of a red-black tree returns, without any null
  dereference; exactly that node leaves the in-order sequence, the result is a red-black tree
  again, and nothing outside the remaining tree (not even the removed node) is written.\<close>

theorem rb_erase_removes:
  assumes "rbt t" and "holds s t" and "a \<in> set (addrs t)"
  shows "\<exists>s' t'. rb_erase (Some a) s = Some s' \<and> holds s' t' \<and> rbt t' \<and> addrs t' = remove1 a (addrs t) \<and>
    (\<forall>b. b \<notin> set (addrs t') \<longrightarrow> nodes s' b = nodes s b)"
  using rb_erase_unlinks [OF assms] assms(2)
  by (fastforce simp: unlinked_def same_outside_def holds_def)

theorem rb_erase_removes_witness:
  "\<exists>s' t'. rb_erase (Some 2) \<lparr>nodes = demo_nodes, root = Some 2\<rparr> = Some s' \<and> holds s' t' \<and> rbt t' \<and>
     addrs t' = [1, 3]"
  using rb_erase_removes [OF demo_holds(2,1), of 2] by (auto simp: demo_tree_def)

text \<open>Enumeration: on a store that holds a tree, \<open>rb_first\<close> and \<open>rb_last\<close> return its least and
  greatest node, and \<open>rb_next\<close>, \<open>rb_prev\<close> step from the \<open>i\<close>-th node of the in-order sequence to its
  neighbours, null at the ends.\<close>

theorem rb_traversal_in_order:
  assumes "holds s t" and "i < length (addrs t)"
  shows "rb_first s = Some (Some (addrs t ! 0)) \<and> rb_last s = Some (Some (addrs t ! (length (addrs t) - 1))) \<and>
    rb_next (Some (addrs t ! i)) s = Some (if Suc i < length (addrs t) then Some (addrs t ! Suc i) else None) \<and>
    rb_prev (Some (addrs t ! i)) s = Some (if i = 0 then None else Some (addrs t ! (i - 1)))"
proof -
  have ne: "addrs t \<noteq> []" using assms(2) by auto
  have "rb_first s = Some (Some (addrs t ! 0))"
    using rb_first_holds [OF assms(1)] ne by (simp add: hd_conv_nth del: addrs_Nil)
  moreover have "rb_last s = Some (Some (addrs t ! (length (addrs t) - 1)))"
    using rb_last_holds [OF assms(1)] ne by (simp add: hd_rev last_conv_nth del: addrs_Nil)
  moreover have "hd_ptr (rev (take i (addrs t))) = (if i = 0 then None else Some (addrs t ! (i - 1)))"
  proof (cases i)
    case (Suc n)
    then have "take i (addrs t) = take n (addrs t) @ [addrs t ! n]" using assms(2) by (simp add: take_Suc_conv_app_nth)
    with Suc show ?thesis by simp
  qed simp
  ultimately show ?thesis using rb_next_holds [OF assms] rb_prev_holds [OF assms] by (simp add: hd_ptr_drop)
qed

theorem rb_traversal_in_order_witness:
  "rb_first \<lparr>nodes = demo_nodes, root = Some 2\<rparr> = Some (Some 1) \<and>
   rb_next (Some 1) \<lparr>nodes = demo_nodes, root = Some 2\<rparr> = Some (Some 2)"
  using rb_traversal_in_order [OF demo_holds(1), of 0] by (simp add: demo_tree_def)

end
