(* ===== verification/Sched.thy ===== *)
theory Sched
  imports Task Rbtree_Correct
begin

text \<open>
  \<^verbatim>\<open>kernel/sched.c\<close>: the completely fair scheduler. The run queue is the red-black tree of
  \<open>Rbtree\<close> keyed by 64-bit \<^verbatim>\<open>vruntime\<close>, with a cached leftmost node; \<open>schedule\<close> charges the
  running thread, puts it back if it is still runnable, and switches to the leftmost thread,
  or to the idle thread when nothing else is ready. The register exchange of \<^verbatim>\<open>switch_to\<close>
  (assembly) is the change of \<open>running\<close>.
\<close>

definition sched_prio_to_weight :: "u32 list" where
  "sched_prio_to_weight =
     [88761, 71755, 56483, 46273, 36291,
      29154, 23254, 18705, 14949, 11916,
      9548, 7620, 6100, 4904, 3906,
      3121, 2501, 1991, 1586, 1277,
      1024, 820, 655, 526, 423,
      335, 272, 215, 172, 137,
      110, 87, 70, 56, 45,
      36, 29, 23, 18, 15]"

definition sched_init :: "'a kernel_scheme \<Rightarrow> 'a kernel_scheme" where
  "sched_init s = s\<lparr>tasks_timeline := (tasks_timeline s)\<lparr>root := None\<rparr>, rb_leftmost := None,
     min_vruntime := 0, nr_running := 0\<rparr>"

definition nice_to_weight :: "8 word \<Rightarrow> u32 option" where
  "nice_to_weight nice =
     (let n = sint nice;
          n = (if n < -20 then -20 else n);
          n = (if n > 19 then 19 else n)
      in arr_get sched_prio_to_weight (nat (n + 20)))"

definition calc_vruntime_delta :: "ptr \<Rightarrow> u64 \<Rightarrow> 'a kernel_scheme \<Rightarrow> 'a kernel_scheme option" where
  "calc_vruntime_delta thread delta_exec s = do {
     t \<leftarrow> task_of thread s;
     s \<leftarrow> (if weight t = 0 then upd_task thread (\<lambda>t. t\<lparr>weight := 1024\<rparr>) s else Some s);
     t \<leftarrow> task_of thread s;
     let delta_32 = (ucast delta_exec :: u32);
     let scaled_delta = push_bit 18 delta_32;
     let delta_vruntime = scaled_delta div weight t;
     let delta_vruntime = (if delta_vruntime = 0 then 1 else delta_vruntime);
     upd_task thread (\<lambda>t. t\<lparr>vruntime := vruntime t + ucast delta_vruntime\<rparr>) s
   }"

definition update_curr :: "ptr \<Rightarrow> 'a kernel_scheme \<Rightarrow> 'a kernel_scheme option" where
  "update_curr cur s =
     (if cur = None then Some s
      else do {
        t \<leftarrow> task_of cur s;
        let now = (ucast (elapsed_ticks t) :: u64);
        let delta_exec = now - exec_start t;
        if delta_exec > 0
        then do {
          s \<leftarrow> calc_vruntime_delta cur delta_exec s;
          s \<leftarrow> upd_task cur (\<lambda>t. t\<lparr>exec_start := now\<rparr>) s;
          s \<leftarrow> upd_task cur (\<lambda>t. t\<lparr>sum_exec_runtime := sum_exec_runtime t + delta_exec\<rparr>) s;
          t \<leftarrow> task_of cur s;
          mv \<leftarrow> (if rb_leftmost s \<noteq> None
                 then do {
                   lt \<leftarrow> task_of (rb_leftmost s) s;
                   Some (if vruntime lt < vruntime t then vruntime lt else vruntime t)
                 }
                 else Some (vruntime t));
          let mv = (if mv < min_vruntime s then min_vruntime s else mv);
          Some (s\<lparr>min_vruntime := mv\<rparr>)
        }
        else Some s
      })"

text \<open>The descent of \<^verbatim>\<open>enqueue_task\<close>: \<^verbatim>\<open>link\<close>, \<^verbatim>\<open>parent\<close> and the \<^verbatim>\<open>leftmost\<close> flag of its loop.\<close>

partial_function (option) find_link ::
  "(nat \<Rightarrow> task_struct option) \<Rightarrow> u64 \<Rightarrow> rb_link \<Rightarrow> ptr \<Rightarrow> bool \<Rightarrow> rb_state \<Rightarrow> (rb_link \<times> ptr \<times> bool) option" where
  "find_link ts v link parent lm r = do {
     p \<leftarrow> link_get link r;
     (case p of
        None \<Rightarrow> Some (link, parent, lm)
      | Some a \<Rightarrow> do {
          entry \<leftarrow> ts a;
          if v < vruntime entry then find_link ts v (Left_Link a) p lm r
          else find_link ts v (Right_Link a) p False r
        })
   }"

declare find_link.simps [code]

definition enqueue_task :: "ptr \<Rightarrow> 'a kernel_scheme \<Rightarrow> 'a kernel_scheme option" where
  "enqueue_task thread s = do {
     t \<leftarrow> task_of thread s;
     s \<leftarrow> (if vruntime t < min_vruntime s
           then upd_task thread (\<lambda>t. t\<lparr>vruntime := min_vruntime s\<rparr>) s else Some s);
     t \<leftarrow> task_of thread s;
     (link, parent, lm) \<leftarrow> find_link (tasks s) (vruntime t) Root_Link None True (tasks_timeline s);
     let s = (if lm then s\<lparr>rb_leftmost := thread\<rparr> else s);
     r \<leftarrow> rb_link_node thread parent link (tasks_timeline s);
     r \<leftarrow> rb_insert_color thread r;
     Some (s\<lparr>tasks_timeline := r, nr_running := nr_running s + 1\<rparr>)
   }"

definition dequeue_task :: "ptr \<Rightarrow> 'a kernel_scheme \<Rightarrow> 'a kernel_scheme option" where
  "dequeue_task thread s = do {
     s \<leftarrow> (if rb_leftmost s = thread
           then do { nxt \<leftarrow> rb_next thread (tasks_timeline s); Some (s\<lparr>rb_leftmost := nxt\<rparr>) }
           else Some s);
     r \<leftarrow> rb_erase thread (tasks_timeline s);
     Some (s\<lparr>tasks_timeline := r, nr_running := nr_running s - 1\<rparr>)
   }"

definition pick_next_task :: "'a kernel_scheme \<Rightarrow> ptr" where
  "pick_next_task s = (if rb_leftmost s = None then None else rb_leftmost s)"

text \<open>\<^verbatim>\<open>thread_unblock\<close> of \<^verbatim>\<open>thread/thread.c\<close>, which \<open>schedule\<close> calls for the idle thread.\<close>

definition thread_unblock :: "ptr \<Rightarrow> 'a kernel_scheme \<Rightarrow> 'a kernel_scheme option" where
  "thread_unblock pthread s = do {
     let (old_status, s) = k_intr_disable s;
     t \<leftarrow> task_of pthread s;
     ASSERT (status t = TASK_BLOCKED \<or> status t = TASK_WAITING \<or> status t = TASK_HANGING);
     s \<leftarrow> upd_task pthread (\<lambda>t. t\<lparr>status := TASK_READY\<rparr>) s;
     s \<leftarrow> enqueue_task pthread s;
     Some (k_intr_set_status old_status s)
   }"

definition switch_to :: "ptr \<Rightarrow> ptr \<Rightarrow> 'a kernel_scheme \<Rightarrow> 'a kernel_scheme option" where
  "switch_to prev nxt s = (case (prev, nxt) of (Some _, Some n) \<Rightarrow> Some (s\<lparr>running := n\<rparr>) | _ \<Rightarrow> None)"

text \<open>The end of \<^verbatim>\<open>schedule\<close>, once the next thread is chosen.\<close>

definition switch_task :: "ptr \<Rightarrow> ptr \<Rightarrow> 'a kernel_scheme \<Rightarrow> 'a kernel_scheme option" where
  "switch_task prev nxt s = do {
     s \<leftarrow> dequeue_task nxt s;
     s \<leftarrow> upd_task nxt (\<lambda>t. t\<lparr>status := TASK_RUNNING\<rparr>) s;
     s \<leftarrow> upd_task nxt (\<lambda>t. t\<lparr>exec_start := ucast (elapsed_ticks t)\<rparr>) s;
     s \<leftarrow> process_activate nxt s;
     if nxt \<noteq> prev then switch_to prev nxt (s\<lparr>current_thread := nxt\<rparr>) else Some s
   }"

text \<open>Its beginning: charge the previous thread and put it back if it is still runnable.\<close>

definition put_prev :: "ptr \<Rightarrow> 'a kernel_scheme \<Rightarrow> 'a kernel_scheme option" where
  "put_prev prev s =
     (if prev \<noteq> None
      then do {
        s \<leftarrow> update_curr prev s;
        t \<leftarrow> task_of prev s;
        if status t = TASK_RUNNING
        then do {
          s \<leftarrow> upd_task prev (\<lambda>t. t\<lparr>status := TASK_READY\<rparr>) s;
          enqueue_task prev s
        }
        else Some s
      }
      else Some s)"

definition schedule :: "'a kernel_scheme \<Rightarrow> 'a kernel_scheme option" where
  "schedule s = do {
     ASSERT (intr_off s);
     let prev = current_thread s;
     s \<leftarrow> put_prev prev s;
     let nxt = pick_next_task s;
     if nxt = None
     then
       if prev = idle_thread s
       then do {
         s \<leftarrow> upd_task (idle_thread s) (\<lambda>t. t\<lparr>status := TASK_RUNNING\<rparr>) s;
         Some (s\<lparr>current_thread := idle_thread s\<rparr>)
       }
       else do {
         s \<leftarrow> thread_unblock (idle_thread s) s;
         let nxt = pick_next_task s;
         if nxt = None
         then (if prev \<noteq> None then upd_task prev (\<lambda>t. t\<lparr>status := TASK_RUNNING\<rparr>) s else Some s)
         else switch_task prev nxt s
       }
     else switch_task prev nxt s
   }"

end
