(* ===== verification/Run_Queue.thy ===== *)
theory Run_Queue
  imports Sched
begin

text \<open>
  The run queue as the scheduler uses it: a sequence of threads sorted by \<^verbatim>\<open>vruntime\<close>, behind
  the red-black tree, its cached leftmost node and its counter. The locale \<open>run_queue\<close> is the
  contract between the queue and the code that picks threads from it; it is interpreted on
  \<open>enqueue_task\<close>, \<open>dequeue_task\<close> and \<open>pick_next_task\<close>.
\<close>

primrec drain :: "('s \<Rightarrow> 'i option) \<Rightarrow> ('i \<Rightarrow> 's \<Rightarrow> 's option) \<Rightarrow> nat \<Rightarrow> 's \<Rightarrow> ('i list \<times> 's) option" where
  "drain pick deq 0 s = Some ([], s)"
| "drain pick deq (Suc n) s = do {
     x \<leftarrow> pick s;
     s \<leftarrow> deq x s;
     (xs, s) \<leftarrow> drain pick deq n s;
     Some (x # xs, s)
   }"

primrec enq_all :: "('i \<Rightarrow> 's \<Rightarrow> 's option) \<Rightarrow> 'i list \<Rightarrow> 's \<Rightarrow> 's option" where
  "enq_all enq [] s = Some s"
| "enq_all enq (x # xs) s = do { s \<leftarrow> enq x s; enq_all enq xs s }"

locale run_queue =
  fixes repr :: "'s \<Rightarrow> 'i list \<Rightarrow> bool"
    and key :: "'s \<Rightarrow> 'i \<Rightarrow> 'k::linorder"
    and known :: "'s \<Rightarrow> 'i \<Rightarrow> bool"
    and enq deq :: "'i \<Rightarrow> 's \<Rightarrow> 's option"
    and pick :: "'s \<Rightarrow> 'i option"
  assumes repr_sorted: "repr s q \<Longrightarrow> sorted (map (key s) q)"
    and repr_distinct: "repr s q \<Longrightarrow> distinct q"
    and pick_hd: "repr s q \<Longrightarrow> pick s = (case q of [] \<Rightarrow> None | x # _ \<Rightarrow> Some x)"
    and enq_repr: "repr s q \<Longrightarrow> known s x \<Longrightarrow> x \<notin> set q \<Longrightarrow>
      \<exists>s' q1 q2. enq x s = Some s' \<and> q = q1 @ q2 \<and> repr s' (q1 @ x # q2) \<and> known s' = known s"
    and deq_repr: "repr s q \<Longrightarrow> x \<in> set q \<Longrightarrow>
      \<exists>s'. deq x s = Some s' \<and> repr s' (remove1 x q) \<and> key s' = key s \<and> known s' = known s"
begin

lemma pick_None: "repr s q \<Longrightarrow> pick s = None \<longleftrightarrow> q = []"
  by (simp add: pick_hd split: list.splits)

lemma pick_least:
  assumes "repr s q" and "pick s = Some x"
  shows "x \<in> set q \<and> (\<forall>y \<in> set q. key s x \<le> key s y)"
  using pick_hd [OF assms(1)] repr_sorted [OF assms(1)] assms(2) by (cases q) auto

lemma drain_repr: "repr s q \<Longrightarrow> \<exists>s'. drain pick deq (length q) s = Some (q, s') \<and> repr s' []"
proof (induction q arbitrary: s)
  case (Cons x q)
  obtain s1 where s1: "deq x s = Some s1" "repr s1 q" using deq_repr [OF Cons.prems, of x] by auto
  with Cons.IH [OF s1(2)] pick_hd [OF Cons.prems] show ?case by auto
qed simp

lemma enq_all_repr:
  assumes "repr s q" and "distinct xs" and "\<forall>x \<in> set xs. known s x \<and> x \<notin> set q"
  shows "\<exists>s' q'. enq_all enq xs s = Some s' \<and> repr s' q' \<and> set q' = set q \<union> set xs \<and> length q' = length q + length xs"
  using assms
proof (induction xs arbitrary: s q)
  case (Cons x xs)
  obtain s1 q1 q2 where s1: "enq x s = Some s1" "q = q1 @ q2" "repr s1 (q1 @ x # q2)" "known s1 = known s"
    using enq_repr [OF Cons.prems(1), of x] Cons.prems(3) by auto
  have "\<forall>y \<in> set xs. known s1 y \<and> y \<notin> set (q1 @ x # q2)" using Cons.prems(2,3) s1(2,4) by auto
  with Cons.IH [OF s1(3)] Cons.prems(2) s1(1,2) show ?case by fastforce
qed (use assms in auto)

text \<open>Threads put in, in any order, come out in key order.\<close>

lemma enq_all_drain:
  assumes "repr s []" and "distinct xs" and "\<forall>x \<in> set xs. known s x"
  shows "\<exists>s1 ys s2. enq_all enq xs s = Some s1 \<and> drain pick deq (length xs) s1 = Some (ys, s2) \<and> repr s2 [] \<and>
    distinct ys \<and> set ys = set xs \<and> sorted (map (key s1) ys)"
proof -
  obtain s1 q where s1: "enq_all enq xs s = Some s1" "repr s1 q" "set q = set xs" "length q = length xs"
    using enq_all_repr [OF assms(1,2)] assms(3) by auto
  with drain_repr [OF s1(2)] repr_sorted [OF s1(2)] repr_distinct [OF s1(2)] show ?thesis by force
qed

end

subsection \<open>The representation\<close>

definition vr :: "'a kernel_scheme \<Rightarrow> nat \<Rightarrow> u64" where
  "vr s p = (case tasks s p of None \<Rightarrow> 0 | Some t \<Rightarrow> vruntime t)"

definition rq :: "'a kernel_scheme \<Rightarrow> nat list \<Rightarrow> bool" where
  "rq s q \<longleftrightarrow> (\<exists>t. holds (tasks_timeline s) t \<and> rbt t \<and> addrs t = q) \<and>
     rb_leftmost s = hd_ptr q \<and> nr_running s = of_nat (length q) \<and>
     sorted (map (vr s) q) \<and> (\<forall>p \<in> set q. tasks s p \<noteq> None \<and> min_vruntime s \<le> vr s p) \<and>
     (\<forall>p. tasks s p \<noteq> None \<longrightarrow> nodes (tasks_timeline s) p \<noteq> None)"

lemma vr_Some [simp]: "tasks s p = Some t \<Longrightarrow> vr s p = vruntime t"
  by (simp add: vr_def)

lemma holds_nodes: "holds s t \<Longrightarrow> a \<in> set (addrs t) \<Longrightarrow> nodes s a \<noteq> None"
  using addr_in_plug [of a t] holds_node by fastforce

lemma rq_distinct: "rq s q \<Longrightarrow> distinct q"
  by (auto simp: rq_def holds_def)

subsection \<open>Enqueueing\<close>

lemma link_of_get: "holds s (plug t k) \<Longrightarrow> link_get (link_of k) s = Some (rootp t)"
proof (cases k rule: link_of.cases)
  case (2 c p sib k')
  assume "holds s (plug t k)"
  then have "nodes s p = Some (mk (hole_par None k') (rootp t) (rootp sib) c)" unfolding 2 by (auto simp: N_def dest!: holds_node)
  then show ?thesis unfolding 2 by simp
next
  case (3 c p sib k')
  assume "holds s (plug t k)"
  then have "nodes s p = Some (mk (hole_par None k') (rootp sib) (rootp t) c)" unfolding 3 by (auto simp: N_def dest!: holds_node)
  then show ?thesis unfolding 3 by simp
qed (simp add: holds_def)

lemma find_link_holds:
  assumes "holds s (plug t k)" and "sorted (map f (addrs t))"
    and "\<And>a. a \<in> set (addrs t) \<Longrightarrow> \<exists>e. ts a = Some e \<and> vruntime e = f a"
  shows "\<exists>k'. find_link ts v (link_of k) (hole_par None k) lm s =
      Some (link_of k', hole_par None k', lm \<and> takeWhile (\<lambda>a. f a \<le> v) (addrs t) = []) \<and>
    plug E k' = plug t k \<and> before k' = before k @ takeWhile (\<lambda>a. f a \<le> v) (addrs t) \<and>
    after k' = dropWhile (\<lambda>a. f a \<le> v) (addrs t) @ after k"
  using assms
proof (induction t arbitrary: k lm)
  case E
  then show ?case using link_of_get [OF E(1)]
    by (intro exI [of _ k]) (simp add: find_link.simps)
next
  case (T c l a r)
  obtain e where e: "ts a = Some e" "vruntime e = f a" using T.prems(3) [of a] by auto
  note step = find_link.simps [of ts v "link_of k" "hole_par None k" lm s]
  have get: "link_get (link_of k) s = Some (Some a)" using link_of_get [OF T.prems(1)] by simp
  have ord: "\<forall>x \<in> set (addrs l). f x \<le> f a" using T.prems(2) by (auto simp: sorted_append)
  show ?case
  proof (cases "v < f a")
    case True
    have "holds s (plug l ((L, c, a, r) # k))" using T.prems(1) by (simp add: N_def)
    with T.IH(1) [of "(L, c, a, r) # k" lm] T.prems(2,3) obtain k' where
      "find_link ts v (link_of ((L, c, a, r) # k)) (Some a) lm s =
        Some (link_of k', hole_par None k', lm \<and> takeWhile (\<lambda>a. f a \<le> v) (addrs l) = [])"
      "plug E k' = plug l ((L, c, a, r) # k)" "before k' = before k @ takeWhile (\<lambda>a. f a \<le> v) (addrs l)"
      "after k' = dropWhile (\<lambda>a. f a \<le> v) (addrs l) @ a # addrs r @ after k"
      by (auto simp: sorted_append)
    with True e get show ?thesis
      by (intro exI [of _ k']) (simp add: step N_def takeWhile_tail dropWhile_append3)
  next
    case False
    then have all: "\<forall>x \<in> set (addrs l @ [a]). f x \<le> v" using ord by auto
    have "holds s (plug r ((R, c, a, l) # k))" using T.prems(1) by (simp add: N_def)
    with T.IH(2) [of "(R, c, a, l) # k" False] T.prems(2,3) obtain k' where
      "find_link ts v (link_of ((R, c, a, l) # k)) (Some a) False s = Some (link_of k', hole_par None k', False)"
      "plug E k' = plug r ((R, c, a, l) # k)"
      "before k' = before k @ addrs l @ a # takeWhile (\<lambda>a. f a \<le> v) (addrs r)"
      "after k' = dropWhile (\<lambda>a. f a \<le> v) (addrs r) @ after k"
      by (auto simp: sorted_append)
    with False e get all show ?thesis
      by (intro exI [of _ k']) (simp add: step N_def)
  qed
qed

text \<open>Where a thread of virtual runtime \<open>v\<close> goes: behind every thread that is not later.\<close>

definition queue_insert :: "(nat \<Rightarrow> u64) \<Rightarrow> u64 \<Rightarrow> nat \<Rightarrow> nat list \<Rightarrow> nat list" where
  "queue_insert f v x q = takeWhile (\<lambda>a. f a \<le> v) q @ x # dropWhile (\<lambda>a. f a \<le> v) q"

lemma set_queue_insert [simp]: "set (queue_insert f v x q) = insert x (set q)"
  unfolding queue_insert_def by (metis Un_insert_right list.simps(15) set_append takeWhile_dropWhile_id)

lemma length_queue_insert [simp]: "length (queue_insert f v x q) = Suc (length q)"
  unfolding queue_insert_def by (metis add_Suc_right length_Cons length_append takeWhile_dropWhile_id)

lemma sorted_queue_insert:
  assumes "sorted (map f q)" and "f x = v"
  shows "sorted (map f (queue_insert f v x q))"
proof -
  let ?P = "\<lambda>a. f a \<le> v"
  have "sorted (map f (takeWhile ?P q) @ map f (dropWhile ?P q))"
    using assms(1) by (metis map_append takeWhile_dropWhile_id)
  moreover have "\<forall>a \<in> set (takeWhile ?P q). f a \<le> v" by (auto dest: set_takeWhileD)
  moreover have "\<forall>a \<in> set (dropWhile ?P q). v \<le> f a"
  proof
    fix a assume a: "a \<in> set (dropWhile ?P q)"
    then have ne: "dropWhile ?P q \<noteq> []" by (metis empty_iff empty_set)
    then have "v < f (hd (dropWhile ?P q))" using hd_dropWhile by (metis leI)
    moreover have "f (hd (dropWhile ?P q)) \<le> f a"
      using a ne calculation \<open>sorted (map f (takeWhile ?P q) @ map f (dropWhile ?P q))\<close>
      by (cases "dropWhile ?P q") (auto simp: sorted_append)
    ultimately show "v \<le> f a" by simp
  qed
  ultimately show ?thesis using assms(2) by (auto simp: queue_insert_def sorted_append)
qed

definition clamp :: "'a kernel_scheme \<Rightarrow> task_struct \<Rightarrow> u64" where
  "clamp s t = max (vruntime t) (min_vruntime s)"

lemma enqueue_task_rq:
  assumes r: "rq s q" and t: "tasks s x = Some t" and x: "x \<notin> set q"
  defines "s1 \<equiv> s\<lparr>tasks := (tasks s)(x \<mapsto> t\<lparr>vruntime := clamp s t\<rparr>)\<rparr>"
  shows "\<exists>rb lm. enqueue_task (Some x) s = Some (s1\<lparr>rb_leftmost := lm, tasks_timeline := rb, nr_running := nr_running s + 1\<rparr>) \<and>
    rq (s1\<lparr>rb_leftmost := lm, tasks_timeline := rb, nr_running := nr_running s + 1\<rparr>)
      (queue_insert (vr s) (clamp s t) x q)"
proof -
  let ?v = "clamp s t" and ?f = "(vr s)(x := clamp s t)"
  obtain T0 where T0: "holds (tasks_timeline s) T0" "rbt T0" "addrs T0 = q" using r by (auto simp: rq_def)
  have f: "?f = vr s1" by (auto simp: s1_def vr_def)
  have fq: "map ?f q = map (vr s) q" using x by auto
  have srt: "sorted (map ?f (addrs T0))" unfolding T0(3) fq using r by (simp add: rq_def)
  have ex: "\<exists>e. tasks s1 a = Some e \<and> vruntime e = ?f a" if "a \<in> set (addrs T0)" for a
    using that r x T0(3) by (auto simp: rq_def s1_def)
  obtain k where k: "find_link (tasks s1) ?v Root_Link None True (tasks_timeline s) =
      Some (link_of k, hole_par None k, takeWhile (\<lambda>a. ?f a \<le> ?v) q = [])"
    "plug E k = T0" "before k = takeWhile (\<lambda>a. ?f a \<le> ?v) q" "after k = dropWhile (\<lambda>a. ?f a \<le> ?v) q"
    using find_link_holds [of "tasks_timeline s" T0 "[]" ?f "tasks s1" ?v True] T0 srt ex by auto
  have tw: "takeWhile (\<lambda>a. ?f a \<le> ?v) q = takeWhile (\<lambda>a. vr s a \<le> ?v) q"
    "dropWhile (\<lambda>a. ?f a \<le> ?v) q = dropWhile (\<lambda>a. vr s a \<le> ?v) q"
    using x by (auto intro!: takeWhile_cong dropWhile_cong)
  obtain n where n: "nodes (tasks_timeline s) x = Some n" using r t by (auto simp: rq_def)
  obtain rb t' where rb: "rb_insert_at k x (tasks_timeline s) = Some rb" "holds rb t'" "rbt t'"
    "addrs t' = before k @ x # after k" "same_outside (insert x (set (addrs (plug E k)))) (tasks_timeline s) rb"
    using rb_insert_at_holds [of k "tasks_timeline s" x n] T0 k(2) x n by auto
  have q': "addrs t' = queue_insert (vr s) ?v x q" using rb(4) k(3,4) tw by (simp add: queue_insert_def)
  let ?lm = "if takeWhile (\<lambda>a. vr s a \<le> ?v) q = [] then Some x else rb_leftmost s"
  let ?s' = "s1\<lparr>rb_leftmost := ?lm, tasks_timeline := rb, nr_running := nr_running s + 1\<rparr>"
  have s1: "(if vruntime t < min_vruntime s then upd_task (Some x) (\<lambda>t. t\<lparr>vruntime := min_vruntime s\<rparr>) s else Some s) = Some s1"
    using t by (auto simp: s1_def clamp_def max_def fun_upd_idem)
  have "enqueue_task (Some x) s = Some ?s'"
    unfolding enqueue_task_def using t s1 k(1) rb(1) tw(1)
    by (auto simp: s1_def rb_insert_at_def Let_def split: bind_splits)
  moreover have "rq ?s' (queue_insert (vr s) ?v x q)"
  proof -
    have v: "vr ?s' = ?f" unfolding f by (simp add: vr_def fun_eq_iff)
    have "sorted (map (vr ?s') (queue_insert (vr s) ?v x q))"
      unfolding v using sorted_queue_insert [of ?f q x ?v] srt T0(3) tw by (simp add: queue_insert_def)
    moreover have "?lm = hd_ptr (queue_insert (vr s) ?v x q)"
    proof (cases "takeWhile (\<lambda>a. vr s a \<le> ?v) q = []")
      case False
      then have "hd_ptr q = hd_ptr (takeWhile (\<lambda>a. vr s a \<le> ?v) q)" by (cases q) auto
      moreover have "rb_leftmost s = hd_ptr q" using r by (simp add: rq_def)
      moreover have "hd_ptr (queue_insert (vr s) ?v x q) = hd_ptr (takeWhile (\<lambda>a. vr s a \<le> ?v) q)"
        unfolding queue_insert_def using False by (rule hd_ptr_simps(3))
      ultimately show ?thesis using False by simp
    qed (simp add: queue_insert_def)
    moreover have "nodes rb p \<noteq> None" if p: "tasks ?s' p \<noteq> None" for p
    proof (cases "p \<in> set (addrs t')")
      case False
      then have "p \<noteq> x" "p \<notin> set q" using q' by simp_all
      then show ?thesis using rb(5) p r k(2) T0(3) by (simp add: same_outside_def rq_def s1_def)
    qed (rule holds_nodes [OF rb(2)])
    moreover have "nr_running s = of_nat (length q)" using r by (simp add: rq_def)
    moreover have "\<forall>p \<in> set q. min_vruntime s \<le> vr s p \<and> tasks s p \<noteq> None" using r by (simp add: rq_def)
    moreover have "min_vruntime s \<le> ?v" by (simp add: clamp_def)
    ultimately show ?thesis
      unfolding rq_def using rb(2,3) q' r by (auto simp: s1_def)
  qed
  ultimately show ?thesis by blast
qed

subsection \<open>Dequeueing\<close>

lemma dequeue_task_rq:
  assumes r: "rq s q" and x: "x \<in> set q"
  shows "\<exists>rb lm. dequeue_task (Some x) s = Some (s\<lparr>rb_leftmost := lm, tasks_timeline := rb, nr_running := nr_running s - 1\<rparr>) \<and>
    rq (s\<lparr>rb_leftmost := lm, tasks_timeline := rb, nr_running := nr_running s - 1\<rparr>) (remove1 x q)"
proof -
  obtain T0 where T0: "holds (tasks_timeline s) T0" "rbt T0" "addrs T0 = q" using r by (auto simp: rq_def)
  obtain rb t' where rb: "rb_erase (Some x) (tasks_timeline s) = Some rb" "holds rb t'" "rbt t'"
    "addrs t' = remove1 x q" "same_outside (set q - {x}) (tasks_timeline s) rb"
    using rb_erase_unlinks [OF T0(2,1), of x] x T0(3) by (auto simp: unlinked_def)
  have lm: "rb_leftmost s = hd_ptr q" using r by (simp add: rq_def)
  obtain y q' where q: "q = y # q'" using x by (cases q) auto
  let ?lm = "if x = y then hd_ptr q' else Some y"
  let ?s' = "s\<lparr>rb_leftmost := ?lm, tasks_timeline := rb, nr_running := nr_running s - 1\<rparr>"
  have "rb_next (Some y) (tasks_timeline s) = Some (hd_ptr q')"
    using rb_next_holds [OF T0(1), of 0] T0(3) q by simp
  with rb(1) lm q have "dequeue_task (Some x) s = Some ?s'" by (auto simp: dequeue_task_def)
  moreover have "rq ?s' (remove1 x q)"
  proof -
    have "nodes rb p \<noteq> None" if "tasks s p \<noteq> None" for p
    proof (cases "p \<in> set (addrs t')")
      case False
      then have "p \<notin> set q - {x}" using rb(4) rq_distinct [OF r] by simp
      then show ?thesis using rb(5) that r by (simp add: same_outside_def rq_def)
    qed (rule holds_nodes [OF rb(2)])
    moreover have "vr ?s' = vr s" by (simp add: vr_def fun_eq_iff)
    moreover have "sorted (map (vr s) (remove1 x q))"
      using r by (simp add: rq_def sorted_map_remove1)
    moreover have "?lm = hd_ptr (remove1 x q)" using q by simp
    moreover have "nr_running s - 1 = of_nat (length (remove1 x q))"
    proof -
      have "length q = Suc (length (remove1 x q))" using x length_pos_if_in_set [OF x] by (simp add: length_remove1)
      moreover have "nr_running s = of_nat (length q)" using r by (simp add: rq_def)
      ultimately show ?thesis by simp
    qed
    moreover have "\<forall>p \<in> set (remove1 x q). tasks s p \<noteq> None \<and> min_vruntime s \<le> vr s p"
      using r by (auto simp: rq_def dest: notin_set_remove1)
    ultimately show ?thesis using rb unfolding rq_def by simp blast
  qed
  ultimately show ?thesis by blast
qed

definition known :: "'a kernel_scheme \<Rightarrow> nat \<Rightarrow> bool" where
  "known s x \<longleftrightarrow> tasks s x \<noteq> None"

interpretation cfs: run_queue rq vr known "\<lambda>x. enqueue_task (Some x)" "\<lambda>x. dequeue_task (Some x)" pick_next_task
proof
  show "sorted (map (vr s) q)" if "rq s q" for s :: "'a kernel_scheme" and q using that by (simp add: rq_def)
  show "distinct q" if "rq s q" for s :: "'a kernel_scheme" and q by (rule rq_distinct [OF that])
  show "pick_next_task s = (case q of [] \<Rightarrow> None | x # _ \<Rightarrow> Some x)" if "rq s q" for s :: "'a kernel_scheme" and q
    using that by (simp add: pick_next_task_def rq_def hd_ptr_def)
  show "\<exists>s' q1 q2. enqueue_task (Some x) s = Some s' \<and> q = q1 @ q2 \<and> rq s' (q1 @ x # q2) \<and> known s' = known s"
    if "rq s q" "known s x" "x \<notin> set q" for s :: "'a kernel_scheme" and q x
  proof -
    from that(2) obtain t where t: "tasks s x = Some t" by (auto simp: known_def)
    from enqueue_task_rq [OF that(1) t that(3)] obtain s' where
      "enqueue_task (Some x) s = Some s'" "rq s' (queue_insert (vr s) (clamp s t) x q)" "known s' = known s"
      by (auto simp: known_def fun_eq_iff t)
    then show ?thesis unfolding queue_insert_def by (metis takeWhile_dropWhile_id)
  qed
  show "\<exists>s'. dequeue_task (Some x) s = Some s' \<and> rq s' (remove1 x q) \<and> vr s' = vr s \<and> known s' = known s"
    if "rq s q" "x \<in> set q" for s :: "'a kernel_scheme" and q x
    using dequeue_task_rq [OF that] by (auto simp: known_def vr_def fun_eq_iff)
qed

end
