(* ===== verification/Sched_Correct.thy ===== *)
theory Sched_Correct
  imports Run_Queue
begin

text \<open>
  Charging the running thread (\<open>update_curr\<close>) and switching (\<open>schedule\<close>): the scheduler
  invariant \<open>sched_inv\<close> says that the queue holds exactly the ready threads, that at most the
  current thread is running, and that the scheduler's \<^verbatim>\<open>current_thread\<close> is the thread whose
  stack is in use.
\<close>

subsection \<open>Weights and virtual time\<close>

definition vdelta :: "u32 \<Rightarrow> u64 \<Rightarrow> u32" where
  "vdelta w d = (let x = push_bit 18 (ucast d) div w in if x = 0 then 1 else x)"

definition charged :: "u64 \<Rightarrow> task_struct \<Rightarrow> task_struct" where
  "charged d t = (let w = (if weight t = 0 then 1024 else weight t)
     in t\<lparr>weight := w, vruntime := vruntime t + ucast (vdelta w d)\<rparr>)"

lemma unat_vdelta: "unat (vdelta w d) = max 1 (unat (push_bit 18 (ucast d :: u32)) div unat w)"
proof -
  define x where "x = push_bit 18 (ucast d :: u32) div w"
  have "unat x = unat (push_bit 18 (ucast d :: u32)) div unat w" by (simp only: x_def unat_div)
  moreover have "unat (if x = 0 then 1 else x) = max 1 (unat x)"
    by (cases "x = 0") (simp_all add: unat_gt_0 Suc_leI max_absorb2)
  ultimately show ?thesis by (simp add: vdelta_def flip: x_def)
qed

lemma calc_vruntime_delta_eq:
  "tasks s p = Some t \<Longrightarrow> calc_vruntime_delta (Some p) d s = Some (s\<lparr>tasks := (tasks s)(p \<mapsto> charged d t)\<rparr>)"
  by (auto simp: calc_vruntime_delta_def charged_def vdelta_def Let_def)


text \<open>What a change of the PCBs must respect to leave the queue as it is.\<close>

lemma rq_frame:
  assumes "rq s q" and "tasks_timeline s' = tasks_timeline s" "rb_leftmost s' = rb_leftmost s" "nr_running s' = nr_running s"
    and "\<And>x. x \<in> set q \<Longrightarrow> vr s' x = vr s x \<and> min_vruntime s' \<le> vr s x" and "dom (tasks s') = dom (tasks s)"
  shows "rq s' q"
proof -
  have m: "map (vr s') q = map (vr s) q" using assms(5) by simp
  have "sorted (map (vr s') q)" unfolding m using assms(1) by (simp add: rq_def)
  moreover have "tasks s' p \<noteq> None \<longleftrightarrow> tasks s p \<noteq> None" for p using assms(6) by (auto simp: dom_def)
  ultimately show ?thesis using assms(1-5) by (simp add: rq_def)
qed

text \<open>The running thread is not in the queue, so charging it keeps the queue in order.\<close>

lemma update_curr_rq:
  assumes r: "rq s q" and t: "tasks s p = Some t" and p: "p \<notin> set q"
  shows "\<exists>t' mv. update_curr (Some p) s = Some (s\<lparr>tasks := (tasks s)(p \<mapsto> t'), min_vruntime := mv\<rparr>) \<and>
    rq (s\<lparr>tasks := (tasks s)(p \<mapsto> t'), min_vruntime := mv\<rparr>) q \<and> min_vruntime s \<le> mv \<and>
    status t' = status t \<and> elapsed_ticks t' = elapsed_ticks t \<and> pgdir t' = pgdir t \<and> exec_start t' = ucast (elapsed_ticks t)"
proof (cases "ucast (elapsed_ticks t) - exec_start t > 0")
  case False
  then have e: "exec_start t = ucast (elapsed_ticks t)" by (simp add: word_gt_0)
  have "update_curr (Some p) s = Some s" using t False by (simp add: update_curr_def)
  then show ?thesis using r t e
    by (intro exI [of _ t] exI [of _ "min_vruntime s"]) (simp add: fun_upd_idem)
next
  case True
  let ?now = "ucast (elapsed_ticks t) :: u64"
  let ?d = "?now - exec_start t"
  let ?t = "charged ?d t\<lparr>exec_start := ?now, sum_exec_runtime := sum_exec_runtime t + ?d\<rparr>"
  let ?lo = "case q of [] \<Rightarrow> vruntime ?t | x # _ \<Rightarrow> min (vr s x) (vruntime ?t)"
  let ?mv = "max ?lo (min_vruntime s)"
  let ?s' = "s\<lparr>tasks := (tasks s)(p \<mapsto> ?t), min_vruntime := ?mv\<rparr>"
  have lm: "rb_leftmost s = hd_ptr q" using r by (simp add: rq_def)
  have c: "sum_exec_runtime (charged ?d t) = sum_exec_runtime t" by (simp add: charged_def Let_def)
  have head: "\<exists>e. tasks s x = Some e \<and> x \<noteq> p" if "q = x # q'" for x q' using that r p by (auto simp: rq_def)
  have "update_curr (Some p) s = Some ?s'"
    using True t lm head c
    by (cases q) (auto simp: update_curr_def calc_vruntime_delta_eq [OF t] Let_def max_def min_def)
  moreover have "rq ?s' q"
  proof -
    have "?mv \<le> vr s x" if "x \<in> set q" for x using that r by (cases q) (auto simp: rq_def min_le_iff_disj)
    then show ?thesis using p t by (intro rq_frame [OF r]) (auto simp: vr_def)
  qed
  ultimately show ?thesis by (intro exI [of _ ?t] exI [of _ ?mv]) (simp add: charged_def Let_def)
qed

lemma vr_fun: "vr s = (\<lambda>p. case tasks s p of None \<Rightarrow> 0 | Some t \<Rightarrow> vruntime t)"
  by (simp add: fun_eq_iff vr_def)

subsection \<open>The invariant\<close>

definition stat :: "'a kernel_scheme \<Rightarrow> nat \<Rightarrow> task_status" where
  "stat s p = (case tasks s p of None \<Rightarrow> TASK_DIED | Some t \<Rightarrow> status t)"

text \<open>\<open>D\<close> is a set of page directories between which the machine can switch: the one in use and the
  kernel's belong to it, and from each of them the directory of every process translates to
  one of \<open>D\<close>.\<close>

definition pgd :: "'a kernel_scheme \<Rightarrow> nat \<Rightarrow> u32" where
  "pgd s p = (case tasks s p of None \<Rightarrow> 0 | Some t \<Rightarrow> pgdir t)"

definition addr_spaces :: "u32 set \<Rightarrow> 'a kernel_scheme \<Rightarrow> bool" where
  "addr_spaces D s \<longleftrightarrow> cr3 s \<in> D \<and> 0x100000 \<in> D \<and>
     (\<forall>p. pgd s p \<noteq> 0 \<longrightarrow> (\<forall>d \<in> D. \<exists>a \<in> D. addr_v2p (pgd s p) (s\<lparr>cr3 := d\<rparr>) = Some a))"

lemma addr_spaces_cong:
  "addr_spaces D s \<Longrightarrow> pm s' = pm s \<Longrightarrow> pgd s' = pgd s \<Longrightarrow> cr3 s' \<in> D \<Longrightarrow> addr_spaces D s'"
  by (auto simp: addr_spaces_def addr_v2p_def vread_def)

lemma addr_spaces_keep:
  "pm s' = pm s \<Longrightarrow> pgd s' = pgd s \<Longrightarrow> cr3 s' = cr3 s \<Longrightarrow> addr_spaces D s' = addr_spaces D s"
  by (auto simp: addr_spaces_def addr_v2p_def vread_def)

lemma pgd_Some [simp]: "tasks s p = Some t \<Longrightarrow> pgd s p = pgdir t"
  by (simp add: pgd_def)

lemma addr_spaces_upd_task:
  "tasks s p = Some t \<Longrightarrow> pgdir t' = pgdir t \<Longrightarrow> addr_spaces D (s\<lparr>tasks := (tasks s)(p \<mapsto> t')\<rparr>) = addr_spaces D s"
  by (rule addr_spaces_keep) (auto simp: pgd_def)

lemma addr_spaces_more [simp]:
  "addr_spaces D (s\<lparr>current_thread := c\<rparr>) = addr_spaces D s" "addr_spaces D (s\<lparr>running := n\<rparr>) = addr_spaces D s"
  "addr_spaces D (s\<lparr>eflags := e\<rparr>) = addr_spaces D s" "addr_spaces D (s\<lparr>tss_esp0 := a\<rparr>) = addr_spaces D s"
  "addr_spaces D (s\<lparr>tasks_timeline := r\<rparr>) = addr_spaces D s" "addr_spaces D (s\<lparr>rb_leftmost := lm\<rparr>) = addr_spaces D s"
  "addr_spaces D (s\<lparr>nr_running := k\<rparr>) = addr_spaces D s" "addr_spaces D (s\<lparr>min_vruntime := v\<rparr>) = addr_spaces D s"
  by (rule addr_spaces_keep; simp add: pgd_def fun_eq_iff)+

definition sched_inv :: "'a kernel_scheme \<Rightarrow> nat list \<Rightarrow> bool" where
  "sched_inv s q \<longleftrightarrow> rq s q \<and> set q = {p. stat s p = TASK_READY} \<and>
     current_thread s = Some (running s) \<and> stat s (running s) \<noteq> TASK_DIED \<and> stat s (running s) \<noteq> TASK_READY \<and>
     (\<forall>p. stat s p = TASK_RUNNING \<longrightarrow> p = running s) \<and>
     (\<exists>i. idle_thread s = Some i \<and> stat s i \<noteq> TASK_DIED) \<and> (\<exists>D. addr_spaces D s)"

lemma stat_Some [simp]: "tasks s p = Some t \<Longrightarrow> stat s p = status t"
  by (simp add: stat_def)

lemma stat_alive: "stat s p \<noteq> TASK_DIED \<Longrightarrow> \<exists>t. tasks s p = Some t \<and> status t = stat s p"
  by (auto simp: stat_def split: option.splits)

text \<open>Every step of \<open>schedule\<close> keeps the fields that are not its business; \<open>moved s s'\<close> says so, with
  the statuses changed by \<open>f\<close>.\<close>

definition moved :: "(nat \<Rightarrow> task_status) \<Rightarrow> 'a kernel_scheme \<Rightarrow> 'a kernel_scheme \<Rightarrow> bool" where
  "moved f s s' \<longleftrightarrow> stat s' = f \<and> current_thread s' = current_thread s \<and> running s' = running s \<and>
     idle_thread s' = idle_thread s \<and> eflags s' = eflags s \<and> dom (tasks s') = dom (tasks s) \<and>
     min_vruntime s \<le> min_vruntime s' \<and> (\<forall>D. addr_spaces D s \<longrightarrow> addr_spaces D s')"

lemma moved_trans: "moved f s s' \<Longrightarrow> moved g s' s'' \<Longrightarrow> moved g s s''"
  by (auto simp: moved_def)

lemma enqueue_moved:
  assumes "rq s q" and "tasks s x = Some t" and "x \<notin> set q"
  shows "\<exists>s' q'. enqueue_task (Some x) s = Some s' \<and> rq s' q' \<and> set q' = insert x (set q) \<and> moved (stat s) s s' \<and>
    vr s' = (vr s)(x := clamp s t)"
proof -
  let ?S = "\<lambda>rb lm. s\<lparr>tasks := (tasks s)(x \<mapsto> t\<lparr>vruntime := clamp s t\<rparr>), rb_leftmost := lm,
    tasks_timeline := rb, nr_running := nr_running s + 1\<rparr>"
  from enqueue_task_rq [OF assms] obtain rb lm where
    e: "enqueue_task (Some x) s = Some (?S rb lm)" "rq (?S rb lm) (queue_insert (vr s) (clamp s t) x q)" by blast
  have "moved (stat s) s (?S rb lm)" using assms(2) by (auto simp: moved_def stat_def fun_eq_iff addr_spaces_upd_task)
  moreover have "vr (?S rb lm) = (vr s)(x := clamp s t)" by (auto simp: vr_def)
  ultimately show ?thesis using e
    by (intro exI [of _ "?S rb lm"] exI [of _ "queue_insert (vr s) (clamp s t) x q"]) simp
qed

lemma update_curr_moved:
  assumes "rq s q" and "tasks s p = Some t" and "p \<notin> set q"
  shows "\<exists>s' t'. update_curr (Some p) s = Some s' \<and> rq s' q \<and> tasks s' p = Some t' \<and> status t' = status t \<and>
    moved (stat s) s s'"
proof -
  let ?S = "\<lambda>t' mv. s\<lparr>tasks := (tasks s)(p \<mapsto> t'), min_vruntime := mv\<rparr>"
  from update_curr_rq [OF assms] obtain t' mv where u: "update_curr (Some p) s = Some (?S t' mv)" "rq (?S t' mv) q"
    "min_vruntime s \<le> mv" "status t' = status t" "pgdir t' = pgdir t" by blast
  then have "moved (stat s) s (?S t' mv)" using assms(2) by (auto simp: moved_def stat_def fun_eq_iff addr_spaces_upd_task)
  with u show ?thesis by (intro exI [of _ "?S t' mv"] exI [of _ t']) simp
qed

lemma dequeue_moved:
  assumes "rq s q" and "x \<in> set q"
  shows "\<exists>s'. dequeue_task (Some x) s = Some s' \<and> rq s' (remove1 x q) \<and> moved (stat s) s s' \<and> tasks s' = tasks s"
  using dequeue_task_rq [OF assms] by (auto simp: moved_def stat_def fun_eq_iff)

text \<open>Writing fields other than \<^verbatim>\<open>vruntime\<close> of a PCB leaves the queue alone.\<close>

lemma rq_upd_task:
  assumes "rq s q" and "tasks s p = Some t" and "vruntime t' = vruntime t"
  shows "rq (s\<lparr>tasks := (tasks s)(p \<mapsto> t')\<rparr>) q"
  using assms(2,3) by (intro rq_frame [OF assms(1)]) (use assms in \<open>auto simp: vr_def rq_def\<close>)

lemma rq_more [simp]:
  "rq (s\<lparr>current_thread := c\<rparr>) q = rq s q" "rq (s\<lparr>running := n\<rparr>) q = rq s q" "rq (s\<lparr>eflags := e\<rparr>) q = rq s q"
  "rq (s\<lparr>cr3 := a\<rparr>) q = rq s q" "rq (s\<lparr>tss_esp0 := a\<rparr>) q = rq s q"
  by (simp_all add: rq_def vr_fun)

lemma upd_status:
  assumes "rq s q" and "tasks s p = Some t"
  shows "\<exists>s'. upd_task (Some p) (\<lambda>t. t\<lparr>status := c\<rparr>) s = Some s' \<and> rq s' q \<and> moved ((stat s)(p := c)) s s' \<and>
    tasks s' p = Some (t\<lparr>status := c\<rparr>) \<and> vr s' = vr s"
proof -
  have "rq (s\<lparr>tasks := (tasks s)(p \<mapsto> t\<lparr>status := c\<rparr>)\<rparr>) q" by (rule rq_upd_task [OF assms]) simp
  then show ?thesis using assms(2) by (auto simp: moved_def stat_def fun_eq_iff vr_def addr_spaces_upd_task)
qed

subsection \<open>The three parts of \<open>schedule\<close>\<close>

lemma put_prev_moved:
  assumes i: "sched_inv s q"
  shows "\<exists>s' q'. put_prev (current_thread s) s = Some s' \<and> rq s' q' \<and>
    set q' = (if stat s (running s) = TASK_RUNNING then insert (running s) (set q) else set q) \<and>
    moved (if stat s (running s) = TASK_RUNNING then (stat s)(running s := TASK_READY) else stat s) s s'"
proof -
  let ?p = "running s"
  have r: "rq s q" and q: "set q = {p. stat s p = TASK_READY}" and c: "current_thread s = Some ?p"
    using i by (auto simp: sched_inv_def)
  obtain t where t: "tasks s ?p = Some t" using i stat_alive [of s ?p] by (auto simp: sched_inv_def)
  have "?p \<notin> set q" using i q by (simp add: sched_inv_def)
  from update_curr_moved [OF r t this] obtain s1 t1 where
    u: "update_curr (Some ?p) s = Some s1" "rq s1 q" "tasks s1 ?p = Some t1" "status t1 = status t"
    and m1: "moved (stat s) s s1" by blast
  show ?thesis
  proof (cases "stat s ?p = TASK_RUNNING")
    case True
    from upd_status [OF u(2,3), of TASK_READY] obtain s2 where
      s2: "upd_task (Some ?p) (\<lambda>t. t\<lparr>status := TASK_READY\<rparr>) s1 = Some s2" "rq s2 q"
      "moved ((stat s1)(?p := TASK_READY)) s1 s2" "tasks s2 ?p = Some (t1\<lparr>status := TASK_READY\<rparr>)" by auto
    from enqueue_moved [OF s2(2,4) \<open>?p \<notin> set q\<close>] obtain s3 q3 where
      s3: "enqueue_task (Some ?p) s2 = Some s3" "rq s3 q3" "set q3 = insert ?p (set q)" "moved (stat s2) s2 s3" by blast
    have "put_prev (current_thread s) s = Some s3"
      using c u(1,3,4) True t s2(1) s3(1) by (simp add: put_prev_def)
    moreover have "moved ((stat s)(?p := TASK_READY)) s s3"
      using moved_trans [OF m1 moved_trans [OF s2(3) s3(4)]] m1 s2(3) by (simp add: moved_def)
    ultimately show ?thesis using s3(2,3) True by auto
  next
    case False
    then have "put_prev (current_thread s) s = Some s1" using c u(1,3,4) t by (simp add: put_prev_def)
    with False u(2) m1 show ?thesis by auto
  qed
qed

lemma page_dir_activate_spaces:
  assumes "tasks s p = Some t" and "addr_spaces D s"
  shows "\<exists>a. page_dir_activate t s = Some (s\<lparr>cr3 := a\<rparr>) \<and> (\<forall>D. addr_spaces D s \<longrightarrow> addr_spaces D (s\<lparr>cr3 := a\<rparr>))"
proof (cases "pgdir t = 0")
  case True
  then have "page_dir_activate t s = Some (s\<lparr>cr3 := 0x100000\<rparr>)" by (simp add: page_dir_activate_def)
  moreover have "addr_spaces D' (s\<lparr>cr3 := 0x100000\<rparr>)" if "addr_spaces D' s" for D'
    using that by (rule addr_spaces_cong) (use that in \<open>auto simp: addr_spaces_def pgd_def fun_eq_iff\<close>)
  ultimately show ?thesis by blast
next
  case False
  then have v: "\<exists>a \<in> D. addr_v2p (pgdir t) s = Some a" if "addr_spaces D s" for D
  proof -
    have "pgd s p = pgdir t" using assms(1) by simp
    with that False have "\<exists>a \<in> D. addr_v2p (pgdir t) (s\<lparr>cr3 := cr3 s\<rparr>) = Some a" unfolding addr_spaces_def by metis
    then show ?thesis by simp
  qed
  then obtain a where a: "addr_v2p (pgdir t) s = Some a" using assms(2) by blast
  have "addr_spaces D' (s\<lparr>cr3 := a\<rparr>)" if "addr_spaces D' s" for D'
    using that by (rule addr_spaces_cong) (use v [OF that] a in \<open>auto simp: pgd_def fun_eq_iff\<close>)
  then show ?thesis using a False by (auto simp: page_dir_activate_def)
qed

lemma process_activate_rq:
  assumes "rq s q" and "tasks s p = Some t" and "addr_spaces D s"
  shows "\<exists>s'. process_activate (Some p) s = Some s' \<and> rq s' q \<and> moved (stat s) s s' \<and> vr s' = vr s \<and> tasks s' = tasks s"
proof -
  obtain a where a: "page_dir_activate t s = Some (s\<lparr>cr3 := a\<rparr>)" "\<And>D. addr_spaces D s \<Longrightarrow> addr_spaces D (s\<lparr>cr3 := a\<rparr>)"
    using page_dir_activate_spaces [OF assms(2,3)] by blast
  then show ?thesis using assms
    by (auto simp: process_activate_def update_tss_esp_def moved_def stat_def vr_fun fun_eq_iff)
qed

text \<open>Switching to a queued thread \<open>n\<close>.\<close>

lemma switch_task_runs:
  assumes r: "rq s q" and n: "n \<in> set q" and D: "addr_spaces D s"
  shows "\<exists>s'. switch_task (Some p) (Some n) s = Some s' \<and> rq s' (remove1 n q) \<and> vr s' = vr s \<and>
    stat s' = (stat s)(n := TASK_RUNNING) \<and>
    current_thread s' = (if n = p then current_thread s else Some n) \<and> running s' = (if n = p then running s else n) \<and>
    idle_thread s' = idle_thread s \<and> eflags s' = eflags s \<and> min_vruntime s \<le> min_vruntime s' \<and> addr_spaces D s'"
proof -
  obtain s1 where s1: "dequeue_task (Some n) s = Some s1" "rq s1 (remove1 n q)" "moved (stat s) s s1" "tasks s1 = tasks s"
    using dequeue_moved [OF r n] by blast
  obtain t where t: "tasks s1 n = Some t" using r n s1(4) by (auto simp: rq_def)
  obtain s2 where s2: "upd_task (Some n) (\<lambda>t. t\<lparr>status := TASK_RUNNING\<rparr>) s1 = Some s2" "rq s2 (remove1 n q)"
    "moved ((stat s1)(n := TASK_RUNNING)) s1 s2" "tasks s2 n = Some (t\<lparr>status := TASK_RUNNING\<rparr>)" "vr s2 = vr s1"
    using upd_status [OF s1(2) t] by blast
  let ?t = "t\<lparr>status := TASK_RUNNING, exec_start := ucast (elapsed_ticks t)\<rparr>"
  let ?s3 = "s2\<lparr>tasks := (tasks s2)(n \<mapsto> ?t)\<rparr>"
  have s3: "upd_task (Some n) (\<lambda>t. t\<lparr>exec_start := ucast (elapsed_ticks t)\<rparr>) s2 = Some ?s3"
    using s2(4) by simp
  have r3: "rq ?s3 (remove1 n q)" by (rule rq_upd_task [OF s2(2,4)]) simp
  have m3: "moved (stat s2) s2 ?s3" "vr ?s3 = vr s2"
    using s2(4) by (auto simp: moved_def stat_def vr_def fun_eq_iff addr_spaces_upd_task)
  have "addr_spaces D ?s3" using D s1(3) s2(3) m3(1) unfolding moved_def by blast
  then obtain s4 where s4: "process_activate (Some n) ?s3 = Some s4" "rq s4 (remove1 n q)" "moved (stat ?s3) ?s3 s4" "vr s4 = vr ?s3"
    using process_activate_rq [OF r3, of n ?t D] by auto
  have m: "moved ((stat s)(n := TASK_RUNNING)) s s4" "vr s4 = vr s"
    using moved_trans [OF s1(3) moved_trans [OF s2(3) moved_trans [OF m3(1) s4(3)]]] s1(3,4) s2(3,5) m3 s4(4)
    by (auto simp: moved_def vr_fun)
  then have D4: "addr_spaces D s4" using D by (simp add: moved_def)
  show ?thesis
  proof (cases "n = p")
    case True
    then have "switch_task (Some p) (Some n) s = Some s4" using s1(1) s2(1) s3 s4(1) by (simp add: switch_task_def)
    with True m s4(2) D4 show ?thesis by (auto simp: moved_def)
  next
    case False
    let ?s5 = "s4\<lparr>current_thread := Some n, running := n\<rparr>"
    have "switch_task (Some p) (Some n) s = Some ?s5"
      using False s1(1) s2(1) s3 s4(1) by (simp add: switch_task_def switch_to_def)
    moreover have "stat ?s5 = stat s4" "vr ?s5 = vr s4" by (simp_all add: stat_def vr_def fun_eq_iff)
    ultimately show ?thesis using False m s4(2) D4 by (auto simp: moved_def)
  qed
qed

lemma thread_unblock_moved:
  assumes r: "rq s q" and t: "tasks s p = Some t" and p: "p \<notin> set q"
    and b: "status t \<in> {TASK_BLOCKED, TASK_WAITING, TASK_HANGING}"
  shows "\<exists>s' q'. thread_unblock (Some p) s = Some s' \<and> rq s' q' \<and> set q' = insert p (set q) \<and>
    moved ((stat s)(p := TASK_READY)) s s'"
proof -
  let ?s0 = "s\<lparr>eflags := snd (intr_disable (eflags s))\<rparr>"
  have "rq ?s0 q" "tasks ?s0 p = Some t" using r t by simp_all
  from upd_status [OF this, of TASK_READY] obtain s1 where
    s1: "upd_task (Some p) (\<lambda>t. t\<lparr>status := TASK_READY\<rparr>) ?s0 = Some s1" "rq s1 q"
    "moved ((stat ?s0)(p := TASK_READY)) ?s0 s1" "tasks s1 p = Some (t\<lparr>status := TASK_READY\<rparr>)" by blast
  from enqueue_moved [OF s1(2,4) p] obtain s2 q2 where
    s2: "enqueue_task (Some p) s1 = Some s2" "rq s2 q2" "set q2 = insert p (set q)" "moved (stat s1) s1 s2" by blast
  let ?s3 = "k_intr_set_status (fst (intr_disable (eflags s))) s2"
  have "thread_unblock (Some p) s = Some ?s3"
    using t b s1(1) s2(1) by (auto simp: thread_unblock_def k_intr_disable_def Let_def split: prod.splits)
  moreover have "moved ((stat s)(p := TASK_READY)) s ?s3"
    using s1(3) s2(4) by (auto simp: moved_def k_intr_set_status_def stat_def fun_eq_iff)
  ultimately show ?thesis using s2(2,3) by (auto simp: k_intr_set_status_def)
qed

subsection \<open>Schedule\<close>

abbreviation runnable :: "'a kernel_scheme \<Rightarrow> nat set" where
  "runnable s \<equiv> {p. stat s p = TASK_READY \<or> stat s p = TASK_RUNNING}"

definition scheduled :: "'a kernel_scheme \<Rightarrow> 'a kernel_scheme \<Rightarrow> bool" where
  "scheduled s s' \<longleftrightarrow> (\<exists>q. sched_inv s' q \<and> (\<forall>p \<in> set q. vr s' (running s') \<le> vr s' p)) \<and>
     stat s' (running s') = TASK_RUNNING \<and> runnable s \<subseteq> runnable s' \<and>
     min_vruntime s \<le> min_vruntime s' \<and> eflags s' = eflags s"

lemma scheduledD:
  assumes "scheduled s s'"
  obtains q where "sched_inv s' q" "stat s' (running s') = TASK_RUNNING" "runnable s \<subseteq> runnable s'"
    "\<And>p. stat s' p = TASK_READY \<Longrightarrow> vr s' (running s') \<le> vr s' p"
    "min_vruntime s \<le> min_vruntime s'" "eflags s' = eflags s"
proof -
  obtain q where q: "sched_inv s' q" "\<forall>p \<in> set q. vr s' (running s') \<le> vr s' p"
    using assms by (auto simp: scheduled_def)
  moreover have "vr s' (running s') \<le> vr s' p" if "stat s' p = TASK_READY" for p
    using that q by (simp add: sched_inv_def)
  ultimately show thesis using that assms by (simp add: scheduled_def)
qed

lemma switch_task_scheduled:
  assumes r: "rq s1 q1" and q: "set q1 = {p. stat s1 p = TASK_READY}" and n: "pick_next_task s1 = Some n"
    and c: "current_thread s1 = Some (running s1)" and u: "\<forall>p. stat s1 p \<noteq> TASK_RUNNING"
    and i: "idle_thread s1 = Some j" "stat s1 j \<noteq> TASK_DIED"
    and s: "runnable s \<subseteq> runnable s1" "min_vruntime s \<le> min_vruntime s1" "eflags s1 = eflags s" and D: "addr_spaces D s1"
  shows "\<exists>s'. switch_task (Some (running s1)) (Some n) s1 = Some s' \<and> scheduled s s'"
proof -
  have n': "n \<in> set q1" "\<forall>y \<in> set q1. vr s1 n \<le> vr s1 y" using cfs.pick_least [OF r n] by auto
  obtain s' where s': "switch_task (Some (running s1)) (Some n) s1 = Some s'" "rq s' (remove1 n q1)" "vr s' = vr s1"
    "stat s' = (stat s1)(n := TASK_RUNNING)" "current_thread s' = Some n" "running s' = n"
    "idle_thread s' = idle_thread s1" "eflags s' = eflags s1" "min_vruntime s1 \<le> min_vruntime s'" "addr_spaces D s'"
    using switch_task_runs [OF r n'(1) D, of "running s1"] c by (auto split: if_splits)
  have set': "set (remove1 n q1) = set q1 - {n}" using rq_distinct [OF r] by simp
  then have "sched_inv s' (remove1 n q1)"
    unfolding sched_inv_def using s' q u i by auto
  moreover have "runnable s \<subseteq> runnable s'" using s(1) s'(4) by auto
  ultimately show ?thesis using s' n'(2) s set' unfolding scheduled_def by (auto intro!: exI [of _ "remove1 n q1"])
qed

lemma schedule_scheduled:
  assumes i: "sched_inv s q" and off: "intr_off s"
  shows "\<exists>s'. schedule s = Some s' \<and> scheduled s s'"
proof -
  let ?p = "running s"
  obtain j where j: "idle_thread s = Some j" "stat s j \<noteq> TASK_DIED" using i by (auto simp: sched_inv_def)
  have c: "current_thread s = Some ?p" using i by (simp add: sched_inv_def)
  from put_prev_moved [OF i] obtain s1 q1 where s1: "put_prev (current_thread s) s = Some s1" "rq s1 q1"
    "set q1 = (if stat s ?p = TASK_RUNNING then insert ?p (set q) else set q)"
    "moved (if stat s ?p = TASK_RUNNING then (stat s)(?p := TASK_READY) else stat s) s s1" by blast
  have st: "stat s1 p = (if stat s ?p = TASK_RUNNING \<and> p = ?p then TASK_READY else stat s p)" for p
    using s1(4) by (simp add: moved_def)
  have q: "set q = {p. stat s p = TASK_READY}" and u: "\<And>p. stat s p = TASK_RUNNING \<Longrightarrow> p = ?p"
    using i by (auto simp: sched_inv_def)
  have q1: "set q1 = {p. stat s1 p = TASK_READY}" using s1(3) q by (auto simp: st)
  have nr: "\<forall>p. stat s1 p \<noteq> TASK_RUNNING" by (auto simp: st dest: u)
  have run: "runnable s \<subseteq> runnable s1" by (auto simp: st dest: u)
  have j1: "idle_thread s1 = Some j" "stat s1 j \<noteq> TASK_DIED" using s1(4) j by (simp_all add: st moved_def)
  have keep: "current_thread s1 = Some ?p" "running s1 = ?p" "eflags s1 = eflags s" "min_vruntime s \<le> min_vruntime s1"
    using s1(4) c by (auto simp: moved_def)
  obtain D where D: "addr_spaces D s1" using i s1(4) by (auto simp: sched_inv_def moved_def)
  show ?thesis
  proof (cases "pick_next_task s1")
    case (Some n)
    from switch_task_scheduled [OF s1(2) q1 Some _ nr j1 run keep(4,3) D] keep Some s1(1) c off show ?thesis
      by (auto simp: schedule_def)
  next
    case None
    then have e: "q1 = []" using cfs.pick_None [OF s1(2)] by simp
    then have ns: "stat s1 j \<noteq> TASK_READY" "stat s ?p \<noteq> TASK_RUNNING" "stat s1 = stat s"
      using q1 s1(3,4) by (auto simp: moved_def split: if_splits)
    obtain tj where tj: "tasks s1 j = Some tj" "status tj = stat s1 j" using stat_alive [OF j1(2)] by blast
    show ?thesis
    proof (cases "j = ?p")
      case True
      obtain s2 where s2: "upd_task (Some j) (\<lambda>t. t\<lparr>status := TASK_RUNNING\<rparr>) s1 = Some s2" "rq s2 q1"
        "moved ((stat s1)(j := TASK_RUNNING)) s1 s2"
        using upd_status [OF s1(2) tj(1)] by blast
      let ?s3 = "s2\<lparr>current_thread := idle_thread s2\<rparr>"
      have "schedule s = Some ?s3" using off c s1(1) None True s2(1,3) j1 by (simp add: schedule_def moved_def)
      moreover have st: "stat ?s3 = (stat s1)(j := TASK_RUNNING)" using s2(3) by (simp add: moved_def stat_def fun_eq_iff)
      moreover have "sched_inv ?s3 []"
        unfolding sched_inv_def st using s2(2,3) e q1 nr j1 keep True D by (auto simp: moved_def)
      moreover have "runnable s \<subseteq> runnable ?s3" unfolding st using run by auto
      ultimately show ?thesis
        using s2(3) keep True by (auto simp: scheduled_def moved_def intro!: exI [of _ "[]"])
    next
      case False
      have "status tj \<in> {TASK_BLOCKED, TASK_WAITING, TASK_HANGING}"
        using tj(2) ns(1) nr [rule_format, of j] j1(2) by (cases "status tj") auto
      from thread_unblock_moved [OF s1(2) tj(1) _ this] obtain s2 q2 where
        s2: "thread_unblock (Some j) s1 = Some s2" "rq s2 q2" "set q2 = {j}" "moved ((stat s1)(j := TASK_READY)) s1 s2"
        using e by auto
      have n: "pick_next_task s2 = Some j"
        using cfs.pick_hd [OF s2(2)] rq_distinct [OF s2(2)] s2(3) by (cases q2) auto
      have "\<exists>s'. switch_task (Some (running s2)) (Some j) s2 = Some s' \<and> scheduled s s'"
        by (rule switch_task_scheduled [OF s2(2) _ n, where D = D])
          (use s2(3,4) e q1 nr j1 keep run D in \<open>auto simp: moved_def\<close>)
      with s2(1,4) n None False keep s1(1) c off j1 show ?thesis by (auto simp: schedule_def moved_def)
    qed
  qed
qed

subsection \<open>Properties\<close>

text \<open>C6: \<open>schedule\<close>, called with interrupts off in a state of the scheduler invariant (the queue is the
  set of ready threads, only the current thread may be running, the page directories of all threads can be loaded), returns; it has switched to
  a thread of least virtual runtime among all ready ones, or to the idle thread when there is
  none; the invariant holds again with the new thread running and current, no runnable
  thread was lost, \<^verbatim>\<open>min_vruntime\<close> did not go back, and interrupts are still off.\<close>

theorem schedule_fair:
  assumes "sched_inv s q" and "intr_get_status (eflags s) = INTR_OFF"
  shows "\<exists>s' q'. schedule s = Some s' \<and> sched_inv s' q' \<and> stat s' (running s') = TASK_RUNNING \<and>
    (\<forall>p. stat s' p = TASK_READY \<longrightarrow> vr s' (running s') \<le> vr s' p) \<and>
    (\<forall>p. stat s p = TASK_READY \<or> stat s p = TASK_RUNNING \<longrightarrow> stat s' p = TASK_READY \<or> stat s' p = TASK_RUNNING) \<and>
    min_vruntime s \<le> min_vruntime s' \<and> intr_get_status (eflags s') = INTR_OFF"
proof -
  from schedule_scheduled [OF assms] obtain s' where s': "schedule s = Some s'" "scheduled s s'" by blast
  then obtain q' where "sched_inv s' q'" "\<forall>p \<in> set q'. vr s' (running s') \<le> vr s' p" by (auto simp: scheduled_def)
  with s' assms(2) show ?thesis by (auto simp: scheduled_def sched_inv_def)
qed

text \<open>A machine whose thread 4096 has just marked itself blocked; the idle thread 8192 is blocked and the
  queue empty.\<close>

definition demo_task :: "task_status \<Rightarrow> u64 \<Rightarrow> task_struct" where
  "demo_task c v = \<lparr>self_kstack = 0, pid = 0, status = c, priority = 31, name = [], task_ticks = 0,
     elapsed_ticks = 0, vruntime = v, weight = 1024, exec_start = 0, sum_exec_runtime = 0, pgdir = 0,
     userprog_vaddr = \<lparr>vaddr_bitmap = \<lparr>btmp_bytes_len = 0, bits = []\<rparr>, vaddr_start = 0\<rparr>, u_block_descs = [],
     fd_table = [], cwd_inode_nr = 0, stack_magic = 0x19870916\<rparr>"

definition demo_kernel :: kernel where
  "demo_kernel = \<lparr>tasks = [4096 \<mapsto> demo_task TASK_BLOCKED 7, 8192 \<mapsto> demo_task TASK_BLOCKED 3],
     tasks_timeline = \<lparr>nodes = [4096 \<mapsto> mk None None None RB_RED, 8192 \<mapsto> mk None None None RB_RED], root = None\<rparr>,
     rb_leftmost = None, min_vruntime = 0, nr_running = 0, current_thread = Some 4096, idle_thread = Some 8192,
     running = 4096, eflags = 2, cr3 = 0x100000, tss_esp0 = 0, pm = (\<lambda>_. 0)\<rparr>"

lemma demo_rq: "rq demo_kernel []"
  by (auto simp: rq_def demo_kernel_def holds_def rbt_def intro!: exI [of _ E])

lemma demo_inv: "sched_inv demo_kernel []"
proof -
  have "addr_spaces {0x100000} demo_kernel"
    by (auto simp: addr_spaces_def demo_kernel_def demo_task_def pgd_def split: if_splits)
  with demo_rq show ?thesis by (auto simp: sched_inv_def demo_kernel_def stat_def demo_task_def)
qed

theorem schedule_fair_witness:
  "\<exists>s' q'. schedule demo_kernel = Some s' \<and> sched_inv s' q' \<and> stat s' (running s') = TASK_RUNNING"
  using schedule_fair [OF demo_inv] by (auto simp: demo_kernel_def intr_get_status_def EFLAGS_IF_def)

text \<open>C15: Threads put on an empty run queue in any order all come out again when picked one by one, and
  they come out in the order of their virtual runtimes: the run queue, red-black tree and cached
  leftmost node together, sorts.\<close>

theorem run_queue_sorts:
  assumes "rq s []" and "distinct xs" and "\<forall>x \<in> set xs. tasks s x \<noteq> None"
  shows "\<exists>s1 ys s2. enq_all (\<lambda>x. enqueue_task (Some x)) xs s = Some s1 \<and>
    drain pick_next_task (\<lambda>x. dequeue_task (Some x)) (length xs) s1 = Some (ys, s2) \<and> rq s2 [] \<and>
    distinct ys \<and> set ys = set xs \<and> sorted (map (vr s1) ys)"
  using cfs.enq_all_drain [OF assms(1,2)] assms(3) by (simp add: known_def)

theorem run_queue_sorts_witness:
  "\<exists>s1 ys s2. enq_all (\<lambda>x. enqueue_task (Some x)) [4096, 8192] demo_kernel = Some s1 \<and>
    drain pick_next_task (\<lambda>x. dequeue_task (Some x)) 2 s1 = Some (ys, s2) \<and> set ys = {4096, 8192} \<and>
    sorted (map (vr s1) ys)"
  using run_queue_sorts [OF demo_rq, of "[4096, 8192]"] by (auto simp: demo_kernel_def numeral_2_eq_2)

text \<open>C33: What a thread is charged: \<open>calc_vruntime_delta\<close> always returns and adds to the virtual runtime the
  executed ticks times 1024 * 256 divided by the weight (1024 when the weight was 0), computed in 32
  bits, and at least 1. Below 16384 ticks no bit is lost and the charge is the exact quotient; at
  16384 ticks the product is 0 modulo 2^32 and the charge drops to 1.\<close>

theorem vruntime_charge:
  assumes "tasks s p = Some t"
  shows "\<exists>s'. calc_vruntime_delta (Some p) d s = Some s' \<and>
    vr s' p = vr s p + of_nat (max 1 (unat d * 2 ^ 18 mod 2 ^ 32 div (if weight t = 0 then 1024 else unat (weight t)))) \<and>
    (unat d < 2 ^ 14 \<longrightarrow> unat d * 2 ^ 18 mod 2 ^ 32 = unat d * 1024 * 256) \<and>
    (unat d = 2 ^ 14 \<longrightarrow> vr s' p = vr s p + 1)"
proof -
  let ?w = "if weight t = 0 then 1024 else weight t"
  have "unat (push_bit 18 (ucast d :: u32)) = unat (ucast d :: u32) * 2 ^ 18 mod 2 ^ 32"
    by (simp add: push_bit_eq_mult unat_word_ariths)
  also have "unat (ucast d :: u32) = unat d mod 2 ^ 32" by (simp add: unsigned_ucast_eq take_bit_eq_mod)
  finally have "unat (push_bit 18 (ucast d :: u32)) = unat d * 2 ^ 18 mod 2 ^ 32" by (simp only: mod_mult_left_eq)
  then have "unat (vdelta ?w d) = max 1 (unat d * 2 ^ 18 mod 2 ^ 32 div unat ?w)"
    by (simp only: unat_vdelta)
  then have "(ucast (vdelta ?w d) :: u64) = of_nat (max 1 (unat d * 2 ^ 18 mod 2 ^ 32 div unat ?w))"
    by (metis of_nat_unat)
  moreover have "unat ?w = (if weight t = 0 then 1024 else unat (weight t))" by simp
  ultimately show ?thesis using assms by (auto simp: calc_vruntime_delta_eq vr_def charged_def Let_def)
qed

theorem vruntime_charge_witness:
  "\<exists>s'. calc_vruntime_delta (Some 4096) 3 demo_kernel = Some s' \<and> vr s' 4096 = 7 + 768"
  using vruntime_charge [of demo_kernel 4096 "demo_task TASK_BLOCKED 7" 3]
  by (auto simp: demo_kernel_def demo_task_def vr_def)

end
