(* ===== verification/Blocking.thy ===== *)
theory Blocking
  imports Sched_Correct
begin

text \<open>
  The calls of \<^verbatim>\<open>thread/thread.c\<close> that give up the processor: \<open>thread_block\<close>, \<open>thread_yield\<close>
  (\<open>thread_unblock\<close> is in \<open>Sched\<close>, which calls it), and the timer interrupt of \<^verbatim>\<open>device/timer.c\<close>
  that preempts a thread after three ticks. After the switch the model continues as the thread
  that was switched to; the caller's remaining statement, restoring its interrupt state, runs
  when it is switched back, so it is part of the model with the caller's saved flag.
\<close>

definition thread_block :: "task_status \<Rightarrow> 'a kernel_scheme \<Rightarrow> 'a kernel_scheme option" where
  "thread_block c s = do {
     ASSERT (c = TASK_BLOCKED \<or> c = TASK_WAITING \<or> c = TASK_HANGING);
     let (old_status, s) = k_intr_disable s;
     s \<leftarrow> upd_task (Some (running s)) (\<lambda>t. t\<lparr>status := c\<rparr>) s;
     s \<leftarrow> schedule s;
     Some (k_intr_set_status old_status s)
   }"

definition thread_yield :: "'a kernel_scheme \<Rightarrow> 'a kernel_scheme option" where
  "thread_yield s = do {
     let cur = Some (running s);
     let (old_status, s) = k_intr_disable s;
     s \<leftarrow> upd_task cur (\<lambda>t. t\<lparr>status := TASK_READY\<rparr>) s;
     s \<leftarrow> enqueue_task cur s;
     s \<leftarrow> schedule s;
     Some (k_intr_set_status old_status s)
   }"

text \<open>\<^verbatim>\<open>timer_interrupt_handler\<close>; the second component is the global tick counter. The interrupt gate
  clears the interrupt flag before the handler runs.\<close>

definition SCHED_LATENCY_TICKS :: u64 where "SCHED_LATENCY_TICKS = 3"

definition timer_interrupt_handler :: "'a kernel_scheme \<Rightarrow> u32 \<Rightarrow> ('a kernel_scheme \<times> u32) option" where
  "timer_interrupt_handler s ticks = do {
     let cur = Some (running s);
     t \<leftarrow> task_of cur s;
     ASSERT (stack_magic t = 0x19870916);
     s \<leftarrow> upd_task cur (\<lambda>t. t\<lparr>elapsed_ticks := elapsed_ticks t + 1\<rparr>) s;
     let ticks = ticks + 1;
     t \<leftarrow> task_of cur s;
     let delta_exec = (ucast (elapsed_ticks t) :: u64) - exec_start t;
     s \<leftarrow> (if SCHED_LATENCY_TICKS \<le> delta_exec then schedule s else Some s);
     Some (s, ticks)
   }"

subsection \<open>Blocking\<close>

lemma sched_inv_eflags [simp]: "sched_inv (s\<lparr>eflags := e\<rparr>) q = sched_inv s q"
  by (simp add: sched_inv_def stat_def)

lemma stat_eflags [simp]: "stat (s\<lparr>eflags := e\<rparr>) = stat s" and vr_eflags [simp]: "vr (s\<lparr>eflags := e\<rparr>) = vr s"
  by (simp_all add: stat_def vr_def fun_eq_iff)

text \<open>The running thread marks itself with a status that is not ready or dead.\<close>

lemma sched_inv_mark:
  assumes "sched_inv s q" and "tasks s (running s) = Some t" and "c \<noteq> TASK_READY" "c \<noteq> TASK_DIED"
  shows "sched_inv (s\<lparr>tasks := (tasks s)(running s \<mapsto> t\<lparr>status := c\<rparr>)\<rparr>) q"
proof -
  let ?s = "s\<lparr>tasks := (tasks s)(running s \<mapsto> t\<lparr>status := c\<rparr>)\<rparr>"
  have "rq ?s q" by (rule rq_upd_task) (use assms in \<open>auto simp: sched_inv_def\<close>)
  moreover have "stat ?s = (stat s)(running s := c)" by (auto simp: stat_def)
  moreover have "\<exists>D. addr_spaces D ?s" using assms(1,2) by (simp add: addr_spaces_upd_task sched_inv_def)
  ultimately show ?thesis using assms by (auto simp: sched_inv_def)
qed

lemma thread_block_scheduled:
  assumes i: "sched_inv s q" and r: "stat s (running s) = TASK_RUNNING"
    and c: "c \<in> {TASK_BLOCKED, TASK_WAITING, TASK_HANGING}"
  shows "\<exists>s' q'. thread_block c s = Some s' \<and> sched_inv s' q' \<and> stat s' (running s') = TASK_RUNNING \<and>
    (\<forall>p. stat s' p = TASK_READY \<longrightarrow> vr s' (running s') \<le> vr s' p) \<and>
    (\<forall>p. p \<noteq> running s \<longrightarrow> stat s p = TASK_READY \<longrightarrow> stat s' p = TASK_READY \<or> stat s' p = TASK_RUNNING) \<and>
    eflags s' = eflags s"
proof -
  obtain t where t: "tasks s (running s) = Some t" using stat_alive [of s "running s"] r by auto
  let ?s1 = "s\<lparr>eflags := snd (intr_disable (eflags s)), tasks := (tasks s)(running s \<mapsto> t\<lparr>status := c\<rparr>)\<rparr>"
  have i1: "sched_inv ?s1 q"
    using sched_inv_mark [of "s\<lparr>eflags := snd (intr_disable (eflags s))\<rparr>" q t c] i t c by auto
  obtain s2 where s2: "schedule ?s1 = Some s2" "scheduled ?s1 s2"
    using schedule_scheduled [OF i1] by auto
  let ?s3 = "k_intr_set_status (fst (intr_disable (eflags s))) s2"
  have "thread_block c s = Some ?s3"
    using c t s2(1) by (auto simp: thread_block_def k_intr_disable_def Let_def split: prod.splits)
  moreover have "eflags ?s3 = eflags s" using s2(2) by (simp add: k_intr_set_status_def scheduled_def)
  moreover obtain q' where q': "sched_inv s2 q'" "stat s2 (running s2) = TASK_RUNNING" "runnable ?s1 \<subseteq> runnable s2"
    "\<And>p. stat s2 p = TASK_READY \<Longrightarrow> vr s2 (running s2) \<le> vr s2 p" by (rule scheduledD [OF s2(2)]) blast
  moreover have "stat s2 p = TASK_READY \<or> stat s2 p = TASK_RUNNING" if "p \<noteq> running s" "stat s p = TASK_READY" for p
  proof -
    have "stat ?s1 p = TASK_READY" using that by (simp add: stat_def)
    then show ?thesis using q'(3) by blast
  qed
  ultimately show ?thesis by (intro exI [of _ ?s3] exI [of _ q']) (simp add: k_intr_set_status_def)
qed


lemma demo_running: "sched_inv (demo_kernel\<lparr>tasks := (tasks demo_kernel)(4096 \<mapsto> demo_task TASK_RUNNING 7)\<rparr>) []"
  using sched_inv_mark [OF demo_inv, of "demo_task TASK_BLOCKED 7" TASK_RUNNING]
  by (simp add: demo_kernel_def demo_task_def)


subsection \<open>Preemption\<close>

lemma sched_inv_tick:
  assumes "sched_inv s q" and "tasks s (running s) = Some t"
  shows "sched_inv (s\<lparr>tasks := (tasks s)(running s \<mapsto> t\<lparr>elapsed_ticks := e\<rparr>)\<rparr>) q"
proof -
  let ?s = "s\<lparr>tasks := (tasks s)(running s \<mapsto> t\<lparr>elapsed_ticks := e\<rparr>)\<rparr>"
  have "rq ?s q" by (rule rq_upd_task) (use assms in \<open>auto simp: sched_inv_def\<close>)
  moreover have "stat ?s = stat s" using assms(2) by (auto simp: stat_def)
  moreover have "\<exists>D. addr_spaces D ?s" using assms(1,2) by (simp add: addr_spaces_upd_task sched_inv_def)
  ultimately show ?thesis using assms(1) by (auto simp: sched_inv_def)
qed

text \<open>C29: The timer interrupt: as long as the running thread's stack guard is intact it returns, counts
  one tick for the machine and one for the thread; before the thread has run three ticks since
  it was switched in, the same thread goes on and nothing else changes; from then on it runs
  the scheduler, after which the running thread is one of least virtual runtime among the
  ready threads. The scheduler invariant holds afterwards either way.\<close>

theorem timer_preempts:
  assumes "sched_inv s q" and "intr_get_status (eflags s) = INTR_OFF" and "tasks s (running s) = Some t"
    and "stack_magic t = 0x19870916"
  shows "\<exists>s' q'. timer_interrupt_handler s ticks = Some (s', ticks + 1) \<and> sched_inv s' q' \<and>
    (if 3 \<le> (ucast (elapsed_ticks t + 1) :: u64) - exec_start t
     then stat s' (running s') = TASK_RUNNING \<and> (\<forall>p. stat s' p = TASK_READY \<longrightarrow> vr s' (running s') \<le> vr s' p)
     else s' = s\<lparr>tasks := (tasks s)(running s \<mapsto> t\<lparr>elapsed_ticks := elapsed_ticks t + 1\<rparr>)\<rparr>)"
proof -
  let ?s1 = "s\<lparr>tasks := (tasks s)(running s \<mapsto> t\<lparr>elapsed_ticks := elapsed_ticks t + 1\<rparr>)\<rparr>"
  have i: "sched_inv ?s1 q" by (rule sched_inv_tick [OF assms(1,3)])
  show ?thesis
  proof (cases "3 \<le> (ucast (elapsed_ticks t + 1) :: u64) - exec_start t")
    case True
    obtain s2 where s2: "schedule ?s1 = Some s2" "scheduled ?s1 s2" using schedule_scheduled [OF i] assms(2) by auto
    then have "timer_interrupt_handler s ticks = Some (s2, ticks + 1)"
      using True assms(3,4) by (simp add: timer_interrupt_handler_def SCHED_LATENCY_TICKS_def)
    moreover obtain q' where "sched_inv s2 q'" "stat s2 (running s2) = TASK_RUNNING"
      "\<And>p. stat s2 p = TASK_READY \<Longrightarrow> vr s2 (running s2) \<le> vr s2 p" by (rule scheduledD [OF s2(2)]) blast
    ultimately show ?thesis using True by (intro exI [of _ s2] exI [of _ q']) simp
  next
    case False
    then have "timer_interrupt_handler s ticks = Some (?s1, ticks + 1)"
      using assms(3,4) by (simp add: timer_interrupt_handler_def SCHED_LATENCY_TICKS_def)
    with i False show ?thesis by auto
  qed
qed

theorem timer_preempts_witness:
  "\<exists>s' q'. timer_interrupt_handler demo_kernel 41 = Some (s', 42) \<and> sched_inv s' q'"
  using timer_preempts [OF demo_inv, of "demo_task TASK_BLOCKED 7" 41]
  by (auto simp: demo_kernel_def demo_task_def intr_get_status_def EFLAGS_IF_def)

subsection \<open>Yielding\<close>

text \<open>Thread 1 is running and has used one tick since it was switched in; thread 2 waits with virtual
  runtime 5.\<close>

definition yield_kernel :: kernel where
  "yield_kernel = \<lparr>tasks = [1 \<mapsto> (demo_task TASK_RUNNING 0)\<lparr>elapsed_ticks := 1\<rparr>, 2 \<mapsto> demo_task TASK_READY 5],
     tasks_timeline = \<lparr>nodes = [1 \<mapsto> mk None None None RB_RED, 2 \<mapsto> mk None None None RB_BLACK], root = Some 2\<rparr>,
     rb_leftmost = Some 2, min_vruntime = 0, nr_running = 1, current_thread = Some 1, idle_thread = Some 2,
     running = 1, eflags = 2, cr3 = 0x100000, tss_esp0 = 0, pm = (\<lambda>_. 0)\<rparr>"


end
