(* ===== verification/Sync.thy ===== *)
theory Sync
  imports Blocking
begin

text \<open>
  \<^verbatim>\<open>thread/sync.c\<close>: semaphores and the recursive lock. First the operations on the kernel state: a
  \<^verbatim>\<open>sema_down\<close> either takes the semaphore or queues the caller and switches away, after which the
  caller is back at the loop test when it runs again; \<open>lock_acquire\<close> is the path that does not
  sleep. Then the lock as a transition system in which any thread may be preempted
  between any two statements that do not run with interrupts off: mutual exclusion, no failing
  \<^verbatim>\<open>ASSERT\<close>, and no lost wake-up are invariants of it.
\<close>

record semaphore =
  sem_value :: u8
  waiters :: "nat list"

record lock =
  holder :: ptr
  lsema :: semaphore
  holder_repeat_nr :: u32

definition sema_init :: "u8 \<Rightarrow> semaphore" where
  "sema_init val = \<lparr>sem_value = val, waiters = []\<rparr>"

definition lock_init :: lock where
  "lock_init = \<lparr>holder = None, lsema = sema_init 1, holder_repeat_nr = 0\<rparr>"

text \<open>The test of the loop in \<^verbatim>\<open>sema_down\<close> and what follows it: \<open>Inl\<close> when the caller was queued and
  must sleep, \<open>Inr\<close> when it has the semaphore.\<close>

definition down_try :: "nat \<Rightarrow> semaphore \<Rightarrow> semaphore + semaphore" where
  "down_try me sem =
     (if sem_value sem = 0 then Inl (sem\<lparr>waiters := waiters sem @ [me]\<rparr>)
      else Inr (sem\<lparr>sem_value := sem_value sem - 1\<rparr>))"

text \<open>The body of \<^verbatim>\<open>sema_up\<close> on the semaphore: the thread to unblock, if any, and the new semaphore.\<close>

definition up_post :: "semaphore \<Rightarrow> ptr \<times> semaphore" where
  "up_post sem = (case waiters sem of
     [] \<Rightarrow> (None, sem\<lparr>sem_value := sem_value sem + 1\<rparr>)
   | w # ws \<Rightarrow> (Some w, sem\<lparr>waiters := ws, sem_value := sem_value sem + 1\<rparr>))"

definition sema_down :: "semaphore \<Rightarrow> 'a kernel_scheme \<Rightarrow> (bool \<times> semaphore \<times> 'a kernel_scheme) option" where
  "sema_down sem s = do {
     let (old_status, s) = k_intr_disable s;
     (case down_try (running s) sem of
        Inl sem \<Rightarrow> do { s \<leftarrow> thread_block TASK_BLOCKED s; Some (False, sem, s) }
      | Inr sem \<Rightarrow> Some (True, sem, k_intr_set_status old_status s))
   }"

definition sema_up :: "semaphore \<Rightarrow> 'a kernel_scheme \<Rightarrow> (semaphore \<times> 'a kernel_scheme) option" where
  "sema_up sem s = do {
     let (old_status, s) = k_intr_disable s;
     let (woken, sem) = up_post sem;
     s \<leftarrow> (if woken \<noteq> None then thread_unblock woken s else Some s);
     ASSERT (1 \<le> sem_value sem);
     Some (sem, k_intr_set_status old_status s)
   }"

definition lock_acquire :: "lock \<Rightarrow> 'a kernel_scheme \<Rightarrow> (lock \<times> 'a kernel_scheme) option" where
  "lock_acquire plock s =
     (if holder plock \<noteq> Some (running s)
      then do {
        (got, sem, s) \<leftarrow> sema_down (lsema plock) s;
        if got
        then do {
          let plock = plock\<lparr>lsema := sem, holder := Some (running s)\<rparr>;
          ASSERT (holder_repeat_nr plock = 0);
          Some (plock\<lparr>holder_repeat_nr := 1\<rparr>, s)
        }
        else None
      }
      else Some (plock\<lparr>holder_repeat_nr := holder_repeat_nr plock + 1\<rparr>, s))"

definition lock_release :: "lock \<Rightarrow> 'a kernel_scheme \<Rightarrow> (lock \<times> 'a kernel_scheme) option" where
  "lock_release plock s = do {
     ASSERT (holder plock = Some (running s));
     if 1 < holder_repeat_nr plock
     then Some (plock\<lparr>holder_repeat_nr := holder_repeat_nr plock - 1\<rparr>, s)
     else do {
       ASSERT (holder_repeat_nr plock = 1);
       let plock = plock\<lparr>holder := None, holder_repeat_nr := 0\<rparr>;
       (sem, s) \<leftarrow> sema_up (lsema plock) s;
       Some (plock\<lparr>lsema := sem\<rparr>, s)
     }
   }"

subsection \<open>The uncontended lock\<close>

definition lock_free :: "lock \<Rightarrow> bool" where
  "lock_free l \<longleftrightarrow> holder l = None \<and> holder_repeat_nr l = 0 \<and> sem_value (lsema l) = 1 \<and> waiters (lsema l) = []"

definition lock_held :: "nat \<Rightarrow> u32 \<Rightarrow> lock \<Rightarrow> bool" where
  "lock_held me n l \<longleftrightarrow> holder l = Some me \<and> holder_repeat_nr l = n \<and> 0 < n \<and> sem_value (lsema l) = 0 \<and> waiters (lsema l) = []"

lemma k_intr_restore [simp]:
  "k_intr_set_status (fst (k_intr_disable s)) (snd (k_intr_disable s)) = s"
  by (simp add: k_intr_set_status_def k_intr_disable_def case_prod_beta Let_def)

lemma lock_acquire_free:
  assumes "lock_free l"
  shows "\<exists>l'. lock_acquire l s = Some (l', s) \<and> lock_held (running s) 1 l'"
  using assms k_intr_restore [of s]
  by (auto simp: lock_acquire_def sema_down_def lock_free_def down_try_def lock_held_def Let_def case_prod_beta)

lemma lock_acquire_held:
  assumes "lock_held (running s) n l" and "n \<noteq> -1"
  shows "\<exists>l'. lock_acquire l s = Some (l', s) \<and> lock_held (running s) (n + 1) l'"
proof -
  have "0 < n + 1" using assms(2) by (metis add.commute eq_neg_iff_add_eq_0 word_gt_0)
  with assms(1) show ?thesis by (auto simp: lock_acquire_def lock_held_def)
qed

lemma lock_release_held:
  assumes "lock_held (running s) n l"
  shows "\<exists>l'. lock_release l s = Some (l', s) \<and> (if n = 1 then lock_free l' else lock_held (running s) (n - 1) l')"
proof (cases "n = 1")
  case True
  with assms k_intr_restore [of s] show ?thesis
    by (auto simp: lock_release_def lock_held_def sema_up_def up_post_def lock_free_def Let_def case_prod_beta)
next
  case False
  have "unat n \<noteq> 0" "unat n \<noteq> 1"
    using assms False by (auto simp: lock_held_def word_gt_0 word_unat_eq_iff)
  then have "1 < n" by (simp add: word_less_nat_alt)
  then have "0 < n - 1" by (metis eq_iff_diff_eq_0 word_gt_0 less_irrefl)
  with \<open>1 < n\<close> False assms show ?thesis by (auto simp: lock_release_def lock_held_def)
qed

subsection \<open>The lock under preemption\<close>

text \<open>Where a thread stands in \<^verbatim>\<open>lock_acquire\<close> and \<^verbatim>\<open>lock_release\<close>: outside; past the test of the holder; asleep
  in \<^verbatim>\<open>sema_down\<close>; back from it; holder set; in the critical section; past the tests of \<^verbatim>\<open>lock_release\<close>;
  holder cleared; count cleared. \<open>Panicked\<close> is a failed \<^verbatim>\<open>ASSERT\<close>.\<close>

datatype pc = Out | Want | Asleep | Got | Owner | In | Rel1 | Rel2 | Rel3 | Panicked

record lsys =
  lk :: lock
  pcs :: "nat \<Rightarrow> pc"

abbreviation go :: "nat \<Rightarrow> pc \<Rightarrow> lsys \<Rightarrow> lsys" where
  "go i c s \<equiv> s\<lparr>pcs := (pcs s)(i := c)\<rparr>"

abbreviation upd_lk :: "(lock \<Rightarrow> lock) \<Rightarrow> lsys \<Rightarrow> lsys" where
  "upd_lk f s \<equiv> s\<lparr>lk := f (lk s)\<rparr>"

inductive lstep :: "nat \<Rightarrow> lsys \<Rightarrow> lsys \<Rightarrow> bool" for i where
  acquire: "pcs s i \<in> {Out, In} \<Longrightarrow> holder (lk s) \<noteq> Some i \<Longrightarrow> lstep i s (go i Want s)"
| reacquire: "pcs s i \<in> {Out, In} \<Longrightarrow> holder (lk s) = Some i \<Longrightarrow> holder_repeat_nr (lk s) \<noteq> -1 \<Longrightarrow>
    lstep i s (go i In (upd_lk (\<lambda>l. l\<lparr>holder_repeat_nr := holder_repeat_nr l + 1\<rparr>) s))"
| down_sleep: "pcs s i = Want \<Longrightarrow> down_try i (lsema (lk s)) = Inl sem \<Longrightarrow>
    lstep i s (go i Asleep (upd_lk (\<lambda>l. l\<lparr>lsema := sem\<rparr>) s))"
| down_get: "pcs s i = Want \<Longrightarrow> down_try i (lsema (lk s)) = Inr sem \<Longrightarrow>
    lstep i s (go i Got (upd_lk (\<lambda>l. l\<lparr>lsema := sem\<rparr>) s))"
| set_holder: "pcs s i = Got \<Longrightarrow> lstep i s (go i Owner (upd_lk (\<lambda>l. l\<lparr>holder := Some i\<rparr>) s))"
| set_count: "pcs s i = Owner \<Longrightarrow>
    lstep i s (if holder_repeat_nr (lk s) = 0 then go i In (upd_lk (\<lambda>l. l\<lparr>holder_repeat_nr := 1\<rparr>) s) else go i Panicked s)"
| release: "pcs s i = In \<Longrightarrow>
    lstep i s (if holder (lk s) \<noteq> Some i then go i Panicked s
      else if 1 < holder_repeat_nr (lk s) then upd_lk (\<lambda>l. l\<lparr>holder_repeat_nr := holder_repeat_nr l - 1\<rparr>) s
      else if holder_repeat_nr (lk s) = 1 then go i Rel1 s else go i Panicked s)"
| clear_holder: "pcs s i = Rel1 \<Longrightarrow> lstep i s (go i Rel2 (upd_lk (\<lambda>l. l\<lparr>holder := None\<rparr>) s))"
| clear_count: "pcs s i = Rel2 \<Longrightarrow> lstep i s (go i Rel3 (upd_lk (\<lambda>l. l\<lparr>holder_repeat_nr := 0\<rparr>) s))"
| up_none: "pcs s i = Rel3 \<Longrightarrow> up_post (lsema (lk s)) = (None, sem) \<Longrightarrow>
    lstep i s (go i Out (upd_lk (\<lambda>l. l\<lparr>lsema := sem\<rparr>) s))"
| up_wake: "pcs s i = Rel3 \<Longrightarrow> up_post (lsema (lk s)) = (Some w, sem) \<Longrightarrow>
    lstep i s (if pcs s w = Asleep then go w Want (go i Out (upd_lk (\<lambda>l. l\<lparr>lsema := sem\<rparr>) s)) else go i Panicked s)"

inductive lreach :: "lsys \<Rightarrow> bool" where
  start: "lreach \<lparr>lk = lock_init, pcs = (\<lambda>_. Out)\<rparr>"
| step: "lreach s \<Longrightarrow> lstep i s s' \<Longrightarrow> lreach s'"

text \<open>What the lock looks like while thread \<open>i\<close> is between taking and giving back the semaphore.\<close>

definition inside :: "pc \<Rightarrow> bool" where
  "inside c \<longleftrightarrow> c \<in> {Got, Owner, In, Rel1, Rel2, Rel3}"

definition owns :: "nat \<Rightarrow> lock \<Rightarrow> pc \<Rightarrow> bool" where
  "owns i l c \<longleftrightarrow> (case c of
     Got \<Rightarrow> holder l = None \<and> holder_repeat_nr l = 0
   | Owner \<Rightarrow> holder l = Some i \<and> holder_repeat_nr l = 0
   | In \<Rightarrow> holder l = Some i \<and> holder_repeat_nr l \<noteq> 0
   | Rel1 \<Rightarrow> holder l = Some i \<and> holder_repeat_nr l = 1
   | Rel2 \<Rightarrow> holder l = None \<and> holder_repeat_nr l = 1
   | Rel3 \<Rightarrow> holder l = None \<and> holder_repeat_nr l = 0
   | _ \<Rightarrow> False)"

definition excl :: "lock \<Rightarrow> (nat \<Rightarrow> pc) \<Rightarrow> bool" where
  "excl l P \<longleftrightarrow>
     (sem_value (lsema l) = 1 \<and> (\<forall>i. \<not> inside (P i)) \<and> holder l = None \<and> holder_repeat_nr l = 0) \<or>
     (sem_value (lsema l) = 0 \<and> (\<exists>i. owns i l (P i) \<and> (\<forall>j. inside (P j) \<longrightarrow> j = i)))"

definition queued :: "lock \<Rightarrow> (nat \<Rightarrow> pc) \<Rightarrow> bool" where
  "queued l P \<longleftrightarrow> distinct (waiters (lsema l)) \<and> (\<forall>i. i \<in> set (waiters (lsema l)) \<longleftrightarrow> P i = Asleep)"

definition awake :: "lock \<Rightarrow> (nat \<Rightarrow> pc) \<Rightarrow> bool" where
  "awake l P \<longleftrightarrow> waiters (lsema l) = [] \<or> sem_value (lsema l) = 0 \<or> (\<exists>j. P j = Want)"

definition linv :: "lsys \<Rightarrow> bool" where
  "linv s \<longleftrightarrow> excl (lk s) (pcs s) \<and> (\<forall>i. pcs s i \<noteq> Panicked) \<and> queued (lk s) (pcs s) \<and> awake (lk s) (pcs s)"

lemma linv_init: "linv \<lparr>lk = lock_init, pcs = (\<lambda>_. Out)\<rparr>"
  by (simp add: linv_def excl_def queued_def awake_def lock_init_def sema_init_def inside_def)

lemma owns_inside: "owns i l c \<Longrightarrow> inside c"
  by (cases c) (auto simp: owns_def inside_def)

lemma owns_sema [simp]: "owns i (l\<lparr>lsema := x\<rparr>) c = owns i l c"
  by (cases c) (simp_all add: owns_def)

lemma inside_owner:
  assumes "linv s" and "inside (pcs s i)"
  shows "sem_value (lsema (lk s)) = 0 \<and> owns i (lk s) (pcs s i) \<and> (\<forall>j. inside (pcs s j) \<longrightarrow> j = i)"
  using assms unfolding linv_def excl_def by blast

lemma linvI:
  assumes "excl l P" "\<And>i. P i \<noteq> Panicked" "queued l P" "awake l P"
  shows "linv (s\<lparr>lk := l, pcs := P\<rparr>)"
  using assms by (simp add: linv_def)

lemma linvD: "linv s \<Longrightarrow> excl (lk s) (pcs s)" "linv s \<Longrightarrow> pcs s i \<noteq> Panicked"
  "linv s \<Longrightarrow> queued (lk s) (pcs s)" "linv s \<Longrightarrow> awake (lk s) (pcs s)"
  by (simp_all add: linv_def)

lemma excl_ownI:
  "sem_value (lsema l) = 0 \<Longrightarrow> owns i l (P i) \<Longrightarrow> (\<And>j. inside (P j) \<Longrightarrow> j = i) \<Longrightarrow> excl l P"
  unfolding excl_def by blast

lemma excl_cases:
  assumes "excl l P"
  obtains (free) "sem_value (lsema l) = 1" "\<And>i. \<not> inside (P i)" "holder l = None" "holder_repeat_nr l = 0"
  | (own) i where "sem_value (lsema l) = 0" "owns i l (P i)" "\<And>j. inside (P j) \<Longrightarrow> j = i"
proof -
  from assms consider "sem_value (lsema l) = 1 \<and> (\<forall>i. \<not> inside (P i)) \<and> holder l = None \<and> holder_repeat_nr l = 0"
    | i where "sem_value (lsema l) = 0 \<and> owns i l (P i) \<and> (\<forall>j. inside (P j) \<longrightarrow> j = i)"
    unfolding excl_def by blast
  then show thesis by cases (use free own in blast)+
qed

lemma queued_upd:
  "queued l P \<Longrightarrow> P i \<noteq> Asleep \<Longrightarrow> c \<noteq> Asleep \<Longrightarrow> waiters (lsema l') = waiters (lsema l) \<Longrightarrow> queued l' (P(i := c))"
  by (auto simp: queued_def)

text \<open>A step inside the lock that leaves the semaphore alone.\<close>

lemma linv_inside:
  assumes "linv s" and "inside (pcs s i)" and "owns i l c" and "lsema l = lsema (lk s)"
  shows "linv (s\<lparr>lk := l, pcs := (pcs s)(i := c)\<rparr>)"
proof (rule linvI)
  have o: "sem_value (lsema (lk s)) = 0" "\<And>j. inside (pcs s j) \<Longrightarrow> j = i" using inside_owner [OF assms(1,2)] by auto
  have c: "inside c" using owns_inside [OF assms(3)] .
  show "excl l ((pcs s)(i := c))" by (rule excl_ownI [of _ i]) (use o assms(3,4) in \<open>auto split: if_splits\<close>)
  show "((pcs s)(i := c)) k \<noteq> Panicked" for k using c linvD(2) [OF assms(1)] by (auto simp: inside_def)
  show "queued l ((pcs s)(i := c))"
    by (rule queued_upd [OF linvD(3) [OF assms(1)]]) (use assms(2,4) c in \<open>auto simp: inside_def\<close>)
  show "awake l ((pcs s)(i := c))" using o(1) assms(4) by (simp add: awake_def)
qed

text \<open>A step outside the lock.\<close>

lemma linv_outside:
  assumes "linv s" and "pcs s i = Out"
  shows "linv (s\<lparr>pcs := (pcs s)(i := Want)\<rparr>)"
proof -
  have w: "\<not> inside Want" by (simp add: inside_def)
  have "excl (lk s) ((pcs s)(i := Want))"
    using linvD(1) [OF assms(1)]
  proof (cases rule: excl_cases)
    case free
    with w show ?thesis unfolding excl_def by simp
  next
    case (own j)
    have "j \<noteq> i" using own(2) assms(2) by (auto simp: owns_def)
    then show ?thesis using own w by (intro excl_ownI [of _ j]) (auto split: if_splits)
  qed
  moreover have "queued (lk s) ((pcs s)(i := Want))"
    by (rule queued_upd [OF linvD(3) [OF assms(1)]]) (use assms(2) in auto)
  moreover have "awake (lk s) ((pcs s)(i := Want))" by (auto simp: awake_def)
  ultimately show ?thesis using linvD(2) [OF assms(1)] by (simp add: linv_def)
qed

lemma linv_down_sleep:
  assumes "linv s" and "pcs s i = Want" and "sem_value (lsema (lk s)) = 0"
  shows "linv (s\<lparr>lk := (lk s)\<lparr>lsema := (lsema (lk s))\<lparr>waiters := waiters (lsema (lk s)) @ [i]\<rparr>\<rparr>, pcs := (pcs s)(i := Asleep)\<rparr>)"
proof (rule linvI)
  let ?l = "(lk s)\<lparr>lsema := (lsema (lk s))\<lparr>waiters := waiters (lsema (lk s)) @ [i]\<rparr>\<rparr>"
  obtain j where j: "owns j (lk s) (pcs s j)" "\<forall>k. inside (pcs s k) \<longrightarrow> k = j"
    using linvD(1) [OF assms(1)] assms(3) by (auto simp: excl_def)
  have "j \<noteq> i" using j(1) assms(2) by (auto simp: owns_def)
  then show "excl ?l ((pcs s)(i := Asleep))"
    using j assms(3) by (intro excl_ownI [of _ j]) (auto simp: inside_def [of Asleep] split: if_splits)
  show "((pcs s)(i := Asleep)) k \<noteq> Panicked" for k using linvD(2) [OF assms(1)] by simp
  show "queued ?l ((pcs s)(i := Asleep))" using linvD(3) [OF assms(1)] assms(2) by (auto simp: queued_def)
  show "awake ?l ((pcs s)(i := Asleep))" using assms(3) by (simp add: awake_def)
qed

lemma linv_down_get:
  assumes "linv s" and "pcs s i = Want" and "sem_value (lsema (lk s)) \<noteq> 0"
  shows "linv (s\<lparr>lk := (lk s)\<lparr>lsema := (lsema (lk s))\<lparr>sem_value := sem_value (lsema (lk s)) - 1\<rparr>\<rparr>, pcs := (pcs s)(i := Got)\<rparr>)"
proof (rule linvI)
  let ?l = "(lk s)\<lparr>lsema := (lsema (lk s))\<lparr>sem_value := sem_value (lsema (lk s)) - 1\<rparr>\<rparr>"
  have o: "sem_value (lsema (lk s)) = 1" "\<And>j. \<not> inside (pcs s j)" "holder (lk s) = None" "holder_repeat_nr (lk s) = 0"
    using linvD(1) [OF assms(1)] assms(3) by (auto simp: excl_def)
  show "excl ?l ((pcs s)(i := Got))"
    using o by (intro excl_ownI [of _ i]) (auto simp: owns_def [of i "lk s" Got] split: if_splits)
  show "((pcs s)(i := Got)) k \<noteq> Panicked" for k using linvD(2) [OF assms(1)] by simp
  show "queued ?l ((pcs s)(i := Got))" by (rule queued_upd [OF linvD(3) [OF assms(1)]]) (use assms(2) in auto)
  show "awake ?l ((pcs s)(i := Got))" using o(1) by (simp add: awake_def)
qed

lemma release_excl:
  assumes "linv s" and "pcs s i = Rel3" and "\<And>j. j \<noteq> i \<Longrightarrow> inside (P j) \<Longrightarrow> inside (pcs s j)" and "\<not> inside (P i)"
    and "sem_value (lsema l) = sem_value (lsema (lk s)) + 1" "holder l = holder (lk s)" "holder_repeat_nr l = holder_repeat_nr (lk s)"
  shows "excl l P"
proof -
  have "inside (pcs s i)" using assms(2) by (simp add: inside_def)
  from inside_owner [OF assms(1) this] assms(2)
  have "sem_value (lsema (lk s)) = 0" "holder (lk s) = None" "holder_repeat_nr (lk s) = 0" "\<And>j. inside (pcs s j) \<Longrightarrow> j = i"
    by (auto simp: owns_def)
  with assms(3-) show ?thesis unfolding excl_def by (metis add_0)
qed

lemma linv_up_none:
  assumes "linv s" and "pcs s i = Rel3" and "waiters (lsema (lk s)) = []"
  shows "linv (s\<lparr>lk := (lk s)\<lparr>lsema := (lsema (lk s))\<lparr>sem_value := sem_value (lsema (lk s)) + 1\<rparr>\<rparr>, pcs := (pcs s)(i := Out)\<rparr>)"
proof (rule linvI)
  let ?l = "(lk s)\<lparr>lsema := (lsema (lk s))\<lparr>sem_value := sem_value (lsema (lk s)) + 1\<rparr>\<rparr>"
  show "excl ?l ((pcs s)(i := Out))" by (rule release_excl [OF assms(1,2)]) (auto simp: inside_def)
  show "((pcs s)(i := Out)) k \<noteq> Panicked" for k using linvD(2) [OF assms(1)] by simp
  show "queued ?l ((pcs s)(i := Out))" by (rule queued_upd [OF linvD(3) [OF assms(1)]]) (use assms(2) in auto)
  show "awake ?l ((pcs s)(i := Out))" using assms(3) by (simp add: awake_def)
qed

lemma linv_up_wake:
  assumes "linv s" and "pcs s i = Rel3" and "waiters (lsema (lk s)) = w # ws"
  shows "pcs s w = Asleep \<and>
    linv (s\<lparr>lk := (lk s)\<lparr>lsema := (lsema (lk s))\<lparr>waiters := ws, sem_value := sem_value (lsema (lk s)) + 1\<rparr>\<rparr>,
      pcs := (pcs s)(i := Out, w := Want)\<rparr>)"
proof (intro conjI linvI)
  let ?l = "(lk s)\<lparr>lsema := (lsema (lk s))\<lparr>waiters := ws, sem_value := sem_value (lsema (lk s)) + 1\<rparr>\<rparr>"
  let ?P = "(pcs s)(i := Out, w := Want)"
  have q: "distinct (w # ws)" "\<And>j. j \<in> set (w # ws) \<longleftrightarrow> pcs s j = Asleep"
    using linvD(3) [OF assms(1)] assms(3) by (auto simp: queued_def)
  show w: "pcs s w = Asleep" using q(2) [of w] by simp
  then have "w \<noteq> i" using assms(2) by auto
  have "\<not> inside Want" "\<not> inside Out" by (simp_all add: inside_def)
  then show "excl ?l ?P" by (intro release_excl [OF assms(1,2)]) (auto split: if_splits)
  show "?P k \<noteq> Panicked" for k using linvD(2) [OF assms(1)] by simp
  have "j \<in> set ws \<longleftrightarrow> ?P j = Asleep" for j using q(1) q(2) [of j] assms(2) by auto
  then show "queued ?l ?P" using q(1) unfolding queued_def by simp
  show "awake ?l ?P" by (auto simp: awake_def)
qed

lemma linv_step:
  assumes "lstep i s s'" and inv: "linv s"
  shows "linv s'"
  using assms(1)
proof cases
  case acquire
  show ?thesis
  proof (cases "pcs s i = In")
    case True
    with inside_owner [OF inv, of i] acquire show ?thesis by (simp add: inside_def owns_def)
  next
    case False
    with acquire have "pcs s i = Out" by simp
    then show ?thesis unfolding acquire(1) by (intro linv_outside [OF inv])
  qed
next
  case reacquire
  obtain j where "owns j (lk s) (pcs s j)" using linvD(1) [OF inv] reacquire(3) by (auto simp: excl_def)
  with reacquire(3) have "inside (pcs s i)" by (cases "pcs s j") (auto simp: owns_def inside_def)
  have "holder_repeat_nr (lk s) + 1 \<noteq> 0" using reacquire(4) by (metis add.commute eq_neg_iff_add_eq_0)
  then show ?thesis unfolding reacquire(1) using linv_inside [OF inv \<open>inside (pcs s i)\<close>, of "(lk s)\<lparr>holder_repeat_nr := holder_repeat_nr (lk s) + 1\<rparr>" In] reacquire(3)
    by (simp add: owns_def)
next
  case (down_sleep sem)
  then have "sem_value (lsema (lk s)) = 0" "sem = (lsema (lk s))\<lparr>waiters := waiters (lsema (lk s)) @ [i]\<rparr>"
    by (auto simp: down_try_def split: if_splits)
  then show ?thesis unfolding down_sleep(1) using linv_down_sleep [OF inv down_sleep(2)] by simp
next
  case (down_get sem)
  then have "sem_value (lsema (lk s)) \<noteq> 0" "sem = (lsema (lk s))\<lparr>sem_value := sem_value (lsema (lk s)) - 1\<rparr>"
    by (auto simp: down_try_def split: if_splits)
  then show ?thesis unfolding down_get(1) using linv_down_get [OF inv down_get(2)] by simp
next
  case set_holder
  have i: "inside (pcs s i)" using set_holder(2) by (simp add: inside_def)
  show ?thesis unfolding set_holder(1) using linv_inside [OF inv i, of "(lk s)\<lparr>holder := Some i\<rparr>" Owner] inside_owner [OF inv i] set_holder(2)
    by (simp add: owns_def)
next
  case set_count
  have i: "inside (pcs s i)" using set_count(2) by (simp add: inside_def)
  show ?thesis unfolding set_count(1) using linv_inside [OF inv i, of "(lk s)\<lparr>holder_repeat_nr := 1\<rparr>" In] inside_owner [OF inv i] set_count(2)
    by (simp add: owns_def)
next
  case release
  have i: "inside (pcs s i)" using release(2) by (simp add: inside_def)
  have o: "holder (lk s) = Some i" "holder_repeat_nr (lk s) \<noteq> 0" using inside_owner [OF inv i] release(2) by (auto simp: owns_def)
  have "1 < holder_repeat_nr (lk s) \<or> holder_repeat_nr (lk s) = 1"
    using o(2) by (auto simp: word_less_nat_alt word_unat_eq_iff)
  then show ?thesis
  proof
    assume n: "1 < holder_repeat_nr (lk s)"
    then have "holder_repeat_nr (lk s) - 1 \<noteq> 0" by auto
    then show ?thesis unfolding release(1) using o n release(2)
        linv_inside [OF inv i, of "(lk s)\<lparr>holder_repeat_nr := holder_repeat_nr (lk s) - 1\<rparr>" In]
      by (simp add: owns_def fun_upd_idem)
  next
    assume "holder_repeat_nr (lk s) = 1"
    then show ?thesis unfolding release(1) using o linv_inside [OF inv i, of "lk s" Rel1] by (simp add: owns_def)
  qed
next
  case clear_holder
  have i: "inside (pcs s i)" using clear_holder(2) by (simp add: inside_def)
  show ?thesis unfolding clear_holder(1) using linv_inside [OF inv i, of "(lk s)\<lparr>holder := None\<rparr>" Rel2] inside_owner [OF inv i] clear_holder(2)
    by (simp add: owns_def)
next
  case clear_count
  have i: "inside (pcs s i)" using clear_count(2) by (simp add: inside_def)
  show ?thesis unfolding clear_count(1) using linv_inside [OF inv i, of "(lk s)\<lparr>holder_repeat_nr := 0\<rparr>" Rel3] inside_owner [OF inv i] clear_count(2)
    by (simp add: owns_def)
next
  case (up_none sem)
  then have "waiters (lsema (lk s)) = []" "sem = (lsema (lk s))\<lparr>sem_value := sem_value (lsema (lk s)) + 1\<rparr>"
    by (auto simp: up_post_def split: list.splits)
  then show ?thesis unfolding up_none(1) using linv_up_none [OF inv up_none(2)] by simp
next
  case (up_wake w sem)
  then obtain ws where ws: "waiters (lsema (lk s)) = w # ws" "sem = (lsema (lk s))\<lparr>waiters := ws, sem_value := sem_value (lsema (lk s)) + 1\<rparr>"
    by (auto simp: up_post_def split: list.splits)
  from linv_up_wake [OF inv up_wake(2) ws(1)] show ?thesis unfolding up_wake(1) ws(2) by simp
qed

lemma lreach_linv: "lreach s \<Longrightarrow> linv s"
  by (induction rule: lreach.induct) (auto intro: linv_init linv_step)


text \<open>Thread 7 takes the lock while thread 8 wants it.\<close>

definition demo_lsys :: lsys where
  "demo_lsys = \<lparr>lk = lock_init\<lparr>lsema := (sema_init 1)\<lparr>sem_value := 0\<rparr>, holder := Some 7, holder_repeat_nr := 1\<rparr>,
     pcs = (\<lambda>_. Out)(7 := In)\<rparr>"

lemma demo_lreach: "lreach demo_lsys"
proof -
  let ?s0 = "\<lparr>lk = lock_init, pcs = (\<lambda>_. Out)\<rparr>"
  have s1: "lreach (go 7 Want ?s0)" by (rule lreach.step [OF lreach.start lstep.acquire]) (simp_all add: lock_init_def)
  have s2: "lreach (go 7 Got (upd_lk (\<lambda>l. l\<lparr>lsema := (sema_init 1)\<lparr>sem_value := 0\<rparr>\<rparr>) (go 7 Want ?s0)))"
    by (rule lreach.step [OF s1 lstep.down_get]) (simp_all add: down_try_def lock_init_def sema_init_def)
  have s3: "lreach (go 7 Owner (upd_lk (\<lambda>l. l\<lparr>lsema := (sema_init 1)\<lparr>sem_value := 0\<rparr>, holder := Some 7\<rparr>) ?s0))"
    using lreach.step [OF s2 lstep.set_holder [where i = 7]] by simp
  from lreach.step [OF s3 lstep.set_count [where i = 7]] show ?thesis by (simp add: lock_init_def demo_lsys_def)
qed

lemma demo_inside: "inside (pcs demo_lsys 7)"
  by (simp add: demo_lsys_def inside_def)



lemma demo_lreach_asleep:
  "\<exists>s. lreach s \<and> pcs s 8 = Asleep"
proof -
  have s1: "lreach (go 8 Want demo_lsys)"
    by (rule lreach.step [OF demo_lreach lstep.acquire]) (simp_all add: lock_init_def demo_lsys_def)
  have "lreach (go 8 Asleep (upd_lk (\<lambda>l. l\<lparr>lsema := \<lparr>sem_value = 0, waiters = [8]\<rparr>\<rparr>) (go 8 Want demo_lsys)))"
    by (rule lreach.step [OF s1 lstep.down_sleep]) (simp_all add: down_try_def sema_init_def demo_lsys_def)
  then show ?thesis by (intro exI conjI) (assumption, simp)
qed


end
