(* ===== verification/Ioqueue.thy ===== *)
theory Ioqueue
  imports Sync Fifo "HOL-Library.Signed_Division"
begin

text \<open>
  \<^verbatim>\<open>device/ioqueue.c\<close>: the bounded buffer between the keyboard interrupt and its readers. The two
  semaphores count data and space, the lock protects the ring. The operations are the paths on
  which the caller does not have to sleep; one that would is \<open>None\<close>, like a failed \<^verbatim>\<open>ASSERT\<close>.
\<close>

definition bufsize :: nat where "bufsize = 64"

record ioqueue =
  ioq_lock :: lock
  has_data :: semaphore
  has_space :: semaphore
  buf :: "u8 list"
  head :: u32
  tail :: u32

definition ioqueue_init :: "ioqueue \<Rightarrow> ioqueue" where
  "ioqueue_init ioq = ioq\<lparr>ioq_lock := lock_init, has_data := sema_init 0, has_space := sema_init (word_of_nat bufsize),
     head := 0, tail := 0\<rparr>"

definition next_pos :: "u32 \<Rightarrow> u32" where
  "next_pos pos = word_of_int ((sint pos + 1) smod int bufsize)"

definition ioq_full :: "ioqueue \<Rightarrow> bool" where
  "ioq_full ioq \<longleftrightarrow> next_pos (head ioq) = tail ioq"

definition ioq_empty :: "ioqueue \<Rightarrow> bool" where
  "ioq_empty ioq \<longleftrightarrow> head ioq = tail ioq"

definition ioq_getchar :: "ioqueue \<Rightarrow> 'a kernel_scheme \<Rightarrow> (u8 \<times> ioqueue \<times> 'a kernel_scheme) option" where
  "ioq_getchar ioq s = do {
     (got, sem, s) \<leftarrow> sema_down (has_data ioq) s;
     ASSERT got;
     let ioq = ioq\<lparr>has_data := sem\<rparr>;
     (l, s) \<leftarrow> lock_acquire (ioq_lock ioq) s;
     let ioq = ioq\<lparr>ioq_lock := l\<rparr>;
     ASSERT (\<not> ioq_empty ioq);
     byte \<leftarrow> arr_get (buf ioq) (unat (tail ioq));
     let ioq = ioq\<lparr>tail := next_pos (tail ioq)\<rparr>;
     (l, s) \<leftarrow> lock_release (ioq_lock ioq) s;
     let ioq = ioq\<lparr>ioq_lock := l\<rparr>;
     (sem, s) \<leftarrow> sema_up (has_space ioq) s;
     Some (byte, ioq\<lparr>has_space := sem\<rparr>, s)
   }"

definition ioq_putchar :: "ioqueue \<Rightarrow> u8 \<Rightarrow> 'a kernel_scheme \<Rightarrow> (ioqueue \<times> 'a kernel_scheme) option" where
  "ioq_putchar ioq byte s = do {
     (got, sem, s) \<leftarrow> sema_down (has_space ioq) s;
     ASSERT got;
     let ioq = ioq\<lparr>has_space := sem\<rparr>;
     (l, s) \<leftarrow> lock_acquire (ioq_lock ioq) s;
     let ioq = ioq\<lparr>ioq_lock := l\<rparr>;
     ASSERT (\<not> ioq_full ioq);
     bs \<leftarrow> arr_set (buf ioq) (unat (head ioq)) byte;
     let ioq = ioq\<lparr>buf := bs, head := next_pos (head ioq)\<rparr>;
     (l, s) \<leftarrow> lock_release (ioq_lock ioq) s;
     let ioq = ioq\<lparr>ioq_lock := l\<rparr>;
     (sem, s) \<leftarrow> sema_up (has_data ioq) s;
     Some (ioq\<lparr>has_data := sem\<rparr>, s)
   }"

subsection \<open>The buffer as a queue\<close>

lemma sema_down_pos: "sem_value sem \<noteq> 0 \<Longrightarrow> sema_down sem s = Some (True, sem\<lparr>sem_value := sem_value sem - 1\<rparr>, s)"
  using k_intr_restore [of s] by (simp add: sema_down_def down_try_def Let_def case_prod_beta)

lemma sema_up_idle:
  "waiters sem = [] \<Longrightarrow> sem_value sem + 1 \<noteq> 0 \<Longrightarrow> sema_up sem s = Some (sem\<lparr>sem_value := sem_value sem + 1\<rparr>, s)"
  using k_intr_restore [of s] by (auto simp: sema_up_def up_post_def Let_def case_prod_beta word_le_nat_alt Suc_le_eq unat_gt_0)

lemma unat_next_pos: "unat pos < 64 \<Longrightarrow> unat (next_pos pos) = (unat pos + 1) mod 64"
proof -
  assume b: "unat pos < 64"
  have "sint pos = int (unat pos)" using to_int_small [of "unat pos"] b by (simp add: to_int_def)
  then have "next_pos pos = word_of_int (int ((unat pos + 1) mod 64))"
    by (simp add: next_pos_def bufsize_def smod_mod_positive zmod_int add.commute)
  moreover have "(unat pos + 1) mod 64 < 2 ^ 32" by (rule less_trans [OF mod_less_divisor]) simp_all
  ultimately show ?thesis by (simp add: unat_of_nat del: of_nat_mod)
qed

text \<open>A buffer in use holds the sequence \<open>q\<close>: the ring from \<^verbatim>\<open>tail\<close> on, with the two counts and nobody waiting.\<close>

definition ioq_holds :: "ioqueue \<Rightarrow> u8 list \<Rightarrow> bool" where
  "ioq_holds ioq q \<longleftrightarrow> lock_free (ioq_lock ioq) \<and> waiters (has_data ioq) = [] \<and> waiters (has_space ioq) = [] \<and>
     length q < bufsize \<and> sem_value (has_data ioq) = word_of_nat (length q) \<and>
     sem_value (has_space ioq) = word_of_nat (bufsize - length q) \<and>
     length (buf ioq) = bufsize \<and> unat (tail ioq) < bufsize \<and> unat (head ioq) = (unat (tail ioq) + length q) mod bufsize \<and>
     (\<forall>i < length q. buf ioq ! ((unat (tail ioq) + i) mod bufsize) = q ! i)"

lemma lock_cycle:
  assumes "lock_free l"
  obtains l' l'' where "lock_acquire l s = Some (l', s)" "lock_release l' s = Some (l'', s)" "lock_free l''"
proof -
  obtain l' where l': "lock_acquire l s = Some (l', s)" "lock_held (running s) 1 l'" using lock_acquire_free [OF assms] by blast
  from lock_release_held [OF l'(2)] obtain l'' where "lock_release l' s = Some (l'', s)" "lock_free l''" by auto
  with l'(1) show thesis by (rule that)
qed

lemma ring_ne:
  fixes t k j :: nat
  assumes "j < k" and "k < j + 64"
  shows "(t + j) mod 64 \<noteq> (t + k) mod 64"
proof
  assume "(t + j) mod 64 = (t + k) mod 64"
  then have "64 dvd (t + k) - (t + j)" using mod_eq_dvd_iff_nat [of "t + j" "t + k" 64] assms by simp
  with assms show False by (auto dest: dvd_imp_le)
qed

lemma small_count:
  assumes "0 < n" and "n \<le> 64"
  shows "(word_of_nat n :: u8) \<noteq> 0" "(word_of_nat n :: u8) - 1 = word_of_nat (n - 1)"
proof -
  have "unat (word_of_nat n :: u8) = n" using assms(2) by (simp add: unat_of_nat)
  then show "(word_of_nat n :: u8) \<noteq> 0" using assms(1) by auto
  show "(word_of_nat n :: u8) - 1 = word_of_nat (n - 1)" using assms(1) by (simp add: of_nat_diff)
qed

lemma ioq_put_holds:
  assumes h: "ioq_holds ioq q" and n: "length q < bufsize - 1"
  shows "\<exists>ioq'. ioq_putchar ioq b s = Some (ioq', s) \<and> ioq_holds ioq' (q @ [b])"
proof -
  let ?t = "unat (tail ioq)" and ?h = "unat (head ioq)" and ?n = "length q"
  note H = h [unfolded ioq_holds_def bufsize_def]
  have hh: "?h = (?t + ?n) mod 64" and hb: "?h < 64" using H by simp_all
  obtain l' l'' where l: "lock_acquire (ioq_lock ioq) s = Some (l', s)" "lock_release l' s = Some (l'', s)" "lock_free l''"
    using lock_cycle [of "ioq_lock ioq" s] H by blast
  have nx: "unat (next_pos (head ioq)) = (?t + Suc ?n) mod 64" using unat_next_pos [OF hb] hh by (simp add: mod_Suc_eq)
  then have nf: "next_pos (head ioq) \<noteq> tail ioq"
    using ring_ne [of 0 "Suc ?n" ?t] n H by (auto simp: word_unat_eq_iff bufsize_def)
  have sp: "sem_value (has_space ioq) = word_of_nat (64 - ?n)" using H by simp
  note c = small_count [of "64 - ?n"]
  have d1: "(word_of_nat ?n :: u8) + 1 = word_of_nat (Suc ?n)" by simp
  have d: "(word_of_nat ?n :: u8) + 1 \<noteq> 0" unfolding d1 using n by (intro small_count) (simp_all add: bufsize_def)
  let ?ioq = "ioq\<lparr>has_space := has_space ioq\<lparr>sem_value := word_of_nat (64 - ?n) - 1\<rparr>, ioq_lock := l'',
    buf := (buf ioq)[?h := b], head := next_pos (head ioq),
    has_data := has_data ioq\<lparr>sem_value := word_of_nat ?n + 1\<rparr>\<rparr>"
  have "ioq_putchar ioq b s = Some (?ioq, s)"
    using l nf H hb c d sp n
    by (simp add: ioq_putchar_def sema_down_pos sema_up_idle ioq_full_def bufsize_def)
  moreover have "ioq_holds ?ioq (q @ [b])"
  proof -
    have "(?t + i) mod 64 \<noteq> ?h" if "i < ?n" for i using ring_ne [of i ?n ?t] that n hh by (simp add: bufsize_def)
    then have "(buf ioq)[?h := b] ! ((?t + i) mod 64) = (q @ [b]) ! i" if "i < Suc ?n" for i
    proof (cases "i = ?n")
      case False
      with that have "i < ?n" by simp
      with H \<open>\<And>i. i < ?n \<Longrightarrow> (?t + i) mod 64 \<noteq> ?h\<close> [of i] show ?thesis
        by (simp add: nth_append nth_list_update_neq)
    qed (use H hh hb in simp)
    then show ?thesis using H l(3) nx n c d1 by (simp add: ioq_holds_def bufsize_def)
  qed
  ultimately show ?thesis by blast
qed

lemma ioq_get_holds:
  assumes h: "ioq_holds ioq (b # q)"
  shows "\<exists>ioq'. ioq_getchar ioq s = Some (b, ioq', s) \<and> ioq_holds ioq' q"
proof -
  let ?t = "unat (tail ioq)" and ?h = "unat (head ioq)" and ?n = "length q"
  note H = h [unfolded ioq_holds_def bufsize_def]
  have hh: "?h = (?t + Suc ?n) mod 64" and tb: "?t < 64" using H by simp_all
  obtain l' l'' where l: "lock_acquire (ioq_lock ioq) s = Some (l', s)" "lock_release l' s = Some (l'', s)" "lock_free l''"
    using lock_cycle [of "ioq_lock ioq" s] H by blast
  have nx: "unat (next_pos (tail ioq)) = (?t + 1) mod 64" using unat_next_pos [OF tb] by simp
  have ne: "head ioq \<noteq> tail ioq" using ring_ne [of 0 "Suc ?n" ?t] H hh tb by (auto simp: word_unat_eq_iff)
  have b: "buf ioq ! ?t = b" using H tb by force
  have da: "sem_value (has_data ioq) = word_of_nat (Suc ?n)" "sem_value (has_space ioq) = word_of_nat (63 - ?n)" using H by simp_all
  have n: "?n < 63" using H by simp
  note c = small_count [of "Suc ?n"]
  have d1: "(word_of_nat (63 - ?n) :: u8) + 1 = word_of_nat (64 - ?n)" using n by (simp add: Suc_diff_le flip: of_nat_Suc)
  have d: "(word_of_nat (63 - ?n) :: u8) + 1 \<noteq> 0" unfolding d1 using n by (intro small_count) simp_all
  let ?ioq = "ioq\<lparr>has_data := has_data ioq\<lparr>sem_value := word_of_nat (Suc ?n) - 1\<rparr>, ioq_lock := l'',
    tail := next_pos (tail ioq), has_space := has_space ioq\<lparr>sem_value := word_of_nat (63 - ?n) + 1\<rparr>\<rparr>"
  have "ioq_getchar ioq s = Some (b, ?ioq, s)"
    using l ne H tb c d da n b
    by (simp add: ioq_getchar_def sema_down_pos sema_up_idle ioq_empty_def del: of_nat_Suc)
  moreover have "ioq_holds ?ioq q"
  proof -
    have "buf ioq ! (((?t + 1) mod 64 + i) mod 64) = q ! i" if "i < ?n" for i
    proof -
      have "buf ioq ! ((?t + Suc i) mod 64) = (b # q) ! Suc i" using H that by (metis Suc_less_eq length_Cons)
      then show ?thesis by (simp add: mod_add_left_eq)
    qed
    moreover have "((?t + 1) mod 64 + ?n) mod 64 = ?h" using hh by (simp add: mod_add_left_eq)
    ultimately show ?thesis using H l(3) nx n c d1 by (simp add: ioq_holds_def bufsize_def)
  qed
  ultimately show ?thesis by blast
qed

interpretation kbd: fifo "\<lambda>(ioq, s) q. ioq_holds ioq q" "\<lambda>q b. length q < bufsize - 1"
  "\<lambda>b (ioq, s). ioq_putchar ioq b s" "\<lambda>(ioq, s). map_option (\<lambda>(b, ioq, s). (b, (ioq, s))) (ioq_getchar ioq s)"
proof
  show "\<exists>s'. (case s of (ioq, s) \<Rightarrow> ioq_putchar ioq x s) = Some s' \<and> (case s' of (ioq, s) \<Rightarrow> \<lambda>q. ioq_holds ioq q) (q @ [x])"
    if "(case s of (ioq, s) \<Rightarrow> \<lambda>q. ioq_holds ioq q) q" "length q < bufsize - 1" for s :: "ioqueue \<times> 'a kernel_scheme" and q x
    using that ioq_put_holds [of "fst s" q x "snd s"] by (auto simp: case_prod_beta)
  show "\<exists>s'. (case s of (ioq, s) \<Rightarrow> map_option (\<lambda>(b, ioq, s). (b, ioq, s)) (ioq_getchar ioq s)) = Some (x, s') \<and>
      (case s' of (ioq, s) \<Rightarrow> \<lambda>q. ioq_holds ioq q) q"
    if "(case s of (ioq, s) \<Rightarrow> \<lambda>q. ioq_holds ioq q) (x # q)" for s :: "ioqueue \<times> 'a kernel_scheme" and q x
    using that ioq_get_holds [of "fst s" x q "snd s"] by (auto simp: case_prod_beta)
qed

text \<open>C16: The keyboard buffer is a bounded first-in first-out queue of 63 characters: starting from a buffer
  that holds \<open>q\<close>, every sequence of \<open>ioq_putchar\<close> and \<open>ioq_getchar\<close> that never puts a 64th character or gets from
  the empty buffer returns without sleeping or failing an \<^verbatim>\<open>ASSERT\<close>, delivers the characters in the order they
  were put, and leaves the buffer holding the rest.\<close>

theorem ioqueue_is_fifo:
  assumes "ioq_holds ioq q" and "arun (\<lambda>q b. length q < 63) ops q = Some (out, q')"
  shows "\<exists>ioq' s'. crun (\<lambda>b (ioq, s). ioq_putchar ioq b s)
      (\<lambda>(ioq, s). map_option (\<lambda>(b, ioq, s). (b, (ioq, s))) (ioq_getchar ioq s)) ops (ioq, s) = Some (out, (ioq', s')) \<and>
    ioq_holds ioq' q'"
  using kbd.run_refines [of "(ioq, s)" q ops out q'] assms by (auto simp: bufsize_def)

definition demo_ioq :: ioqueue where
  "demo_ioq = ioqueue_init \<lparr>ioq_lock = lock_init, has_data = sema_init 7, has_space = sema_init 7,
     buf = replicate 64 0x41, head = 9, tail = 5\<rparr>"

lemma ioqueue_init_holds: "length (buf ioq) = bufsize \<Longrightarrow> ioq_holds (ioqueue_init ioq) []"
  by (simp add: ioq_holds_def ioqueue_init_def sema_init_def lock_init_def lock_free_def bufsize_def)

lemma demo_ioq_holds: "ioq_holds demo_ioq []"
  unfolding demo_ioq_def by (rule ioqueue_init_holds) (simp add: bufsize_def)

theorem ioqueue_is_fifo_witness:
  "\<exists>ioq' s'. crun (\<lambda>b (ioq, s). ioq_putchar ioq b s)
      (\<lambda>(ioq, s). map_option (\<lambda>(b, ioq, s). (b, (ioq, s))) (ioq_getchar ioq s)) [Put 0x61, Put 0x62, Get] (demo_ioq, demo_kernel) =
      Some ([0x61], (ioq', s')) \<and> ioq_holds ioq' [0x62]"
  using ioqueue_is_fifo [OF demo_ioq_holds, of "[Put 0x61, Put 0x62, Get]" "[0x61]" "[0x62]" demo_kernel] by simp

text \<open>C37: The space semaphore counts 64 places but the ring can tell full from empty only up to 63: a
  writer that finds 63 characters in the buffer is let through by the semaphore and stops the
  machine at the \<^verbatim>\<open>ASSERT\<close>, instead of waiting for space.\<close>

theorem ioqueue_64th_putchar_panics:
  assumes "ioq_holds ioq q" and "length q = 63"
  shows "sem_value (has_space ioq) = 1 \<and> ioq_full ioq \<and> ioq_putchar ioq b s = None"
proof -
  note H = assms(1) [unfolded ioq_holds_def bufsize_def]
  have "unat (head ioq) = (unat (tail ioq) + 63) mod 64" using H assms(2) by simp
  moreover have "unat (next_pos (head ioq)) = (unat (head ioq) + 1) mod 64" by (rule unat_next_pos) (use H in simp)
  ultimately have "unat (next_pos (head ioq)) = unat (tail ioq)" using H by (simp add: mod_add_left_eq mod_Suc_eq)
  then have "ioq_full ioq" by (simp add: ioq_full_def word_unat_eq_iff)
  moreover have "sem_value (has_space ioq) = 1" using H assms(2) by simp
  moreover obtain l' where "lock_acquire (ioq_lock ioq) s = Some (l', s)" using lock_cycle [of "ioq_lock ioq" s] H by blast
  ultimately show ?thesis by (simp add: ioq_putchar_def sema_down_pos ioq_full_def)
qed

theorem ioqueue_64th_putchar_panics_witness:
  "ioq_putchar (demo_ioq\<lparr>has_data := sema_init 63, has_space := sema_init 1, head := 63\<rparr>) 0x61 demo_kernel = None"
proof -
  have "ioq_holds (demo_ioq\<lparr>has_data := sema_init 63, has_space := sema_init 1, head := 63\<rparr>) (replicate 63 0x41)"
    by (simp add: ioq_holds_def demo_ioq_def ioqueue_init_def sema_init_def lock_init_def lock_free_def bufsize_def)
  from ioqueue_64th_putchar_panics [OF this, of "0x61" demo_kernel] show ?thesis by simp
qed

end
