(* ===== verification/Keyboard.thy ===== *)
theory Keyboard
  imports Ioqueue
begin

text \<open>
  \<^verbatim>\<open>device/keyboard.c\<close>: the keyboard interrupt, from scan codes to characters in the keyboard buffer. The
  screen is a parameter: the operations of \<^verbatim>\<open>lib/kernel/print.asm\<close> the handler calls, on a screen state of any
  type. The scan code read from the port is an argument.
\<close>

record 'c screen_ops =
  get_cursor :: "'c \<Rightarrow> u32"
  set_cursor :: "u32 \<Rightarrow> 'c \<Rightarrow> 'c"
  put_char :: "u8 \<Rightarrow> 'c \<Rightarrow> 'c"

record 'c keyboard =
  ctrl_status :: bool
  shift_status :: bool
  alt_status :: bool
  caps_lock_status :: bool
  ext_scancode :: bool
  full_scancode :: u16
  kbd_buf :: ioqueue
  screen :: 'c

definition keymap :: "(u8 \<times> u8) list" where
  "keymap =
     [(0x00, 0x00), (0x1b, 0x1b), (0x31, 0x21), (0x32, 0x40), (0x33, 0x23), (0x34, 0x24), (0x35, 0x25),
      (0x36, 0x5e), (0x37, 0x26), (0x38, 0x2a), (0x39, 0x28), (0x30, 0x29), (0x2d, 0x5f), (0x3d, 0x2b),
      (0x08, 0x08), (0x09, 0x09), (0x71, 0x51), (0x77, 0x57), (0x65, 0x45), (0x72, 0x52), (0x74, 0x54),
      (0x79, 0x59), (0x75, 0x55), (0x69, 0x49), (0x6f, 0x4f), (0x70, 0x50), (0x5b, 0x7b), (0x5d, 0x7d),
      (0x0a, 0x0a), (0x00, 0x00), (0x61, 0x41), (0x73, 0x53), (0x64, 0x44), (0x66, 0x46), (0x67, 0x47),
      (0x68, 0x48), (0x6a, 0x4a), (0x6b, 0x4b), (0x6c, 0x4c), (0x3b, 0x3a), (0x27, 0x22), (0x60, 0x7e),
      (0x00, 0x00), (0x5c, 0x7c), (0x7a, 0x5a), (0x78, 0x58), (0x63, 0x43), (0x76, 0x56), (0x62, 0x42),
      (0x6e, 0x4e), (0x6d, 0x4d), (0x2c, 0x3c), (0x2e, 0x3e), (0x2f, 0x3f), (0x00, 0x00), (0x2a, 0x2a),
      (0x00, 0x00), (0x20, 0x20), (0x00, 0x00)]"

definition is_break_code :: "u8 \<Rightarrow> bool" where
  "is_break_code scancode \<longleftrightarrow> scancode AND 0x80 \<noteq> 0"

text \<open>The keys that move the cursor; \<open>None\<close> when the code is not one of them.\<close>

definition cursor_key :: "'c screen_ops \<Rightarrow> u16 \<Rightarrow> 'c \<Rightarrow> 'c option" where
  "cursor_key ops code scr =
     (let cursor_pos = get_cursor ops scr; row = cursor_pos div 80 in
      if code = 0xe048 then Some (if 80 \<le> cursor_pos then set_cursor ops (cursor_pos - 80) scr else scr)
      else if code = 0xe050 then Some (if cursor_pos < 80 * 24 then set_cursor ops (cursor_pos + 80) scr else scr)
      else if code = 0xe04b then Some (if 0 < cursor_pos then set_cursor ops (cursor_pos - 1) scr else scr)
      else if code = 0xe04d then Some (if cursor_pos < 80 * 25 - 1 then set_cursor ops (cursor_pos + 1) scr else scr)
      else if code = 0xe047 then Some (set_cursor ops (row * 80) scr)
      else if code = 0xe04f then Some (set_cursor ops (row * 80 + 79) scr)
      else if code = 0xe049
      then Some (if 80 * 5 \<le> cursor_pos then set_cursor ops (cursor_pos - 80 * 5) scr else set_cursor ops 0 scr)
      else if code = 0xe051 then Some (if cursor_pos < 80 * 20 then set_cursor ops (cursor_pos + 80 * 5) scr else scr)
      else if code = 0xe053 then Some (set_cursor ops cursor_pos (put_char ops 0x20 scr))
      else if code = 0xe052 then Some scr
      else None)"

definition is_letter :: "u16 \<Rightarrow> bool" where
  "is_letter code \<longleftrightarrow> 0x10 \<le> code \<and> code \<le> 0x19 \<or> 0x1e \<le> code \<and> code \<le> 0x26 \<or> 0x2c \<le> code \<and> code \<le> 0x32"

definition key_char :: "bool \<Rightarrow> bool \<Rightarrow> u16 \<Rightarrow> u8 option" where
  "key_char shift caps code = do {
     let shift = (if is_letter code \<and> caps then \<not> shift else shift);
     (lo, up) \<leftarrow> arr_get keymap (unat code);
     Some (if shift then up else lo)
   }"

text \<open>The last part of the handler: an ordinary character.\<close>

definition char_key :: "'c screen_ops \<Rightarrow> u16 \<Rightarrow> 'c keyboard \<Rightarrow> 'a kernel_scheme \<Rightarrow> ('c keyboard \<times> 'a kernel_scheme) option" where
  "char_key ops code k s =
     (if code < 0x3b
      then do {
        ch \<leftarrow> key_char (shift_status k) (caps_lock_status k) code;
        if ch \<noteq> 0 \<and> \<not> ioq_full (kbd_buf k)
        then do {
          let k = k\<lparr>screen := put_char ops ch (screen k)\<rparr>;
          (q, s) \<leftarrow> ioq_putchar (kbd_buf k) ch s;
          Some (k\<lparr>kbd_buf := q\<rparr>, s)
        }
        else Some (k, s)
      }
      else Some (k, s))"

text \<open>The handler once the full scan code is known.\<close>

definition key_event :: "'c screen_ops \<Rightarrow> u16 \<Rightarrow> 'c keyboard \<Rightarrow> 'a kernel_scheme \<Rightarrow> ('c keyboard \<times> 'a kernel_scheme) option" where
  "key_event ops code k s =
     (let is_break = is_break_code (ucast code) in
      if code = 0x2a \<or> code = 0x36 then Some (k\<lparr>shift_status := True\<rparr>, s)
      else if code = 0x2a OR 0x80 \<or> code = 0x36 OR 0x80 then Some (k\<lparr>shift_status := False\<rparr>, s)
      else if code = 0x1d \<or> code = 0xe01d then Some (k\<lparr>ctrl_status := True\<rparr>, s)
      else if code = 0x1d OR 0x80 \<or> code = 0xe09d then Some (k\<lparr>ctrl_status := False\<rparr>, s)
      else if code = 0x38 \<or> code = 0xe038 then Some (k\<lparr>alt_status := True\<rparr>, s)
      else if code = 0x38 OR 0x80 \<or> code = 0xe0b8 then Some (k\<lparr>alt_status := False\<rparr>, s)
      else if code = 0x3a then Some (k\<lparr>caps_lock_status := \<not> caps_lock_status k\<rparr>, s)
      else if is_break then Some (k, s)
      else (case cursor_key ops code (screen k) of
          Some scr \<Rightarrow> Some (k\<lparr>screen := scr\<rparr>, s)
        | None \<Rightarrow> char_key ops code k s))"

definition intr_keyboard_handler ::
  "'c screen_ops \<Rightarrow> u8 \<Rightarrow> 'c keyboard \<Rightarrow> 'a kernel_scheme \<Rightarrow> ('c keyboard \<times> 'a kernel_scheme) option" where
  "intr_keyboard_handler ops scancode k s =
     (if scancode = 0xe0 then Some (k\<lparr>ext_scancode := True\<rparr>, s)
      else let
        k = (if ext_scancode k then k\<lparr>full_scancode := 0xe000 OR ucast scancode, ext_scancode := False\<rparr>
             else k\<lparr>full_scancode := ucast scancode\<rparr>)
      in key_event ops (full_scancode k) k s)"

definition keyboard_init :: "intr_handler list \<Rightarrow> intr_handler \<Rightarrow> 'c keyboard \<Rightarrow> (intr_handler list \<times> 'c keyboard) option" where
  "keyboard_init idt_table handler k = do {
     let k = k\<lparr>kbd_buf := ioqueue_init (kbd_buf k)\<rparr>;
     t \<leftarrow> register_handler 0x21 handler idt_table;
     Some (t, k)
   }"

subsection \<open>What a key types\<close>

text \<open>The character a scan code should put into the buffer: only the make codes below 0x3b, no extended
  code, no modifier, the second column with shift, and for letters the reverse when caps lock is on.\<close>

definition typed :: "'c keyboard \<Rightarrow> u8 \<Rightarrow> u8 option" where
  "typed k c = (if ext_scancode k \<or> 0x3b \<le> c \<or> c \<in> {0x2a, 0x36, 0x1d, 0x38, 0x3a} then None
     else let (lo, up) = keymap ! unat c;
              ch = (if shift_status k \<noteq> (is_letter (ucast c) \<and> caps_lock_status k) then up else lo)
          in if ch = 0 then None else Some ch)"

lemma ioq_full_holds: "ioq_holds ioq q \<Longrightarrow> ioq_full ioq \<longleftrightarrow> length q = 63"
proof -
  assume h: "ioq_holds ioq q"
  note H = h [unfolded ioq_holds_def bufsize_def]
  have "unat (next_pos (head ioq)) = (unat (head ioq) + 1) mod 64" by (rule unat_next_pos) (use H in simp)
  then have "unat (next_pos (head ioq)) = (unat (tail ioq) + Suc (length q)) mod 64" using H by (simp add: mod_Suc_eq)
  then have f: "ioq_full ioq \<longleftrightarrow> (unat (tail ioq) + Suc (length q)) mod 64 = unat (tail ioq)"
    by (simp add: ioq_full_def word_unat_eq_iff)
  have t: "unat (tail ioq) < 64" "length q < 64" using H by simp_all
  show ?thesis
  proof (cases "length q = 63")
    case False
    with ring_ne [of 0 "Suc (length q)" "unat (tail ioq)"] t show ?thesis unfolding f by simp
  qed (use f t in simp)
qed

lemma char_key_types:
  assumes h: "ioq_holds (kbd_buf k) q" and c: "code < 0x3b" "key_char (shift_status k) (caps_lock_status k) code = Some ch"
  shows "\<exists>k'. char_key ops code k s = Some (k', s) \<and>
    ioq_holds (kbd_buf k') (if ch \<noteq> 0 \<and> length q < 63 then q @ [ch] else q)"
proof (cases "ch \<noteq> 0 \<and> length q < 63")
  case True
  then have nf: "\<not> ioq_full (kbd_buf k)" using ioq_full_holds [OF h] by simp
  from ioq_put_holds [OF h, of ch s] True obtain q' where
    "ioq_putchar (kbd_buf k) ch s = Some (q', s)" "ioq_holds q' (q @ [ch])" by (auto simp: bufsize_def)
  with True nf c show ?thesis by (auto simp: char_key_def)
next
  case False
  have "length q \<le> 63" using h by (simp add: ioq_holds_def bufsize_def)
  then have "ch = 0 \<or> ioq_full (kbd_buf k)" using False ioq_full_holds [OF h] by auto
  with False h c show ?thesis by (auto simp: char_key_def)
qed

lemma length_keymap [simp]: "length keymap = 59"
  by (simp add: keymap_def)

text \<open>Extended codes are above every ordinary code, ordinary codes below every extended one.\<close>

lemma ext_code: "\<not> (0xe000 OR ucast c :: u16) < 0x3b" for c :: u8
proof -
  have "(0xe000 :: u16) \<le> 0xe000 OR ucast c" by (rule le_word_or2)
  moreover have "(0x3b :: u16) \<le> 0xe000" by simp
  ultimately show ?thesis by (meson leD order_trans)
qed

lemma unat_key [simp]: "unat (ucast c :: u16) = unat c" for c :: u8
  using unsigned_less [of c, where ?'a = nat] by (simp add: unsigned_ucast_eq take_bit_eq_mod)

lemma plain_code:
  fixes c :: u8
  shows "cursor_key ops (ucast c) scr = None" "(ucast c :: u16) \<noteq> 0xe01d" "(ucast c :: u16) \<noteq> 0xe09d" "(ucast c :: u16) \<noteq> 0xe038"
    "(ucast c :: u16) \<noteq> 0xe0b8" "(ucast c :: u16) < 0x3b \<longleftrightarrow> c < 0x3b"
proof -
  have ne: "(ucast c :: u16) \<noteq> w" if "256 \<le> unat w" for w
    using unsigned_less [of c, where ?'a = nat] that by (auto simp flip: unat_key)
  show "cursor_key ops (ucast c) scr = None" by (simp add: cursor_key_def ne)
  show "(ucast c :: u16) \<noteq> 0xe01d" "(ucast c :: u16) \<noteq> 0xe09d" "(ucast c :: u16) \<noteq> 0xe038" "(ucast c :: u16) \<noteq> 0xe0b8"
    by (simp_all add: ne)
  show "(ucast c :: u16) < 0x3b \<longleftrightarrow> c < 0x3b" by (simp add: word_less_nat_alt)
qed

lemma key_event_other:
  assumes "\<not> code < 0x3b \<or> code \<in> {0x2a, 0x36, 0x1d, 0x38, 0x3a}"
  shows "\<exists>k'. key_event ops code k s = Some (k', s) \<and> kbd_buf k' = kbd_buf k"
  using assms unfolding key_event_def Let_def char_key_def
  by (cases "cursor_key ops code (screen k)") (elim disjE insertE emptyE; simp)+

lemma key_event_plain:
  assumes "code < 0x3b" and "code \<notin> {0x2a, 0x36, 0x1d, 0x38, 0x3a}"
  shows "key_event ops code k s = char_key ops code k s"
proof -
  have c: "unat code < 59" using assms(1) by (simp add: word_less_nat_alt)
  then have ne: "code \<noteq> w" if "59 \<le> unat w" for w using that by auto
  have "take_bit 7 code = code" using c by (simp add: word_unat_eq_iff unsigned_take_bit_eq take_bit_nat_eq_self)
  then have "\<not> bit code 7" by (metis bit_take_bit_iff less_irrefl)
  then have "\<not> is_break_code (ucast code)" using and_exp_eq_0_iff_not_bit [of "ucast code :: u8" 7]
    by (simp add: is_break_code_def bit_ucast_iff)
  moreover have "cursor_key ops code scr = None" for scr by (simp add: cursor_key_def ne)
  ultimately show ?thesis using assms(2) by (simp add: key_event_def ne)
qed


definition demo_screen :: "u32 screen_ops" where
  "demo_screen = \<lparr>get_cursor = (\<lambda>c. c), set_cursor = (\<lambda>c _. c), put_char = (\<lambda>_ c. c + 1)\<rparr>"

definition demo_keyboard :: "u32 keyboard" where
  "demo_keyboard = \<lparr>ctrl_status = False, shift_status = True, alt_status = False, caps_lock_status = False,
     ext_scancode = False, full_scancode = 0, kbd_buf = demo_ioq, screen = 0\<rparr>"


end
