(* ===== verification/Allocator.thy ===== *)
theory Allocator
  imports Bitmap
begin

text \<open>
  The contract the clients of a bitmap rely on when they hand out one item per bit (physical pages,
  inodes, disk blocks): \<open>alloc\<close> gives an available item and makes it unavailable, or reports that
  there is none; \<open>release\<close> makes it available again. The bitmap part is \<open>bitmap_take\<close>, the scan for one bit
  followed by setting it.
\<close>

locale allocator =
  fixes inv :: "'s \<Rightarrow> bool" and avail :: "'s \<Rightarrow> 'x set"
    and alloc :: "'s \<Rightarrow> ('x option \<times> 's) option" and release :: "'x \<Rightarrow> 's \<Rightarrow> 's option"
    and managed :: "'s \<Rightarrow> 'x set"
  assumes avail_finite: "inv s \<Longrightarrow> finite (avail s)" and avail_managed: "inv s \<Longrightarrow> avail s \<subseteq> managed s"
    and alloc_none: "inv s \<Longrightarrow> avail s = {} \<Longrightarrow> alloc s = Some (None, s)"
    and alloc_some: "inv s \<Longrightarrow> avail s \<noteq> {} \<Longrightarrow> \<exists>x s'. alloc s = Some (Some x, s') \<and> x \<in> avail s \<and>
      avail s' = avail s - {x} \<and> managed s' = managed s \<and> inv s'"
    and release_avail: "inv s \<Longrightarrow> x \<in> managed s \<Longrightarrow>
      \<exists>s'. release x s = Some s' \<and> avail s' = insert x (avail s) \<and> managed s' = managed s \<and> inv s'"
begin

primrec alloc_many :: "nat \<Rightarrow> 's \<Rightarrow> ('x list \<times> 's) option" where
  "alloc_many 0 s = Some ([], s)"
| "alloc_many (Suc n) s = do {
     (x, s) \<leftarrow> alloc s;
     case x of None \<Rightarrow> Some ([], s)
     | Some x \<Rightarrow> do { (xs, s) \<leftarrow> alloc_many n s; Some (x # xs, s) }
   }"

text \<open>Items handed out one after the other are different, and are as many as asked for or as there are.\<close>

lemma alloc_many_distinct:
  "inv s \<Longrightarrow> \<exists>xs s'. alloc_many n s = Some (xs, s') \<and> distinct xs \<and> set xs \<subseteq> avail s \<and>
     length xs = min n (card (avail s)) \<and> avail s' = avail s - set xs \<and> managed s' = managed s \<and> inv s'"
proof (induction n arbitrary: s)
  case (Suc n)
  show ?case
  proof (cases "avail s = {}")
    case True
    then show ?thesis using alloc_none [OF Suc.prems] Suc.prems by simp
  next
    case False
    then obtain x s1 where 1: "alloc s = Some (Some x, s1)" "x \<in> avail s" "avail s1 = avail s - {x}"
      "managed s1 = managed s" "inv s1" using alloc_some [OF Suc.prems] by blast
    obtain xs s2 where 2: "alloc_many n s1 = Some (xs, s2)" "distinct xs" "set xs \<subseteq> avail s1"
      "length xs = min n (card (avail s1))" "avail s2 = avail s1 - set xs" "managed s2 = managed s1" "inv s2"
      using Suc.IH [OF 1(5)] by blast
    have "card (avail s) = Suc (card (avail s1))"
      using card.remove [OF avail_finite [OF Suc.prems] 1(2)] 1(3) by simp
    moreover have "alloc_many (Suc n) s = Some (x # xs, s2)" using 1(1) 2(1) by simp
    ultimately show ?thesis using 1(2-4) 2(2-7) by (intro exI [of _ "x # xs"] exI [of _ s2]) auto
  qed
qed simp

text \<open>What is released can be had again.\<close>

lemma release_alloc:
  assumes "inv s" and "x \<in> managed s" and "avail s \<subseteq> {x}"
  shows "\<exists>s' s''. release x s = Some s' \<and> alloc s' = Some (Some x, s'') \<and> avail s'' = {}"
proof -
  obtain s' where s': "release x s = Some s'" "avail s' = insert x (avail s)" "inv s'"
    using release_avail [OF assms(1,2)] by blast
  then have "avail s' = {x}" using assms(3) by auto
  with alloc_some [OF s'(3)] s'(1) show ?thesis by auto
qed

end

subsection \<open>One bit of a bitmap\<close>

abbreviation bits_total :: "bitmap \<Rightarrow> nat" where
  "bits_total b \<equiv> 8 * length (bits b)"

lemma bitmap_total_bound: "wf_bitmap b \<Longrightarrow> bits_total b < 2 ^ 31"
  by (simp add: wf_bitmap_def)

lemma bitmap_used_bound: "i \<in> bitmap_used b \<Longrightarrow> i < bits_total b"
  by (simp add: bitmap_used_def)

lemma unat_bit_index: "wf_bitmap b \<Longrightarrow> i < bits_total b \<Longrightarrow> unat (word_of_nat i :: u32) = i"
  using bitmap_total_bound [of b] by (simp add: unat_of_nat)

text \<open>Setting one bit, addressed by the number of the bit.\<close>

lemma bitmap_put:
  assumes "wf_bitmap b" and "i < bits_total b" and "v = 0 \<or> v = 1"
  shows "\<exists>b'. bitmap_set b (word_of_nat i) v = Some b' \<and> wf_bitmap b' \<and> length (bits b') = length (bits b) \<and>
    bitmap_used b' = (if v = 0 then bitmap_used b - {i} else insert i (bitmap_used b))"
  using bitmap_set_used [OF assms(1) _ assms(3), of "word_of_nat i"] assms(2) unat_bit_index [OF assms(1,2)] by auto

text \<open>The scan for one bit, and setting it.\<close>

lemma bitmap_take:
  assumes "wf_bitmap b"
  shows "bitmap_scan b 1 = Some (- 1) \<and> bitmap_used b = {..<bits_total b} \<or>
    (\<exists>i b'. bitmap_scan b 1 = Some (int i) \<and> i < bits_total b \<and> i \<notin> bitmap_used b \<and> {..<i} \<subseteq> bitmap_used b \<and>
       bitmap_set b (word_of_nat i) 1 = Some b' \<and> wf_bitmap b' \<and> length (bits b') = length (bits b) \<and>
       bitmap_used b' = insert i (bitmap_used b))"
proof -
  have one: "all_clear (bits b) s (Suc 0) \<longleftrightarrow> clear (bits b) s" for s using all_clear_Suc [of "bits b" s 0] by simp
  have "(0 :: u32) < 1" "(1 :: u32) < 8" by simp_all
  from bitmap_scan_small [OF assms this] show ?thesis
  proof (elim disjE exE conjE)
    fix s assume s: "bitmap_scan b 1 = Some (int s)" "s + unat (1 :: u32) \<le> bits_total b"
      "all_clear (bits b) s (unat (1 :: u32))" "\<forall>s' < s. \<not> all_clear (bits b) s' (unat (1 :: u32))"
    then have "s < bits_total b" "s \<notin> bitmap_used b" "{..<s} \<subseteq> bitmap_used b" by (auto simp: one bitmap_used_def)
    with s(1) bitmap_put [OF assms, of s 1] show ?thesis by auto
  next
    assume "bitmap_scan b 1 = Some (- 1)"
      "\<forall>s. s + unat (1 :: u32) \<le> bits_total b \<longrightarrow> \<not> all_clear (bits b) s (unat (1 :: u32))"
    then show ?thesis by (auto simp: one bitmap_used_def Suc_le_eq)
  qed
qed

end
