(* ===== verification/Memory.thy ===== *)
theory Memory
  imports Sync Allocator
begin

text \<open>
  \<^verbatim>\<open>kernel/memory.c\<close>: the two physical memory pools, the kernel's and each process' pool of virtual
  addresses, the page tables reached through the self-mapping of the page directory, and the
  allocation and release of pages. The kernel state of \<open>Task\<close> is extended with the globals of the
  file; the bitmaps in low memory are the byte lists of their \<^verbatim>\<open>Bitmap\<close> records. Addresses are 32-bit
  words, 0 is \<^verbatim>\<open>NULL\<close>. \<open>None\<close> is a failed \<^verbatim>\<open>ASSERT\<close>, a \<^verbatim>\<open>PANIC\<close>, a page fault of the kernel, or a lock
  the caller would have to wait for. Messages on the screen are left out.
\<close>

datatype pool_flags = PF_KERNEL | PF_USER

record pool =
  pool_bitmap :: bitmap
  phy_addr_start :: u32
  pool_size :: u32
  pool_lock :: lock

datatype desc_ref = K_Desc nat | U_Desc nat nat

record arena =
  a_desc :: "desc_ref option"
  a_cnt :: u32

record mkernel = kernel +
  kernel_pool :: pool
  user_pool :: pool
  kernel_vaddr :: virtual_addr
  kernel_pde_cache :: "u32 list"
  thread_all_list :: "nat list"
  k_block_descs :: "mem_block_desc list"
  arenas :: "nat option \<times> u32 \<Rightarrow> arena option"

definition K_HEAP_START :: u32 where "K_HEAP_START = 0xc0100000"

definition MEM_BITMAP_BASE :: u32 where "MEM_BITMAP_BASE = 0xc009a000"

definition KERNEL_PAGE_DIR :: u32 where "KERNEL_PAGE_DIR = 0xc0100000"

definition MEM_BLOCK_DESC_CNT :: nat where "MEM_BLOCK_DESC_CNT = 7"

text \<open>The pool a flag names; \<^verbatim>\<open>mem_pool->lock\<close> through it.\<close>

definition pool_of :: "pool_flags \<Rightarrow> 'a mkernel_scheme \<Rightarrow> pool" where
  "pool_of pf s = (case pf of PF_KERNEL \<Rightarrow> kernel_pool s | PF_USER \<Rightarrow> user_pool s)"

definition upd_pool :: "pool_flags \<Rightarrow> (pool \<Rightarrow> pool) \<Rightarrow> 'a mkernel_scheme \<Rightarrow> 'a mkernel_scheme" where
  "upd_pool pf f s = (case pf of PF_KERNEL \<Rightarrow> s\<lparr>kernel_pool := f (kernel_pool s)\<rparr>
     | PF_USER \<Rightarrow> s\<lparr>user_pool := f (user_pool s)\<rparr>)"

definition mem_lock_acquire :: "pool_flags \<Rightarrow> 'a mkernel_scheme \<Rightarrow> 'a mkernel_scheme option" where
  "mem_lock_acquire pf s = do {
     (l, s) \<leftarrow> lock_acquire (pool_lock (pool_of pf s)) s;
     Some (upd_pool pf (\<lambda>p. p\<lparr>pool_lock := l\<rparr>) s)
   }"

definition mem_lock_release :: "pool_flags \<Rightarrow> 'a mkernel_scheme \<Rightarrow> 'a mkernel_scheme option" where
  "mem_lock_release pf s = do {
     (l, s) \<leftarrow> lock_release (pool_lock (pool_of pf s)) s;
     Some (upd_pool pf (\<lambda>p. p\<lparr>pool_lock := l\<rparr>) s)
   }"

subsection \<open>Virtual and physical pages\<close>

text \<open>The loops that set or clear \<open>n\<close> bits from \<open>i\<close> on.\<close>

primrec set_bits :: "nat \<Rightarrow> u32 \<Rightarrow> u8 \<Rightarrow> bitmap \<Rightarrow> bitmap option" where
  "set_bits 0 i v b = Some b"
| "set_bits (Suc n) i v b = do { b \<leftarrow> bitmap_set b i v; set_bits n (i + 1) v b }"

text \<open>The \<^verbatim>\<open>virtual_addr\<close> a flag names: \<^verbatim>\<open>kernel_vaddr\<close>, or that of the running process.\<close>

definition vaddr_pool :: "pool_flags \<Rightarrow> 'a mkernel_scheme \<Rightarrow> virtual_addr option" where
  "vaddr_pool pf s = (case pf of PF_KERNEL \<Rightarrow> Some (kernel_vaddr s)
     | PF_USER \<Rightarrow> map_option userprog_vaddr (tasks s (running s)))"

definition set_vbits :: "pool_flags \<Rightarrow> bitmap \<Rightarrow> 'a mkernel_scheme \<Rightarrow> 'a mkernel_scheme option" where
  "set_vbits pf b s = (case pf of PF_KERNEL \<Rightarrow> Some (s\<lparr>kernel_vaddr := (kernel_vaddr s)\<lparr>vaddr_bitmap := b\<rparr>\<rparr>)
     | PF_USER \<Rightarrow> upd_task (Some (running s))
         (\<lambda>t. t\<lparr>userprog_vaddr := (userprog_vaddr t)\<lparr>vaddr_bitmap := b\<rparr>\<rparr>) s)"

definition vaddr_get :: "pool_flags \<Rightarrow> u32 \<Rightarrow> 'a mkernel_scheme \<Rightarrow> (u32 \<times> 'a mkernel_scheme) option" where
  "vaddr_get pf pg_cnt s = do {
     va \<leftarrow> vaddr_pool pf s;
     bit_idx_start \<leftarrow> bitmap_scan (vaddr_bitmap va) pg_cnt;
     if bit_idx_start = -1 then Some (0, s)
     else do {
       b \<leftarrow> set_bits (unat pg_cnt) (word_of_int bit_idx_start) 1 (vaddr_bitmap va);
       s \<leftarrow> set_vbits pf b s;
       let start = vaddr_start va + word_of_int bit_idx_start * PG_SIZE;
       ASSERT (pf = PF_USER \<longrightarrow> start < 0xc0000000 - PG_SIZE);
       Some (start, s)
     }
   }"

definition palloc :: "pool_flags \<Rightarrow> 'a mkernel_scheme \<Rightarrow> (u32 \<times> 'a mkernel_scheme) option" where
  "palloc pf s = do {
     let m_pool = pool_of pf s;
     bit_idx \<leftarrow> bitmap_scan (pool_bitmap m_pool) 1;
     if bit_idx = -1 then Some (0, s)
     else do {
       b \<leftarrow> bitmap_set (pool_bitmap m_pool) (word_of_int bit_idx) 1;
       Some (phy_addr_start m_pool + word_of_int bit_idx * PG_SIZE, upd_pool pf (\<lambda>p. p\<lparr>pool_bitmap := b\<rparr>) s)
     }
   }"

text \<open>\<^verbatim>\<open>memset(vaddr, 0, 4 * n)\<close> of aligned memory, word by word.\<close>

primrec vzero :: "nat \<Rightarrow> u32 \<Rightarrow> 'a kernel_scheme \<Rightarrow> 'a kernel_scheme option" where
  "vzero 0 va s = Some s"
| "vzero (Suc n) va s = do { s \<leftarrow> vwrite va 0 s; vzero n (va + 4) s }"

text \<open>The copy of a new kernel directory entry into the directory of every process.\<close>

primrec sync_pde :: "nat list \<Rightarrow> u32 \<Rightarrow> u32 \<Rightarrow> 'a kernel_scheme \<Rightarrow> 'a kernel_scheme option" where
  "sync_pde [] pde_idx pde_val s = Some s"
| "sync_pde (p # ps) pde_idx pde_val s = do {
     t \<leftarrow> tasks s p;
     s \<leftarrow> (if pgdir t \<noteq> 0 then vwrite (pgdir t + pde_idx * 4) pde_val s else Some s);
     sync_pde ps pde_idx pde_val s
   }"

definition PG_ATTR :: u32 where "PG_ATTR = 4 OR 2 OR 1"

definition page_table_add :: "u32 \<Rightarrow> u32 \<Rightarrow> 'a mkernel_scheme \<Rightarrow> 'a mkernel_scheme option" where
  "page_table_add vaddr page_phyaddr s = do {
     let pde_p = pde_ptr vaddr;
     let pte_p = pte_ptr vaddr;
     pde \<leftarrow> vread pde_p s;
     if pde AND 1 \<noteq> 0
     then do {
       pte \<leftarrow> vread pte_p s;
       ASSERT (pte AND 1 = 0);
       vwrite pte_p (page_phyaddr OR PG_ATTR) s
     }
     else do {
       s \<leftarrow> mem_lock_acquire PF_KERNEL s;
       (pde_phyaddr, s) \<leftarrow> palloc PF_KERNEL s;
       s \<leftarrow> mem_lock_release PF_KERNEL s;
       s \<leftarrow> vwrite pde_p (pde_phyaddr OR PG_ATTR) s;
       let pde_idx = PDE_IDX vaddr;
       s \<leftarrow> (if 768 \<le> pde_idx \<and> pde_idx < 1023
             then do {
               pde_val \<leftarrow> vread pde_p s;
               cache \<leftarrow> arr_set (kernel_pde_cache s) (unat (pde_idx - 768)) pde_val;
               let s = s\<lparr>kernel_pde_cache := cache\<rparr>;
               s \<leftarrow> vwrite (KERNEL_PAGE_DIR + pde_idx * 4) pde_val s;
               sync_pde (thread_all_list s) pde_idx pde_val s
             }
             else Some s);
       s \<leftarrow> vzero 1024 (pte_p AND 0xfffff000) s;
       pte \<leftarrow> vread pte_p s;
       ASSERT (pte AND 1 = 0);
       vwrite pte_p (page_phyaddr OR PG_ATTR) s
     }
   }"

text \<open>The loop of \<^verbatim>\<open>malloc_page\<close>; \<open>False\<close> is the early return when no physical page is left.\<close>

primrec map_pages :: "nat \<Rightarrow> pool_flags \<Rightarrow> u32 \<Rightarrow> 'a mkernel_scheme \<Rightarrow> (bool \<times> 'a mkernel_scheme) option" where
  "map_pages 0 pf vaddr s = Some (True, s)"
| "map_pages (Suc n) pf vaddr s = do {
     (page_phyaddr, s) \<leftarrow> palloc pf s;
     if page_phyaddr = 0 then Some (False, s)
     else do { s \<leftarrow> page_table_add vaddr page_phyaddr s; map_pages n pf (vaddr + PG_SIZE) s }
   }"

definition malloc_page :: "pool_flags \<Rightarrow> u32 \<Rightarrow> 'a mkernel_scheme \<Rightarrow> (u32 \<times> 'a mkernel_scheme) option" where
  "malloc_page pf pg_cnt s = do {
     ASSERT (0 < pg_cnt \<and> pg_cnt < 3840);
     (vaddr_start, s) \<leftarrow> vaddr_get pf pg_cnt s;
     if vaddr_start = 0 then Some (0, s)
     else do {
       (ok, s) \<leftarrow> map_pages (unat pg_cnt) pf vaddr_start s;
       Some (if ok then vaddr_start else 0, s)
     }
   }"

definition get_pages :: "pool_flags \<Rightarrow> u32 \<Rightarrow> 'a mkernel_scheme \<Rightarrow> (u32 \<times> 'a mkernel_scheme) option" where
  "get_pages pf pg_cnt s = do {
     s \<leftarrow> mem_lock_acquire pf s;
     (vaddr, s) \<leftarrow> malloc_page pf pg_cnt s;
     s \<leftarrow> (if vaddr \<noteq> 0 then vzero (unat (pg_cnt * PG_SIZE) div 4) vaddr s else Some s);
     s \<leftarrow> mem_lock_release pf s;
     Some (vaddr, s)
   }"

definition get_kernel_pages :: "u32 \<Rightarrow> 'a mkernel_scheme \<Rightarrow> (u32 \<times> 'a mkernel_scheme) option" where
  "get_kernel_pages pg_cnt s = get_pages PF_KERNEL pg_cnt s"

definition get_user_pages :: "u32 \<Rightarrow> 'a mkernel_scheme \<Rightarrow> (u32 \<times> 'a mkernel_scheme) option" where
  "get_user_pages pg_cnt s = get_pages PF_USER pg_cnt s"

definition get_a_page :: "pool_flags \<Rightarrow> u32 \<Rightarrow> 'a mkernel_scheme \<Rightarrow> (u32 \<times> 'a mkernel_scheme) option" where
  "get_a_page pf vaddr s = do {
     s \<leftarrow> mem_lock_acquire pf s;
     cur \<leftarrow> tasks s (running s);
     ASSERT (pgdir cur \<noteq> 0 \<and> pf = PF_USER \<or> pgdir cur = 0 \<and> pf = PF_KERNEL);
     va \<leftarrow> vaddr_pool pf s;
     let bit_idx = (vaddr - vaddr_start va) div PG_SIZE;
     ASSERT (0 \<le> sint bit_idx);
     used \<leftarrow> bitmap_scan_test (vaddr_bitmap va) bit_idx;
     ASSERT (\<not> used);
     b \<leftarrow> bitmap_set (vaddr_bitmap va) bit_idx 1;
     s \<leftarrow> set_vbits pf b s;
     (page_phyaddr, s) \<leftarrow> palloc pf s;
     if page_phyaddr = 0
     then do { s \<leftarrow> mem_lock_release pf s; Some (0, s) }
     else do {
       s \<leftarrow> page_table_add vaddr page_phyaddr s;
       s \<leftarrow> mem_lock_release pf s;
       Some (vaddr, s)
     }
   }"

subsection \<open>Release\<close>

text \<open>The first step of the loop: the frame goes back to its pool.\<close>

definition pfree :: "pool_flags \<Rightarrow> u32 \<Rightarrow> 'a mkernel_scheme \<Rightarrow> 'a mkernel_scheme option" where
  "pfree pf paddr s = do {
     let mem_pool = pool_of pf s;
     ASSERT (paddr mod PG_SIZE = 0 \<and> phy_addr_start mem_pool \<le> paddr \<and>
       paddr < phy_addr_start mem_pool + pool_size mem_pool);
     let bit_idx = (paddr - phy_addr_start mem_pool) div PG_SIZE;
     b \<leftarrow> bitmap_set (pool_bitmap mem_pool) bit_idx 0;
     Some (upd_pool pf (\<lambda>p. p\<lparr>pool_bitmap := b\<rparr>) s)
   }"

primrec unmap_pages :: "nat \<Rightarrow> pool_flags \<Rightarrow> u32 \<Rightarrow> 'a mkernel_scheme \<Rightarrow> 'a mkernel_scheme option" where
  "unmap_pages 0 pf vaddr s = Some s"
| "unmap_pages (Suc n) pf vaddr s = do {
     paddr \<leftarrow> addr_v2p vaddr s;
     s \<leftarrow> pfree pf paddr s;
     s \<leftarrow> vwrite (pte_ptr vaddr) 0 s;
     unmap_pages n pf (vaddr + PG_SIZE) s
   }"

definition mfree_page :: "pool_flags \<Rightarrow> u32 \<Rightarrow> u32 \<Rightarrow> 'a mkernel_scheme \<Rightarrow> 'a mkernel_scheme option" where
  "mfree_page pf vaddr pg_cnt s = do {
     ASSERT (1 \<le> pg_cnt \<and> vaddr mod PG_SIZE = 0);
     s \<leftarrow> unmap_pages (unat pg_cnt) pf vaddr s;
     va \<leftarrow> vaddr_pool pf s;
     b \<leftarrow> set_bits (unat pg_cnt) ((vaddr - vaddr_start va) div PG_SIZE) 0 (vaddr_bitmap va);
     set_vbits pf b s
   }"

subsection \<open>Initialisation\<close>

primrec desc_loop :: "nat \<Rightarrow> u32 \<Rightarrow> mem_block_desc list" where
  "desc_loop 0 bs = []"
| "desc_loop (Suc n) bs =
     \<lparr>block_size = bs, blocks_per_arena = (PG_SIZE - 8) div bs, free_list = []\<rparr> # desc_loop n (push_bit 1 bs)"

definition block_desc_init :: "mem_block_desc list" where
  "block_desc_init = desc_loop MEM_BLOCK_DESC_CNT 16"

text \<open>A bitmap of \<open>len\<close> bytes laid over memory whose bytes are \<open>raw\<close>, cleared by \<^verbatim>\<open>bitmap_init\<close>.\<close>

definition bitmap_at :: "(u32 \<Rightarrow> u8) \<Rightarrow> u32 \<Rightarrow> u32 \<Rightarrow> bitmap option" where
  "bitmap_at raw base len =
     bitmap_init \<lparr>btmp_bytes_len = len, bits = map (\<lambda>i. raw (base + of_nat i)) [0..<unat len]\<rparr>"

definition mem_pool_init :: "(u32 \<Rightarrow> u8) \<Rightarrow> u32 \<Rightarrow> 'a mkernel_scheme \<Rightarrow> 'a mkernel_scheme option" where
  "mem_pool_init raw all_mem s = do {
     let page_table_size = PG_SIZE * 256;
     let used_mem = page_table_size + 0x100000;
     let free_mem = all_mem - used_mem;
     let all_free_pages = (ucast (free_mem div PG_SIZE) :: u16);
     let kernel_free_pages = all_free_pages div 2;
     let user_free_pages = all_free_pages - kernel_free_pages;
     let kbm_length = (ucast (kernel_free_pages div 8) :: u32);
     let ubm_length = (ucast (user_free_pages div 8) :: u32);
     let kp_start = used_mem;
     let up_start = kp_start + ucast kernel_free_pages * PG_SIZE;
     kb \<leftarrow> bitmap_at raw MEM_BITMAP_BASE kbm_length;
     ub \<leftarrow> bitmap_at raw (MEM_BITMAP_BASE + kbm_length) ubm_length;
     vb \<leftarrow> bitmap_at raw (MEM_BITMAP_BASE + kbm_length + ubm_length) kbm_length;
     vb \<leftarrow> bitmap_set vb 0 1;
     let s = s\<lparr>kernel_pool := \<lparr>pool_bitmap = kb, phy_addr_start = kp_start,
         pool_size = ucast kernel_free_pages * PG_SIZE, pool_lock = lock_init\<rparr>,
       user_pool := \<lparr>pool_bitmap = ub, phy_addr_start = up_start,
         pool_size = ucast user_free_pages * PG_SIZE, pool_lock = lock_init\<rparr>,
       kernel_vaddr := \<lparr>vaddr_bitmap = vb, vaddr_start = K_HEAP_START\<rparr>\<rparr>;
     page_table_add K_HEAP_START 0x100000 s
   }"

primrec cache_pdes :: "nat \<Rightarrow> u32 \<Rightarrow> 'a kernel_scheme \<Rightarrow> u32 list option" where
  "cache_pdes 0 i s = Some []"
| "cache_pdes (Suc n) i s = do {
     v \<leftarrow> vread (0xfffff000 + (768 + i) * 4) s;
     vs \<leftarrow> cache_pdes n (i + 1) s;
     Some (v # vs)
   }"

definition mem_init :: "(u32 \<Rightarrow> u8) \<Rightarrow> 'a mkernel_scheme \<Rightarrow> 'a mkernel_scheme option" where
  "mem_init raw s = do {
     mem_bytes_total \<leftarrow> vread 0xb08 s;
     s \<leftarrow> mem_pool_init raw mem_bytes_total s;
     let s = s\<lparr>k_block_descs := block_desc_init\<rparr>;
     cache \<leftarrow> cache_pdes 255 0 s;
     Some (s\<lparr>kernel_pde_cache := cache\<rparr>)
   }"

end
