(* ===== verification/Page_Arith.thy ===== *)
theory Page_Arith
  imports Task
begin

text \<open>
  Arithmetic of the two-level page tables: the index functions \<^verbatim>\<open>PDE_IDX\<close> and \<^verbatim>\<open>PTE_IDX\<close>, frames, and what the
  addresses \<open>pde_ptr\<close>, \<open>pte_ptr\<close> reach when the last directory entry points at the directory.
\<close>

subsection \<open>Address arithmetic\<close>

lemma mask_words:
  "(0xffc00000 :: u32) = NOT (mask 22)" "(0x003ff000 :: u32) = mask 22 AND NOT (mask 12)"
  "(0xfffff000 :: u32) = NOT (mask 12)" "(0xfff :: u32) = mask 12"
  by (simp_all add: mask_eq_exp_minus_1)

lemma unat_low: "unat (a AND 0xfff :: u32) = unat a mod 4096"
  unfolding mask_words by (simp add: take_bit_eq_mod unat_mod flip: take_bit_eq_mask)

lemma unat_frame: "unat (frame a) = unat a div 4096 * 4096"
proof -
  have "frame a = push_bit 12 (drop_bit 12 a)"
    unfolding frame_def mask_words
    by (rule bit_word_eqI) (auto simp: bit_and_iff bit_not_iff bit_mask_iff bit_push_bit_iff bit_drop_bit_eq)
  also have "\<dots> = a div 4096 * 4096" by (simp add: push_bit_eq_mult drop_bit_eq_div)
  also have "unat \<dots> = unat a div 4096 * 4096 mod 2 ^ 32" by (simp add: unat_word_ariths unat_div mod_mult_left_eq)
  also have "\<dots> = unat a div 4096 * 4096"
    using unat_less_2p32 [of a] by (intro mod_less) (meson div_times_less_eq_dividend le_less_trans)
  finally show ?thesis .
qed

lemma unat_PDE_IDX: "unat (PDE_IDX a) = unat a div 2 ^ 22"
proof -
  have "PDE_IDX a = drop_bit 22 a"
    unfolding PDE_IDX_def mask_words
    by (rule bit_word_eqI) (auto simp: bit_and_iff bit_not_iff bit_mask_iff bit_drop_bit_eq dest: bit_imp_le_length)
  then show ?thesis by (simp add: drop_bit_eq_div unat_div)
qed

lemma unat_PTE_IDX: "unat (PTE_IDX a) = unat a div 4096 mod 1024"
proof -
  have "PTE_IDX a = take_bit 10 (drop_bit 12 a)"
    unfolding PTE_IDX_def mask_words
    by (rule bit_word_eqI) (auto simp: bit_and_iff bit_not_iff bit_mask_iff bit_drop_bit_eq bit_take_bit_iff)
  then show ?thesis by (simp add: drop_bit_eq_div take_bit_eq_mod unat_div unat_mod)
qed

lemma PDE_IDX_bound [bounds]: "unat (PDE_IDX a) < 1024"
  using unat_less_2p32 [of a] by (simp add: unat_PDE_IDX)

lemma PTE_IDX_bound [bounds]: "unat (PTE_IDX a) < 1024"
  by (simp add: unat_PTE_IDX)

lemma unat_entry:
  "frame f = f \<Longrightarrow> unat i < 1024 \<Longrightarrow> unat (f + i * 4) = unat f + 4 * unat i"
proof -
  assume f: "frame f = f" and i: "unat i < 1024"
  from f have "unat f mod 4096 = 0" by (metis mod_mult_self2_is_0 unat_frame)
  then obtain k where "unat f = 4096 * k" by (auto simp: mod_eq_0_iff_dvd)
  with unat_less_2p32 [of f] i have "unat f + 4 * unat i < 2 ^ 32" by simp
  then show ?thesis by (simp add: unat_word_ariths mult.commute)
qed

lemma unat_pde_ptr: "unat (pde_ptr a) = 0xfffff000 + 4 * unat (PDE_IDX a)"
  unfolding pde_ptr_def by (subst unat_entry) (simp_all add: frame_def PDE_IDX_bound)

lemma unat_pte_ptr: "unat (pte_ptr a) = 0xffc00000 + 4096 * unat (PDE_IDX a) + 4 * unat (PTE_IDX a)"
proof -
  have "drop_bit 10 (a AND 0xffc00000) = push_bit 12 (drop_bit 22 a)"
    unfolding mask_words
    by (rule bit_word_eqI) (auto simp: bit_and_iff bit_not_iff bit_mask_iff bit_push_bit_iff bit_drop_bit_eq dest: bit_imp_le_length)
  also have "\<dots> = PDE_IDX a * 4096"
    using unat_PDE_IDX [of a] by (simp add: push_bit_eq_mult drop_bit_eq_div word_unat_eq_iff unat_div mult.commute unat_word_ariths)
  finally have "pte_ptr a = 0xffc00000 + PDE_IDX a * 4096 + PTE_IDX a * 4" by (simp add: pte_ptr_def)
  then show ?thesis using PDE_IDX_bound [of a] PTE_IDX_bound [of a] by (simp add: unat_word_ariths)
qed

lemma self_map_arith:
  fixes i j :: nat
  assumes "i < 1024" and "j < 1024"
  shows "(0xffc00000 + 4096 * i + 4 * j) div 2 ^ 22 = 1023" "(0xffc00000 + 4096 * i + 4 * j) div 4096 mod 1024 = i"
    "(0xffc00000 + 4096 * i + 4 * j) mod 4096 = 4 * j"
proof -
  have "0xffc00000 + 4096 * i + 4 * j = 4 * j + 4096 * (i + 1024 * 1023)" by simp
  then have "(0xffc00000 + 4096 * i + 4 * j) div 4096 = i + 1024 * 1023" "(0xffc00000 + 4096 * i + 4 * j) mod 4096 = 4 * j"
    using assms by (simp_all only: div_mult_self2 mod_mult_self2) simp_all
  then show "(0xffc00000 + 4096 * i + 4 * j) div 4096 mod 1024 = i" "(0xffc00000 + 4096 * i + 4 * j) mod 4096 = 4 * j"
    using assms(1) by (simp_all only: mod_mult_self2 mod_less)
  show "(0xffc00000 + 4096 * i + 4 * j) div 2 ^ 22 = 1023" by (rule div_nat_eqI) (use assms in simp_all)
qed

lemma self_map_idx [simp]:
  "PDE_IDX (pde_ptr a) = 1023" "PTE_IDX (pde_ptr a) = 1023" "pde_ptr a AND 0xfff = PDE_IDX a * 4"
  "PDE_IDX (pte_ptr a) = 1023" "PTE_IDX (pte_ptr a) = PDE_IDX a" "pte_ptr a AND 0xfff = PTE_IDX a * 4"
proof -
  note b = PDE_IDX_bound [of a] PTE_IDX_bound [of a]
  have e: "unat (pde_ptr a) = 0xffc00000 + 4096 * 1023 + 4 * unat (PDE_IDX a)" by (simp add: unat_pde_ptr)
  have "unat (PDE_IDX (pde_ptr a)) = 1023" unfolding unat_PDE_IDX [of "pde_ptr a"] e
    by (rule self_map_arith(1)) (use b in simp_all)
  then show "PDE_IDX (pde_ptr a) = 1023" by (simp add: word_unat_eq_iff)
  have "unat (PTE_IDX (pde_ptr a)) = 1023" unfolding unat_PTE_IDX [of "pde_ptr a"] e
    by (rule self_map_arith(2)) (use b in simp_all)
  then show "PTE_IDX (pde_ptr a) = 1023" by (simp add: word_unat_eq_iff)
  have "unat (pde_ptr a AND 0xfff) = 4 * unat (PDE_IDX a)" unfolding unat_low e
    by (rule self_map_arith(3)) (use b in simp_all)
  then show "pde_ptr a AND 0xfff = PDE_IDX a * 4" using b by (simp add: word_unat_eq_iff unat_word_ariths)
  have "unat (PDE_IDX (pte_ptr a)) = 1023" unfolding unat_PDE_IDX [of "pte_ptr a"] unat_pte_ptr
    by (rule self_map_arith(1)) (use b in simp_all)
  then show "PDE_IDX (pte_ptr a) = 1023" by (simp add: word_unat_eq_iff)
  have "unat (PTE_IDX (pte_ptr a)) = unat (PDE_IDX a)" unfolding unat_PTE_IDX [of "pte_ptr a"] unat_pte_ptr
    by (rule self_map_arith(2)) (use b in simp_all)
  then show "PTE_IDX (pte_ptr a) = PDE_IDX a" by (simp add: word_unat_eq_iff)
  have "unat (pte_ptr a AND 0xfff) = 4 * unat (PTE_IDX a)" unfolding unat_low unat_pte_ptr
    by (rule self_map_arith(3)) (use b in simp_all)
  then show "pte_ptr a AND 0xfff = PTE_IDX a * 4" using b by (simp add: word_unat_eq_iff unat_word_ariths)
qed

subsection \<open>Entries\<close>

lemma unat_mod_frame: "frame f = f \<longleftrightarrow> unat f mod 4096 = 0"
  by (auto simp: word_unat_eq_iff unat_frame) (metis mod_mult_self2_is_0)+

lemma frame_idem [simp]: "frame (frame a) = frame a"
  by (simp add: frame_def and.assoc)

lemma present_0 [simp]: "\<not> present 0"
  by (simp add: present_def)

text \<open>Words of different frames, or different words of a frame, are different.\<close>

lemma entry_inj:
  assumes "frame f = f" "frame g = g" "unat i < 1024" "unat j < 1024"
  shows "f + i * 4 = g + j * 4 \<longleftrightarrow> f = g \<and> i = j"
proof -
  obtain k l where k: "unat f = 4096 * k" "unat g = 4096 * l"
    using assms(1,2) by (metis unat_frame mult.commute)
  have "f + i * 4 = g + j * 4 \<longleftrightarrow> 4096 * k + 4 * unat i = 4096 * l + 4 * unat j"
    using assms k by (simp add: word_unat_eq_iff unat_entry)
  also have "\<dots> \<longleftrightarrow> k = l \<and> unat i = unat j"
  proof
    assume e: "4096 * k + 4 * unat i = 4096 * l + 4 * unat j"
    have "(4096 * k + 4 * unat i) div 4096 = k" "(4096 * l + 4 * unat j) div 4096 = l" using assms(3,4) by simp_all
    with e show "k = l \<and> unat i = unat j" by simp
  qed simp
  also have "\<dots> \<longleftrightarrow> f = g \<and> i = j" using k by (simp add: word_unat_eq_iff)
  finally show ?thesis .
qed

lemma entry_inj_frame [simp]: 
  "pde_phys d a = pde_phys e b \<longleftrightarrow> frame d = frame e \<and> PDE_IDX a = PDE_IDX b"
  by (simp add: pde_phys_def entry_inj PDE_IDX_bound)

subsection \<open>The self-mapping\<close>

definition self_mapped :: "(u32 \<Rightarrow> u32) \<Rightarrow> u32 \<Rightarrow> bool" where
  "self_mapped mem d \<longleftrightarrow> frame d = d \<and> present (mem (d + 1023 * 4)) \<and> frame (mem (d + 1023 * 4)) = d"

lemma walk_pde_ptr: "self_mapped mem d \<Longrightarrow> walk mem d (pde_ptr a) = Some (pde_phys d a)"
  by (simp add: walk_def self_mapped_def pde_phys_def pte_phys_def)

lemma walk_pte_ptr:
  "self_mapped mem d \<Longrightarrow> walk mem d (pte_ptr a) =
     (if present (mem (pde_phys d a)) then Some (pte_phys mem d a) else None)"
  by (simp add: walk_def self_mapped_def pde_phys_def pte_phys_def)

lemma addr_v2p_walk:
  assumes "self_mapped (pm s) (cr3 s)" and "walk (pm s) (cr3 s) a = Some p"
  shows "addr_v2p a s = Some p"
  using assms by (simp add: addr_v2p_def vread_def walk_pte_ptr) (auto simp: walk_def frame_def split: if_splits)

end
