(* ===== verification/Page_Pool.thy ===== *)
theory Page_Pool
  imports Memory Page_Arith
begin

text \<open>
  The pools of \<^verbatim>\<open>kernel/memory.c\<close> as providers: the locks of the pools while nobody else wants them, and
  \<open>palloc\<close> with its counterpart in \<open>mfree_page\<close> as an \<open>allocator\<close> of physical frames.
\<close>

subsection \<open>The pool locks\<close>

text \<open>The lock a thread holds \<open>n\<close> times and nobody waits for; held 0 times it is free.\<close>

definition lock_at :: "nat \<Rightarrow> u32 \<Rightarrow> lock" where
  "lock_at me n = (if n = 0 then lock_init
     else \<lparr>holder = Some me, lsema = \<lparr>sem_value = 0, waiters = []\<rparr>, holder_repeat_nr = n\<rparr>)"

lemma lock_at_free: "lock_free (lock_at me 0)"
  by (simp add: lock_at_def lock_free_def lock_init_def sema_init_def)

lemma lock_at_held: "n \<noteq> 0 \<Longrightarrow> lock_held me n l \<longleftrightarrow> l = lock_at me n"
  by (cases l; cases "lsema l") (auto simp: lock_at_def lock_held_def word_gt_0)

lemma lock_free_at: "lock_free l \<Longrightarrow> l = lock_at me 0"
  by (cases l; cases "lsema l") (auto simp: lock_at_def lock_free_def lock_init_def sema_init_def)

lemma lock_acquire_at [simp]:
  assumes "n + 1 \<noteq> 0" and [simp]: "me = running s"
  shows "lock_acquire (lock_at me n) s = Some (lock_at me (n + 1), s)"
proof (cases "n = 0")
  case True
  then show ?thesis using lock_acquire_free [OF lock_at_free, of "running s" s] by (auto simp: lock_at_held)
next
  case False
  have "n \<noteq> - 1" using assms by auto
  with lock_acquire_held [of s n "lock_at (running s) n"] False assms(1) show ?thesis by (auto simp: lock_at_held)
qed

lemma lock_release_at [simp]:
  assumes "n + 1 \<noteq> 0" and [simp]: "me = running s"
  shows "lock_release (lock_at me (n + 1)) s = Some (lock_at me n, s)"
proof -
  have "lock_held (running s) (n + 1) (lock_at (running s) (n + 1))" using assms(1) by (simp add: lock_at_held)
  from lock_release_held [OF this] show ?thesis using lock_free_at
    by (cases "n = 0") (auto simp: lock_at_held)
qed

subsection \<open>Frames\<close>

lemma pool_of_upd [simp]: "pool_of pf (upd_pool pf f s) = f (pool_of pf s)"
  by (cases pf) (simp_all add: pool_of_def upd_pool_def)

lemma pool_of_other [simp]: "pf \<noteq> pf' \<Longrightarrow> pool_of pf (upd_pool pf' f s) = pool_of pf s"
  by (cases pf; cases pf') (simp_all add: pool_of_def upd_pool_def)

lemma upd_pool_upd [simp]: "upd_pool pf f (upd_pool pf g s) = upd_pool pf (f \<circ> g) s"
  by (cases pf) (simp_all add: upd_pool_def)

lemma upd_pool_id: "f (pool_of pf s) = pool_of pf s \<Longrightarrow> upd_pool pf f s = s"
  by (cases pf) (simp_all add: pool_of_def upd_pool_def)

lemma upd_pool_fields [simp]:
  "running (upd_pool pf f s) = running s" "tasks (upd_pool pf f s) = tasks s" "pm (upd_pool pf f s) = pm s"
  "cr3 (upd_pool pf f s) = cr3 s" "kernel_vaddr (upd_pool pf f s) = kernel_vaddr s" "arenas (upd_pool pf f s) = arenas s"
  "k_block_descs (upd_pool pf f s) = k_block_descs s" "thread_all_list (upd_pool pf f s) = thread_all_list s"
  "kernel_pde_cache (upd_pool pf f s) = kernel_pde_cache s"
  by (cases pf; simp add: upd_pool_def)+

definition frame_no :: "pool \<Rightarrow> nat \<Rightarrow> u32" where
  "frame_no p i = phy_addr_start p + word_of_nat i * PG_SIZE"

definition wf_pool :: "pool \<Rightarrow> bool" where
  "wf_pool p \<longleftrightarrow> wf_bitmap (pool_bitmap p) \<and> frame (phy_addr_start p) = phy_addr_start p \<and> 0 < unat (phy_addr_start p) \<and>
     bits_total (pool_bitmap p) * 4096 \<le> unat (pool_size p) \<and> unat (phy_addr_start p) + unat (pool_size p) < 2 ^ 32"

definition frames :: "pool \<Rightarrow> u32 set" where
  "frames p = frame_no p ` {..<bits_total (pool_bitmap p)}"

definition free_frames :: "pool \<Rightarrow> u32 set" where
  "free_frames p = frame_no p ` ({..<bits_total (pool_bitmap p)} - bitmap_used (pool_bitmap p))"

lemma unat_PG_SIZE [simp]: "unat PG_SIZE = 4096"
  by (simp add: PG_SIZE_def)

lemma unat_frame_no:
  assumes "wf_pool p" and "i < bits_total (pool_bitmap p)"
  shows "unat (frame_no p i) = unat (phy_addr_start p) + 4096 * i"
proof -
  have "unat (phy_addr_start p) + 4096 * i < 2 ^ 32" "i < 2 ^ 32"
    using assms by (auto simp: wf_pool_def)
  then show ?thesis by (simp add: frame_no_def unat_word_ariths unat_of_nat mult.commute mod_mult_right_eq)
qed

lemma frame_no_inj: "wf_pool p \<Longrightarrow> inj_on (frame_no p) {..<bits_total (pool_bitmap p)}"
  by (rule inj_onI) (metis unat_frame_no add_left_cancel lessThan_iff mult_left_cancel zero_neq_numeral)

lemma frame_frames:
  assumes "wf_pool p" and "f \<in> frames p"
  shows "frame f = f" "f \<noteq> 0"
proof -
  obtain i where i: "i < bits_total (pool_bitmap p)" "f = frame_no p i" using assms(2) by (auto simp: frames_def)
  have "unat f = unat (phy_addr_start p) + 4096 * i" using unat_frame_no [OF assms(1) i(1)] i(2) by simp
  moreover have "unat (phy_addr_start p) mod 4096 = 0" "0 < unat (phy_addr_start p)"
    using assms(1) by (auto simp: wf_pool_def unat_mod_frame)
  ultimately show "frame f = f" "f \<noteq> 0" by (auto simp: unat_mod_frame)
qed

lemma free_frames_sub: "free_frames p \<subseteq> frames p"
  by (auto simp: free_frames_def frames_def)

lemma palloc_cases:
  assumes w: "wf_pool (pool_of pf s)"
  shows "palloc pf s = Some (0, s) \<and> free_frames (pool_of pf s) = {} \<or>
    (\<exists>f b. palloc pf s = Some (f, upd_pool pf (\<lambda>p. p\<lparr>pool_bitmap := b\<rparr>) s) \<and> f \<in> free_frames (pool_of pf s) \<and>
       wf_pool (pool_of pf s\<lparr>pool_bitmap := b\<rparr>) \<and> length (bits b) = length (bits (pool_bitmap (pool_of pf s))) \<and>
       free_frames (pool_of pf s\<lparr>pool_bitmap := b\<rparr>) = free_frames (pool_of pf s) - {f})"
proof -
  let ?p = "pool_of pf s" and ?b = "pool_bitmap (pool_of pf s)"
  have wb: "wf_bitmap ?b" using w by (simp add: wf_pool_def)
  from bitmap_take [OF wb] show ?thesis
  proof (elim disjE exE conjE)
    fix i b assume i: "bitmap_scan ?b 1 = Some (int i)" "i < bits_total ?b" "i \<notin> bitmap_used ?b"
      "bitmap_set ?b (word_of_nat i) 1 = Some b" "wf_bitmap b" "length (bits b) = length (bits ?b)"
      "bitmap_used b = insert i (bitmap_used ?b)"
    have "palloc pf s = Some (frame_no ?p i, upd_pool pf (\<lambda>p. p\<lparr>pool_bitmap := b\<rparr>) s)"
      using i(1,4) by (simp add: palloc_def frame_no_def Let_def)
    moreover have "free_frames (?p\<lparr>pool_bitmap := b\<rparr>) = free_frames ?p - {frame_no ?p i}"
    proof -
      have "free_frames (?p\<lparr>pool_bitmap := b\<rparr>) = frame_no ?p ` ({..<bits_total ?b} - bitmap_used ?b - {i})"
        unfolding Diff_insert [symmetric] using i(6,7) by (simp add: free_frames_def frame_no_def)
      also have "\<dots> = free_frames ?p - {frame_no ?p i}"
        unfolding free_frames_def
        by (subst inj_on_image_set_diff [OF frame_no_inj [OF w]]) (use i(2) in auto)
      finally show ?thesis .
    qed
    moreover have "frame_no ?p i \<in> free_frames ?p" using i(2,3) by (auto simp: free_frames_def)
    moreover have "wf_pool (?p\<lparr>pool_bitmap := b\<rparr>)" using w i(5,6) by (simp add: wf_pool_def)
    ultimately show ?thesis using i(6) by blast
  qed (auto simp: palloc_def free_frames_def Let_def)
qed

lemma pfree_frames:
  assumes w: "wf_pool (pool_of pf s)" and f: "f \<in> frames (pool_of pf s)"
  shows "\<exists>b. pfree pf f s = Some (upd_pool pf (\<lambda>p. p\<lparr>pool_bitmap := b\<rparr>) s) \<and>
    wf_pool (pool_of pf s\<lparr>pool_bitmap := b\<rparr>) \<and> length (bits b) = length (bits (pool_bitmap (pool_of pf s))) \<and>
    free_frames (pool_of pf s\<lparr>pool_bitmap := b\<rparr>) = insert f (free_frames (pool_of pf s))"
proof -
  let ?p = "pool_of pf s" and ?b = "pool_bitmap (pool_of pf s)"
  obtain i where i: "i < bits_total ?b" "f = frame_no ?p i" using f by (auto simp: frames_def)
  have wb: "wf_bitmap ?b" using w by (simp add: wf_pool_def)
  have uf: "unat f = unat (phy_addr_start ?p) + 4096 * i" using unat_frame_no [OF w i(1)] i(2) by simp
  have uz: "unat (phy_addr_start ?p + pool_size ?p) = unat (phy_addr_start ?p) + unat (pool_size ?p)"
    using w by (simp add: wf_pool_def unat_word_ariths)
  have "f mod PG_SIZE = 0" using frame_frames(1) [OF w f] unfolding unat_mod_frame by (simp add: word_unat_eq_iff unat_mod)
  moreover have "phy_addr_start ?p \<le> f" "f < phy_addr_start ?p + pool_size ?p"
    using uf uz i(1) w by (auto simp: word_le_nat_alt word_less_nat_alt wf_pool_def)
  moreover have "(f - phy_addr_start ?p) div PG_SIZE = word_of_nat i"
  proof -
    have "unat (f - phy_addr_start ?p) = 4096 * i" using uf by (simp add: unat_sub_if')
    then show ?thesis by (metis unat_PG_SIZE unat_div nonzero_mult_div_cancel_left of_nat_unat ucast_id zero_neq_numeral)
  qed
  moreover obtain b where b: "bitmap_set ?b (word_of_nat i) 0 = Some b" "wf_bitmap b" "length (bits b) = length (bits ?b)"
    "bitmap_used b = bitmap_used ?b - {i}" using bitmap_put [OF wb i(1), of 0] by auto
  ultimately have "pfree pf f s = Some (upd_pool pf (\<lambda>p. p\<lparr>pool_bitmap := b\<rparr>) s)" by (simp add: pfree_def)
  moreover have "wf_pool (?p\<lparr>pool_bitmap := b\<rparr>)" using w b(2,3) by (simp add: wf_pool_def)
  moreover have "free_frames (?p\<lparr>pool_bitmap := b\<rparr>) = insert f (free_frames ?p)"
    using b(3,4) i by (auto simp: free_frames_def frame_no_def)
  ultimately show ?thesis using b(3) by blast
qed

interpretation phys: allocator "\<lambda>s. wf_pool (pool_of pf s)" "\<lambda>s. free_frames (pool_of pf s)"
  "\<lambda>s. map_option (\<lambda>(a, s). (if a = 0 then None else Some a, s)) (palloc pf s)" "pfree pf" "\<lambda>s. frames (pool_of pf s)"
  for pf
proof
  fix s x assume w: "wf_pool (pool_of pf s)"
  show "finite (free_frames (pool_of pf s))" by (simp add: free_frames_def)
  show "free_frames (pool_of pf s) \<subseteq> frames (pool_of pf s)" by (rule free_frames_sub)
  show "map_option (\<lambda>(a, s). (if a = 0 then None else Some a, s)) (palloc pf s) = Some (None, s)"
    if "free_frames (pool_of pf s) = {}"
    using palloc_cases [OF w] that by auto
  show "\<exists>x s'. map_option (\<lambda>(a, s). (if a = 0 then None else Some a, s)) (palloc pf s) = Some (Some x, s') \<and>
      x \<in> free_frames (pool_of pf s) \<and> free_frames (pool_of pf s') = free_frames (pool_of pf s) - {x} \<and>
      frames (pool_of pf s') = frames (pool_of pf s) \<and> wf_pool (pool_of pf s')"
    if ne: "free_frames (pool_of pf s) \<noteq> {}"
  proof -
    obtain f b where f: "palloc pf s = Some (f, upd_pool pf (\<lambda>p. p\<lparr>pool_bitmap := b\<rparr>) s)" "f \<in> free_frames (pool_of pf s)"
      "wf_pool (pool_of pf s\<lparr>pool_bitmap := b\<rparr>)" "length (bits b) = length (bits (pool_bitmap (pool_of pf s)))"
      "free_frames (pool_of pf s\<lparr>pool_bitmap := b\<rparr>) = free_frames (pool_of pf s) - {f}"
      using palloc_cases [OF w] ne by blast
    have "f \<noteq> 0" using frame_frames(2) [OF w] f(2) free_frames_sub by blast
    then show ?thesis using f by (auto simp: frames_def frame_no_def)
  qed
  show "\<exists>s'. pfree pf x s = Some s' \<and> free_frames (pool_of pf s') = insert x (free_frames (pool_of pf s)) \<and>
      frames (pool_of pf s') = frames (pool_of pf s) \<and> wf_pool (pool_of pf s')"
    if "x \<in> frames (pool_of pf s)"
    using pfree_frames [OF w that] by (auto simp: frames_def frame_no_def)
qed

end
