(* ===== verification/Paging.thy ===== *)
theory Paging
  imports Page_Pool
begin

text \<open>
  The page-table functions of \<^verbatim>\<open>kernel/memory.c\<close> against the translation of the processor: what
  \<open>pde_ptr\<close>, \<open>pte_ptr\<close> and \<open>addr_v2p\<close> reach through the self-mapping is the directory and table entry the
  walk uses, and \<open>page_table_add\<close> makes the walk of its page, and of no other, give the new frame.
\<close>

subsection \<open>Adding a page\<close>

lemma frame_attr: "frame p = p \<Longrightarrow> frame (p OR PG_ATTR) = p"
  by (simp add: frame_def PG_ATTR_def bit.conj_disj_distrib2)

lemma present_attr [simp]: "present (p OR PG_ATTR)"
  by (simp add: present_def PG_ATTR_def and_one_eq odd_iff_mod_2_eq_one [symmetric] even_or_iff)

lemma page_table_add_present:
  assumes "self_mapped (pm s) (cr3 s)" and "present (pm s (pde_phys (cr3 s) a))"
    and "\<not> present (pm s (pte_phys (pm s) (cr3 s) a))"
  shows "page_table_add a p s = Some (s\<lparr>pm := (pm s)(pte_phys (pm s) (cr3 s) a := p OR PG_ATTR)\<rparr>)"
  using assms by (simp add: page_table_add_def vread_def vwrite_def walk_pde_ptr walk_pte_ptr present_def)

text \<open>A word inside a page.\<close>

lemma in_page:
  assumes "frame va = va" and "k < 1024"
  shows "PDE_IDX (va + word_of_nat k * 4) = PDE_IDX va" "PTE_IDX (va + word_of_nat k * 4) = PTE_IDX va"
    "(va + word_of_nat k * 4) AND 0xfff = word_of_nat k * 4"
proof -
  have k: "unat (word_of_nat k :: u32) = k" using assms(2) by (simp add: unat_of_nat)
  have u: "unat (va + word_of_nat k * 4) = unat va + 4 * k" using unat_entry [OF assms(1), of "word_of_nat k"] assms(2) k by simp
  obtain j where j: "unat va = 4096 * j" using assms(1) by (metis unat_frame mult.commute)
  have d: "(4096 * j + 4 * k) div 4096 = j" "(4096 * j + 4 * k) mod 4096 = 4 * k" using assms(2) by simp_all
  have "x div 2 ^ 22 = x div 4096 div 1024" for x :: nat by (simp flip: div_mult2_eq)
  then have "(4096 * j + 4 * k) div 2 ^ 22 = 4096 * j div 2 ^ 22" using d(1) by simp
  then show "PDE_IDX (va + word_of_nat k * 4) = PDE_IDX va" by (simp only: word_unat_eq_iff unat_PDE_IDX u j)
  show "PTE_IDX (va + word_of_nat k * 4) = PTE_IDX va" using d(1) by (simp add: word_unat_eq_iff unat_PTE_IDX u j)
  have "unat ((va + word_of_nat k * 4) AND 0xfff) = 4 * k" by (simp only: unat_low u j d(2))
  moreover have "unat (word_of_nat k * 4 :: u32) = 4 * k" using k assms(2) by (simp add: unat_word_ariths)
  ultimately show "(va + word_of_nat k * 4) AND 0xfff = word_of_nat k * 4" by (simp only: word_unat_eq_iff)
qed

definition zero_words :: "u32 \<Rightarrow> nat \<Rightarrow> nat \<Rightarrow> (u32 \<Rightarrow> u32) \<Rightarrow> u32 \<Rightarrow> u32" where
  "zero_words f k n mem x = (if \<exists>i. k \<le> i \<and> i < k + n \<and> x = f + word_of_nat i * 4 then 0 else mem x)"

lemma zero_words_Suc: "zero_words f (Suc k) n (mem(f + word_of_nat k * 4 := 0)) = zero_words f k (Suc n) mem"
proof
  fix x show "zero_words f (Suc k) n (mem(f + word_of_nat k * 4 := 0)) x = zero_words f k (Suc n) mem x"
  proof (cases "x = f + word_of_nat k * 4")
    case True
    then have "\<exists>i. k \<le> i \<and> i < k + Suc n \<and> x = f + word_of_nat i * 4" by (intro exI [of _ k]) simp
    with True show ?thesis unfolding zero_words_def by (simp del: ex_simps)
  next
    case False
    have iff: "(Suc k \<le> i \<and> i < Suc k + n \<and> x = f + word_of_nat i * 4) \<longleftrightarrow>
        (k \<le> i \<and> i < k + Suc n \<and> x = f + word_of_nat i * 4)" for i using False by (cases "i = k") auto
    show ?thesis unfolding zero_words_def iff using False by auto
  qed
qed

lemma frame_word:
  assumes "frame f = f" and "k < 1024"
  shows "frame (f + word_of_nat k * 4) = f"
proof -
  have k: "unat (word_of_nat k :: u32) = k" using assms(2) by (simp add: unat_of_nat)
  obtain j where j: "unat f = 4096 * j" using assms(1) by (metis unat_frame mult.commute)
  have "unat (f + word_of_nat k * 4) = 4096 * j + 4 * k"
    using unat_entry [OF assms(1), of "word_of_nat k"] assms(2) k j by simp
  then show ?thesis using assms(2) j by (simp add: word_unat_eq_iff unat_frame)
qed

text \<open>Clearing a mapped page whose own directory and table entries lie in other frames.\<close>

lemma vzero_page:
  assumes "frame va = va" and "k + n \<le> 1024" and "walk (pm s) (cr3 s) va = Some f"
    and "frame (pde_phys (cr3 s) va) \<noteq> f" and "frame (pte_phys (pm s) (cr3 s) va) \<noteq> f"
  shows "vzero n (va + word_of_nat k * 4) s = Some (s\<lparr>pm := zero_words f k n (pm s)\<rparr>)"
  using assms
proof (induction n arbitrary: k s)
  case 0
  have "zero_words f k 0 (pm s) = pm s" by (auto simp: zero_words_def fun_eq_iff)
  then show ?case by simp
next
  case (Suc n)
  let ?d = "cr3 s" and ?m = "pm s"
  let ?x = "f + word_of_nat k * 4"
  have k: "k < 1024" using Suc.prems(2) by simp
  have pr: "present (?m (pde_phys ?d va))" "present (?m (pte_phys ?m ?d va))" "f = frame (?m (pte_phys ?m ?d va))"
  proof -
    have "va AND 0xfff = 0" using Suc.prems(1) by (simp add: word_unat_eq_iff unat_low flip: unat_mod_frame)
    then show "present (?m (pde_phys ?d va))" "present (?m (pte_phys ?m ?d va))" "f = frame (?m (pte_phys ?m ?d va))"
      using Suc.prems(3) by (auto simp: walk_def split: if_splits)
  qed
  then have ff: "frame f = f" by simp
  have e: "pde_phys ?d (va + word_of_nat k * 4) = pde_phys ?d va" "pte_phys ?m ?d (va + word_of_nat k * 4) = pte_phys ?m ?d va"
    using in_page [OF Suc.prems(1) k] by (simp_all add: pde_phys_def pte_phys_def)
  then have w: "walk ?m ?d (va + word_of_nat k * 4) = Some ?x"
    unfolding walk_def e in_page(3) [OF Suc.prems(1) k] using pr by simp
  let ?s = "s\<lparr>pm := ?m(?x := 0)\<rparr>"
  have ne: "pde_phys ?d va \<noteq> ?x" "pte_phys ?m ?d va \<noteq> ?x"
    using Suc.prems(4,5) frame_word [OF ff k] by auto
  then have pp: "pte_phys (pm ?s) ?d va = pte_phys ?m ?d va" by (simp add: pte_phys_def)
  have "walk (pm ?s) (cr3 ?s) va = Some f" using Suc.prems(3) ne pp by (simp add: walk_def split: if_splits)
  from Suc.IH [OF Suc.prems(1) _ this, of "Suc k"] Suc.prems(2,4,5) pp
  have "vzero n (va + word_of_nat (Suc k) * 4) ?s = Some (?s\<lparr>pm := zero_words f (Suc k) n (pm ?s)\<rparr>)" by simp
  moreover have "va + word_of_nat (Suc k) * 4 = va + word_of_nat k * 4 + 4" by (simp add: algebra_simps)
  ultimately have "vzero n (va + word_of_nat k * 4 + 4) ?s = Some (?s\<lparr>pm := zero_words f (Suc k) n (pm ?s)\<rparr>)" by metis
  then show ?case using w by (simp add: vwrite_def zero_words_Suc)
qed

lemma frame_idx [simp]: "PDE_IDX (frame a) = PDE_IDX a" "PTE_IDX (frame a) = PTE_IDX a" "frame a AND 0xfff = 0"
proof -
  have "x div 2 ^ 22 = x div 4096 div 1024" for x :: nat by (simp flip: div_mult2_eq)
  then show "PDE_IDX (frame a) = PDE_IDX a" by (simp add: word_unat_eq_iff unat_PDE_IDX unat_frame)
qed (simp_all add: word_unat_eq_iff unat_PTE_IDX unat_low unat_frame)

lemma frame_pde_phys [simp]: "frame (pde_phys d a) = frame d"
  using frame_word [of "frame d" "unat (PDE_IDX a)"] by (simp add: pde_phys_def PDE_IDX_bound)

lemma frame_pte_phys [simp]: "frame (pte_phys mem d a) = frame (mem (pde_phys d a))"
  using frame_word [of "frame (mem (pde_phys d a))" "unat (PTE_IDX a)"] by (simp add: pte_phys_def PTE_IDX_bound)

lemma self_mapped_upd:
  "self_mapped mem d \<Longrightarrow> x \<noteq> d + 1023 * 4 \<Longrightarrow> self_mapped (mem(x := v)) d"
  by (simp add: self_mapped_def)

lemma zero_words_outside: "frame f = f \<Longrightarrow> frame x \<noteq> f \<Longrightarrow> k + n \<le> 1024 \<Longrightarrow> zero_words f k n mem x = mem x"
  using frame_word by (auto simp: zero_words_def)

lemma zero_words_inside: "unat i < 1024 \<Longrightarrow> zero_words f 0 1024 mem (f + i * 4) = 0"
  by (auto simp: zero_words_def intro!: exI [of _ "unat i"])

lemma page_table_add_absent:
  assumes sm: "self_mapped (pm s) (cr3 s)" and np: "\<not> present (pm s (pde_phys (cr3 s) a))" and user: "PDE_IDX a < 768"
    and l: "pool_lock (kernel_pool s) = lock_at (running s) n" "n + 1 \<noteq> 0"
    and w: "wf_pool (kernel_pool s)" and ff: "free_frames (kernel_pool s) \<noteq> {}" and d: "cr3 s \<notin> free_frames (kernel_pool s)"
  shows "\<exists>f b. f \<in> free_frames (kernel_pool s) \<and> wf_pool (kernel_pool s\<lparr>pool_bitmap := b\<rparr>) \<and>
    length (bits b) = length (bits (pool_bitmap (kernel_pool s))) \<and>
    free_frames (kernel_pool s\<lparr>pool_bitmap := b\<rparr>) = free_frames (kernel_pool s) - {f} \<and>
    page_table_add a p s = Some (s\<lparr>kernel_pool := kernel_pool s\<lparr>pool_bitmap := b\<rparr>,
      pm := (zero_words f 0 1024 ((pm s)(pde_phys (cr3 s) a := f OR PG_ATTR)))(f + PTE_IDX a * 4 := p OR PG_ATTR)\<rparr>)"
proof -
  let ?d = "cr3 s" and ?x = "pde_phys (cr3 s) a"
  let ?s1 = "s\<lparr>kernel_pool := kernel_pool s\<lparr>pool_lock := lock_at (running s) (n + 1)\<rparr>\<rparr>"
  have lk: "mem_lock_acquire PF_KERNEL s = Some ?s1"
    using l by (simp add: mem_lock_acquire_def pool_of_def upd_pool_def)
  have fr: "free_frames (p\<lparr>pool_lock := k, pool_bitmap := c\<rparr>) = free_frames (p\<lparr>pool_bitmap := c\<rparr>)"
    "wf_pool (p\<lparr>pool_lock := k, pool_bitmap := c\<rparr>) = wf_pool (p\<lparr>pool_bitmap := c\<rparr>)"
    "free_frames (p\<lparr>pool_lock := k\<rparr>) = free_frames p" "wf_pool (p\<lparr>pool_lock := k\<rparr>) = wf_pool p" for p k c
    by (auto simp: free_frames_def frame_no_def wf_pool_def)
  have "wf_pool (pool_of PF_KERNEL ?s1)" using w by (simp add: pool_of_def fr)
  from palloc_cases [OF this] ff obtain f b where
    f: "palloc PF_KERNEL ?s1 = Some (f, upd_pool PF_KERNEL (\<lambda>p. p\<lparr>pool_bitmap := b\<rparr>) ?s1)"
    "f \<in> free_frames (kernel_pool s)" "wf_pool (kernel_pool s\<lparr>pool_bitmap := b\<rparr>)"
    "length (bits b) = length (bits (pool_bitmap (kernel_pool s)))"
    "free_frames (kernel_pool s\<lparr>pool_bitmap := b\<rparr>) = free_frames (kernel_pool s) - {f}"
    by (auto simp: pool_of_def fr)
  let ?s2 = "s\<lparr>kernel_pool := kernel_pool s\<lparr>pool_bitmap := b\<rparr>\<rparr>"
  have rel: "mem_lock_release PF_KERNEL (upd_pool PF_KERNEL (\<lambda>p. p\<lparr>pool_bitmap := b\<rparr>) ?s1) = Some ?s2"
    using l by (cases "kernel_pool s") (simp add: mem_lock_release_def pool_of_def upd_pool_def)
  have f0: "frame f = f" "f \<noteq> ?d" using frame_frames(1) [OF w] f(2) free_frames_sub d by auto
  have d0: "frame ?d = ?d" using sm by (simp add: self_mapped_def)
  let ?m = "(pm s)(?x := f OR PG_ATTR)"
  have ne: "?x \<noteq> ?d + 1023 * 4" unfolding pde_phys_def d0 using user entry_inj [OF d0 d0 PDE_IDX_bound, of 1023] by auto
  have sm': "self_mapped ?m ?d" using self_mapped_upd [OF sm ne] by simp
  let ?va = "frame (pte_ptr a)"
  have x: "pde_phys ?d ?va = ?d + 1023 * 4" "pte_phys ?m ?d ?va = ?x"
    using sm' d0 by (simp_all add: pde_phys_def pte_phys_def self_mapped_def)
  have "walk ?m ?d ?va = Some f"
    unfolding walk_def x using sm' f0(1) by (simp add: self_mapped_def frame_attr)
  then have z: "vzero 1024 ?va (?s2\<lparr>pm := ?m\<rparr>) = Some (?s2\<lparr>pm := zero_words f 0 1024 ?m\<rparr>)"
    using vzero_page [of ?va 0 1024 "?s2\<lparr>pm := ?m\<rparr>" f] f0 d0 x(2) sm' by (simp add: self_mapped_def)
  let ?z = "zero_words f 0 1024 ?m"
  have "?z (?d + 1023 * 4) = ?m (?d + 1023 * 4)" "?z ?x = f OR PG_ATTR"
    using zero_words_outside [OF f0(1), of _ 0 1024 ?m] frame_word [OF d0, of 1023] f0(2) d0 by simp_all
  then have "self_mapped ?z ?d" "?z ?x = f OR PG_ATTR" "pte_phys ?z ?d a = f + PTE_IDX a * 4" "?z (f + PTE_IDX a * 4) = 0"
    using sm' f0(1) zero_words_inside [OF PTE_IDX_bound] by (simp_all add: self_mapped_def pte_phys_def frame_attr)
  then have "page_table_add a p s = Some (?s2\<lparr>pm := ?z(f + PTE_IDX a * 4 := p OR PG_ATTR)\<rparr>)"
    using sm np [unfolded present_def] lk f(1) rel z [unfolded frame_def] linorder_not_le [THEN iffD2, OF user]
    by (simp add: page_table_add_def vread_def vwrite_def walk_pde_ptr walk_pte_ptr Let_def)
  with f(2-5) show ?thesis by blast
qed

subsection \<open>Properties\<close>

text \<open>What another mapped page must not share with the page being added: the table entry, or a table in a
  frame the pool could hand out.\<close>

definition apart :: "u32 \<Rightarrow> u32 \<Rightarrow> 'a mkernel_scheme \<Rightarrow> bool" where
  "apart a b s \<longleftrightarrow> PDE_IDX b \<noteq> 1023 \<and>
     (present (pm s (pde_phys (cr3 s) a)) \<longrightarrow> pte_phys (pm s) (cr3 s) b \<noteq> pte_phys (pm s) (cr3 s) a) \<and>
     frame (pm s (pde_phys (cr3 s) b)) \<notin> insert (cr3 s) (free_frames (kernel_pool s))"

lemma walk_cong:
  "mem' (pde_phys d b) = mem (pde_phys d b) \<Longrightarrow> mem' (pte_phys mem d b) = mem (pte_phys mem d b) \<Longrightarrow> walk mem' d b = walk mem d b"
  by (simp add: walk_def pte_phys_def)

lemma present_case_maps:
  assumes sm: "self_mapped (pm s) (cr3 s)" and pr: "present (pm s (pde_phys (cr3 s) a))"
    and t: "frame (pm s (pde_phys (cr3 s) a)) \<noteq> cr3 s" and p: "frame p = p"
  defines "s' \<equiv> s\<lparr>pm := (pm s)(pte_phys (pm s) (cr3 s) a := p OR PG_ATTR)\<rparr>"
  shows "self_mapped (pm s') (cr3 s')" "walk (pm s') (cr3 s') a = Some (p + (a AND 0xfff))"
    "apart a b s \<Longrightarrow> walk (pm s') (cr3 s') b = walk (pm s) (cr3 s) b"
proof -
  let ?y = "pte_phys (pm s) (cr3 s) a"
  have d: "frame (cr3 s) = cr3 s" using sm by (simp add: self_mapped_def)
  have ne: "?y \<noteq> pde_phys (cr3 s) c" for c
  proof
    assume "?y = pde_phys (cr3 s) c"
    then have "frame ?y = cr3 s" by (simp only: frame_pde_phys d)
    with t show False by (simp only: frame_pte_phys)
  qed
  have "pde_phys (cr3 s) (pde_ptr a) = cr3 s + 1023 * 4" by (simp add: pde_phys_def d)
  then have "?y \<noteq> cr3 s + 1023 * 4" using ne [of "pde_ptr a"] by (simp only: not_False_eq_True)
  then show "self_mapped (pm s') (cr3 s')" using self_mapped_upd [OF sm] by (simp add: s'_def)
  show "walk (pm s') (cr3 s') a = Some (p + (a AND 0xfff))"
    using ne [of a] pr p by (simp add: s'_def walk_def pte_phys_def frame_attr)
  show "walk (pm s') (cr3 s') b = walk (pm s) (cr3 s) b" if "apart a b s"
  proof -
    have "pte_phys (pm s) (cr3 s) b \<noteq> ?y" using that pr by (simp add: apart_def)
    then have "pm s' (pde_phys (cr3 s) b) = pm s (pde_phys (cr3 s) b)"
      "pm s' (pte_phys (pm s) (cr3 s) b) = pm s (pte_phys (pm s) (cr3 s) b)" using ne [of b] by (auto simp: s'_def)
    from walk_cong [OF this] show ?thesis by (simp add: s'_def)
  qed
qed

lemma absent_case_maps:
  assumes sm: "self_mapped (pm s) (cr3 s)" and np: "\<not> present (pm s (pde_phys (cr3 s) a))" and user: "PDE_IDX a < 768"
    and f: "frame f = f" "f \<noteq> cr3 s" "f \<in> free_frames (kernel_pool s)" and p: "frame p = p"
  defines "m' \<equiv> (zero_words f 0 1024 ((pm s)(pde_phys (cr3 s) a := f OR PG_ATTR)))(f + PTE_IDX a * 4 := p OR PG_ATTR)"
  shows "self_mapped m' (cr3 s)" "walk m' (cr3 s) a = Some (p + (a AND 0xfff))"
    "apart a b s \<Longrightarrow> walk (pm s) (cr3 s) b = Some q \<Longrightarrow> walk m' (cr3 s) b = Some q"
proof -
  let ?x = "pde_phys (cr3 s) a" and ?d = "cr3 s"
  have d: "frame ?d = ?d" using sm by (simp add: self_mapped_def)
  have fw: "frame (f + PTE_IDX a * 4) = f" using frame_word [OF f(1), of "unat (PTE_IDX a)"] by (simp add: PTE_IDX_bound)
  have out: "m' x = (if x = ?x then f OR PG_ATTR else pm s x)" if "frame x \<noteq> f" for x
    using that fw zero_words_outside [OF f(1) that, of 0 1024] by (auto simp: m'_def)
  have 1: "m' (?d + 1023 * 4) = pm s (?d + 1023 * 4)"
  proof -
    have "?x \<noteq> ?d + 1023 * 4" unfolding pde_phys_def d using user entry_inj [OF d d PDE_IDX_bound, of 1023] by auto
    moreover have "frame (?d + 1023 * 4) \<noteq> f" using frame_word [OF d, of 1023] f(2) by simp
    ultimately show ?thesis using out [of "?d + 1023 * 4"] by simp
  qed
  then show "self_mapped m' ?d" using sm by (simp add: self_mapped_def)
  have "m' ?x = f OR PG_ATTR" using out [of ?x] d f(2) by simp
  moreover have "m' (f + PTE_IDX a * 4) = p OR PG_ATTR" by (simp add: m'_def)
  ultimately show "walk m' ?d a = Some (p + (a AND 0xfff))" using f(1) p by (simp add: walk_def pte_phys_def frame_attr)
  show "walk m' ?d b = Some q" if ab: "apart a b s" and w: "walk (pm s) ?d b = Some q"
  proof -
    have pb: "present (pm s (pde_phys ?d b))" using w by (simp add: walk_def split: if_splits)
    then have "pde_phys ?d b \<noteq> ?x" using np by metis
    then have "m' (pde_phys ?d b) = pm s (pde_phys ?d b)" using out [of "pde_phys ?d b"] d f(2) by simp
    moreover have t: "frame (pte_phys (pm s) ?d b) \<noteq> f" "frame (pte_phys (pm s) ?d b) \<noteq> frame ?x"
      using ab f(3) d by (auto simp: apart_def)
    then have "pte_phys (pm s) ?d b \<noteq> ?x" by metis
    with t(1) have "m' (pte_phys (pm s) ?d b) = pm s (pte_phys (pm s) ?d b)" using out by simp
    ultimately show ?thesis using w walk_cong [of m' ?d b "pm s"] by simp
  qed
qed


text \<open>A machine whose kernel directory at 0x100000 maps itself and nothing else; eight free frames from
  0x200000 in the kernel pool, eight from 0x300000 in the user pool.\<close>

definition demo_pool :: "u32 \<Rightarrow> pool" where
  "demo_pool a = \<lparr>pool_bitmap = \<lparr>btmp_bytes_len = 1, bits = [0]\<rparr>, phy_addr_start = a, pool_size = 0x8000, pool_lock = lock_init\<rparr>"

definition demo_mkernel :: mkernel where
  "demo_mkernel = kernel.extend (demo_kernel\<lparr>pm := (\<lambda>_. 0)(0x100ffc := 0x100007)\<rparr>)
     \<lparr>kernel_pool = demo_pool 0x200000, user_pool = demo_pool 0x300000,
      kernel_vaddr = \<lparr>vaddr_bitmap = \<lparr>btmp_bytes_len = 1, bits = [0]\<rparr>, vaddr_start = K_HEAP_START\<rparr>,
      kernel_pde_cache = replicate 255 0, thread_all_list = [4096, 8192], k_block_descs = block_desc_init, arenas = (\<lambda>_. None)\<rparr>"

lemma demo_wf_pool: "unat a mod 4096 = 0 \<Longrightarrow> 0 < unat a \<Longrightarrow> unat a < 2 ^ 31 \<Longrightarrow> wf_pool (demo_pool a)"
  by (simp add: wf_pool_def demo_pool_def wf_bitmap_def unat_mod_frame)

lemma demo_free_frames: "free_frames (demo_pool a) = frame_no (demo_pool a) ` {..<8}"
proof -
  have "clear [0] i" if "i < 8" for i using that by (simp add: clear_def)
  then have "bitmap_used (pool_bitmap (demo_pool a)) = {}" by (auto simp: bitmap_used_def demo_pool_def)
  then show ?thesis by (simp add: free_frames_def demo_pool_def)
qed

lemma demo_mkernel_fields:
  "kernel_pool demo_mkernel = demo_pool 0x200000" "user_pool demo_mkernel = demo_pool 0x300000"
  "cr3 demo_mkernel = 0x100000" "pm demo_mkernel = (\<lambda>_. 0)(0x100ffc := 0x100007)" "running demo_mkernel = 4096"
  by (simp_all add: demo_mkernel_def kernel.extend_def demo_kernel_def)

lemma demo_pool_lock: "pool_lock (demo_pool a) = lock_at me 0"
  by (simp add: demo_pool_def lock_at_def)

lemma demo_cr3_not_free: "0x100000 \<notin> free_frames (demo_pool 0x200000)"
proof
  assume "0x100000 \<in> free_frames (demo_pool 0x200000)"
  then obtain i where i: "i < 8" "0x100000 = frame_no (demo_pool 0x200000) i" unfolding demo_free_frames by auto
  have "unat (frame_no (demo_pool 0x200000) i) = 0x200000 + 4096 * i"
    using unat_frame_no [OF demo_wf_pool, of "0x200000" i] i(1) by (simp add: demo_pool_def)
  with arg_cong [OF i(2), of unat] show False by simp
qed


text \<open>C35: \<open>addr_v2p\<close> is the processor's translation: with the running directory mapped onto itself, for every
  mapped address it returns the physical address the page walk gives, offset included, and it
  reads through an entry that is not there (a page fault) only when the page table itself is
  missing.\<close>

theorem addr_v2p_translates:
  assumes "self_mapped (pm s) (cr3 s)"
  shows "(\<forall>p. walk (pm s) (cr3 s) a = Some p \<longrightarrow> addr_v2p a s = Some p) \<and>
    (addr_v2p a s = None \<longleftrightarrow> \<not> present (pm s (pde_phys (cr3 s) a)))"
proof
  show "\<forall>p. walk (pm s) (cr3 s) a = Some p \<longrightarrow> addr_v2p a s = Some p" using addr_v2p_walk [OF assms] by blast
qed (simp add: addr_v2p_def vread_def walk_pte_ptr [OF assms])

theorem addr_v2p_translates_witness: "addr_v2p 0xfffff123 demo_mkernel = Some 0x100123"
  using addr_v2p_translates [of demo_mkernel "0xfffff123"]
  by (auto simp: demo_mkernel_fields self_mapped_def frame_def present_def walk_def pde_phys_def pte_phys_def PDE_IDX_def PTE_IDX_def)

end
