(* ===== verification/Mem_Init.thy ===== *)
theory Mem_Init
  imports Paging
begin

text \<open>
  What \<open>mem_pool_init\<close> sets up, for every amount of memory the loader may report: where the bitmaps and the
  pools lie and what they manage.
\<close>

lemma bitmap_at_eq: "bitmap_at raw base len = Some \<lparr>btmp_bytes_len = len, bits = replicate (unat len) 0\<rparr>"
  by (simp add: bitmap_at_def bitmap_init_def)

lemma clear_zeros [simp]: "i < 8 * n \<Longrightarrow> clear (replicate n 0) i"
  by (simp add: clear_def less_mult_imp_div_less mult.commute)

lemma used_zeros [simp]: "bitmap_used \<lparr>btmp_bytes_len = len, bits = replicate n 0\<rparr> = {}"
  by (auto simp: bitmap_used_def)

text \<open>The number of free pages, kept in 16 bits, and its two halves.\<close>

definition free_pages :: "u32 \<Rightarrow> nat" where
  "free_pages all_mem = (unat all_mem - 0x200000) div 4096 mod 65536"

definition zero_map :: "nat \<Rightarrow> bitmap" where
  "zero_map n = \<lparr>btmp_bytes_len = word_of_nat (n div 8), bits = replicate (n div 8) 0\<rparr>"

definition new_pool :: "u32 \<Rightarrow> nat \<Rightarrow> pool" where
  "new_pool start n = \<lparr>pool_bitmap = zero_map n, phy_addr_start = start, pool_size = word_of_nat (n * 4096), pool_lock = lock_init\<rparr>"

lemma mem_pool_init_eq:
  fixes s :: "'a mkernel_scheme"
  assumes "0x200000 \<le> unat all_mem"
  defines "k \<equiv> free_pages all_mem div 2" and "u \<equiv> free_pages all_mem - free_pages all_mem div 2"
  shows "mem_pool_init raw all_mem s = do {
     vb \<leftarrow> bitmap_set (zero_map k) 0 1;
     page_table_add K_HEAP_START 0x100000 (s\<lparr>kernel_pool := new_pool 0x200000 k,
       user_pool := new_pool (0x200000 + word_of_nat (k * 4096)) u,
       kernel_vaddr := \<lparr>vaddr_bitmap = vb, vaddr_start = K_HEAP_START\<rparr>\<rparr>)
   }"
proof -
  let ?free = "all_mem - 0x200000"
  let ?all = "ucast (?free div PG_SIZE) :: u16"
  have "unat ?free = unat all_mem - 0x200000"
    using assms(1) by (simp add: unat_sub_if' word_le_nat_alt)
  then have n: "unat ?all = free_pages all_mem"
    by (simp add: free_pages_def unsigned_ucast_eq take_bit_eq_mod unat_div)
  have kk: "unat (?all div 2) = k" using n by (simp add: k_def unat_div)
  have "?all div 2 \<le> ?all" using n kk by (simp add: word_le_nat_alt k_def)
  then have uu: "unat (?all - ?all div 2) = u" using n kk by (simp add: u_def k_def unat_sub)
  have b: "k < 2 ^ 16" "u < 2 ^ 16" using kk uu unsigned_less [of "?all div 2", where ?'a = nat]
      unsigned_less [of "?all - ?all div 2", where ?'a = nat] by simp_all
  have len: "(ucast (x div 8) :: u32) = word_of_nat (unat x div 8)" and sz: "(ucast x * PG_SIZE :: u32) = word_of_nat (unat x * 4096)"
    and ulen: "unat (word_of_nat (unat x div 8) :: u32) = unat x div 8" for x :: u16
    using unsigned_less [of x, where ?'a = nat]
    by (simp_all add: word_unat_eq_iff unat_of_nat unat_div unsigned_ucast_eq take_bit_eq_mod unat_word_ariths)
  have used: "PG_SIZE * 256 + 0x100000 = (0x200000 :: u32)" by (simp add: PG_SIZE_def)
  show ?thesis
    unfolding mem_pool_init_def Let_def used bitmap_at_eq len sz ulen kk uu new_pool_def zero_map_def by simp
qed

lemma zero_map_bits [simp]: "bits (zero_map n) = replicate (n div 8) 0" "bitmap_used (zero_map n) = {}"
  by (simp_all add: zero_map_def)

lemma wf_zero_map: "n < 2 ^ 16 \<Longrightarrow> wf_bitmap (zero_map n)"
  by (simp add: wf_bitmap_def zero_map_def unat_of_nat)

lemma new_pool_wf:
  assumes "n < 2 ^ 16" and "frame a = a" and "0 < unat a" and "unat a + n * 4096 < 2 ^ 32"
  shows "wf_pool (new_pool a n)" "frames (new_pool a n) = free_frames (new_pool a n)"
    "f \<in> frames (new_pool a n) \<Longrightarrow> unat a \<le> unat f \<and> unat f + 4096 \<le> unat a + n * 4096"
proof -
  have "unat (word_of_nat n * 4096 :: u32) = n * 4096" using assms(1) by (simp add: unat_word_ariths unat_of_nat)
  then show w: "wf_pool (new_pool a n)" using assms by (simp add: wf_pool_def new_pool_def wf_zero_map)
  show "frames (new_pool a n) = free_frames (new_pool a n)" by (simp add: frames_def free_frames_def new_pool_def)
  show "unat a \<le> unat f \<and> unat f + 4096 \<le> unat a + n * 4096" if f: "f \<in> frames (new_pool a n)"
  proof -
    obtain i where i: "i < 8 * (n div 8)" "f = frame_no (new_pool a n) i" using f by (auto simp: frames_def new_pool_def)
    have "unat f = unat a + 4096 * i" using unat_frame_no [OF w, of i] i by (simp add: new_pool_def)
    then show ?thesis using i(1) by simp
  qed
qed

text \<open>Where it does not fail: the pools, the pool of addresses with its first page taken, and the entry of that page.\<close>

lemma mem_pool_init_run:
  assumes "0x200000 \<le> unat all_mem" and "16 \<le> free_pages all_mem"
    and "self_mapped (pm s) (cr3 s)" and "present (pm s (pde_phys (cr3 s) K_HEAP_START))"
    and "\<not> present (pm s (pte_phys (pm s) (cr3 s) K_HEAP_START))"
  defines "k \<equiv> free_pages all_mem div 2" and "u \<equiv> free_pages all_mem - free_pages all_mem div 2"
  shows "\<exists>vb. wf_bitmap vb \<and> length (bits vb) = k div 8 \<and> bitmap_used vb = {0} \<and>
    mem_pool_init raw all_mem s = Some (s\<lparr>kernel_pool := new_pool 0x200000 k,
      user_pool := new_pool (0x200000 + word_of_nat (k * 4096)) u,
      kernel_vaddr := \<lparr>vaddr_bitmap = vb, vaddr_start = K_HEAP_START\<rparr>,
      pm := (pm s)(pte_phys (pm s) (cr3 s) K_HEAP_START := 0x100000 OR PG_ATTR)\<rparr>)"
proof -
  have "free_pages all_mem < 65536" by (simp add: free_pages_def)
  then have k: "k < 2 ^ 16" "8 \<le> k" using assms(2) by (simp_all add: k_def)
  then have "0 < k div 8" by (simp add: div_greater_zero_iff)
  then obtain vb where vb: "bitmap_set (zero_map k) 0 1 = Some vb" "wf_bitmap vb" "length (bits vb) = k div 8" "bitmap_used vb = {0}"
    using bitmap_put [OF wf_zero_map [OF k(1)], of 0 1] by auto
  let ?s = "s\<lparr>kernel_pool := new_pool 0x200000 k, user_pool := new_pool (0x200000 + word_of_nat (k * 4096)) u,
    kernel_vaddr := \<lparr>vaddr_bitmap = vb, vaddr_start = K_HEAP_START\<rparr>\<rparr>"
  have "page_table_add K_HEAP_START 0x100000 ?s =
      Some (?s\<lparr>pm := (pm s)(pte_phys (pm s) (cr3 s) K_HEAP_START := 0x100000 OR PG_ATTR)\<rparr>)"
    using page_table_add_present [of ?s K_HEAP_START "0x100000"] assms(3-5) by simp
  then show ?thesis using mem_pool_init_eq [OF assms(1), of raw s, folded k_def u_def] vb by (intro exI [of _ vb]) simp
qed

text \<open>The copy of the kernel's directory entries that new processes get, read through the directory's last entry.\<close>

lemma cache_pdes_reads:
  assumes "self_mapped (pm s) (cr3 s)" "i + n \<le> 255"
  shows "cache_pdes n (word_of_nat i) s = Some (map (\<lambda>j. pm s (cr3 s + (768 + word_of_nat j) * 4)) [i..<i + n])"
  using assms
proof (induction n arbitrary: i)
  case (Suc n)
  have "walk (pm s) (cr3 s) (0xfffff000 + word_of_nat (768 + i) * 4) = Some (cr3 s + word_of_nat (768 + i) * 4)"
  proof -
    have f: "frame (0xfffff000 :: u32) = 0xfffff000" by (simp add: frame_def)
    have "768 + i < 1024" using Suc.prems(2) by simp
    note x = in_page [OF f this]
    have y: "PDE_IDX 0xfffff000 = 1023" "PTE_IDX 0xfffff000 = 1023" by (simp_all add: PDE_IDX_def PTE_IDX_def)
    show ?thesis unfolding walk_def pde_phys_def pte_phys_def x y using Suc.prems(1) by (simp add: self_mapped_def)
  qed
  then have "vread (0xfffff000 + (768 + word_of_nat i) * 4) s = Some (pm s (cr3 s + (768 + word_of_nat i) * 4))" by (simp add: vread_def)
  moreover have "cache_pdes n (word_of_nat i + 1) s = Some (map (\<lambda>j. pm s (cr3 s + (768 + word_of_nat j) * 4)) [Suc i..<Suc i + n])"
    using Suc.IH [of "Suc i"] Suc.prems by (simp add: add.commute)
  moreover have "[i..<i + Suc n] = i # [Suc i..<Suc i + n]" by (simp add: upt_rec)
  ultimately show ?case by simp
qed simp


text \<open>A machine whose kernel directory maps itself and has the page table of the kernel's first 4 MB.\<close>

definition boot_mkernel :: mkernel where
  "boot_mkernel = demo_mkernel\<lparr>pm := (\<lambda>_. 0)(0x100ffc := 0x100007, 0x100c00 := 0x101007)\<rparr>"


text \<open>The page count is kept in 16 bits although the layout is meant for up to 512 MB: a machine that
  reports 258 MB has 65536 free pages, which count as 0; the bitmaps are empty and taking the
  first page of the kernel heap writes outside of its bitmap. (By the layout theorem, 512 MB give pools of
  254 MB only.)\<close>

theorem page_count_wraps: "mem_pool_init raw 0x10200000 s = None"
proof -
  have "free_pages 0x10200000 = 0" by (simp add: free_pages_def)
  then show ?thesis
    by (subst mem_pool_init_eq) (simp_all add: bitmap_set_def zero_map_def arr_get_def)
qed

end
