(* ===== verification/Malloc.thy ===== *)
theory Malloc
  imports Memory
begin

text \<open>
  \<^verbatim>\<open>sys_getpid\<close>, \<^verbatim>\<open>sys_malloc\<close> and \<^verbatim>\<open>sys_free\<close> of \<^verbatim>\<open>kernel/syscall.c\<close>. The header of an arena, the first 8 bytes of its
  page, is an \<open>arena\<close> record found under the page's address; pages below 3 GB belong to the running
  process, the others to the kernel. A descriptor is named by the table it is in and its index.
  The free list of a descriptor is the sequence of the addresses of its blocks (\<open>Klist\<close> shows that the
  pointer code keeps such a sequence); the links stored inside free blocks are not part of the memory
  image. \<open>None\<close> stands for what it does in \<open>Memory\<close>, and for a pointer that no arena accounts for.
\<close>

definition sys_getpid :: "'a kernel_scheme \<Rightarrow> u32 option" where
  "sys_getpid s = map_option pid (tasks s (running s))"

definition get_desc :: "desc_ref \<Rightarrow> 'a mkernel_scheme \<Rightarrow> mem_block_desc option" where
  "get_desc r s = (case r of K_Desc i \<Rightarrow> arr_get (k_block_descs s) i
     | U_Desc p i \<Rightarrow> do { t \<leftarrow> tasks s p; arr_get (u_block_descs t) i })"

definition set_free_list :: "desc_ref \<Rightarrow> u32 list \<Rightarrow> 'a mkernel_scheme \<Rightarrow> 'a mkernel_scheme option" where
  "set_free_list r l s = (case r of
     K_Desc i \<Rightarrow> do {
       d \<leftarrow> arr_get (k_block_descs s) i;
       ds \<leftarrow> arr_set (k_block_descs s) i (d\<lparr>free_list := l\<rparr>);
       Some (s\<lparr>k_block_descs := ds\<rparr>)
     }
   | U_Desc p i \<Rightarrow> do {
       t \<leftarrow> tasks s p;
       d \<leftarrow> arr_get (u_block_descs t) i;
       ds \<leftarrow> arr_set (u_block_descs t) i (d\<lparr>free_list := l\<rparr>);
       Some (s\<lparr>tasks := (tasks s)(p \<mapsto> t\<lparr>u_block_descs := ds\<rparr>)\<rparr>)
     })"

text \<open>Access to the header at address \<open>a\<close>.\<close>

definition arena_key :: "u32 \<Rightarrow> 'a mkernel_scheme \<Rightarrow> nat option \<times> u32" where
  "arena_key a s = (if a < 0xc0000000 then Some (running s) else None, a)"

definition get_arena :: "u32 \<Rightarrow> 'a mkernel_scheme \<Rightarrow> arena option" where
  "get_arena a s = arenas s (arena_key a s)"

definition set_arena :: "u32 \<Rightarrow> arena option \<Rightarrow> 'a mkernel_scheme \<Rightarrow> 'a mkernel_scheme" where
  "set_arena a ar s = s\<lparr>arenas := (arenas s)(arena_key a s := ar)\<rparr>"

definition ARENA_SIZE :: u32 where "ARENA_SIZE = 8"

text \<open>The blocks of an arena, \<^verbatim>\<open>(uint32_t)(a + 1) + b * desc->block_size\<close> for each \<^verbatim>\<open>b\<close>.\<close>

definition arena_blocks :: "mem_block_desc \<Rightarrow> u32 \<Rightarrow> u32 list" where
  "arena_blocks d a = map (\<lambda>b. a + ARENA_SIZE + word_of_nat b * block_size d) [0..<unat (blocks_per_arena d)]"

primrec find_desc :: "u32 \<Rightarrow> mem_block_desc list \<Rightarrow> nat" where
  "find_desc sz [] = 0"
| "find_desc sz (d # ds) = (if sz \<le> block_size d then 0 else Suc (find_desc sz ds))"

text \<open>The body of \<^verbatim>\<open>if (list_empty(&desc->free_list))\<close>; \<open>False\<close> is the early return with \<^verbatim>\<open>NULL\<close>.\<close>

definition new_arena :: "pool_flags \<Rightarrow> desc_ref \<Rightarrow> 'a mkernel_scheme \<Rightarrow> (bool \<times> 'a mkernel_scheme) option" where
  "new_arena pf r s = do {
     (a, s) \<leftarrow> malloc_page pf 1 s;
     if a = 0 then Some (False, s)
     else do {
       s \<leftarrow> vzero (unat PG_SIZE div 4) a s;
       desc \<leftarrow> get_desc r s;
       let s = set_arena a (Some \<lparr>a_desc = Some r, a_cnt = blocks_per_arena desc\<rparr>) s;
       s \<leftarrow> set_free_list r (free_list desc @ arena_blocks desc a) s;
       Some (True, s)
     }
   }"

definition take_block :: "desc_ref \<Rightarrow> 'a mkernel_scheme \<Rightarrow> (u32 \<times> 'a mkernel_scheme) option" where
  "take_block r s = do {
     desc \<leftarrow> get_desc r s;
     (case free_list desc of
        [] \<Rightarrow> None
      | blk # rest \<Rightarrow> do {
          s \<leftarrow> set_free_list r rest s;
          let a = blk AND 0xfffff000;
          ar \<leftarrow> get_arena a s;
          Some (blk, set_arena a (Some (ar\<lparr>a_cnt := a_cnt ar - 1\<rparr>)) s)
        })
   }"

text \<open>A request of more than 1024 bytes.\<close>

definition malloc_large :: "pool_flags \<Rightarrow> u32 \<Rightarrow> 'a mkernel_scheme \<Rightarrow> (u32 \<times> 'a mkernel_scheme) option" where
  "malloc_large pf sz s = do {
     let pg_cnt = (sz + ARENA_SIZE + PG_SIZE - 1) div PG_SIZE;
     (a, s) \<leftarrow> malloc_page pf pg_cnt s;
     if a = 0 then do { s \<leftarrow> mem_lock_release pf s; Some (0, s) }
     else do {
       s \<leftarrow> vzero (unat (pg_cnt * PG_SIZE) div 4) a s;
       let s = set_arena a (Some \<lparr>a_desc = None, a_cnt = pg_cnt\<rparr>) s;
       s \<leftarrow> mem_lock_release pf s;
       Some (a + ARENA_SIZE, s)
     }
   }"

definition sys_malloc :: "u32 \<Rightarrow> 'a mkernel_scheme \<Rightarrow> (u32 \<times> 'a mkernel_scheme) option" where
  "sys_malloc sz s =
     (if sz = 0 then Some (0, s)
      else do {
        cur \<leftarrow> tasks s (running s);
        let kern = (pgdir cur = 0);
        let pf = (if kern then PF_KERNEL else PF_USER);
        s \<leftarrow> mem_lock_acquire pf s;
        if 1024 < sz then malloc_large pf sz s
        else do {
          let i = find_desc sz (if kern then k_block_descs s else u_block_descs cur);
          let r = (if kern then K_Desc i else U_Desc (running s) i);
          desc \<leftarrow> get_desc r s;
          (ok, s) \<leftarrow> (if free_list desc = [] then new_arena pf r s else Some (True, s));
          if \<not> ok then do { s \<leftarrow> mem_lock_release pf s; Some (0, s) }
          else do {
            (blk, s) \<leftarrow> take_block r s;
            s \<leftarrow> mem_lock_release pf s;
            s \<leftarrow> vzero (unat (block_size desc) div 4) blk s;
            Some (blk, s)
          }
        }
      })"

text \<open>\<^verbatim>\<open>list_remove\<close> of every block of a page; an element that is not on the list is an error.\<close>

primrec remove_all :: "u32 list \<Rightarrow> u32 list \<Rightarrow> u32 list option" where
  "remove_all [] l = Some l"
| "remove_all (b # bs) l = (if b \<in> set l then remove_all bs (remove1 b l) else None)"

definition free_small :: "pool_flags \<Rightarrow> desc_ref \<Rightarrow> u32 \<Rightarrow> 'a mkernel_scheme \<Rightarrow> 'a mkernel_scheme option" where
  "free_small pf r ptr s = do {
     let a = ptr AND 0xfffff000;
     desc \<leftarrow> get_desc r s;
     s \<leftarrow> set_free_list r (free_list desc @ [ptr]) s;
     ar \<leftarrow> get_arena a s;
     let cnt = a_cnt ar + 1;
     let s = set_arena a (Some (ar\<lparr>a_cnt := cnt\<rparr>)) s;
     if cnt = blocks_per_arena desc
     then do {
       l \<leftarrow> remove_all (arena_blocks desc a) (free_list desc @ [ptr]);
       s \<leftarrow> set_free_list r l s;
       s \<leftarrow> mfree_page pf a 1 s;
       Some (set_arena a None s)
     }
     else Some s
   }"

definition sys_free :: "u32 \<Rightarrow> 'a mkernel_scheme \<Rightarrow> 'a mkernel_scheme option" where
  "sys_free ptr s =
     (if ptr = 0 then Some s
      else do {
        let a = ptr AND 0xfffff000;
        cur \<leftarrow> tasks s (running s);
        let pf = (if pgdir cur = 0 then PF_KERNEL else PF_USER);
        s \<leftarrow> mem_lock_acquire pf s;
        ar \<leftarrow> get_arena a s;
        s \<leftarrow> (case a_desc ar of
               None \<Rightarrow> do { s \<leftarrow> mfree_page pf a (a_cnt ar) s; Some (set_arena a None s) }
             | Some r \<Rightarrow> free_small pf r ptr s);
        mem_lock_release pf s
      })"

end
