(* ===== verification/Stdio.thy ===== *)
theory Stdio
  imports Kstring
begin

text \<open>
  \<^verbatim>\<open>lib/usr/stdio.c\<close>: formatted output. The format and the strings are read from the byte memory of
  \<open>Kstring\<close>; the bytes written through \<^verbatim>\<open>*out++\<close> are collected in a list (the output buffer is assumed not to
  overlap what is being read). A \<^verbatim>\<open>va_list\<close> is the sequence of 32-bit words left on the stack; reading past
  the end of it is \<open>None\<close>. The width is an \<^verbatim>\<open>int\<close> and is assumed not to overflow.
\<close>

definition digit_char :: "bool \<Rightarrow> u32 \<Rightarrow> u8" where
  "digit_char upper d = (if d < 10 then 0x30 + ucast d else (if upper then 0x41 else 0x61) + ucast (d - 10))"

text \<open>The digits are produced from the lowest up into \<^verbatim>\<open>tmp\<close>, then copied in reverse order.\<close>

partial_function (option) digit_loop :: "u32 \<Rightarrow> u32 \<Rightarrow> bool \<Rightarrow> u8 list \<Rightarrow> u8 list option" where
  "digit_loop value base upper tmp =
     (if value \<noteq> 0 then digit_loop (value div base) base upper (tmp @ [digit_char upper (value mod base)]) else Some tmp)"

declare digit_loop.simps [code]

definition uint_to_str :: "u32 \<Rightarrow> u32 \<Rightarrow> bool \<Rightarrow> u8 list option" where
  "uint_to_str value base upper = do {
     tmp \<leftarrow> (if value = 0 then Some [0x30] else digit_loop value base upper []);
     Some (rev tmp)
   }"

text \<open>The flags and the width.\<close>

partial_function (option) flag_loop :: "mem \<Rightarrow> u32 \<Rightarrow> bool \<Rightarrow> bool \<Rightarrow> (bool \<times> bool \<times> u32) option" where
  "flag_loop m fmt flag_zero flag_left =
     (if m fmt = 0x30 \<or> m fmt = 0x2d
      then flag_loop m (fmt + 1) (flag_zero \<or> m fmt = 0x30) (flag_left \<or> m fmt = 0x2d)
      else Some (flag_zero, flag_left, fmt))"

partial_function (option) width_loop :: "mem \<Rightarrow> u32 \<Rightarrow> int \<Rightarrow> (int \<times> u32) option" where
  "width_loop m fmt width =
     (if 0x31 \<le> sint (m fmt) \<and> sint (m fmt) \<le> 0x39
      then width_loop m (fmt + 1) (width * 10 + (sint (m fmt) - 0x30))
      else Some (width, fmt))"

partial_function (option) str_loop :: "mem \<Rightarrow> u32 \<Rightarrow> u8 list \<Rightarrow> u8 list option" where
  "str_loop m s acc = (if m s \<noteq> 0 then str_loop m (s + 1) (acc @ [m s]) else Some acc)"

declare flag_loop.simps [code] width_loop.simps [code] str_loop.simps [code]

definition padding :: "int \<Rightarrow> u8 \<Rightarrow> u8 list" where
  "padding pad c = replicate (nat pad) c"

definition null_str :: "u8 list" where "null_str = [0x28, 0x6e, 0x75, 0x6c, 0x6c, 0x29]"

text \<open>A number with its sign, padded; a character or a string, padded.\<close>

definition put_number :: "bool \<Rightarrow> bool \<Rightarrow> int \<Rightarrow> bool \<Rightarrow> u8 list \<Rightarrow> u8 list" where
  "put_number flag_zero flag_left width neg ds =
     (let pad = width - (int (length ds) + (if neg then 1 else 0)); sign = (if neg then [0x2d] else []) in
      if \<not> flag_left
      then (if flag_zero then sign @ padding pad 0x30 else padding pad 0x20 @ sign) @ ds
      else sign @ ds @ padding pad 0x20)"

definition put_text :: "bool \<Rightarrow> int \<Rightarrow> u8 list \<Rightarrow> u8 list" where
  "put_text flag_left width cs =
     (let pad = width - int (length cs) in
      if \<not> flag_left then padding pad 0x20 @ cs else cs @ padding pad 0x20)"

text \<open>The switch on the conversion character: what is written, and the arguments that are left.\<close>

definition convert :: "mem \<Rightarrow> u8 \<Rightarrow> bool \<Rightarrow> bool \<Rightarrow> int \<Rightarrow> u32 list \<Rightarrow> (u8 list \<times> u32 list) option" where
  "convert m c flag_zero flag_left width ap =
     (if c = 0x64 then (case ap of [] \<Rightarrow> None | v # ap \<Rightarrow> do {
        ds \<leftarrow> uint_to_str (if sint v < 0 then - v else v) 10 False;
        Some (put_number flag_zero flag_left width (sint v < 0) ds, ap) })
      else if c = 0x75 then (case ap of [] \<Rightarrow> None | v # ap \<Rightarrow> do {
        ds \<leftarrow> uint_to_str v 10 False; Some (put_number flag_zero flag_left width False ds, ap) })
      else if c = 0x78 then (case ap of [] \<Rightarrow> None | v # ap \<Rightarrow> do {
        ds \<leftarrow> uint_to_str v 16 False; Some (put_number flag_zero flag_left width False ds, ap) })
      else if c = 0x58 then (case ap of [] \<Rightarrow> None | v # ap \<Rightarrow> do {
        ds \<leftarrow> uint_to_str v 16 True; Some (put_number flag_zero flag_left width False ds, ap) })
      else if c = 0x6f then (case ap of [] \<Rightarrow> None | v # ap \<Rightarrow> do {
        ds \<leftarrow> uint_to_str v 8 False; Some (put_number flag_zero flag_left width False ds, ap) })
      else if c = 0x63 then (case ap of [] \<Rightarrow> None | v # ap \<Rightarrow> Some (put_text flag_left width [ucast v], ap))
      else if c = 0x73 then (case ap of [] \<Rightarrow> None | v # ap \<Rightarrow> do {
        cs \<leftarrow> (if v = 0 then Some null_str else str_loop m v []);
        Some (put_text flag_left width cs, ap) })
      else if c = 0x25 then Some ([0x25], ap)
      else Some ([0x25, c], ap))"

partial_function (option) format_loop :: "mem \<Rightarrow> u32 \<Rightarrow> u32 list \<Rightarrow> u8 list \<Rightarrow> u8 list option" where
  "format_loop m fmt ap out =
     (if m fmt = 0 then Some out
      else if m fmt \<noteq> 0x25 then format_loop m (fmt + 1) ap (out @ [m fmt])
      else do {
        (flag_zero, flag_left, fmt) \<leftarrow> flag_loop m (fmt + 1) False False;
        (width, fmt) \<leftarrow> width_loop m fmt 0;
        let flag_zero = (if flag_left then False else flag_zero);
        (cs, ap) \<leftarrow> convert m (m fmt) flag_zero flag_left width ap;
        format_loop m (fmt + 1) ap (out @ cs)
      })"

declare format_loop.simps [code]

definition vsprintf :: "mem \<Rightarrow> u32 \<Rightarrow> u32 list \<Rightarrow> (u8 list \<times> int) option" where
  "vsprintf m fmt ap = do { out \<leftarrow> format_loop m fmt ap []; Some (out @ [0], int (length out)) }"

definition sprintf :: "mem \<Rightarrow> u32 \<Rightarrow> u32 list \<Rightarrow> (u8 list \<times> int) option" where
  "sprintf m fmt ap = vsprintf m fmt ap"

text \<open>\<^verbatim>\<open>printf\<close> formats into a buffer of 1024 bytes on its stack and writes it to descriptor 1; more output
  than that overruns the buffer, which is \<open>None\<close>. The system call is the parameter \<open>wr\<close>.\<close>

definition printf :: "(int \<Rightarrow> u8 list \<Rightarrow> u32 \<Rightarrow> 'r) \<Rightarrow> mem \<Rightarrow> u32 \<Rightarrow> u32 list \<Rightarrow> 'r option" where
  "printf wr m fmt ap = do {
     (bs, len) \<leftarrow> vsprintf m fmt ap;
     ASSERT (length bs \<le> 1024);
     Some (wr 1 bs (word_of_int len))
   }"

subsection \<open>Numbers\<close>

text \<open>Reading a numeral back.\<close>

definition char_val :: "u8 \<Rightarrow> nat" where
  "char_val c = (if c < 0x3a then unat c - 0x30 else if c < 0x61 then unat c - 0x41 + 10 else unat c - 0x61 + 10)"

definition numeral_val :: "nat \<Rightarrow> u8 list \<Rightarrow> nat" where
  "numeral_val base ds = foldl (\<lambda>a c. a * base + char_val c) 0 ds"

definition numeral_val_rev :: "nat \<Rightarrow> u8 list \<Rightarrow> nat" where
  "numeral_val_rev base ds = foldr (\<lambda>c a. char_val c + base * a) ds 0"

lemma numeral_val_rev: "numeral_val base (rev ds) = numeral_val_rev base ds"
  by (simp add: numeral_val_def numeral_val_rev_def foldl_conv_foldr mult.commute add.commute)

lemma char_val_digit: "d < 16 \<Longrightarrow> char_val (digit_char upper d) = unat d"
proof -
  assume "d < 16"
  then have d: "unat d < 16" by (simp add: word_less_nat_alt)
  have u: "unat (0x30 + ucast e :: u8) = 0x30 + unat e" "unat (0x41 + ucast e :: u8) = 0x41 + unat e"
    "unat (0x61 + ucast e :: u8) = 0x61 + unat e" if "unat e < 16" for e :: u32
    using that by (simp_all add: unat_word_ariths unsigned_ucast_eq take_bit_eq_mod)
  show ?thesis
  proof (cases "d < 10")
    case True
    then show ?thesis using u(1) [OF d] by (simp add: char_val_def digit_char_def word_less_nat_alt)
  next
    case False
    then have "unat (d - 10) = unat d - 10" by (simp add: unat_sub word_le_nat_alt word_less_nat_alt)
    moreover have "10 \<le> unat d" using False by (simp add: word_less_nat_alt)
    ultimately show ?thesis using u(2,3) [of "d - 10"] d False
      by (simp add: char_val_def digit_char_def word_less_nat_alt)
  qed
qed

lemma digit_char_nonzero: "d < 16 \<Longrightarrow> digit_char upper d = 0x30 \<Longrightarrow> d = 0"
  using char_val_digit [of d upper] by (simp add: char_val_def unat_eq_zero)

lemma digit_loop_val:
  assumes "2 \<le> unat base" and "unat base \<le> 16"
  shows "\<exists>ds. digit_loop v base upper tmp = Some (tmp @ ds) \<and> numeral_val_rev (unat base) ds = unat v \<and>
    (v \<noteq> 0 \<longrightarrow> ds \<noteq> [] \<and> last ds \<noteq> 0x30)"
proof (induction "unat v" arbitrary: v tmp rule: less_induct)
  case less
  show ?case
  proof (cases "v = 0")
    case True
    then show ?thesis by (simp add: digit_loop.simps numeral_val_rev_def)
  next
    case False
    have u: "unat (v div base) = unat v div unat base" by (simp add: unat_div)
    have m: "unat (v mod base) = unat v mod unat base" by (simp add: unat_mod)
    have "unat (v mod base) < unat base" unfolding m using assms(1) by (intro mod_less_divisor) simp
    then have d: "v mod base < 16" using assms(2) by (simp add: word_less_nat_alt)
    have "unat (v div base) < unat v" using False assms(1) u by (simp add: unat_gt_0 div_less_dividend)
    from less [OF this, of "tmp @ [digit_char upper (v mod base)]"] obtain ds where
      ds: "digit_loop (v div base) base upper (tmp @ [digit_char upper (v mod base)]) = Some ((tmp @ [digit_char upper (v mod base)]) @ ds)"
      "numeral_val_rev (unat base) ds = unat (v div base)" "v div base \<noteq> 0 \<longrightarrow> ds \<noteq> [] \<and> last ds \<noteq> 0x30" by blast
    let ?ds = "digit_char upper (v mod base) # ds"
    have "digit_loop v base upper tmp = Some (tmp @ ?ds)" using False ds(1) by (simp add: digit_loop.simps [of v])
    moreover have "numeral_val_rev (unat base) ?ds = unat v"
      using ds(2) char_val_digit [OF d, of upper] u m by (simp add: numeral_val_rev_def)
    moreover have "last ?ds \<noteq> 0x30"
    proof (cases "v div base = 0")
      case True
      then have "unat v mod unat base = unat v" using u by (metis add.left_neutral div_mult_mod_eq mult_zero_left unat_0)
      then have "v mod base = v" using m by (simp add: word_unat_eq_iff)
      moreover have "ds = []" using ds(1) True by (simp add: digit_loop.simps [of 0])
      ultimately show ?thesis using False digit_char_nonzero [of v upper] d by auto
    qed (use ds(3) in simp)
    ultimately show ?thesis by blast
  qed
qed

lemma uint_to_str_val:
  assumes "2 \<le> unat base" and "unat base \<le> 16"
  shows "\<exists>ds. uint_to_str v base upper = Some ds \<and> numeral_val (unat base) ds = unat v \<and> ds \<noteq> [] \<and>
    (hd ds = 0x30 \<longrightarrow> ds = [0x30])"
proof (cases "v = 0")
  case True
  then show ?thesis by (simp add: uint_to_str_def numeral_val_def char_val_def)
next
  case False
  obtain ds where "digit_loop v base upper [] = Some ds" "numeral_val_rev (unat base) ds = unat v" "ds \<noteq> []" "last ds \<noteq> 0x30"
    using digit_loop_val [OF assms, of v upper "[]"] False by auto
  then show ?thesis using False by (auto simp: uint_to_str_def numeral_val_rev hd_rev)
qed

text \<open>C39: Printing a number and reading it back: for the bases the formatter uses (8, 10, 16) \<open>uint_to_str\<close>
  returns for every 32-bit value, in both letter cases, a numeral that denotes the value and has
  no leading zero.\<close>

theorem uint_to_str_roundtrip:
  assumes "base \<in> {8, 10, 16}"
  shows "\<exists>ds. uint_to_str v base upper = Some ds \<and> numeral_val (unat base) ds = unat v \<and> ds \<noteq> [] \<and>
    (hd ds = 0x30 \<longrightarrow> ds = [0x30])"
  using assms by (intro uint_to_str_val) auto

theorem uint_to_str_roundtrip_witness: "\<exists>ds. uint_to_str 0xdeadbeef 16 True = Some ds \<and> numeral_val 16 ds = 3735928559"
  using uint_to_str_roundtrip [of 16 "0xdeadbeef" True] by auto

text \<open>A width is read as digits from 1 to 9 only, so \<^verbatim>\<open>"%10d"\<close> is not a field of width 10: the conversion
  character found is the \<^verbatim>\<open>0\<close>, which is not known and is written out after a percent sign, and the argument
  is not consumed; \<^verbatim>\<open>"%5d"\<close> works.\<close>

theorem width_with_zero_digit:
  "vsprintf (put_bytes (\<lambda>_. 0) 100 [0x25, 0x31, 0x30, 0x64, 0]) 100 [7] = Some ([0x25, 0x30, 0x64, 0], 3) \<and>
   vsprintf (put_bytes (\<lambda>_. 0) 100 [0x25, 0x35, 0x64, 0]) 100 [7] = Some ([0x20, 0x20, 0x20, 0x20, 0x37, 0], 5)"
  by code_simp

end
