(* ===== verification/Thread.thy ===== *)
theory Thread
  imports Malloc Blocking
begin

text \<open>
  The creation of threads in \<^verbatim>\<open>thread/thread.c\<close>: process identifiers, the initial PCB, the initial kernel
  stack, and the start of the thread system. A PCB is created at the address of its page; the two
  structures \<open>thread_create\<close> lays out at the top of the kernel stack are kept under their addresses. Code
  addresses are symbolic.
\<close>

datatype code_ptr = NULL_CODE | KERNEL_THREAD | IDLE | START_PROCESS | Code u32

record intr_stack =
  is_vec_no :: u32
  is_edi :: u32
  is_esi :: u32
  is_ebp :: u32
  is_esp_dummy :: u32
  is_ebx :: u32
  is_edx :: u32
  is_ecx :: u32
  is_eax :: u32
  is_gs :: u32
  is_fs :: u32
  is_es :: u32
  is_ds :: u32
  is_err_code :: u32
  is_eip :: code_ptr
  is_cs :: u32
  is_eflags :: u32
  is_esp :: u32
  is_ss :: u32

record thread_stack =
  ts_ebp :: u32
  ts_ebx :: u32
  ts_edi :: u32
  ts_esi :: u32
  ts_eip :: code_ptr
  ts_function :: code_ptr
  ts_func_arg :: u32

record tkernel = mkernel +
  next_pid :: u32
  pid_lock :: lock
  main_thread :: ptr
  intr_stacks :: "u32 \<Rightarrow> intr_stack option"
  thread_stacks :: "u32 \<Rightarrow> thread_stack option"

definition MAX_FILES_OPEN_PER_PROC :: nat where "MAX_FILES_OPEN_PER_PROC = 128"

definition SELECTOR_K_CODE :: u32 where "SELECTOR_K_CODE = push_bit 3 1 + push_bit 2 0 + 0"
definition SELECTOR_K_DATA :: u32 where "SELECTOR_K_DATA = push_bit 3 2 + push_bit 2 0 + 0"
definition SELECTOR_U_CODE :: u32 where "SELECTOR_U_CODE = push_bit 3 5 + push_bit 2 0 + 3"
definition SELECTOR_U_DATA :: u32 where "SELECTOR_U_DATA = push_bit 3 6 + push_bit 2 0 + 3"
definition EFLAGS_MBS :: u32 where "EFLAGS_MBS = push_bit 1 1"
definition EFLAGS_IF_1 :: u32 where "EFLAGS_IF_1 = push_bit 9 1"
definition EFLAGS_IOPL_0 :: u32 where "EFLAGS_IOPL_0 = push_bit 12 0"

definition sizeof_intr_stack :: u32 where "sizeof_intr_stack = 19 * 4"
definition sizeof_thread_stack :: u32 where "sizeof_thread_stack = 8 * 4"

subsection \<open>Creating a thread\<close>

definition allocate_pid :: "'a tkernel_scheme \<Rightarrow> (u32 \<times> 'a tkernel_scheme) option" where
  "allocate_pid s = do {
     (l, s) \<leftarrow> lock_acquire (pid_lock s) s;
     let s = s\<lparr>pid_lock := l\<rparr>;
     let p = next_pid s;
     let s = s\<lparr>next_pid := next_pid s + 1\<rparr>;
     (l, s) \<leftarrow> lock_release (pid_lock s) s;
     Some (p, s\<lparr>pid_lock := l\<rparr>)
   }"

text \<open>A PCB of zero bytes.\<close>

definition zero_task :: task_struct where
  "zero_task = \<lparr>self_kstack = 0, pid = 0, status = TASK_RUNNING, priority = 0, name = [], task_ticks = 0,
     elapsed_ticks = 0, vruntime = 0, weight = 0, exec_start = 0, sum_exec_runtime = 0, pgdir = 0,
     userprog_vaddr = \<lparr>vaddr_bitmap = \<lparr>btmp_bytes_len = 0, bits = []\<rparr>, vaddr_start = 0\<rparr>,
     u_block_descs = replicate 7 \<lparr>block_size = 0, blocks_per_arena = 0, free_list = []\<rparr>,
     fd_table = replicate MAX_FILES_OPEN_PER_PROC 0, cwd_inode_nr = 0, stack_magic = 0\<rparr>"

text \<open>\<^verbatim>\<open>memset\<close> asserts that the PCB is not at \<^verbatim>\<open>NULL\<close>; a name of more than 15 characters would overrun its array.\<close>

definition init_thread :: "u32 \<Rightarrow> u8 list \<Rightarrow> int \<Rightarrow> 'a tkernel_scheme \<Rightarrow> 'a tkernel_scheme option" where
  "init_thread pthread nm prio s = do {
     ASSERT (pthread \<noteq> 0);
     (new_pid, s) \<leftarrow> allocate_pid s;
     ASSERT (length nm < 16);
     w \<leftarrow> nice_to_weight (word_of_int (prio - 20));
     let t = zero_task\<lparr>pid := new_pid, name := nm, status := TASK_READY, priority := word_of_int prio,
       vruntime := 0, weight := w, exec_start := 0, sum_exec_runtime := 0,
       self_kstack := pthread + PG_SIZE,
       fd_table := [0, 1, 2] @ replicate (MAX_FILES_OPEN_PER_PROC - 3) (-1),
       cwd_inode_nr := 0, stack_magic := 0x19870916\<rparr>;
     Some (s\<lparr>tasks := (tasks s)(unat pthread \<mapsto> t),
       tasks_timeline := (tasks_timeline s)\<lparr>nodes := (nodes (tasks_timeline s))(unat pthread \<mapsto>
         \<lparr>rb_parent = None, rb_left = None, rb_right = None, rb_color = RB_RED\<rparr>)\<rparr>\<rparr>)
   }"

definition thread_create :: "u32 \<Rightarrow> code_ptr \<Rightarrow> u32 \<Rightarrow> 'a tkernel_scheme \<Rightarrow> 'a tkernel_scheme option" where
  "thread_create pthread function func_arg s = do {
     s \<leftarrow> upd_task (Some (unat pthread)) (\<lambda>t. t\<lparr>self_kstack := self_kstack t - sizeof_intr_stack\<rparr>) s;
     t \<leftarrow> tasks s (unat pthread);
     let s = s\<lparr>intr_stacks := (intr_stacks s)(self_kstack t \<mapsto>
       \<lparr>is_vec_no = 0, is_edi = 0, is_esi = 0, is_ebp = 0, is_esp_dummy = 0, is_ebx = 0, is_edx = 0, is_ecx = 0, is_eax = 0,
        is_gs = 0, is_fs = SELECTOR_K_DATA, is_es = SELECTOR_K_DATA, is_ds = SELECTOR_K_DATA, is_err_code = 0,
        is_eip = NULL_CODE, is_cs = SELECTOR_K_CODE, is_eflags = EFLAGS_IOPL_0 OR EFLAGS_MBS OR EFLAGS_IF_1,
        is_esp = 0, is_ss = 0\<rparr>)\<rparr>;
     s \<leftarrow> upd_task (Some (unat pthread)) (\<lambda>t. t\<lparr>self_kstack := self_kstack t - sizeof_thread_stack\<rparr>) s;
     t \<leftarrow> tasks s (unat pthread);
     Some (s\<lparr>thread_stacks := (thread_stacks s)(self_kstack t \<mapsto>
       \<lparr>ts_ebp = 0, ts_ebx = 0, ts_edi = 0, ts_esi = 0, ts_eip = KERNEL_THREAD, ts_function = function,
        ts_func_arg = func_arg\<rparr>)\<rparr>)
   }"

definition thread_start :: "u8 list \<Rightarrow> int \<Rightarrow> code_ptr \<Rightarrow> u32 \<Rightarrow> 'a tkernel_scheme \<Rightarrow> (u32 \<times> 'a tkernel_scheme) option" where
  "thread_start nm prio function func_arg s = do {
     (thread, s) \<leftarrow> get_kernel_pages 1 s;
     s \<leftarrow> init_thread thread nm prio s;
     s \<leftarrow> thread_create thread function func_arg s;
     s \<leftarrow> enqueue_task (Some (unat thread)) s;
     Some (thread, s\<lparr>thread_all_list := thread_all_list s @ [unat thread]\<rparr>)
   }"

subsection \<open>Starting the thread system\<close>

definition make_main_thread :: "'a tkernel_scheme \<Rightarrow> 'a tkernel_scheme option" where
  "make_main_thread s = do {
     let main = running s;
     let s = s\<lparr>main_thread := Some main\<rparr>;
     s \<leftarrow> init_thread (word_of_nat main) [0x6d, 0x61, 0x69, 0x6e] 0 s;
     s \<leftarrow> upd_task (Some main) (\<lambda>t. t\<lparr>status := TASK_RUNNING\<rparr>) s;
     let s = s\<lparr>thread_all_list := thread_all_list s @ [main]\<rparr>;
     let s = s\<lparr>current_thread := Some main\<rparr>;
     upd_task (Some main) (\<lambda>t. t\<lparr>exec_start := ucast (elapsed_ticks t)\<rparr>) s
   }"

definition thread_init :: "'a tkernel_scheme \<Rightarrow> 'a tkernel_scheme option" where
  "thread_init s = do {
     let s = s\<lparr>thread_all_list := []\<rparr>;
     let s = s\<lparr>pid_lock := lock_init\<rparr>;
     let s = sched_init s;
     s \<leftarrow> make_main_thread s;
     (t, s) \<leftarrow> thread_start [0x69, 0x64, 0x6c, 0x65] 10 IDLE 0 s;
     Some (s\<lparr>idle_thread := Some (unat t)\<rparr>)
   }"

text \<open>The entry of a thread: interrupts on, then its function (behind which it spins). One round of the idle thread; \<^verbatim>\<open>hlt\<close> waits for the
  next interrupt.\<close>

definition kernel_thread :: "(u32 \<Rightarrow> 'a kernel_scheme \<Rightarrow> 'a kernel_scheme option) \<Rightarrow> u32 \<Rightarrow> 'a kernel_scheme \<Rightarrow> 'a kernel_scheme option" where
  "kernel_thread function func_arg s = function func_arg (s\<lparr>eflags := sti (eflags s)\<rparr>)"

definition idle_round :: "'a kernel_scheme \<Rightarrow> 'a kernel_scheme option" where
  "idle_round s = do { s \<leftarrow> thread_block TASK_BLOCKED s; Some (s\<lparr>eflags := sti (eflags s)\<rparr>) }"

end
