(* ===== verification/Tss.thy ===== *)
theory Tss
  imports Thread
begin

text \<open>
  \<^verbatim>\<open>userprog/tss.c\<close>: the task state segment and the three descriptors \<open>tss_init\<close> adds to the global descriptor
  table, with the attribute constants of \<^verbatim>\<open>kernel/global.h\<close>; and the rest of \<^verbatim>\<open>device/timer.c\<close>: the programming of
  the timer chip (as the bytes written to its ports) and the sleeping calls.
\<close>

record gdt_desc =
  limit_low_word :: u16
  base_low_word :: u16
  base_mid_byte :: u8
  attr_low_byte :: u8
  limit_high_attr_high :: u8
  base_high_byte :: u8

record tss =
  f_backlink :: u32
  f_esp0 :: u32
  f_ss0 :: u32
  f_esp1 :: u32
  f_ss1 :: u32
  f_esp2 :: u32
  f_ss2 :: u32
  f_cr3 :: u32
  f_eip :: u32
  f_eflags :: u32
  f_eax :: u32
  f_ecx :: u32
  f_edx :: u32
  f_ebx :: u32
  f_esp :: u32
  f_ebp :: u32
  f_esi :: u32
  f_edi :: u32
  f_es :: u32
  f_cs :: u32
  f_ss :: u32
  f_ds :: u32
  f_fs :: u32
  f_gs :: u32
  f_ldt :: u32
  f_trace :: u32
  f_io_base :: u32

text \<open>Its layout: 27 words, in this order.\<close>

definition tss_words :: "tss \<Rightarrow> u32 list" where
  "tss_words t = [f_backlink t, f_esp0 t, f_ss0 t, f_esp1 t, f_ss1 t, f_esp2 t, f_ss2 t, f_cr3 t, 
     f_eip t, f_eflags t, f_eax t, f_ecx t, f_edx t, f_ebx t, f_esp t, f_ebp t, f_esi t, f_edi t, 
     f_es t, f_cs t, f_ss t, f_ds t, f_fs t, f_gs t, f_ldt t, f_trace t, f_io_base t]"

definition zero_tss :: tss where
  "zero_tss = \<lparr>f_backlink = 0, f_esp0 = 0, f_ss0 = 0, f_esp1 = 0, f_ss1 = 0, f_esp2 = 0, f_ss2 = 0, f_cr3 = 0, 
     f_eip = 0, f_eflags = 0, f_eax = 0, f_ecx = 0, f_edx = 0, f_ebx = 0, f_esp = 0, f_ebp = 0, f_esi = 0, f_edi = 0, 
     f_es = 0, f_cs = 0, f_ss = 0, f_ds = 0, f_fs = 0, f_gs = 0, f_ldt = 0, f_trace = 0, f_io_base = 0\<rparr>"

definition make_gdt_desc :: "u32 \<Rightarrow> u32 \<Rightarrow> u8 \<Rightarrow> u8 \<Rightarrow> gdt_desc" where
  "make_gdt_desc desc_base limit attr_low attr_high =
     \<lparr>limit_low_word = ucast (limit AND 0x0000ffff),
      base_low_word = ucast (desc_base AND 0x0000ffff),
      base_mid_byte = ucast (drop_bit 16 (desc_base AND 0x00ff0000)),
      attr_low_byte = attr_low,
      limit_high_attr_high = ucast (drop_bit 16 (limit AND 0x000f0000) + ucast attr_high),
      base_high_byte = ucast (drop_bit 24 desc_base)\<rparr>"

definition GDT_ATTR_HIGH :: u8 where
  "GDT_ATTR_HIGH = push_bit 7 1 + push_bit 6 1 + push_bit 5 0 + push_bit 4 0"
definition GDT_CODE_ATTR_LOW_DPL3 :: u8 where
  "GDT_CODE_ATTR_LOW_DPL3 = push_bit 7 1 + push_bit 5 3 + push_bit 4 1 + 8"
definition GDT_DATA_ATTR_LOW_DPL3 :: u8 where
  "GDT_DATA_ATTR_LOW_DPL3 = push_bit 7 1 + push_bit 5 3 + push_bit 4 1 + 2"
definition TSS_ATTR_HIGH :: u8 where
  "TSS_ATTR_HIGH = push_bit 7 0 + push_bit 6 0 + push_bit 5 0 + push_bit 4 0 + 0"
definition TSS_ATTR_LOW :: u8 where
  "TSS_ATTR_LOW = push_bit 7 1 + push_bit 5 0 + push_bit 4 0 + 9"
definition SELECTOR_TSS :: u32 where "SELECTOR_TSS = push_bit 3 4 + push_bit 2 0 + 0"

definition sizeof_tss :: u32 where "sizeof_tss = 27 * 4"

text \<open>The segment, the table from descriptor 0 on, and the task register; \<open>tss_addr\<close> is where the linker puts
  the segment.\<close>

definition tss_init :: "u32 \<Rightarrow> gdt_desc list \<Rightarrow> (tss \<times> gdt_desc list \<times> u32) option" where
  "tss_init tss_addr gdt = do {
     let tss_size = sizeof_tss;
     let t = zero_tss\<lparr>f_ss0 := SELECTOR_K_DATA, f_io_base := tss_size\<rparr>;
     gdt \<leftarrow> arr_set gdt 4 (make_gdt_desc tss_addr (tss_size - 1) TSS_ATTR_LOW TSS_ATTR_HIGH);
     gdt \<leftarrow> arr_set gdt 5 (make_gdt_desc 0 0xfffff GDT_CODE_ATTR_LOW_DPL3 GDT_ATTR_HIGH);
     gdt \<leftarrow> arr_set gdt 6 (make_gdt_desc 0 0xfffff GDT_DATA_ATTR_LOW_DPL3 GDT_ATTR_HIGH);
     Some (t, gdt, SELECTOR_TSS)
   }"

subsection \<open>The timer\<close>

definition IRQ0_FREQUENCY :: u32 where "IRQ0_FREQUENCY = 100"
definition INPUT_FREQUENCY :: u32 where "INPUT_FREQUENCY = 1193180"
definition COUNTER0_VALUE :: u16 where "COUNTER0_VALUE = ucast (INPUT_FREQUENCY div IRQ0_FREQUENCY)"
definition mil_seconds_per_intr :: u32 where "mil_seconds_per_intr = 1000 div IRQ0_FREQUENCY"

definition frequency_set :: "u8 \<Rightarrow> u8 \<Rightarrow> u8 \<Rightarrow> u8 \<Rightarrow> u16 \<Rightarrow> (u16 \<times> u8) list" where
  "frequency_set counter_port counter_no rwl counter_mode counter_value =
     [(0x43, push_bit 6 counter_no OR push_bit 4 rwl OR push_bit 1 counter_mode),
      (ucast counter_port, ucast counter_value),
      (ucast counter_port, drop_bit 8 (ucast counter_value))]"

text \<open>The new tick count, the bytes written to the ports, and the handler table.\<close>

definition timer_init :: "intr_handler \<Rightarrow> intr_handler list \<Rightarrow> (u32 \<times> (u16 \<times> u8) list \<times> intr_handler list) option" where
  "timer_init handler idt_table = do {
     t \<leftarrow> arr_set idt_table 0x20 handler;
     Some (0, frequency_set 0x40 0 3 2 COUNTER0_VALUE, t)
   }"

text \<open>The loop of \<^verbatim>\<open>ticks_to_sleep\<close>: the tick counter is advanced by interrupts, so the values it shows at
  successive tests of the condition are an argument; the result is the number of yields.\<close>

primrec ticks_to_sleep :: "u32 \<Rightarrow> u32 \<Rightarrow> u32 list \<Rightarrow> nat \<Rightarrow> nat option" where
  "ticks_to_sleep start_tick sleep_ticks [] n = None"
| "ticks_to_sleep start_tick sleep_ticks (ticks # later) n =
     (if ticks - start_tick < sleep_ticks then ticks_to_sleep start_tick sleep_ticks later (Suc n) else Some n)"

definition mtime_sleep :: "u32 \<Rightarrow> u32 list \<Rightarrow> nat option" where
  "mtime_sleep m_seconds seen = do {
     let sleep_ticks = (m_seconds + mil_seconds_per_intr - 1) div mil_seconds_per_intr;
     ASSERT (sleep_ticks > 0);
     (case seen of [] \<Rightarrow> None | start_tick # later \<Rightarrow> ticks_to_sleep start_tick sleep_ticks later 0)
   }"

subsection \<open>Descriptors\<close>

text \<open>How the processor reads a descriptor.\<close>

definition desc_base_of :: "gdt_desc \<Rightarrow> u32" where
  "desc_base_of d = ucast (base_low_word d) OR push_bit 16 (ucast (base_mid_byte d)) OR push_bit 24 (ucast (base_high_byte d))"

definition desc_limit_of :: "gdt_desc \<Rightarrow> u32" where
  "desc_limit_of d = ucast (limit_low_word d) OR push_bit 16 (ucast (limit_high_attr_high d AND 0xf))"

definition desc_dpl :: "gdt_desc \<Rightarrow> u8" where
  "desc_dpl d = drop_bit 5 (attr_low_byte d) AND 3"

text \<open>The processor's check of a port access from ring 3 with I/O privilege level 0: the 16-bit bitmap
  base is at offset 102 of the segment, and the access is allowed when the bit of the port, inside the
  segment limit, is clear.\<close>

definition tss_byte :: "tss \<Rightarrow> nat \<Rightarrow> u8" where
  "tss_byte t i = ucast (drop_bit (8 * (i mod 4)) (tss_words t ! (i div 4)))"

definition io_map_base :: "tss \<Rightarrow> nat" where
  "io_map_base t = unat (tss_byte t 102) + 256 * unat (tss_byte t 103)"

definition port_allowed :: "tss \<Rightarrow> nat \<Rightarrow> nat \<Rightarrow> bool" where
  "port_allowed t limit port \<longleftrightarrow> io_map_base t + port div 8 + 1 \<le> limit \<and> \<not> bit (tss_byte t (io_map_base t + port div 8)) (port mod 8)"

lemma gdt_masks:
  "(0x0000ffff :: u32) = mask 16" "(0x00ff0000 :: u32) = push_bit 16 (mask 8)" "(0x000f0000 :: u32) = push_bit 16 (mask 4)"
  "(0xfffff :: u32) = mask 20" "(0xf :: u8) = mask 4"
  by (simp_all add: mask_eq_exp_minus_1)

text \<open>The limit nibble and the high attributes share a byte without touching each other.\<close>

lemma limit_nibble:
  assumes "(attr_high :: u8) AND 0xf = 0"
  shows "ucast (drop_bit 16 (limit AND 0x000f0000) + ucast attr_high :: u32) AND (0xf :: u8) = ucast (take_bit 4 (drop_bit 16 limit))"
proof -
  have d: "drop_bit 16 (limit AND 0x000f0000) = take_bit 4 (drop_bit 16 limit)" unfolding gdt_masks
    by (rule bit_word_eqI) (auto simp: bit_and_iff bit_push_bit_iff bit_drop_bit_eq bit_mask_iff bit_take_bit_iff)
  have "take_bit 4 attr_high = 0" using assms by (simp add: take_bit_eq_mask mask_eq_exp_minus_1)
  then have "unat attr_high mod 16 = 0" by (simp add: take_bit_eq_mod word_unat_eq_iff unat_mod)
  then obtain k where k: "unat attr_high = 16 * k" by (auto simp: mod_eq_0_iff_dvd)
  let ?l = "take_bit 4 (drop_bit 16 limit)"
  have l: "unat ?l < 16" by (simp add: take_bit_eq_mod unat_mod)
  have ab: "unat attr_high < 256" using unsigned_less [of attr_high, where ?'a = nat] by simp
  have "unat (ucast (?l + ucast attr_high :: u32) :: u8) = (unat ?l + 16 * k) mod 256"
    using l ab k by (simp add: unsigned_ucast_eq take_bit_eq_mod unat_word_ariths del: unsigned_take_bit_eq)
  then have "unat (ucast (?l + ucast attr_high :: u32) AND (0xf :: u8)) = unat ?l"
    unfolding gdt_masks using l k ab by (simp add: take_bit_eq_mod unat_mod del: unsigned_take_bit_eq flip: take_bit_eq_mask)
  moreover have "unat (ucast ?l :: u8) = unat ?l" using l by (simp add: unsigned_ucast_eq take_bit_eq_mod del: unsigned_take_bit_eq)
  ultimately show ?thesis unfolding d by (simp only: word_unat_eq_iff)
qed




text \<open>The bitmap base of the task state segment: the C structure keeps it in a 32-bit word of its own at
  offset 104, the processor reads 16 bits at offset 102, which are the upper half of the word before
  it and 0. So the segment itself serves as the I/O permission bitmap, and after \<open>tss_init\<close>, whatever
  kernel stack is entered later, code in ring 3 may access the keyboard and the disk ports, although the
  I/O privilege level is 0 and the comment says that there is no bitmap.\<close>

theorem tss_leaves_ports_open:
  assumes "tss_init a gdt = Some (t, gdt', sel)"
  shows "f_io_base t = sizeof_tss \<and> io_map_base (t\<lparr>f_esp0 := e\<rparr>) = 0 \<and>
    (\<forall>port \<in> {0x60, 0x1f0, 0x1f7}. port_allowed (t\<lparr>f_esp0 := e\<rparr>) (unat (sizeof_tss - 1)) port)"
proof -
  have t: "t = zero_tss\<lparr>f_ss0 := SELECTOR_K_DATA, f_io_base := sizeof_tss\<rparr>"
    using assms by (auto simp: tss_init_def bind_eq_Some_conv)
  show ?thesis unfolding t
    by (simp add: port_allowed_def io_map_base_def tss_byte_def tss_words_def zero_tss_def sizeof_tss_def)
qed

theorem tss_leaves_ports_open_witness:
  "port_allowed (zero_tss\<lparr>f_ss0 := SELECTOR_K_DATA, f_io_base := sizeof_tss, f_esp0 := 0xc009f000\<rparr>) 107 0x1f0"
proof -
  let ?g = "replicate 64 (make_gdt_desc 0 0 0 0)"
  have "\<exists>g. tss_init 0xc0001000 ?g = Some (zero_tss\<lparr>f_ss0 := SELECTOR_K_DATA, f_io_base := sizeof_tss\<rparr>, g, SELECTOR_TSS)"
    by (simp add: tss_init_def)
  then show ?thesis using tss_leaves_ports_open [where e = "0xc009f000"] by (fastforce simp: sizeof_tss_def)
qed

text \<open>The timer chip does not get the divisor that \<^verbatim>\<open>COUNTER0_VALUE\<close> says: the cast to 8 bits binds tighter than
  the shift, so the second byte written is 0 for every value. \<open>timer_init\<close> programs 155 instead of 11931,
  and the interrupts come at about 7698 Hz, not at \<^verbatim>\<open>IRQ0_FREQUENCY\<close>.\<close>

theorem timer_high_byte_lost:
  assumes "0x20 < length idt_table"
  shows "timer_init h idt_table = Some (0, [(0x43, 0x34), (0x40, 155), (0x40, 0)], idt_table[0x20 := h]) \<and>
    unat COUNTER0_VALUE = 11931 \<and> snd (frequency_set port no rwl mode v ! 2) = 0"
proof -
  have z: "drop_bit 8 x = 0" for x :: u8 by (rule bit_word_eqI) (auto simp: bit_drop_bit_eq dest: bit_imp_le_length)
  have c: "COUNTER0_VALUE = 11931" by (simp add: COUNTER0_VALUE_def INPUT_FREQUENCY_def IRQ0_FREQUENCY_def)
  show ?thesis unfolding c timer_init_def frequency_set_def using assms by (simp add: z)
qed

theorem timer_high_byte_lost_witness:
  "timer_init (Handler 1) (replicate 129 general_intr_handler) =
     Some (0, [(0x43, 0x34), (0x40, 155), (0x40, 0)], (replicate 129 general_intr_handler)[0x20 := Handler 1])"
  using timer_high_byte_lost [of "replicate 129 general_intr_handler" "Handler 1"] by simp

end
