(* ===== verification/Process.thy ===== *)
theory Process
  imports Thread
begin

text \<open>
  \<^verbatim>\<open>userprog/process.c\<close>: the page directory of a new process, its pool of virtual addresses, the PCB and the
  initial stacks, and the first entry into user mode. (\<open>page_dir_activate\<close> and \<open>process_activate\<close> are in \<open>Task\<close>,
  where the scheduler needs them.)
\<close>

definition USER_STACK3_VADDR :: u32 where "USER_STACK3_VADDR = 0xc0000000 - PG_SIZE"
definition USER_VADDR_START :: u32 where "USER_VADDR_START = 0x8048000"

text \<open>\<^verbatim>\<open>memcpy\<close> of \<open>n\<close> aligned words between virtual addresses.\<close>

primrec vcopy :: "nat \<Rightarrow> u32 \<Rightarrow> u32 \<Rightarrow> 'a kernel_scheme \<Rightarrow> 'a kernel_scheme option" where
  "vcopy 0 dst src s = Some s"
| "vcopy (Suc n) dst src s = do {
     v \<leftarrow> vread src s;
     s \<leftarrow> vwrite dst v s;
     vcopy n (dst + 4) (src + 4) s
   }"

text \<open>The loop that makes the copied kernel entries accessible from user mode.\<close>

primrec open_pdes :: "nat \<Rightarrow> u32 \<Rightarrow> u32 \<Rightarrow> 'a kernel_scheme \<Rightarrow> 'a kernel_scheme option" where
  "open_pdes 0 dir pde_idx s = Some s"
| "open_pdes (Suc n) dir pde_idx s = do {
     e \<leftarrow> vread (dir + pde_idx * 4) s;
     s \<leftarrow> (if e AND 1 \<noteq> 0 then vwrite (dir + pde_idx * 4) (e OR 4) s else Some s);
     open_pdes n dir (pde_idx + 1) s
   }"

definition create_page_dir :: "'a mkernel_scheme \<Rightarrow> (u32 \<times> 'a mkernel_scheme) option" where
  "create_page_dir s = do {
     (page_dir_vaddr, s) \<leftarrow> get_kernel_pages 1 s;
     if page_dir_vaddr = 0 then Some (0, s)
     else do {
       s \<leftarrow> vcopy (1024 div 4) (page_dir_vaddr + 0x300 * 4) (0xfffff000 + 0x300 * 4) s;
       s \<leftarrow> open_pdes (1023 - 768) page_dir_vaddr 768 s;
       new_page_dir_phy_addr \<leftarrow> addr_v2p page_dir_vaddr s;
       s \<leftarrow> vwrite (page_dir_vaddr + 1023 * 4) (new_page_dir_phy_addr OR PG_ATTR) s;
       Some (page_dir_vaddr, s)
     }
   }"

text \<open>The bits of the new bitmap are the bytes of its pages, which \<open>get_kernel_pages\<close> has cleared. When there are none the
  function returns with the length still 0.\<close>

definition create_user_vaddr_bitmap :: "u32 \<Rightarrow> 'a mkernel_scheme \<Rightarrow> 'a mkernel_scheme option" where
  "create_user_vaddr_bitmap user_prog s = do {
     s \<leftarrow> upd_task (Some (unat user_prog)) (\<lambda>t. t\<lparr>userprog_vaddr := (userprog_vaddr t)\<lparr>vaddr_start := USER_VADDR_START\<rparr>\<rparr>) s;
     let len = (0xc0000000 - USER_VADDR_START) div PG_SIZE div 8;
     let bitmap_pg_cnt = DIV_ROUND_UP len PG_SIZE;
     (p, s) \<leftarrow> get_kernel_pages bitmap_pg_cnt s;
     if p = 0 then Some s
     else do {
       b \<leftarrow> bitmap_init \<lparr>btmp_bytes_len = len, bits = replicate (unat (bitmap_pg_cnt * PG_SIZE)) 0\<rparr>;
       upd_task (Some (unat user_prog)) (\<lambda>t. t\<lparr>userprog_vaddr := (userprog_vaddr t)\<lparr>vaddr_bitmap := b\<rparr>\<rparr>) s
     }
   }"

definition process_execute :: "u32 \<Rightarrow> u8 list \<Rightarrow> 'a tkernel_scheme \<Rightarrow> 'a tkernel_scheme option" where
  "process_execute filename nm s = do {
     (thread, s) \<leftarrow> get_kernel_pages 1 s;
     if thread = 0 then Some s
     else do {
       let p = Some (unat thread);
       s \<leftarrow> init_thread thread nm 31 s;
       s \<leftarrow> create_user_vaddr_bitmap thread s;
       s \<leftarrow> upd_task p (\<lambda>t. t\<lparr>u_block_descs := block_desc_init\<rparr>) s;
       s \<leftarrow> thread_create thread START_PROCESS filename s;
       (dir, s) \<leftarrow> create_page_dir s;
       s \<leftarrow> upd_task p (\<lambda>t. t\<lparr>pgdir := dir\<rparr>) s;
       s \<leftarrow> enqueue_task p s;
       let (old_status, s) = k_intr_disable s;
       ASSERT (unat thread \<notin> set (thread_all_list s));
       let s = s\<lparr>thread_all_list := thread_all_list s @ [unat thread]\<rparr>;
       Some (k_intr_set_status old_status s)
     }
   }"

text \<open>\<^verbatim>\<open>start_process\<close>, up to the jump to \<^verbatim>\<open>intr_exit\<close>, which leaves the kernel with the registers of the returned
  frame.\<close>

definition start_process :: "u32 \<Rightarrow> 'a tkernel_scheme \<Rightarrow> (intr_stack \<times> 'a tkernel_scheme) option" where
  "start_process filename s = do {
     let cur = Some (running s);
     s \<leftarrow> upd_task cur (\<lambda>t. t\<lparr>self_kstack := self_kstack t + sizeof_thread_stack\<rparr>) s;
     t \<leftarrow> task_of cur s;
     f \<leftarrow> intr_stacks s (self_kstack t);
     let f = f\<lparr>is_edi := 0, is_esi := 0, is_ebp := 0, is_esp_dummy := 0, is_ebx := 0, is_edx := 0, is_ecx := 0, is_eax := 0,
       is_gs := 0, is_ds := SELECTOR_U_DATA, is_es := SELECTOR_U_DATA, is_fs := SELECTOR_U_DATA,
       is_eip := Code filename, is_cs := SELECTOR_U_CODE, is_eflags := EFLAGS_IOPL_0 OR EFLAGS_MBS OR EFLAGS_IF_1\<rparr>;
     (stk, s) \<leftarrow> get_a_page PF_USER USER_STACK3_VADDR s;
     let f = f\<lparr>is_esp := stk + PG_SIZE, is_ss := SELECTOR_U_DATA\<rparr>;
     Some (f, s\<lparr>intr_stacks := (intr_stacks s)(self_kstack t \<mapsto> f)\<rparr>)
   }"

end
