(* ===== verification/Fs_Disk.thy ===== *)
theory Fs_Disk
  imports Allocator
begin

text \<open>
  The data of the file system (\<^verbatim>\<open>fs/super_block.h\<close>, \<^verbatim>\<open>fs/inode.h\<close>, \<^verbatim>\<open>fs/file.h\<close>, \<^verbatim>\<open>device/ide.h\<close>) and what it
  sees of the disk. The disk is a function from byte positions to bytes; \<open>disk_read\<close> and \<open>disk_write\<close>
  are what the driver \<^verbatim>\<open>device/ide.c\<close> offers: they move whole sectors and keep its assertions (\<open>Ide_Correct\<close> shows
  that \<^verbatim>\<open>ide_read\<close> and \<^verbatim>\<open>ide_write\<close> implement them). A buffer is a function from offsets to
  bytes; buffers from \<^verbatim>\<open>sys_malloc\<close> come cleared. The heap is reached through \<open>heap_ops\<close>, so that the file
  system does not depend on how the heap is kept.
  An inode lives in the store under the address \<^verbatim>\<open>sys_malloc\<close> gave it, 0 is \<^verbatim>\<open>NULL\<close>. \<open>cur_fds\<close> and \<open>cur_cwd\<close> are
  the \<^verbatim>\<open>fd_table\<close> and the \<^verbatim>\<open>cwd_inode_nr\<close> of the running process; \<open>dirs\<close> holds the \<^verbatim>\<open>struct dir\<close>s from the heap, \<open>console\<close> what
  was written to the screen, \<open>kbd\<close> the characters typed and not yet read. \<open>None\<close> is a failed \<^verbatim>\<open>ASSERT\<close>, or a read
  or write through \<^verbatim>\<open>NULL\<close> or outside an array.
\<close>

subsection \<open>Words in byte buffers\<close>

type_synonym buf = "nat \<Rightarrow> u8"

definition get32 :: "buf \<Rightarrow> nat \<Rightarrow> u32" where
  "get32 b i = ucast (b i) OR push_bit 8 (ucast (b (i + 1))) OR push_bit 16 (ucast (b (i + 2))) OR
     push_bit 24 (ucast (b (i + 3)))"

definition put32 :: "nat \<Rightarrow> u32 \<Rightarrow> buf \<Rightarrow> buf" where
  "put32 i w b = b(i := ucast w, i + 1 := ucast (drop_bit 8 w), i + 2 := ucast (drop_bit 16 w),
     i + 3 := ucast (drop_bit 24 w))"

definition get_words :: "nat \<Rightarrow> nat \<Rightarrow> buf \<Rightarrow> u32 list" where
  "get_words off n b = map (\<lambda>i. get32 b (off + 4 * i)) [0..<n]"

primrec put_words :: "nat \<Rightarrow> u32 list \<Rightarrow> buf \<Rightarrow> buf" where
  "put_words off [] b = b"
| "put_words off (w # ws) b = put_words (off + 4) ws (put32 off w b)"

subsection \<open>Constants and structures\<close>

definition BLOCK_SIZE :: nat where "BLOCK_SIZE = 4096"
definition SECTORS_PER_BLOCK :: nat where "SECTORS_PER_BLOCK = 8"
definition MAX_FILES_PER_PART :: u32 where "MAX_FILES_PER_PART = 4096"
definition BITS_PER_BLOCK :: u32 where "BITS_PER_BLOCK = 4096 * 8"
definition max_lba :: u32 where "max_lba = 80 * 1024 * 1024 div 512 - 1"
definition INODE_DIRECT_BLOCKS :: nat where "INODE_DIRECT_BLOCKS = 12"
definition INODE_INDIRECT_ENTRIES :: nat where "INODE_INDIRECT_ENTRIES = 1024"
definition INODE_SINGLE_INDIRECT :: nat where "INODE_SINGLE_INDIRECT = 12"
definition INODE_DOUBLE_INDIRECT :: nat where "INODE_DOUBLE_INDIRECT = 13"
definition INODE_TRIPLE_INDIRECT :: nat where "INODE_TRIPLE_INDIRECT = 14"
definition INODE_SECTORS_CNT :: nat where "INODE_SECTORS_CNT = 15"
definition FILE_MAX_SIZE :: u32 where "FILE_MAX_SIZE = 0xffffffff"

text \<open>\<^verbatim>\<open>sizeof(struct inode)\<close>: four words, fifteen block numbers and the two links of the list element.\<close>

definition sizeof_inode :: nat where "sizeof_inode = 84"

record super_block =
  sb_magic :: u32
  sb_sec_cnt :: u32
  sb_inode_cnt :: u32
  sb_block_size :: u32
  block_bitmap_start :: u32
  block_bitmap_blks :: u32
  inode_bitmap_start :: u32
  inode_bitmap_blks :: u32
  inode_table_start :: u32
  inode_table_blks :: u32
  data_start :: u32
  root_inode_no :: u32
  dir_entry_size :: u32

record partition =
  start_lba :: u32
  sec_cnt :: u32
  sb :: super_block
  block_bitmap :: bitmap
  inode_bitmap :: bitmap
  open_inodes :: "u32 list"

record inode =
  i_no :: u32
  i_size :: u32
  i_open_cnts :: u32
  write_deny :: bool
  i_sectors :: "u32 list"

record file_slot =
  fd_pos :: u32
  fd_flag :: u32
  fd_inode :: u32

text \<open>An open directory, \<^verbatim>\<open>struct dir\<close>: the address of its inode, the position of \<^verbatim>\<open>readdir\<close> and one block of data.\<close>

record dir =
  d_inode :: u32
  dir_pos :: u32
  dir_buf :: buf

record 'h fs =
  heap :: 'h
  disk :: buf
  cur_part :: partition
  inodes :: "u32 \<Rightarrow> inode option"
  file_table :: "file_slot list"
  cur_fds :: "int list"
  cur_cwd :: u32
  root_dir :: dir
  dirs :: "u32 \<Rightarrow> dir option"
  console :: "u8 list"
  kbd :: "u8 list"

text \<open>\<^verbatim>\<open>sys_malloc\<close> and \<^verbatim>\<open>sys_free\<close>; the flag says that \<^verbatim>\<open>cur->pgdir\<close> is \<^verbatim>\<open>NULL\<close> around the call, which makes the kernel's
  own heap serve it.\<close>

record 'h heap_ops =
  h_malloc :: "bool \<Rightarrow> u32 \<Rightarrow> 'h \<Rightarrow> (u32 \<times> 'h) option"
  h_free :: "bool \<Rightarrow> u32 \<Rightarrow> 'h \<Rightarrow> 'h option"

definition fs_malloc :: "'h heap_ops \<Rightarrow> bool \<Rightarrow> u32 \<Rightarrow> 'h fs \<Rightarrow> (u32 \<times> 'h fs) option" where
  "fs_malloc hp kern sz s = do { (p, h) \<leftarrow> h_malloc hp kern sz (heap s); Some (p, s\<lparr>heap := h\<rparr>) }"

definition fs_free :: "'h heap_ops \<Rightarrow> bool \<Rightarrow> u32 \<Rightarrow> 'h fs \<Rightarrow> 'h fs option" where
  "fs_free hp kern p s = do { h \<leftarrow> h_free hp kern p (heap s); Some (s\<lparr>heap := h\<rparr>) }"

subsection \<open>Sectors and blocks\<close>

definition disk_read :: "u32 \<Rightarrow> nat \<Rightarrow> buf \<Rightarrow> 'h fs \<Rightarrow> buf option" where
  "disk_read lba n b s = do {
     ASSERT (lba \<le> max_lba);
     ASSERT (0 < n);
     Some (\<lambda>i. if i < n * 512 then disk s (unat lba * 512 + i) else b i)
   }"

definition disk_write :: "u32 \<Rightarrow> nat \<Rightarrow> buf \<Rightarrow> 'h fs \<Rightarrow> 'h fs option" where
  "disk_write lba n b s = do {
     ASSERT (lba \<le> max_lba);
     ASSERT (0 < n);
     Some (s\<lparr>disk := \<lambda>a. if unat lba * 512 \<le> a \<and> a < (unat lba + n) * 512 then b (a - unat lba * 512) else disk s a\<rparr>)
   }"

definition blk2lba :: "'h fs \<Rightarrow> u32 \<Rightarrow> u32" where
  "blk2lba s block_no = start_lba (cur_part s) + block_no * 8"

definition bidx2blk :: "'h fs \<Rightarrow> u32 \<Rightarrow> u32" where
  "bidx2blk s bit_idx = data_start (sb (cur_part s)) + bit_idx"

definition blk2bidx :: "'h fs \<Rightarrow> u32 \<Rightarrow> u32" where
  "blk2bidx s block_no = block_no - data_start (sb (cur_part s))"

text \<open>A block as a table of 1024 block numbers, and the write of one back.\<close>

definition read_block :: "u32 \<Rightarrow> buf \<Rightarrow> 'h fs \<Rightarrow> buf option" where
  "read_block blk b s = disk_read (blk2lba s blk) SECTORS_PER_BLOCK b s"

definition write_block :: "u32 \<Rightarrow> buf \<Rightarrow> 'h fs \<Rightarrow> 'h fs option" where
  "write_block blk b s = disk_write (blk2lba s blk) SECTORS_PER_BLOCK b s"

definition tbl_get :: "buf \<Rightarrow> nat \<Rightarrow> u32 option" where
  "tbl_get tbl i = (if i < INODE_INDIRECT_ENTRIES then Some (get32 tbl (4 * i)) else None)"

definition tbl_set :: "buf \<Rightarrow> nat \<Rightarrow> u32 \<Rightarrow> buf option" where
  "tbl_set tbl i v = (if i < INODE_INDIRECT_ENTRIES then Some (put32 (4 * i) v tbl) else None)"

definition upd_part :: "(partition \<Rightarrow> partition) \<Rightarrow> 'h fs \<Rightarrow> 'h fs" where
  "upd_part f s = s\<lparr>cur_part := f (cur_part s)\<rparr>"

definition upd_inode :: "u32 \<Rightarrow> (inode \<Rightarrow> inode) \<Rightarrow> 'h fs \<Rightarrow> 'h fs option" where
  "upd_inode p f s = do { i \<leftarrow> inodes s p; Some (s\<lparr>inodes := (inodes s)(p \<mapsto> f i)\<rparr>) }"

definition set_sector :: "u32 \<Rightarrow> nat \<Rightarrow> u32 \<Rightarrow> 'h fs \<Rightarrow> 'h fs option" where
  "set_sector p k v s = do {
     i \<leftarrow> inodes s p;
     ss \<leftarrow> arr_set (i_sectors i) k v;
     upd_inode p (\<lambda>i. i\<lparr>i_sectors := ss\<rparr>) s
   }"

definition get_sector :: "u32 \<Rightarrow> nat \<Rightarrow> 'h fs \<Rightarrow> u32 option" where
  "get_sector p k s = do { i \<leftarrow> inodes s p; arr_get (i_sectors i) k }"

subsection \<open>Bitmaps of the partition\<close>

text \<open>\<^verbatim>\<open>-1\<close> as an \<^verbatim>\<open>int32_t\<close> has the bits of \<open>- 1\<close>.\<close>

definition inode_bitmap_alloc :: "'h fs \<Rightarrow> (u32 \<times> 'h fs) option" where
  "inode_bitmap_alloc s = do {
     bit_idx \<leftarrow> bitmap_scan (inode_bitmap (cur_part s)) 1;
     if bit_idx = -1 then Some (- 1, s)
     else do {
       b \<leftarrow> bitmap_set (inode_bitmap (cur_part s)) (word_of_int bit_idx) 1;
       Some (word_of_int bit_idx, upd_part (\<lambda>p. p\<lparr>inode_bitmap := b\<rparr>) s)
     }
   }"

definition block_bitmap_alloc :: "'h fs \<Rightarrow> (u32 \<times> 'h fs) option" where
  "block_bitmap_alloc s = do {
     bit_idx \<leftarrow> bitmap_scan (block_bitmap (cur_part s)) 1;
     if bit_idx = -1 then Some (- 1, s)
     else do {
       b \<leftarrow> bitmap_set (block_bitmap (cur_part s)) (word_of_int bit_idx) 1;
       Some (bidx2blk s (word_of_int bit_idx), upd_part (\<lambda>p. p\<lparr>block_bitmap := b\<rparr>) s)
     }
   }"

datatype btmp_type = BLOCK_BITMAP | INODE_BITMAP

text \<open>The block of the bitmap that holds the bit; a bitmap that ends inside that block would be read past its end.\<close>

definition bitmap_sync :: "u32 \<Rightarrow> btmp_type \<Rightarrow> 'h fs \<Rightarrow> 'h fs option" where
  "bitmap_sync bit_idx ty s = do {
     let off_blk = bit_idx div BITS_PER_BLOCK;
     let off_size = unat off_blk * BLOCK_SIZE;
     let part = cur_part s;
     let start = (case ty of BLOCK_BITMAP \<Rightarrow> block_bitmap_start (sb part) | INODE_BITMAP \<Rightarrow> inode_bitmap_start (sb part));
     let bs = bits (case ty of BLOCK_BITMAP \<Rightarrow> block_bitmap part | INODE_BITMAP \<Rightarrow> inode_bitmap part);
     ASSERT (off_size + BLOCK_SIZE \<le> length bs);
     disk_write (blk2lba s (start + off_blk)) SECTORS_PER_BLOCK (\<lambda>i. bs ! (off_size + i)) s
   }"

definition free_block :: "u32 \<Rightarrow> 'h fs \<Rightarrow> 'h fs option" where
  "free_block block_no s = do {
     let bitmap_idx = blk2bidx s block_no;
     ASSERT (0 < bitmap_idx);
     b \<leftarrow> bitmap_set (block_bitmap (cur_part s)) bitmap_idx 0;
     bitmap_sync bitmap_idx BLOCK_BITMAP (upd_part (\<lambda>p. p\<lparr>block_bitmap := b\<rparr>) s)
   }"

end
