(* ===== verification/Inode.thy ===== *)
theory Inode
  imports Fs_Disk
begin

text \<open>
  \<^verbatim>\<open>fs/inode.c\<close>: inodes on disk and in memory, and the index that leads from the number of a block of a file
  to the block of the partition: twelve direct entries, then one, two and three levels of tables of
  1024 entries. \<open>hp\<close> is the heap the temporary buffers and the inodes in memory come from.
\<close>

subsection \<open>Inodes\<close>

definition inode_locate :: "u32 \<Rightarrow> 'h fs \<Rightarrow> (bool \<times> u32 \<times> nat) option" where
  "inode_locate inode_no s = do {
     ASSERT (inode_no < MAX_FILES_PER_PART);
     let inode_table_blk = inode_table_start (sb (cur_part s));
     let off_size = unat inode_no * sizeof_inode;
     let off_blk = off_size div BLOCK_SIZE;
     let off_size_in_blk = off_size mod BLOCK_SIZE;
     let left_in_blk = BLOCK_SIZE - off_size_in_blk;
     Some (left_in_blk < sizeof_inode, blk2lba s (inode_table_blk + word_of_nat off_blk), off_size_in_blk)
   }"

text \<open>The number of sectors read and written around an inode.\<close>

definition inode_secs :: "bool \<Rightarrow> nat" where
  "inode_secs two_sec = (if two_sec then 2 * SECTORS_PER_BLOCK else SECTORS_PER_BLOCK)"

text \<open>The bytes of an inode on disk: what only matters at run time is cleared.\<close>

definition inode_words :: "inode \<Rightarrow> u32 list" where
  "inode_words i = [i_no i, i_size i, 0, 0] @ i_sectors i @ [0, 0]"

definition words_inode :: "u32 list \<Rightarrow> inode" where
  "words_inode ws = \<lparr>i_no = ws ! 0, i_size = ws ! 1, i_open_cnts = ws ! 2, write_deny = (ws ! 3 \<noteq> 0),
     i_sectors = take INODE_SECTORS_CNT (drop 4 ws)\<rparr>"

text \<open>The body of \<^verbatim>\<open>inode_sync\<close>, for an inode given by its value (one on the stack) and by its address.\<close>

definition inode_store :: "inode \<Rightarrow> u32 \<Rightarrow> 'h fs \<Rightarrow> 'h fs option" where
  "inode_store inode io_buf s = do {
     let inode_no = (ucast (i_no inode) :: u8);
     (two_sec, sec_lba, off_size) \<leftarrow> inode_locate (ucast inode_no) s;
     ASSERT (sec_lba \<le> start_lba (cur_part s) + sec_cnt (cur_part s));
     ASSERT (io_buf \<noteq> 0);
     b \<leftarrow> disk_read sec_lba (inode_secs two_sec) (\<lambda>_. 0) s;
     disk_write sec_lba (inode_secs two_sec) (put_words off_size (inode_words inode) b) s
   }"

definition inode_sync :: "u32 \<Rightarrow> u32 \<Rightarrow> 'h fs \<Rightarrow> 'h fs option" where
  "inode_sync p io_buf s = do { inode \<leftarrow> inodes s p; inode_store inode io_buf s }"

definition find_open :: "u32 \<Rightarrow> 'h fs \<Rightarrow> u32 option" where
  "find_open inode_no s =
     find (\<lambda>p. case inodes s p of Some i \<Rightarrow> i_no i = inode_no | None \<Rightarrow> False) (open_inodes (cur_part s))"

definition inode_open :: "'h heap_ops \<Rightarrow> u32 \<Rightarrow> 'h fs \<Rightarrow> (u32 \<times> 'h fs) option" where
  "inode_open hp inode_no s = (case find_open inode_no s of
     Some p \<Rightarrow> do { s \<leftarrow> upd_inode p (\<lambda>i. i\<lparr>i_open_cnts := i_open_cnts i + 1\<rparr>) s; Some (p, s) }
   | None \<Rightarrow> do {
       (two_sec, sec_lba, off_size) \<leftarrow> inode_locate inode_no s;
       (p, s) \<leftarrow> fs_malloc hp True (word_of_nat sizeof_inode) s;
       (inode_buf, s) \<leftarrow> fs_malloc hp False (if two_sec then 8192 else 4096) s;
       ASSERT (p \<noteq> 0 \<and> inode_buf \<noteq> 0);
       b \<leftarrow> disk_read sec_lba (inode_secs two_sec) (\<lambda>_. 0) s;
       let i = words_inode (get_words off_size (sizeof_inode div 4) b);
       let s = s\<lparr>inodes := (inodes s)(p \<mapsto> i\<lparr>i_open_cnts := 1\<rparr>)\<rparr>;
       let s = upd_part (\<lambda>q. q\<lparr>open_inodes := p # open_inodes q\<rparr>) s;
       s \<leftarrow> fs_free hp False inode_buf s;
       Some (p, s)
     })"

text \<open>Removing an inode that is not in the list of open inodes would corrupt the list.\<close>

definition inode_close :: "'h heap_ops \<Rightarrow> u32 \<Rightarrow> 'h fs \<Rightarrow> 'h fs option" where
  "inode_close hp p s = do {
     i \<leftarrow> inodes s p;
     let i = i\<lparr>i_open_cnts := i_open_cnts i - 1\<rparr>;
     let s = s\<lparr>inodes := (inodes s)(p \<mapsto> i)\<rparr>;
     if i_open_cnts i = 0
     then do {
       ASSERT (p \<in> set (open_inodes (cur_part s)));
       let s = upd_part (\<lambda>q. q\<lparr>open_inodes := remove1 p (open_inodes q)\<rparr>) s;
       fs_free hp True p (s\<lparr>inodes := (inodes s)(p := None)\<rparr>)
     }
     else Some s
   }"

definition inode_init :: "u32 \<Rightarrow> inode" where
  "inode_init inode_no = \<lparr>i_no = inode_no, i_size = 0, i_open_cnts = 0, write_deny = False,
     i_sectors = replicate INODE_SECTORS_CNT 0\<rparr>"

definition inode_delete :: "u32 \<Rightarrow> u32 \<Rightarrow> 'h fs \<Rightarrow> 'h fs option" where
  "inode_delete inode_no io_buf s = do {
     ASSERT (inode_no < MAX_FILES_PER_PART);
     (two_sec, sec_lba, off_size) \<leftarrow> inode_locate inode_no s;
     ASSERT (sec_lba \<le> start_lba (cur_part s) + sec_cnt (cur_part s));
     ASSERT (io_buf \<noteq> 0);
     b \<leftarrow> disk_read sec_lba (inode_secs two_sec) (\<lambda>_. 0) s;
     disk_write sec_lba (inode_secs two_sec) (put_words off_size (replicate (sizeof_inode div 4) 0) b) s
   }"

subsection \<open>Release of all blocks\<close>

primrec each :: "('a \<Rightarrow> 's \<Rightarrow> 's option) \<Rightarrow> 'a list \<Rightarrow> 's \<Rightarrow> 's option" where
  "each f [] s = Some s"
| "each f (x # xs) s = do { s \<leftarrow> f x s; each f xs s }"

text \<open>A block and, for every buffer in the list, one level of tables below it.\<close>

primrec free_tree :: "u32 list \<Rightarrow> u32 \<Rightarrow> 'h fs \<Rightarrow> 'h fs option" where
  "free_tree [] blk s = free_block blk s"
| "free_tree (t # ts) blk s = do {
     ASSERT (t \<noteq> 0);
     tbl \<leftarrow> read_block blk (\<lambda>_. 0) s;
     s \<leftarrow> each (\<lambda>e s. if e \<noteq> 0 then free_tree ts e s else Some s) (get_words 0 INODE_INDIRECT_ENTRIES tbl) s;
     free_block blk s
   }"

definition free_sector :: "u32 \<Rightarrow> u32 list \<Rightarrow> nat \<Rightarrow> 'h fs \<Rightarrow> 'h fs option" where
  "free_sector p tbls k s = do {
     blk \<leftarrow> get_sector p k s;
     if blk \<noteq> 0 then free_tree tbls blk s else Some s
   }"

definition inode_release :: "'h heap_ops \<Rightarrow> u32 \<Rightarrow> 'h fs \<Rightarrow> 'h fs option" where
  "inode_release hp inode_no s = do {
     (p, s) \<leftarrow> inode_open hp inode_no s;
     i \<leftarrow> inodes s p;
     ASSERT (i_no i = inode_no);
     (tbl1, s) \<leftarrow> fs_malloc hp False 4096 s;
     (tbl2, s) \<leftarrow> fs_malloc hp False 4096 s;
     (tbl3, s) \<leftarrow> fs_malloc hp False 4096 s;
     s \<leftarrow> each (free_sector p []) [0..<INODE_DIRECT_BLOCKS] s;
     s \<leftarrow> free_sector p [tbl1] INODE_SINGLE_INDIRECT s;
     s \<leftarrow> free_sector p [tbl1, tbl2] INODE_DOUBLE_INDIRECT s;
     s \<leftarrow> free_sector p [tbl1, tbl2, tbl3] INODE_TRIPLE_INDIRECT s;
     s \<leftarrow> fs_free hp False tbl3 s;
     s \<leftarrow> fs_free hp False tbl2 s;
     s \<leftarrow> fs_free hp False tbl1 s;
     b \<leftarrow> bitmap_set (inode_bitmap (cur_part s)) inode_no 0;
     s \<leftarrow> bitmap_sync inode_no INODE_BITMAP (upd_part (\<lambda>q. q\<lparr>inode_bitmap := b\<rparr>) s);
     (io_buf, s) \<leftarrow> fs_malloc hp False 8192 s;
     s \<leftarrow> inode_delete inode_no io_buf s;
     s \<leftarrow> fs_free hp False io_buf s;
     inode_close hp p s
   }"

subsection \<open>The block index\<close>

definition SINGLE_INDIRECT_START :: u32 where "SINGLE_INDIRECT_START = 12"
definition DOUBLE_INDIRECT_START :: u32 where "DOUBLE_INDIRECT_START = 1036"
definition TRIPLE_INDIRECT_START :: u32 where "TRIPLE_INDIRECT_START = 1049612"

text \<open>One step down: the entry \<open>i\<close> of the table in block \<open>blk\<close>, 0 when there is no table.\<close>

definition get_entry :: "u32 \<Rightarrow> u32 \<Rightarrow> 'h fs \<Rightarrow> u32 option" where
  "get_entry blk i s =
     (if blk = 0 then Some 0 else do { tbl \<leftarrow> read_block blk (\<lambda>_. 0) s; tbl_get tbl (unat i) })"

definition get_data_block :: "u32 \<Rightarrow> u32 \<Rightarrow> 'h fs \<Rightarrow> u32 option" where
  "get_data_block p block_idx s =
     (if block_idx < SINGLE_INDIRECT_START then get_sector p (unat block_idx) s
      else if block_idx < DOUBLE_INDIRECT_START then do {
        t \<leftarrow> get_sector p INODE_SINGLE_INDIRECT s;
        get_entry t (block_idx - SINGLE_INDIRECT_START) s
      }
      else if block_idx < TRIPLE_INDIRECT_START then do {
        let off = block_idx - DOUBLE_INDIRECT_START;
        let l1_idx = off div 1024;
        let l2_idx = off mod 1024;
        t \<leftarrow> get_sector p INODE_DOUBLE_INDIRECT s;
        l2_blk \<leftarrow> get_entry t l1_idx s;
        get_entry l2_blk l2_idx s
      }
      else do {
        let off = block_idx - TRIPLE_INDIRECT_START;
        let t1_idx = off div (1024 * 1024);
        let rem = off mod (1024 * 1024);
        let t2_idx = rem div 1024;
        let t3_idx = rem mod 1024;
        t \<leftarrow> get_sector p INODE_TRIPLE_INDIRECT s;
        t2_blk \<leftarrow> get_entry t t1_idx s;
        t3_blk \<leftarrow> get_entry t2_blk t2_idx s;
        get_entry t3_blk t3_idx s
      })"

definition alloc_indirect_table :: "'h heap_ops \<Rightarrow> 'h fs \<Rightarrow> (u32 \<times> 'h fs) option" where
  "alloc_indirect_table hp s = do {
     (blk, s) \<leftarrow> block_bitmap_alloc s;
     if blk = - 1 then Some (0, s)
     else do {
       s \<leftarrow> bitmap_sync (blk2bidx s blk) BLOCK_BITMAP s;
       (zeros, s) \<leftarrow> fs_malloc hp False 4096 s;
       if zeros = 0 then Some (0, s)
       else do {
         s \<leftarrow> write_block blk (\<lambda>_. 0) s;
         s \<leftarrow> fs_free hp False zeros s;
         Some (blk, s)
       }
     }
   }"

text \<open>The table at \<open>i_sectors[k]\<close>, and the table an entry leads to, made when missing; 0 when that fails.\<close>

definition sector_table :: "'h heap_ops \<Rightarrow> u32 \<Rightarrow> nat \<Rightarrow> 'h fs \<Rightarrow> (u32 \<times> 'h fs) option" where
  "sector_table hp p k s = do {
     t \<leftarrow> get_sector p k s;
     if t \<noteq> 0 then Some (t, s)
     else do {
       (t, s) \<leftarrow> alloc_indirect_table hp s;
       if t = 0 then Some (0, s) else do { s \<leftarrow> set_sector p k t s; Some (t, s) }
     }
   }"

definition entry_table :: "'h heap_ops \<Rightarrow> u32 \<Rightarrow> u32 \<Rightarrow> 'h fs \<Rightarrow> (u32 \<times> 'h fs) option" where
  "entry_table hp blk i s = do {
     tbl \<leftarrow> read_block blk (\<lambda>_. 0) s;
     e \<leftarrow> tbl_get tbl (unat i);
     if e \<noteq> 0 then Some (e, s)
     else do {
       (t, s) \<leftarrow> alloc_indirect_table hp s;
       if t = 0 then Some (0, s)
       else do { tbl \<leftarrow> tbl_set tbl (unat i) t; s \<leftarrow> write_block blk tbl s; Some (t, s) }
     }
   }"

definition set_entry :: "u32 \<Rightarrow> u32 \<Rightarrow> u32 \<Rightarrow> 'h fs \<Rightarrow> 'h fs option" where
  "set_entry blk i v s = do {
     tbl \<leftarrow> read_block blk (\<lambda>_. 0) s;
     tbl \<leftarrow> tbl_set tbl (unat i) v;
     write_block blk tbl s
   }"

text \<open>Where the number of the new block is written; \<open>False\<close> is the jump to \<^verbatim>\<open>rollback_data\<close>.\<close>

definition link_block :: "'h heap_ops \<Rightarrow> u32 \<Rightarrow> u32 \<Rightarrow> u32 \<Rightarrow> 'h fs \<Rightarrow> (bool \<times> 'h fs) option" where
  "link_block hp p block_idx new_blk s =
     (if block_idx < SINGLE_INDIRECT_START then do {
        s \<leftarrow> set_sector p (unat block_idx) new_blk s;
        Some (True, s)
      }
      else if block_idx < DOUBLE_INDIRECT_START then do {
        (t, s) \<leftarrow> sector_table hp p INODE_SINGLE_INDIRECT s;
        if t = 0 then Some (False, s)
        else do { s \<leftarrow> set_entry t (block_idx - SINGLE_INDIRECT_START) new_blk s; Some (True, s) }
      }
      else if block_idx < TRIPLE_INDIRECT_START then do {
        let off = block_idx - DOUBLE_INDIRECT_START;
        let l1_idx = off div 1024;
        let l2_idx = off mod 1024;
        (t, s) \<leftarrow> sector_table hp p INODE_DOUBLE_INDIRECT s;
        if t = 0 then Some (False, s)
        else do {
          (l2_blk, s) \<leftarrow> entry_table hp t l1_idx s;
          if l2_blk = 0 then Some (False, s)
          else do { s \<leftarrow> set_entry l2_blk l2_idx new_blk s; Some (True, s) }
        }
      }
      else do {
        let off = block_idx - TRIPLE_INDIRECT_START;
        let t1_idx = off div (1024 * 1024);
        let rem = off mod (1024 * 1024);
        let t2_idx = rem div 1024;
        let t3_idx = rem mod 1024;
        (t, s) \<leftarrow> sector_table hp p INODE_TRIPLE_INDIRECT s;
        if t = 0 then Some (False, s)
        else do {
          (t2_blk, s) \<leftarrow> entry_table hp t t1_idx s;
          if t2_blk = 0 then Some (False, s)
          else do {
            (t3_blk, s) \<leftarrow> entry_table hp t2_blk t2_idx s;
            if t3_blk = 0 then Some (False, s)
            else do { s \<leftarrow> set_entry t3_blk t3_idx new_blk s; Some (True, s) }
          }
        }
      })"

definition alloc_data_block :: "'h heap_ops \<Rightarrow> u32 \<Rightarrow> u32 \<Rightarrow> 'h fs \<Rightarrow> (u32 \<times> 'h fs) option" where
  "alloc_data_block hp p block_idx s = do {
     (tbl, s) \<leftarrow> fs_malloc hp False 4096 s;
     if tbl = 0 then Some (0, s)
     else do {
       (new_blk, s) \<leftarrow> block_bitmap_alloc s;
       if new_blk = - 1 then do { s \<leftarrow> fs_free hp False tbl s; Some (0, s) }
       else do {
         s \<leftarrow> bitmap_sync (blk2bidx s new_blk) BLOCK_BITMAP s;
         (ok, s) \<leftarrow> link_block hp p block_idx new_blk s;
         if ok then do { s \<leftarrow> fs_free hp False tbl s; Some (new_blk, s) }
         else do {
           b \<leftarrow> bitmap_set (block_bitmap (cur_part s)) (blk2bidx s new_blk) 0;
           s \<leftarrow> bitmap_sync (blk2bidx s new_blk) BLOCK_BITMAP (upd_part (\<lambda>q. q\<lparr>block_bitmap := b\<rparr>) s);
           s \<leftarrow> fs_free hp False tbl s;
           Some (0, s)
         }
       }
     }
   }"

definition collect_dir_blocks :: "u32 \<Rightarrow> 'h fs \<Rightarrow> u32 list option" where
  "collect_dir_blocks p s = do {
     i \<leftarrow> inodes s p;
     t \<leftarrow> arr_get (i_sectors i) INODE_SINGLE_INDIRECT;
     ASSERT (INODE_DIRECT_BLOCKS \<le> length (i_sectors i));
     let direct = take INODE_DIRECT_BLOCKS (i_sectors i);
     if t = 0 then Some (direct @ replicate INODE_INDIRECT_ENTRIES 0)
     else do {
       tbl \<leftarrow> read_block t (\<lambda>_. 0) s;
       Some (direct @ get_words 0 INODE_INDIRECT_ENTRIES tbl)
     }
   }"

end
