(* ===== verification/File.thy ===== *)
theory File
  imports Inode
begin

text \<open>
  \<^verbatim>\<open>fs/file.c\<close>: the table of open files and reading and writing them. A \<^verbatim>\<open>struct file*\<close> is an index into \<^verbatim>\<open>file_table\<close>; the
  memory a caller passes is a function from offsets to bytes. Results are the bits of the \<^verbatim>\<open>int32_t\<close> the functions return.
\<close>

definition MAX_FILE_OPEN :: nat where "MAX_FILE_OPEN = 512"
definition MAX_FILES_OPEN :: nat where "MAX_FILES_OPEN = 128"
definition O_WRONLY :: u32 where "O_WRONLY = 1"
definition O_RDWR :: u32 where "O_RDWR = 2"
definition O_CREAT :: u32 where "O_CREAT = 4"

definition writable :: "u32 \<Rightarrow> bool" where
  "writable flag \<longleftrightarrow> flag AND O_WRONLY \<noteq> 0 \<or> flag AND O_RDWR \<noteq> 0"

definition get_slot :: "nat \<Rightarrow> 'h fs \<Rightarrow> file_slot option" where
  "get_slot f s = arr_get (file_table s) f"

definition upd_slot :: "nat \<Rightarrow> (file_slot \<Rightarrow> file_slot) \<Rightarrow> 'h fs \<Rightarrow> 'h fs option" where
  "upd_slot f g s = do {
     fl \<leftarrow> arr_get (file_table s) f;
     t \<leftarrow> arr_set (file_table s) f (g fl);
     Some (s\<lparr>file_table := t\<rparr>)
   }"

text \<open>\<^verbatim>\<open>memcpy(dst + off, src, n)\<close>\<close>

definition blit :: "nat \<Rightarrow> buf \<Rightarrow> nat \<Rightarrow> buf \<Rightarrow> buf" where
  "blit off src n dst = (\<lambda>i. if off \<le> i \<and> i < off + n then src (i - off) else dst i)"

primrec slot_loop :: "nat \<Rightarrow> nat \<Rightarrow> file_slot list \<Rightarrow> nat option option" where
  "slot_loop 0 i ft = Some None"
| "slot_loop (Suc n) i ft = do {
     fl \<leftarrow> arr_get ft i;
     if fd_inode fl = 0 then Some (Some i) else slot_loop n (Suc i) ft
   }"

definition get_free_slot_in_global :: "'h fs \<Rightarrow> nat option option" where
  "get_free_slot_in_global s = slot_loop (MAX_FILE_OPEN - 3) 3 (file_table s)"

primrec fd_loop :: "nat \<Rightarrow> nat \<Rightarrow> int list \<Rightarrow> nat option option" where
  "fd_loop 0 i fds = Some None"
| "fd_loop (Suc n) i fds = do {
     v \<leftarrow> arr_get fds i;
     if v = - 1 then Some (Some i) else fd_loop n (Suc i) fds
   }"

definition pcb_fd_install :: "nat \<Rightarrow> 'h fs \<Rightarrow> (u32 \<times> 'h fs) option" where
  "pcb_fd_install globa_fd_idx s = do {
     r \<leftarrow> fd_loop (MAX_FILES_OPEN - 3) 3 (cur_fds s);
     case r of None \<Rightarrow> Some (- 1, s)
     | Some k \<Rightarrow> Some (word_of_nat k, s\<lparr>cur_fds := (cur_fds s)[k := int globa_fd_idx]\<rparr>)
   }"

definition file_open :: "'h heap_ops \<Rightarrow> u32 \<Rightarrow> u32 \<Rightarrow> 'h fs \<Rightarrow> (u32 \<times> 'h fs) option" where
  "file_open hp inode_no flag s = do {
     r \<leftarrow> get_free_slot_in_global s;
     case r of None \<Rightarrow> Some (- 1, s)
     | Some f \<Rightarrow> do {
         (p, s) \<leftarrow> inode_open hp inode_no s;
         s \<leftarrow> upd_slot f (\<lambda>_. \<lparr>fd_pos = 0, fd_flag = flag, fd_inode = p\<rparr>) s;
         i \<leftarrow> inodes s p;
         if writable flag \<and> write_deny i then Some (- 1, s)
         else do {
           s \<leftarrow> (if writable flag then upd_inode p (\<lambda>i. i\<lparr>write_deny := True\<rparr>) s else Some s);
           pcb_fd_install f s
         }
       }
   }"

definition file_close :: "'h heap_ops \<Rightarrow> nat \<Rightarrow> 'h fs \<Rightarrow> (u32 \<times> 'h fs) option" where
  "file_close hp f s = do {
     fl \<leftarrow> get_slot f s;
     s \<leftarrow> (if writable (fd_flag fl) then upd_inode (fd_inode fl) (\<lambda>i. i\<lparr>write_deny := False\<rparr>) s else Some s);
     s \<leftarrow> inode_close hp (fd_inode fl) s;
     s \<leftarrow> upd_slot f (\<lambda>fl. fl\<lparr>fd_inode := 0\<rparr>) s;
     Some (0, s)
   }"

subsection \<open>Writing\<close>

partial_function (option) write_loop ::
  "'h heap_ops \<Rightarrow> nat \<Rightarrow> buf \<Rightarrow> u32 \<Rightarrow> u32 \<Rightarrow> u32 \<Rightarrow> 'h fs \<Rightarrow> (u32 \<times> 'h fs) option" where
  [code]: "write_loop hp f b count bytes_written size_left s =
     (if bytes_written < count then do {
        fl \<leftarrow> get_slot f s;
        let sec_idx = fd_pos fl div 4096;
        let sec_off = fd_pos fl mod 4096;
        let sec_left = 4096 - sec_off;
        let chunk_size = (if size_left < sec_left then size_left else sec_left);
        blk \<leftarrow> get_data_block (fd_inode fl) sec_idx s;
        (blk_no, s) \<leftarrow> (if blk = 0 then alloc_data_block hp (fd_inode fl) sec_idx s else Some (blk, s));
        if blk_no = 0 then Some (bytes_written, s)
        else do {
          io_buf \<leftarrow> (if sec_off \<noteq> 0 then read_block blk_no (\<lambda>_. 0) s else Some (\<lambda>_. 0));
          let io_buf = blit (unat sec_off) (\<lambda>i. b (unat bytes_written + i)) (unat chunk_size) io_buf;
          s \<leftarrow> write_block blk_no io_buf s;
          s \<leftarrow> upd_slot f (\<lambda>fl. fl\<lparr>fd_pos := fd_pos fl + chunk_size\<rparr>) s;
          write_loop hp f b count (bytes_written + chunk_size) (size_left - chunk_size) s
        }
      }
      else Some (bytes_written, s))"

definition file_write :: "'h heap_ops \<Rightarrow> nat \<Rightarrow> buf \<Rightarrow> u32 \<Rightarrow> 'h fs \<Rightarrow> (u32 \<times> 'h fs) option" where
  "file_write hp f b count s = do {
     fl \<leftarrow> get_slot f s;
     i \<leftarrow> inodes s (fd_inode fl);
     if FILE_MAX_SIZE - i_size i < count then Some (- 1, s)
     else do {
       (io_buf, s) \<leftarrow> fs_malloc hp False 4096 s;
       if io_buf = 0 then Some (- 1, s)
       else do {
         s \<leftarrow> upd_slot f (\<lambda>fl. fl\<lparr>fd_pos := i_size i\<rparr>) s;
         (bytes_written, s) \<leftarrow> write_loop hp f b count 0 count s;
         fl \<leftarrow> get_slot f s;
         s \<leftarrow> upd_inode (fd_inode fl) (\<lambda>i. i\<lparr>i_size := fd_pos fl\<rparr>) s;
         (sync_buf, s) \<leftarrow> fs_malloc hp False 8192 s;
         s \<leftarrow> (if sync_buf \<noteq> 0 then do { s \<leftarrow> inode_sync (fd_inode fl) sync_buf s; fs_free hp False sync_buf s } else Some s);
         s \<leftarrow> fs_free hp False io_buf s;
         Some (bytes_written, s)
       }
     }
   }"

subsection \<open>Reading\<close>

partial_function (option) read_loop ::
  "nat \<Rightarrow> u32 \<Rightarrow> u32 \<Rightarrow> u32 \<Rightarrow> buf \<Rightarrow> 'h fs \<Rightarrow> (u32 \<times> buf \<times> 'h fs) option" where
  [code]: "read_loop f sz bytes_read size_left b s =
     (if bytes_read < sz then do {
        fl \<leftarrow> get_slot f s;
        let sec_idx = fd_pos fl div 4096;
        let sec_off = fd_pos fl mod 4096;
        let sec_left = 4096 - sec_off;
        let chunk_size = (if size_left < sec_left then size_left else sec_left);
        blk_no \<leftarrow> get_data_block (fd_inode fl) sec_idx s;
        if blk_no = 0 then Some (bytes_read, b, s)
        else do {
          io_buf \<leftarrow> read_block blk_no (\<lambda>_. 0) s;
          let b = blit (unat bytes_read) (\<lambda>i. io_buf (unat sec_off + i)) (unat chunk_size) b;
          s \<leftarrow> upd_slot f (\<lambda>fl. fl\<lparr>fd_pos := fd_pos fl + chunk_size\<rparr>) s;
          read_loop f sz (bytes_read + chunk_size) (size_left - chunk_size) b s
        }
      }
      else Some (bytes_read, b, s))"

definition file_read :: "'h heap_ops \<Rightarrow> nat \<Rightarrow> buf \<Rightarrow> u32 \<Rightarrow> 'h fs \<Rightarrow> (u32 \<times> buf \<times> 'h fs) option" where
  "file_read hp f b count s = do {
     fl \<leftarrow> get_slot f s;
     i \<leftarrow> inodes s (fd_inode fl);
     let sz = (if i_size i < fd_pos fl + count then i_size i - fd_pos fl else count);
     if i_size i < fd_pos fl + count \<and> sz = 0 then Some (0, b, s)
     else do {
       (io_buf, s) \<leftarrow> fs_malloc hp False 4096 s;
       if io_buf = 0 then Some (- 1, b, s)
       else do {
         (bytes_read, b, s) \<leftarrow> read_loop f sz 0 sz b s;
         s \<leftarrow> fs_free hp False io_buf s;
         Some (bytes_read, b, s)
       }
     }
   }"

end
