(* ===== verification/Fs_Blocks.thy ===== *)
theory Fs_Blocks
  imports Fs_Disk
begin

text \<open>
  Blocks of a partition: what a read of a block sees after a write of the same or of another block, the blocks
  in use according to the block bitmap, and their allocation as an instance of the \<open>allocator\<close> interface.
  \<open>wf_part\<close> is the layout \<^verbatim>\<open>partition_format\<close> lays down: the bitmap in front of the data blocks, all of
  it on the disk, no free bit behind the last block.
\<close>

subsection \<open>Words in buffers\<close>

lemma ucast_u8_0 [simp]: "(ucast (0 :: u8) :: u32) = 0"
  by simp

lemma get32_put32 [simp]: "get32 (put32 i w b) i = w"
proof (rule bit_word_eqI)
  fix n assume "n < LENGTH(32)"
  then consider "n < 8" | "8 \<le> n" "n < 16" | "16 \<le> n" "n < 24" | "24 \<le> n" "n < 32" by fastforce
  then show "bit (get32 (put32 i w b) i) n = bit w n"
    by cases (auto simp: get32_def put32_def bit_or_iff bit_push_bit_iff bit_unsigned_iff bit_drop_bit_eq)
qed

lemma get32_cong: "(\<And>k. i \<le> k \<Longrightarrow> k < i + 4 \<Longrightarrow> b k = c k) \<Longrightarrow> get32 b i = get32 c i"
  by (simp add: get32_def)

lemma put32_other: "k < i \<or> i + 4 \<le> k \<Longrightarrow> put32 i w b k = b k"
  by (auto simp: put32_def)

lemma get32_put32_other: "j + 4 \<le> i \<or> i + 4 \<le> j \<Longrightarrow> get32 (put32 i w b) j = get32 b j"
  by (rule get32_cong) (auto simp: put32_other)

lemma get32_zero [simp]: "get32 (\<lambda>_. 0) i = 0"
  by (simp add: get32_def)

lemma put_words_other: "k < off \<or> off + 4 * length ws \<le> k \<Longrightarrow> put_words off ws b k = b k"
  by (induction ws arbitrary: off b) (auto simp: put32_other)

lemma get32_put_words_other: "j + 4 \<le> off \<or> off + 4 * length ws \<le> j \<Longrightarrow> get32 (put_words off ws b) j = get32 b j"
  by (rule get32_cong) (auto simp: put_words_other)

lemma get32_put_words: "i < length ws \<Longrightarrow> get32 (put_words off ws b) (off + 4 * i) = ws ! i"
proof (induction ws arbitrary: off b i)
  case (Cons w ws)
  show ?case
  proof (cases i)
    case 0 then show ?thesis by (simp add: get32_put_words_other)
  next
    case (Suc k)
    then show ?thesis using Cons.IH [of k "off + 4" "put32 off w b"] Cons.prems by (simp add: add.assoc)
  qed
qed simp

lemma get_words_put_words [simp]: "get_words off (length ws) (put_words off ws b) = ws"
  by (rule nth_equalityI) (simp_all add: get_words_def get32_put_words)

subsection \<open>Layout\<close>

definition layout :: "'h fs \<Rightarrow> u32 \<times> u32 \<times> super_block" where
  "layout s = (start_lba (cur_part s), sec_cnt (cur_part s), sb (cur_part s))"

definition n_blks :: "'h fs \<Rightarrow> nat" where
  "n_blks s = unat (sec_cnt (cur_part s)) div 8"

definition data0 :: "'h fs \<Rightarrow> nat" where
  "data0 s = unat (data_start (sb (cur_part s)))"

definition data_blk :: "'h fs \<Rightarrow> u32 \<Rightarrow> bool" where
  "data_blk s b \<longleftrightarrow> data0 s \<le> unat b \<and> unat b < n_blks s"

definition free_bits :: "'h fs \<Rightarrow> nat set" where
  "free_bits s = {..<bits_total (block_bitmap (cur_part s))} - bitmap_used (block_bitmap (cur_part s))"

definition blk_no :: "'h fs \<Rightarrow> nat \<Rightarrow> u32" where
  "blk_no s i = word_of_nat (data0 s + i)"

definition free_blks :: "'h fs \<Rightarrow> u32 set" where
  "free_blks s = blk_no s ` free_bits s"

definition used_blks :: "'h fs \<Rightarrow> u32 set" where
  "used_blks s = {b. data_blk s b} - free_blks s"

definition wf_part :: "'h fs \<Rightarrow> bool" where
  "wf_part s \<longleftrightarrow> (let P = cur_part s; B = sb P in
     wf_bitmap (block_bitmap P) \<and> length (bits (block_bitmap P)) = 4096 * unat (block_bitmap_blks B) \<and>
     0 < unat (block_bitmap_start B) \<and> unat (block_bitmap_start B) + unat (block_bitmap_blks B) \<le> data0 s \<and>
     unat (inode_table_start B) + 84 \<le> data0 s \<and>
     unat (start_lba P) + unat (sec_cnt P) \<le> 163840 \<and> (\<forall>i \<in> free_bits s. data0 s + i < n_blks s) \<and> data0 s \<le> n_blks s)"

lemma wf_partD:
  assumes "wf_part s"
  shows "wf_bitmap (block_bitmap (cur_part s))" "0 < data0 s" "unat (start_lba (cur_part s)) + 8 * n_blks s \<le> 163840"
    "data0 s \<le> n_blks s" "\<And>i. i \<in> free_bits s \<Longrightarrow> data0 s + i < n_blks s"
  using assms unfolding wf_part_def Let_def n_blks_def by auto

lemma layout_cong:
  assumes "layout s' = layout s"
  shows "data0 s' = data0 s" "n_blks s' = n_blks s" "start_lba (cur_part s') = start_lba (cur_part s)"
    "data_blk s' = data_blk s" "blk_no s' = blk_no s" "blk2lba s' = blk2lba s" "blk2bidx s' = blk2bidx s" "bidx2blk s' = bidx2blk s"
    "sb (cur_part s') = sb (cur_part s)" "sec_cnt (cur_part s') = sec_cnt (cur_part s)"
  using assms by (auto simp: layout_def data0_def n_blks_def data_blk_def fun_eq_iff blk_no_def blk2lba_def blk2bidx_def bidx2blk_def)

subsection \<open>Bytes of a block\<close>

definition base :: "'h fs \<Rightarrow> u32 \<Rightarrow> nat" where
  "base s b = (unat (start_lba (cur_part s)) + 8 * unat b) * 512"

definition blk_byte :: "'h fs \<Rightarrow> u32 \<Rightarrow> nat \<Rightarrow> u8" where
  "blk_byte s b i = disk s (base s b + i)"

definition put_block :: "u32 \<Rightarrow> buf \<Rightarrow> 'h fs \<Rightarrow> 'h fs" where
  "put_block blk b s = s\<lparr>disk := \<lambda>a. if base s blk \<le> a \<and> a < base s blk + 4096 then b (a - base s blk) else disk s a\<rparr>"

lemma unat_blk2lba:
  assumes "wf_part s" and "unat b < n_blks s"
  shows "unat (blk2lba s b) = unat (start_lba (cur_part s)) + 8 * unat b" "blk2lba s b \<le> max_lba"
proof -
  have *: "unat (start_lba (cur_part s)) + 8 * unat b < 163840" using wf_partD(3) [OF assms(1)] assms(2) by linarith
  then have "unat (b * 8) = 8 * unat b" by (simp add: unat_word_ariths)
  then show "unat (blk2lba s b) = unat (start_lba (cur_part s)) + 8 * unat b"
    using * unfolding blk2lba_def by (simp add: unat_word_ariths)
  then show "blk2lba s b \<le> max_lba" using * by (simp add: word_le_nat_alt max_lba_def)
qed

lemma read_block_bytes:
  "wf_part s \<Longrightarrow> unat b < n_blks s \<Longrightarrow> read_block b bf s = Some (\<lambda>i. if i < 4096 then blk_byte s b i else bf i)"
  by (simp add: read_block_def disk_read_def unat_blk2lba SECTORS_PER_BLOCK_def blk_byte_def base_def cong: if_cong)

lemma write_block_bytes: "wf_part s \<Longrightarrow> unat b < n_blks s \<Longrightarrow> write_block b bf s = Some (put_block b bf s)"
  by (simp add: write_block_def disk_write_def unat_blk2lba SECTORS_PER_BLOCK_def put_block_def base_def distrib_right cong: if_cong)

lemma put_block_same [simp]: "i < 4096 \<Longrightarrow> blk_byte (put_block b bf s) b i = bf i"
  by (simp add: blk_byte_def put_block_def base_def)

lemma put_block_other: "c \<noteq> b \<Longrightarrow> i < 4096 \<Longrightarrow> blk_byte (put_block b bf s) c i = blk_byte s c i"
proof -
  assume "c \<noteq> b" and i: "i < 4096"
  then consider "unat c < unat b" | "unat b < unat c" by (metis linorder_neqE_nat word_unat_eq_iff)
  then have "\<not> (base s b \<le> base s c + i \<and> base s c + i < base s b + 4096)"
    by cases (use i in \<open>auto simp: base_def\<close>)
  then show ?thesis by (auto simp: blk_byte_def put_block_def base_def)
qed

lemma put_block_fields [simp]:
  "cur_part (put_block b bf s) = cur_part s" "inodes (put_block b bf s) = inodes s" "heap (put_block b bf s) = heap s"
  "file_table (put_block b bf s) = file_table s" "cur_fds (put_block b bf s) = cur_fds s" "cur_cwd (put_block b bf s) = cur_cwd s"
  "root_dir (put_block b bf s) = root_dir s" "dirs (put_block b bf s) = dirs s"
  by (simp_all add: put_block_def)

text \<open>What depends on the partition only.\<close>

lemma part_cong:
  assumes "cur_part s' = cur_part s"
  shows "layout s' = layout s" "free_bits s' = free_bits s" "free_blks s' = free_blks s" "used_blks s' = used_blks s"
    "wf_part s' = wf_part s"
  using assms by (auto simp: layout_def free_bits_def free_blks_def used_blks_def wf_part_def data0_def n_blks_def
      blk_no_def data_blk_def Let_def)

lemmas put_block_part [simp] = part_cong [OF put_block_fields(1)]

subsection \<open>Allocation\<close>

lemma unat_blk_no: "wf_part s \<Longrightarrow> data0 s + i < n_blks s \<Longrightarrow> unat (blk_no s i) = data0 s + i"
  using wf_partD(3) [of s] by (simp add: blk_no_def unat_of_nat del: of_nat_add)

lemma free_blks_data: "wf_part s \<Longrightarrow> b \<in> free_blks s \<Longrightarrow> data_blk s b"
  by (auto simp: free_blks_def data_blk_def unat_blk_no wf_partD(5))

lemma data_blk_nz: "wf_part s \<Longrightarrow> data_blk s b \<Longrightarrow> b \<noteq> 0 \<and> b \<noteq> - 1 \<and> unat b < n_blks s"
proof -
  assume w: "wf_part s" and d: "data_blk s b"
  have "unat b < 163840" "0 < unat b" "unat b < n_blks s" using wf_partD(2,3) [OF w] d by (auto simp: data_blk_def)
  moreover have "unat (- 1 :: u32) = 2 ^ 32 - 1" by (simp add: unsigned_minus_1_eq_mask mask_eq_exp_minus_1)
  ultimately show ?thesis by auto
qed

lemma used_blks_data: "b \<in> used_blks s \<Longrightarrow> data_blk s b"
  by (simp add: used_blks_def)

text \<open>A new block, with the bitmap written back to the disk.\<close>

definition grabbed :: "u32 \<Rightarrow> 'h fs \<Rightarrow> 'h fs \<Rightarrow> bool" where
  "grabbed b s s' \<longleftrightarrow> b \<in> free_blks s \<and> free_blks s' = free_blks s - {b} \<and> used_blks s' = insert b (used_blks s) \<and>
     layout s' = layout s \<and> wf_part s' \<and> inodes s' = inodes s \<and> heap s' = heap s \<and>
     inode_bitmap (cur_part s') = inode_bitmap (cur_part s) \<and> open_inodes (cur_part s') = open_inodes (cur_part s) \<and>
     file_table s' = file_table s \<and> cur_fds s' = cur_fds s \<and> cur_cwd s' = cur_cwd s \<and> root_dir s' = root_dir s \<and> dirs s' = dirs s \<and>
     (\<forall>c i. data_blk s c \<longrightarrow> i < 4096 \<longrightarrow> blk_byte s' c i = blk_byte s c i)"

lemma set_block_bitmap:
  assumes w: "wf_part s" and b: "wf_bitmap b" "length (bits b) = length (bits (block_bitmap (cur_part s)))"
    and n: "\<And>i. i < bits_total (block_bitmap (cur_part s)) \<Longrightarrow> i \<notin> bitmap_used b \<Longrightarrow> data0 s + i < n_blks s"
  shows "wf_part (upd_part (\<lambda>p. p\<lparr>block_bitmap := b\<rparr>) s)"
    and "layout (upd_part (\<lambda>p. p\<lparr>block_bitmap := b\<rparr>) s) = layout s"
    and "free_blks (upd_part (\<lambda>p. p\<lparr>block_bitmap := b\<rparr>) s) =
      blk_no s ` ({..<bits_total (block_bitmap (cur_part s))} - bitmap_used b)"
  using w b n
  by (auto simp: wf_part_def upd_part_def Let_def free_bits_def data0_def n_blks_def layout_def free_blks_def blk_no_def)

text \<open>\<open>bitmap_sync\<close> writes one block of the bitmap, and so no data block.\<close>

lemma bitmap_sync_block:
  assumes w: "wf_part s" and i: "i < bits_total (block_bitmap (cur_part s))"
  shows "\<exists>c bf. bitmap_sync (word_of_nat i) BLOCK_BITMAP s = Some (put_block c bf s) \<and> unat c < data0 s"
proof -
  let ?B = "sb (cur_part s)"
  let ?off = "(word_of_nat i :: u32) div BITS_PER_BLOCK"
  have len: "length (bits (block_bitmap (cur_part s))) = 4096 * unat (block_bitmap_blks ?B)" using w by (simp add: wf_part_def Let_def)
  have u: "unat ?off = i div 32768"
    using unat_bit_index [OF wf_partD(1) [OF w] i] by (simp add: unat_div BITS_PER_BLOCK_def)
  then have lt: "unat ?off < unat (block_bitmap_blks ?B)" using i len by (simp add: less_mult_imp_div_less)
  moreover have le: "unat (block_bitmap_start ?B) + unat (block_bitmap_blks ?B) \<le> data0 s" using w by (simp add: wf_part_def Let_def)
  ultimately have uc: "unat (block_bitmap_start ?B + ?off) = unat (block_bitmap_start ?B) + unat ?off"
    using unat_less_2p32 [of "data_start ?B"] by (simp add: unat_word_ariths data0_def)
  then have c: "unat (block_bitmap_start ?B + ?off) < data0 s" using lt le by simp
  then have c': "unat (block_bitmap_start ?B + ?off) < n_blks s" using wf_partD(4) [OF w] by simp
  have "unat ?off * BLOCK_SIZE + BLOCK_SIZE \<le> length (bits (block_bitmap (cur_part s)))"
    using lt len by (simp add: BLOCK_SIZE_def)
  then have "bitmap_sync (word_of_nat i) BLOCK_BITMAP s =
    write_block (block_bitmap_start ?B + ?off) (\<lambda>k. bits (block_bitmap (cur_part s)) ! (unat ?off * BLOCK_SIZE + k)) s"
    by (simp add: bitmap_sync_def write_block_def Let_def)
  also have "\<dots> = Some (put_block (block_bitmap_start ?B + ?off)
    (\<lambda>k. bits (block_bitmap (cur_part s)) ! (unat ?off * BLOCK_SIZE + k)) s)" by (rule write_block_bytes [OF w c'])
  finally show ?thesis using c by blast
qed

lemma blk2bidx_blk_no:
  "wf_part s \<Longrightarrow> data0 s + i < n_blks s \<Longrightarrow> blk2bidx s (blk_no s i) = word_of_nat i"
  by (simp add: blk2bidx_def blk_no_def data0_def)

lemma blk_no_inj: "wf_part s \<Longrightarrow> inj_on (blk_no s) (free_bits s)"
  by (rule inj_onI) (metis unat_blk_no wf_partD(5) add_left_cancel)

lemma grab_block:
  assumes w: "wf_part s" and f: "free_blks s \<noteq> {}"
  shows "\<exists>b s1 s2. block_bitmap_alloc s = Some (b, s1) \<and> bitmap_sync (blk2bidx s1 b) BLOCK_BITMAP s1 = Some s2 \<and> grabbed b s s2"
proof -
  let ?m = "block_bitmap (cur_part s)"
  from bitmap_take [OF wf_partD(1) [OF w]] f obtain i m where
    i: "bitmap_scan ?m 1 = Some (int i)" "i < bits_total ?m" "i \<notin> bitmap_used ?m"
      "bitmap_set ?m (word_of_nat i) 1 = Some m" "wf_bitmap m" "length (bits m) = length (bits ?m)"
      "bitmap_used m = insert i (bitmap_used ?m)"
    by (auto simp: free_blks_def free_bits_def)
  have fi: "i \<in> free_bits s" using i(2,3) by (simp add: free_bits_def)
  note n = wf_partD(5) [OF w fi]
  let ?b = "blk_no s i" and ?s1 = "upd_part (\<lambda>p. p\<lparr>block_bitmap := m\<rparr>) s"
  have alloc: "block_bitmap_alloc s = Some (?b, ?s1)"
    using i(1,4) by (simp add: block_bitmap_alloc_def bidx2blk_def blk_no_def data0_def)
  have "data0 s + j < n_blks s" if "j < bits_total ?m" "j \<notin> bitmap_used m" for j
    using wf_partD(5) [OF w, of j] that i(7) by (simp add: free_bits_def)
  note s1 = set_block_bitmap [OF w i(5,6) this]
  have idx: "blk2bidx ?s1 ?b = word_of_nat i"
    using blk2bidx_blk_no [OF w n] layout_cong(7) [OF s1(2)] by simp
  have "i < bits_total (block_bitmap (cur_part ?s1))" using i(2,6) by (simp add: upd_part_def)
  from bitmap_sync_block [OF s1(1) this] obtain c bf where
    c: "bitmap_sync (word_of_nat i) BLOCK_BITMAP ?s1 = Some (put_block c bf ?s1)" "unat c < data0 ?s1" by blast
  have free: "free_blks ?s1 = free_blks s - {?b}"
  proof -
    have "blk_no s j \<noteq> blk_no s i" if "j \<in> free_bits s" "j \<noteq> i" for j
      using inj_onD [OF blk_no_inj [OF w] _ that(1) fi] that(2) by blast
    moreover have "free_blks ?s1 = blk_no s ` (free_bits s - {i})" using s1(3) i(7) by (auto simp: free_bits_def)
    ultimately show ?thesis by (auto simp: free_blks_def)
  qed
  have d: "data_blk s ?b" using free_blks_data [OF w] fi by (auto simp: free_blks_def)
  have "used_blks ?s1 = insert ?b (used_blks s)"
    using free d layout_cong(4) [OF s1(2)] by (auto simp: used_blks_def)
  moreover have "blk_byte (put_block c bf ?s1) x k = blk_byte s x k" if "data_blk s x" "k < 4096" for x k
  proof -
    have "x \<noteq> c" using that(1) c(2) layout_cong(1) [OF s1(2)] by (auto simp: data_blk_def)
    then show ?thesis using put_block_other [of x c k bf ?s1] that(2) by (simp add: blk_byte_def base_def upd_part_def)
  qed
  ultimately have "grabbed ?b s (put_block c bf ?s1)"
    using free s1(1,2) imageI [OF fi, of "blk_no s"] unfolding grabbed_def free_blks_def [symmetric]
    by (simp add: upd_part_def)
  with alloc c(1) idx show ?thesis by auto
qed

subsection \<open>The allocator interface\<close>

text \<open>Taking a block as the code does it, the bitmap written back; bit 0 is the first block of the root directory and stays
  in use.\<close>

definition take_block_sync :: "'h fs \<Rightarrow> (u32 option \<times> 'h fs) option" where
  "take_block_sync s = do {
     (b, s) \<leftarrow> block_bitmap_alloc s;
     if b = - 1 then Some (None, s)
     else do { s \<leftarrow> bitmap_sync (blk2bidx s b) BLOCK_BITMAP s; Some (Some b, s) }
   }"

definition file_blks :: "'h fs \<Rightarrow> u32 set" where
  "file_blks s = blk_no s ` {i. 0 < i \<and> i < bits_total (block_bitmap (cur_part s)) \<and> data0 s + i < n_blks s}"

lemma layout_bits_total:
  "wf_part s \<Longrightarrow> wf_part s' \<Longrightarrow> layout s' = layout s \<Longrightarrow>
    bits_total (block_bitmap (cur_part s')) = bits_total (block_bitmap (cur_part s))"
  by (simp add: layout_def wf_part_def Let_def)

lemma free_block_releases:
  assumes w: "wf_part s" and b: "b \<in> file_blks s"
  shows "\<exists>s'. free_block b s = Some s' \<and> free_blks s' = insert b (free_blks s) \<and> layout s' = layout s \<and> wf_part s' \<and>
    inodes s' = inodes s \<and> heap s' = heap s \<and> (0 \<notin> free_bits s \<longrightarrow> 0 \<notin> free_bits s') \<and>
    (\<forall>c i. data_blk s c \<longrightarrow> i < 4096 \<longrightarrow> blk_byte s' c i = blk_byte s c i)"
proof -
  let ?m = "block_bitmap (cur_part s)"
  obtain i where i: "0 < i" "i < bits_total ?m" "data0 s + i < n_blks s" "b = blk_no s i" using b by (auto simp: file_blks_def)
  from bitmap_put [OF wf_partD(1) [OF w] i(2), of 0] obtain m where
    m: "bitmap_set ?m (word_of_nat i) 0 = Some m" "wf_bitmap m" "length (bits m) = length (bits ?m)" "bitmap_used m = bitmap_used ?m - {i}"
    by auto
  have "data0 s + j < n_blks s" if "j < bits_total ?m" "j \<notin> bitmap_used m" for j
    using wf_partD(5) [OF w, of j] that m(4) i(3) by (auto simp: free_bits_def)
  note s1 = set_block_bitmap [OF w m(2,3) this]
  let ?s1 = "upd_part (\<lambda>p. p\<lparr>block_bitmap := m\<rparr>) s"
  have "i < bits_total (block_bitmap (cur_part ?s1))" using i(2) m(3) by (simp add: upd_part_def)
  from bitmap_sync_block [OF s1(1) this] obtain c bf where
    c: "bitmap_sync (word_of_nat i) BLOCK_BITMAP ?s1 = Some (put_block c bf ?s1)" "unat c < data0 ?s1" by blast
  have "0 < unat (word_of_nat i :: u32)" using unat_bit_index [OF wf_partD(1) [OF w] i(2)] i(1) by simp
  then have "(0 :: u32) < word_of_nat i" by (simp add: word_less_nat_alt)
  then have "free_block b s = Some (put_block c bf ?s1)"
    using m(1) c(1) by (simp add: free_block_def i(4) blk2bidx_blk_no [OF w i(3)])
  moreover have "free_blks ?s1 = insert b (free_blks s)"
    using s1(3) m(4) i(2,4) by (auto simp: free_blks_def free_bits_def)
  moreover have "blk_byte (put_block c bf ?s1) x k = blk_byte s x k" if "data_blk s x" "k < 4096" for x k
  proof -
    have "x \<noteq> c" using that(1) c(2) layout_cong(1) [OF s1(2)] by (auto simp: data_blk_def)
    then show ?thesis using put_block_other [of x c k bf ?s1] that(2) by (simp add: blk_byte_def base_def upd_part_def)
  qed
  moreover have "0 \<notin> free_bits s \<Longrightarrow> 0 \<notin> free_bits ?s1" using m(3,4) i(1,2) by (auto simp: free_bits_def upd_part_def)
  ultimately show ?thesis using s1(1,2) by (auto simp: upd_part_def)
qed

lemma grab_no_root: "grabbed b s s' \<Longrightarrow> wf_part s \<Longrightarrow> 0 \<notin> free_bits s \<Longrightarrow> 0 \<notin> free_bits s'"
proof
  assume g: "grabbed b s s'" and w: "wf_part s" and z: "0 \<notin> free_bits s" and "0 \<in> free_bits s'"
  then have "blk_no s' 0 \<in> free_blks s'" by (auto simp: free_blks_def)
  then have "blk_no s 0 \<in> free_blks s" using g layout_cong(5) [of s' s] by (auto simp: grabbed_def)
  then obtain i where i: "i \<in> free_bits s" "blk_no s 0 = blk_no s i" by (auto simp: free_blks_def)
  note n = wf_partD(5) [OF w i(1)]
  have "unat (blk_no s 0) = data0 s + 0" by (rule unat_blk_no [OF w]) (use n in simp)
  moreover have "unat (blk_no s i) = data0 s + i" by (rule unat_blk_no [OF w n])
  ultimately have "i = 0" using i(2) by (metis add_left_cancel)
  then show False using z i(1) by simp
qed

interpretation blocks: allocator "\<lambda>s. wf_part s \<and> 0 \<notin> free_bits s" free_blks take_block_sync free_block file_blks
proof
  fix s :: "'h fs" and x assume "wf_part s \<and> 0 \<notin> free_bits s"
  then have w: "wf_part s" and z: "0 \<notin> free_bits s" by simp_all
  show "finite (free_blks s)" by (simp add: free_blks_def free_bits_def)
  show "free_blks s \<subseteq> file_blks s"
    unfolding free_blks_def file_blks_def
  proof (rule image_mono, rule subsetI)
    fix i assume i: "i \<in> free_bits s"
    then have "0 < i" using z by (auto intro: gr0I)
    with i wf_partD(5) [OF w i] show "i \<in> {i. 0 < i \<and> i < bits_total (block_bitmap (cur_part s)) \<and> data0 s + i < n_blks s}"
      by (simp add: free_bits_def)
  qed
  show "take_block_sync s = Some (None, s)" if "free_blks s = {}"
    using bitmap_take [OF wf_partD(1) [OF w]] that
    by (auto simp: take_block_sync_def block_bitmap_alloc_def free_blks_def free_bits_def)
  show "\<exists>x s'. take_block_sync s = Some (Some x, s') \<and> x \<in> free_blks s \<and> free_blks s' = free_blks s - {x} \<and>
      file_blks s' = file_blks s \<and> wf_part s' \<and> 0 \<notin> free_bits s'" if ne: "free_blks s \<noteq> {}"
  proof -
    from grab_block [OF w ne] obtain b s1 s2 where g: "block_bitmap_alloc s = Some (b, s1)"
      "bitmap_sync (blk2bidx s1 b) BLOCK_BITMAP s1 = Some s2" "grabbed b s s2" by blast
    have "b \<noteq> - 1" using free_blks_data [OF w, of b] data_blk_nz [OF w, of b] g(3) by (auto simp: grabbed_def)
    then have "take_block_sync s = Some (Some b, s2)" using g(1,2) by (simp add: take_block_sync_def)
    moreover have "file_blks s2 = file_blks s"
      using layout_bits_total [OF w, of s2] layout_cong [of s2 s] g(3) by (simp add: file_blks_def grabbed_def)
    ultimately show ?thesis using g(3) grab_no_root [OF g(3) w z] by (auto simp: grabbed_def)
  qed
  show "\<exists>s'. free_block x s = Some s' \<and> free_blks s' = insert x (free_blks s) \<and> file_blks s' = file_blks s \<and>
      wf_part s' \<and> 0 \<notin> free_bits s'" if "x \<in> file_blks s"
  proof -
    from free_block_releases [OF w that] obtain s' where s': "free_block x s = Some s'" "free_blks s' = insert x (free_blks s)"
      "layout s' = layout s" "wf_part s'" "0 \<notin> free_bits s'" using z by blast
    then show ?thesis using layout_cong [OF s'(3)] layout_bits_total [OF w s'(4,3)] by (simp add: file_blks_def)
  qed
qed

end
