(* ===== verification/Block_Index.thy ===== *)
theory Block_Index
  imports Inode Fs_Blocks
begin

text \<open>
  The index of an inode as a map from places to blocks. A place is a block of the file or one of the tables that
  lead to it; \<open>at\<close> reads the block number kept there through the tables on disk. In a sound index every
  block in it is in use and has one place. Each elementary write of \<open>alloc_data_block\<close> is then the update of this
  map at one place, and \<open>get_data_block\<close> is its lookup. Files stay below the third level: a file of \<open>2\<^sup>32\<close> bytes has
  \<open>2\<^sup>20\<close> blocks, and the third level begins at block 1049612.
\<close>

datatype loc = Data nat | Single | Double | Level2 nat

definition max_blocks :: nat where "max_blocks = 1049612"

primrec valid_loc :: "loc \<Rightarrow> bool" where
  "valid_loc (Data i) = (i < max_blocks)"
| "valid_loc Single = True"
| "valid_loc Double = True"
| "valid_loc (Level2 k) = (k < 1024)"

primrec is_table :: "loc \<Rightarrow> bool" where
  "is_table (Data i) = False"
| "is_table Single = True"
| "is_table Double = True"
| "is_table (Level2 k) = True"

definition secs :: "'h fs \<Rightarrow> u32 \<Rightarrow> u32 list" where
  "secs s p = (case inodes s p of None \<Rightarrow> [] | Some i \<Rightarrow> i_sectors i)"

definition entry :: "'h fs \<Rightarrow> u32 \<Rightarrow> nat \<Rightarrow> u32" where
  "entry s b k = get32 (blk_byte s b) (4 * k)"

definition child :: "'h fs \<Rightarrow> u32 \<Rightarrow> nat \<Rightarrow> u32" where
  "child s b k = (if b = 0 then 0 else entry s b k)"

primrec at :: "'h fs \<Rightarrow> u32 \<Rightarrow> loc \<Rightarrow> u32" where
  "at s p Single = secs s p ! 12"
| "at s p Double = secs s p ! 13"
| "at s p (Level2 k) = child s (secs s p ! 13) k"
| "at s p (Data i) = (if i < 12 then secs s p ! i
     else if i < 1036 then child s (secs s p ! 12) (i - 12)
     else child s (child s (secs s p ! 13) ((i - 1036) div 1024)) ((i - 1036) mod 1024))"

definition index_ok :: "'h fs \<Rightarrow> u32 \<Rightarrow> bool" where
  "index_ok s p \<longleftrightarrow> length (secs s p) = 15 \<and>
     (\<forall>l. valid_loc l \<longrightarrow> at s p l \<noteq> 0 \<longrightarrow> at s p l \<in> used_blks s) \<and>
     (\<forall>l l'. valid_loc l \<longrightarrow> valid_loc l' \<longrightarrow> at s p l = at s p l' \<longrightarrow> at s p l \<noteq> 0 \<longrightarrow> l = l')"

definition tables :: "'h fs \<Rightarrow> u32 \<Rightarrow> u32 set" where
  "tables s p = {b. b \<noteq> 0 \<and> (\<exists>l. valid_loc l \<and> is_table l \<and> at s p l = b)}"

lemma index_okD:
  assumes "index_ok s p"
  shows "length (secs s p) = 15" "\<And>l. valid_loc l \<Longrightarrow> at s p l \<noteq> 0 \<Longrightarrow> at s p l \<in> used_blks s"
    "\<And>l l'. valid_loc l \<Longrightarrow> valid_loc l' \<Longrightarrow> at s p l = at s p l' \<Longrightarrow> at s p l \<noteq> 0 \<Longrightarrow> l = l'"
  using assms unfolding index_ok_def by blast+

lemma index_ok_neq:
  "index_ok s p \<Longrightarrow> valid_loc l \<Longrightarrow> valid_loc l' \<Longrightarrow> at s p l \<noteq> 0 \<Longrightarrow> at s p l' = at s p l \<longleftrightarrow> l' = l"
  using index_okD(3) by metis

lemma index_ok_inode: "index_ok s p \<Longrightarrow> \<exists>i. inodes s p = Some i \<and> i_sectors i = secs s p"
  by (cases "inodes s p") (auto simp: index_ok_def secs_def)

lemma get_sector_secs: "index_ok s p \<Longrightarrow> k < 15 \<Longrightarrow> get_sector p k s = Some (secs s p ! k)"
  using index_ok_inode [of s p] index_okD(1) [of s p] by (auto simp: get_sector_def)

lemma level2_bound: "i < max_blocks \<Longrightarrow> (i - 1036) div 1024 < 1024"
  by (simp add: max_blocks_def less_mult_imp_div_less)

subsection \<open>Reading\<close>

lemma get_entry_child:
  assumes "wf_part s" and "b = 0 \<or> data_blk s b" and "unat k < 1024"
  shows "get_entry b k s = Some (child s b (unat k))"
proof (cases "b = 0")
  case False
  then have b: "unat b < n_blks s" using data_blk_nz [OF assms(1)] assms(2) by blast
  have "get32 (\<lambda>i. if i < 4096 then blk_byte s b i else 0) (4 * unat k) = entry s b (unat k)"
    unfolding entry_def by (rule get32_cong) (use assms(3) in simp)
  then show ?thesis using False assms(3) read_block_bytes [OF assms(1) b, of "\<lambda>_. 0"]
    by (simp add: get_entry_def tbl_get_def INODE_INDIRECT_ENTRIES_def child_def)
qed (simp add: get_entry_def child_def)

lemma at_data: "index_ok s p \<Longrightarrow> valid_loc l \<Longrightarrow> at s p l = 0 \<or> data_blk s (at s p l)"
  using index_okD(2) used_blks_data by blast

lemma get_data_block_at:
  assumes w: "wf_part s" and ok: "index_ok s p" and i: "unat idx < max_blocks"
  shows "get_data_block p idx s = Some (at s p (Data (unat idx)))"
proof -
  have lt: "idx < SINGLE_INDIRECT_START \<longleftrightarrow> unat idx < 12" "idx < DOUBLE_INDIRECT_START \<longleftrightarrow> unat idx < 1036"
    "idx < TRIPLE_INDIRECT_START \<longleftrightarrow> unat idx < 1049612"
    by (simp_all add: word_less_nat_alt SINGLE_INDIRECT_START_def DOUBLE_INDIRECT_START_def TRIPLE_INDIRECT_START_def)
  consider "unat idx < 12" | "12 \<le> unat idx" "unat idx < 1036" | "1036 \<le> unat idx" by linarith
  then show ?thesis
  proof cases
    case 1 then show ?thesis using get_sector_secs [OF ok, of "unat idx"] by (simp add: get_data_block_def lt)
  next
    case 2
    have u: "unat (idx - SINGLE_INDIRECT_START) = unat idx - 12"
      using 2 by (simp add: SINGLE_INDIRECT_START_def unat_sub word_le_nat_alt)
    have "secs s p ! 12 = 0 \<or> data_blk s (secs s p ! 12)" using at_data [OF ok, of Single] by simp
    from get_entry_child [OF w this, of "idx - SINGLE_INDIRECT_START"] show ?thesis
      using 2 u get_sector_secs [OF ok, of 12] by (simp add: get_data_block_def lt INODE_SINGLE_INDIRECT_def)
  next
    case 3
    have u: "unat (idx - DOUBLE_INDIRECT_START) = unat idx - 1036"
      using 3 by (simp add: DOUBLE_INDIRECT_START_def unat_sub word_le_nat_alt)
    have u1: "unat ((idx - DOUBLE_INDIRECT_START) div 1024) = (unat idx - 1036) div 1024"
      and u2: "unat ((idx - DOUBLE_INDIRECT_START) mod 1024) = (unat idx - 1036) mod 1024"
      by (simp_all add: unat_div unat_mod u)
    have k: "(unat idx - 1036) div 1024 < 1024" by (rule level2_bound [OF i])
    have "secs s p ! 13 = 0 \<or> data_blk s (secs s p ! 13)" using at_data [OF ok, of Double] by simp
    note g1 = get_entry_child [OF w this, of "(idx - DOUBLE_INDIRECT_START) div 1024", unfolded u1, OF k]
    have "child s (secs s p ! 13) ((unat idx - 1036) div 1024) = 0 \<or> data_blk s (child s (secs s p ! 13) ((unat idx - 1036) div 1024))"
      using at_data [OF ok, of "Level2 ((unat idx - 1036) div 1024)"] k by simp
    note g2 = get_entry_child [OF w this, of "(idx - DOUBLE_INDIRECT_START) mod 1024", unfolded u2]
    show ?thesis using 3 i g1 g2 get_sector_secs [OF ok, of 13]
      by (simp add: get_data_block_def lt INODE_DOUBLE_INDIRECT_def max_blocks_def)
  qed
qed

subsection \<open>Writing\<close>

text \<open>The index depends on the sectors of the inode and on the bytes of its tables.\<close>

lemma entry_cong: "(\<And>i. i < 4096 \<Longrightarrow> blk_byte s' b i = blk_byte s b i) \<Longrightarrow> k < 1024 \<Longrightarrow> entry s' b k = entry s b k"
  unfolding entry_def by (rule get32_cong) simp

lemma at_frame:
  assumes "secs s' p = secs s p" and "\<And>b i. b \<in> tables s p \<Longrightarrow> i < 4096 \<Longrightarrow> blk_byte s' b i = blk_byte s b i" and "valid_loc l"
  shows "at s' p l = at s p l"
proof -
  have c: "child s' (at s p T) k = child s (at s p T) k" if "valid_loc T" "is_table T" "k < 1024" for T k
  proof (cases "at s p T = 0")
    case False
    then have "at s p T \<in> tables s p" using that by (auto simp: tables_def)
    then show ?thesis using entry_cong [of s' "at s p T" s k] assms(2) that(3) by (simp add: child_def)
  qed (simp add: child_def)
  note c1 = c [of Single, simplified] and c2 = c [of Double, simplified] and c3 = c [of "Level2 k" for k, simplified]
  show ?thesis
  proof (cases l)
    case (Data i)
    then have "(i - 1036) div 1024 < 1024" using assms(3) level2_bound by simp
    with c1 [of "i - 12"] c2 [of "(i - 1036) div 1024"] c3 [of "(i - 1036) div 1024" "(i - 1036) mod 1024"] Data show ?thesis
      by (simp add: assms(1))
  qed (use c2 assms(1,3) in simp_all)
qed

definition entry_upd :: "u32 \<Rightarrow> nat \<Rightarrow> u32 \<Rightarrow> 'h fs \<Rightarrow> 'h fs" where
  "entry_upd t k v s = put_block t (put32 (4 * k) v (\<lambda>i. if i < 4096 then blk_byte s t i else 0)) s"

lemma entry_upd_fields [simp]:
  "cur_part (entry_upd t k v s) = cur_part s" "inodes (entry_upd t k v s) = inodes s" "heap (entry_upd t k v s) = heap s"
  "file_table (entry_upd t k v s) = file_table s" "cur_fds (entry_upd t k v s) = cur_fds s" "cur_cwd (entry_upd t k v s) = cur_cwd s"
  "secs (entry_upd t k v s) p = secs s p"
  by (simp_all add: entry_upd_def secs_def)

lemmas entry_upd_part [simp] = part_cong [OF entry_upd_fields(1)]

lemma set_entry_upd:
  assumes "wf_part s" and "data_blk s t" and "unat k < 1024"
  shows "set_entry t k v s = Some (entry_upd t (unat k) v s)"
proof -
  have t: "unat t < n_blks s" using data_blk_nz [OF assms(1,2)] by blast
  show ?thesis using assms(3) read_block_bytes [OF assms(1) t, of "\<lambda>_. 0"] write_block_bytes [OF assms(1) t]
    by (simp add: set_entry_def tbl_set_def INODE_INDIRECT_ENTRIES_def entry_upd_def)
qed

lemma entry_entry_upd:
  assumes "j < 1024" and "k < 1024"
  shows "entry (entry_upd t k v s) b j = (if b = t \<and> j = k then v else entry s b j)"
proof (cases "b = t")
  case True
  let ?f = "put32 (4 * k) v (\<lambda>i. if i < 4096 then blk_byte s t i else 0)"
  have "entry (entry_upd t k v s) t j = get32 ?f (4 * j)"
    unfolding entry_def entry_upd_def by (rule get32_cong) (use assms(1) in simp)
  also have "\<dots> = (if j = k then v else get32 (\<lambda>i. if i < 4096 then blk_byte s t i else 0) (4 * j))"
    by (auto intro!: get32_put32_other)
  also have "get32 (\<lambda>i. if i < 4096 then blk_byte s t i else 0) (4 * j) = entry s t j"
    unfolding entry_def by (rule get32_cong) (use assms(1) in simp)
  finally show ?thesis using True by simp
next
  case False
  then show ?thesis using entry_cong [of "entry_upd t k v s" b s j] assms(1) by (simp add: entry_upd_def put_block_other)
qed

lemma child_entry_upd:
  "j < 1024 \<Longrightarrow> k < 1024 \<Longrightarrow> t \<noteq> 0 \<Longrightarrow> child (entry_upd t k v s) b j = (if b = t \<and> j = k then v else child s b j)"
  by (simp add: child_def entry_entry_upd)

text \<open>The three kinds of update.\<close>

lemma at_leaf_single:
  assumes ok: "index_ok s p" and t: "t = at s p Single" "t \<noteq> 0" and k: "k < 1024" and l: "valid_loc l"
  shows "at (entry_upd t k v s) p l = (if l = Data (12 + k) then v else at s p l)"
proof -
  have d: "at s p Double \<noteq> t" "\<And>j. j < 1024 \<Longrightarrow> at s p (Level2 j) \<noteq> t"
    using t by (simp_all add: index_ok_neq [OF ok] del: at.simps)
  show ?thesis
  proof (cases l)
    case (Data i)
    have "(i - 1036) div 1024 < 1024" using Data l level2_bound by simp
    with d(2) [of "(i - 1036) div 1024"] d(1) t k Data show ?thesis by (auto simp: child_entry_upd)
  qed (use d t k l in \<open>auto simp: child_entry_upd\<close>)
qed

lemma at_leaf_level2:
  assumes ok: "index_ok s p" and t: "t = at s p (Level2 j)" "t \<noteq> 0" and k: "k < 1024" and j: "j < 1024" and l: "valid_loc l"
  shows "at (entry_upd t k v s) p l = (if l = Data (1036 + 1024 * j + k) then v else at s p l)"
proof -
  have d: "at s p Single \<noteq> t" "at s p Double \<noteq> t" "\<And>j'. j' < 1024 \<Longrightarrow> at s p (Level2 j') = t \<longleftrightarrow> j' = j"
    using t j by (simp_all add: index_ok_neq [OF ok] del: at.simps)
  show ?thesis
  proof (cases l)
    case (Data i)
    show ?thesis
    proof (cases "i < 1036")
      case False
      have "(i - 1036) div 1024 < 1024" using Data l level2_bound by simp
      moreover have "i = 1036 + 1024 * j + k \<longleftrightarrow> (i - 1036) div 1024 = j \<and> (i - 1036) mod 1024 = k"
        using False k by (auto simp: div_mult_self4)
      ultimately show ?thesis using d(2) d(3) [of "(i - 1036) div 1024"] t(2) k Data False
        by (auto simp: child_entry_upd)
    qed (use d(1) t k Data in \<open>auto simp: child_entry_upd\<close>)
  qed (use d t k l in \<open>auto simp: child_entry_upd\<close>)
qed

lemma at_table_level2:
  assumes ok: "index_ok s p" and t: "t = at s p Double" "t \<noteq> 0" and k: "k < 1024" and z: "at s p (Level2 k) = 0"
    and v: "v \<noteq> t" "\<And>j. j < 1024 \<Longrightarrow> entry s v j = 0" and l: "valid_loc l"
  shows "at (entry_upd t k v s) p l = (if l = Level2 k then v else at s p l)"
proof -
  have d: "at s p Single \<noteq> t" "\<And>j. j < 1024 \<Longrightarrow> at s p (Level2 j) \<noteq> t"
    using t by (simp_all add: index_ok_neq [OF ok] del: at.simps)
  have zero: "child s v j = 0" "child s 0 j = 0" if "j < 1024" for j using v(2) [OF that] by (simp_all add: child_def)
  show ?thesis
  proof (cases l)
    case (Data i)
    have "(i - 1036) div 1024 < 1024" using Data l level2_bound by simp
    with d(2) [of "(i - 1036) div 1024"] d(1) t k Data z v(1) zero [of "(i - 1036) mod 1024"] show ?thesis
      by (auto simp: child_entry_upd)
  qed (use d t k l in \<open>auto simp: child_entry_upd\<close>)
qed

end
