(* ===== verification/Block_Alloc.thy ===== *)
theory Block_Alloc
  imports Block_Index
begin

text \<open>
  \<open>alloc_data_block\<close> as the update of the block map of an inode. \<open>evolve n\<close> relates the states before and after
  a part of it: at most \<open>n\<close> blocks were taken, the layout and the other inodes are as before, and so is every block in
  use that is not a table of this inode. \<open>heap_serves\<close> is what the file system asks of the heap: while the budget
  lasts a request is served with a new address, and freeing an address given out restores the budget.
\<close>

definition heap_serves :: "'h heap_ops \<Rightarrow> (u32 set \<Rightarrow> nat \<Rightarrow> 'h \<Rightarrow> bool) \<Rightarrow> bool" where
  "heap_serves hp I \<longleftrightarrow>
     (\<forall>k n h A m. I A (Suc m) h \<longrightarrow> (\<exists>q h'. h_malloc hp k n h = Some (q, h') \<and> q \<noteq> 0 \<and> q \<notin> A \<and> I (insert q A) m h')) \<and>
     (\<forall>k q h A m. I A m h \<longrightarrow> q \<in> A \<longrightarrow> (\<exists>h'. h_free hp k q h = Some h' \<and> I (A - {q}) (Suc m) h'))"

lemma fs_malloc_serves:
  assumes "heap_serves hp I" and "I A (Suc m) (heap s)"
  obtains q h where "fs_malloc hp k n s = Some (q, s\<lparr>heap := h\<rparr>)" "q \<noteq> 0" "q \<notin> A" "I (insert q A) m h"
  using assms unfolding heap_serves_def fs_malloc_def by (metis (mono_tags, lifting) bind.bind_lunit case_prod_conv)

lemma fs_free_serves:
  assumes "heap_serves hp I" and "I (insert q A) m (heap s)" and "q \<notin> A"
  obtains h where "fs_free hp k q s = Some (s\<lparr>heap := h\<rparr>)" "I A (Suc m) h"
  using assms unfolding heap_serves_def fs_free_def
  by (metis (no_types, lifting) Diff_insert_absorb bind.bind_lunit insertI1)

subsection \<open>Evolution of the state\<close>

definition evolve :: "nat \<Rightarrow> u32 \<Rightarrow> 'h fs \<Rightarrow> 'h fs \<Rightarrow> bool" where
  "evolve n p s s' \<longleftrightarrow> layout s' = layout s \<and> wf_part s' \<and> free_blks s' \<subseteq> free_blks s \<and>
     card (free_blks s) \<le> card (free_blks s') + n \<and>
     (\<forall>q. q \<noteq> p \<longrightarrow> inodes s' q = inodes s q) \<and>
     inodes s' p = map_option (\<lambda>i. i\<lparr>i_sectors := secs s' p\<rparr>) (inodes s p) \<and>
     inode_bitmap (cur_part s') = inode_bitmap (cur_part s) \<and> open_inodes (cur_part s') = open_inodes (cur_part s) \<and>
     file_table s' = file_table s \<and> cur_fds s' = cur_fds s \<and> cur_cwd s' = cur_cwd s \<and>
     tables s' p \<inter> used_blks s \<subseteq> tables s p \<and>
     (\<forall>b \<in> used_blks s - tables s p. \<forall>i < 4096. blk_byte s' b i = blk_byte s b i)"

lemma evolveD:
  assumes "evolve n p s s'"
  shows "layout s' = layout s" "wf_part s'" "used_blks s \<subseteq> used_blks s'" "free_blks s' \<subseteq> free_blks s"
    "card (free_blks s) \<le> card (free_blks s') + n"
    "\<And>b i. b \<in> used_blks s \<Longrightarrow> b \<notin> tables s p \<Longrightarrow> i < 4096 \<Longrightarrow> blk_byte s' b i = blk_byte s b i"
  using assms layout_cong(4) [of s' s] unfolding evolve_def used_blks_def by auto

lemma evolve_trans:
  assumes a: "evolve n p s s'" and b: "evolve m p s' s''"
  shows "evolve (n + m) p s s''"
proof -
  note u = evolveD(3) [OF a]
  have t: "tables s' p \<inter> used_blks s \<subseteq> tables s p" "tables s'' p \<inter> used_blks s' \<subseteq> tables s' p"
    using a b by (auto simp: evolve_def)
  have "blk_byte s'' c i = blk_byte s c i" if c: "c \<in> used_blks s" "c \<notin> tables s p" "i < 4096" for c i
  proof -
    have "c \<in> used_blks s'" "c \<notin> tables s' p" using c u t(1) by auto
    then show ?thesis using evolveD(6) [OF a c] evolveD(6) [OF b _ _ c(3), of c] by simp
  qed
  moreover have "tables s'' p \<inter> used_blks s \<subseteq> tables s p" using t u by blast
  moreover have "inodes s'' p = map_option (\<lambda>i. i\<lparr>i_sectors := secs s'' p\<rparr>) (inodes s p)"
    using a b by (simp add: evolve_def option.map_comp comp_def)
  ultimately show ?thesis using a b unfolding evolve_def by auto
qed

lemma evolve_refl: "wf_part s \<Longrightarrow> evolve 0 p s s"
  by (auto simp: evolve_def secs_def split: option.split)

lemma evolve_mono: "evolve n p s s' \<Longrightarrow> n \<le> m \<Longrightarrow> evolve m p s s'"
  by (auto simp: evolve_def)

lemma heap_irrelevant [simp]:
  "cur_part (s\<lparr>heap := h\<rparr>) = cur_part s" "blk_byte (s\<lparr>heap := h\<rparr>) = blk_byte s" "secs (s\<lparr>heap := h\<rparr>) = secs s"
  by (simp_all add: blk_byte_def base_def secs_def fun_eq_iff)

lemma entry_heap [simp]: "entry (s\<lparr>heap := h\<rparr>) = entry s"
  by (simp add: entry_def fun_eq_iff)

lemma at_heap [simp]: "at (s\<lparr>heap := h\<rparr>) p l = at s p l"
  by (cases l) (simp_all add: child_def)

lemma tables_heap [simp]: "tables (s\<lparr>heap := h\<rparr>) = tables s"
  by (simp add: tables_def fun_eq_iff)

lemmas heap_part [simp] = part_cong [OF heap_irrelevant(1)]

lemma index_ok_heap [simp]: "index_ok (s\<lparr>heap := h\<rparr>) p = index_ok s p"
  by (simp add: index_ok_def)

lemma evolve_heap [simp]: "evolve n p s (s'\<lparr>heap := h\<rparr>) = evolve n p s s'" "evolve n p (s\<lparr>heap := h\<rparr>) s' = evolve n p s s'"
  by (simp_all add: evolve_def)

text \<open>A sound index stays sound when one place gets a block that is in use and has no other place.\<close>

lemma index_ok_upd:
  assumes ok: "index_ok s p" and len: "length (secs s' p) = 15"
    and at: "\<And>l. valid_loc l \<Longrightarrow> at s' p l = (if l = x then v else at s p l)"
    and u: "used_blks s \<subseteq> used_blks s'" "v \<in> used_blks s'" and v: "\<And>l. valid_loc l \<Longrightarrow> at s p l \<noteq> v"
  shows "index_ok s' p"
  unfolding index_ok_def
proof (intro conjI allI impI)
  fix l assume l: "valid_loc l" "at s' p l \<noteq> 0"
  then show "at s' p l \<in> used_blks s'" using at [OF l(1)] index_okD(2) [OF ok l(1)] u by (auto split: if_splits)
next
  fix l l' assume l: "valid_loc l" "valid_loc l'" "at s' p l = at s' p l'" "at s' p l \<noteq> 0"
  then show "l = l'"
    using at [OF l(1)] at [OF l(2)] index_okD(3) [OF ok l(1,2)] v [OF l(1)] v [OF l(2)] by (auto split: if_splits)
qed (rule len)

lemma index_ok_same:
  assumes "index_ok s p" and "length (secs s' p) = 15" and "\<And>l. valid_loc l \<Longrightarrow> at s' p l = at s p l" and "used_blks s \<subseteq> used_blks s'"
  shows "index_ok s' p"
  using assms by (auto simp: index_ok_def)

lemma tables_used: "index_ok s p \<Longrightarrow> tables s p \<subseteq> used_blks s"
  using index_okD(2) by (auto simp: tables_def)

lemma grabbed_evolve:
  assumes w: "wf_part s" and ok: "index_ok s p" and g: "grabbed b s s'"
  shows "evolve 1 p s s'" "\<And>l. valid_loc l \<Longrightarrow> at s' p l = at s p l" "index_ok s' p" "b \<in> used_blks s'" "b \<notin> used_blks s" "data_blk s b"
proof -
  have sec: "secs s' p = secs s p" using g by (simp add: grabbed_def secs_def)
  have bytes: "blk_byte s' c i = blk_byte s c i" if "c \<in> used_blks s" "i < 4096" for c i
    using g that used_blks_data [OF that(1)] by (auto simp: grabbed_def)
  show at: "at s' p l = at s p l" if "valid_loc l" for l
    by (rule at_frame [OF sec _ that]) (use bytes tables_used [OF ok] in blast)
  have fin: "finite (free_blks s)" by (simp add: free_blks_def free_bits_def)
  have "card (free_blks s) \<le> card (free_blks s') + 1"
    using g card_Diff_singleton_if [of "free_blks s" b] by (auto simp: grabbed_def)
  moreover have "tables s' p = tables s p" using at by (auto simp: tables_def)
  moreover have "inodes s' p = map_option (\<lambda>i. i\<lparr>i_sectors := secs s p\<rparr>) (inodes s p)"
    using g by (cases "inodes s p") (auto simp: grabbed_def secs_def)
  ultimately show "evolve 1 p s s'" using g sec bytes by (auto simp: evolve_def grabbed_def)
  show "index_ok s' p" by (rule index_ok_same [OF ok _ at]) (use sec index_okD(1) [OF ok] g in \<open>auto simp: grabbed_def\<close>)
  show "b \<in> used_blks s'" "b \<notin> used_blks s" "data_blk s b"
    using g free_blks_data [OF w] by (auto simp: grabbed_def used_blks_def)
qed

text \<open>Writing a block that was free, and is no table, is not noticed.\<close>

lemma put_block_index:
  assumes "t \<notin> tables s p"
  shows "\<And>l. valid_loc l \<Longrightarrow> at (put_block t bf s) p l = at s p l" "tables (put_block t bf s) p = tables s p"
proof -
  have sec: "secs (put_block t bf s) p = secs s p" by (simp add: secs_def)
  show at: "at (put_block t bf s) p l = at s p l" if "valid_loc l" for l
    by (rule at_frame [OF sec _ that]) (use assms put_block_other in metis)
  then show "tables (put_block t bf s) p = tables s p" by (auto simp: tables_def)
qed

lemma evolve_fresh_write:
  assumes e: "evolve n p s s'" and t: "t \<notin> used_blks s" "t \<notin> tables s' p"
  shows "evolve n p s (put_block t bf s')"
proof -
  have "blk_byte (put_block t bf s') b i = blk_byte s b i" if "b \<in> used_blks s" "b \<notin> tables s p" "i < 4096" for b i
    using put_block_other [of b t i bf s'] evolveD(6) [OF e that] that t(1) by auto
  then show ?thesis using e put_block_index(2) [OF t(2), of bf] unfolding evolve_def by (auto simp: secs_def)
qed

subsection \<open>New tables\<close>

lemma new_table:
  assumes w: "wf_part s" and ok: "index_ok s p" and f: "free_blks s \<noteq> {}" and hp: "heap_serves hp I" and I: "I A (Suc m) (heap s)"
  shows "\<exists>t s'. alloc_indirect_table hp s = Some (t, s') \<and> t \<noteq> 0 \<and> t \<in> used_blks s' \<and> t \<notin> used_blks s \<and> evolve 1 p s s' \<and>
    inodes s' = inodes s \<and> index_ok s' p \<and> (\<forall>l. valid_loc l \<longrightarrow> at s' p l = at s p l) \<and> (\<forall>j < 1024. entry s' t j = 0) \<and>
    (\<forall>b i. b \<in> used_blks s \<longrightarrow> i < 4096 \<longrightarrow> blk_byte s' b i = blk_byte s b i) \<and> I A (Suc m) (heap s')"
proof -
  from grab_block [OF w f] obtain t s1 s2 where g: "block_bitmap_alloc s = Some (t, s1)"
    "bitmap_sync (blk2bidx s1 t) BLOCK_BITMAP s1 = Some s2" "grabbed t s s2" by blast
  note e = grabbed_evolve [OF w ok g(3)]
  note w2 = evolveD(2) [OF e(1)]
  have t: "t \<noteq> 0" "t \<noteq> - 1" "unat t < n_blks s" using data_blk_nz [OF w e(6)] by auto
  have t2: "unat t < n_blks s2" using t(3) layout_cong(2) [OF evolveD(1) [OF e(1)]] by simp
  have "I A (Suc m) (heap s2)" using I g(3) by (simp add: grabbed_def)
  then obtain q h where q: "fs_malloc hp False 4096 s2 = Some (q, s2\<lparr>heap := h\<rparr>)" "q \<noteq> 0" "q \<notin> A" "I (insert q A) m h"
    by (rule fs_malloc_serves [OF hp])
  define s3 where "s3 = put_block t (\<lambda>_. 0) (s2\<lparr>heap := h\<rparr>)"
  have wr: "write_block t (\<lambda>_. 0) (s2\<lparr>heap := h\<rparr>) = Some s3"
    unfolding s3_def by (rule write_block_bytes) (use w2 t2 in \<open>simp_all add: n_blks_def\<close>)
  have "I (insert q A) m (heap s3)" using q(4) by (simp add: s3_def)
  then obtain h' where h': "fs_free hp False q s3 = Some (s3\<lparr>heap := h'\<rparr>)" "I A (Suc m) h'"
    using q(3) by (rule fs_free_serves [OF hp])
  have nt: "t \<notin> tables (s2\<lparr>heap := h\<rparr>) p" using e(2,5) tables_used [OF ok] by (fastforce simp: tables_def)
  have at: "at s3 p l = at s p l" if "valid_loc l" for l
    using put_block_index(1) [OF nt that] e(2) [OF that] by (simp add: s3_def)
  have "evolve 1 p s s3" unfolding s3_def by (rule evolve_fresh_write) (use e nt in auto)
  moreover have "inodes s3 = inodes s" using g(3) by (simp add: s3_def grabbed_def)
  moreover have "index_ok s3 p"
    by (rule index_ok_same [OF e(3)]) (use index_okD(1) [OF e(3)] at e(2) in \<open>auto simp: s3_def secs_def\<close>)
  moreover have "entry s3 t j = 0" if "j < 1024" for j
  proof -
    have "entry s3 t j = get32 (\<lambda>_. 0) (4 * j)" unfolding entry_def by (rule get32_cong) (use that in \<open>simp add: s3_def\<close>)
    then show ?thesis by simp
  qed
  moreover have "blk_byte s3 b i = blk_byte s b i" if "b \<in> used_blks s" "i < 4096" for b i
    using put_block_other [of b t i "\<lambda>_. 0" "s2\<lparr>heap := h\<rparr>"] used_blks_data [OF that(1)] that e(5) g(3)
    by (auto simp: s3_def grabbed_def)
  moreover have "alloc_indirect_table hp s = Some (t, s3\<lparr>heap := h'\<rparr>)"
    using g(1,2) t(2) q(1,2) wr h'(1) by (simp add: alloc_indirect_table_def)
  ultimately show ?thesis using t(1) e(4,5) h'(2) at
    by (intro exI [of _ t] exI [of _ "s3\<lparr>heap := h'\<rparr>"]) (auto simp: s3_def)
qed

subsection \<open>The sectors of the inode\<close>

definition sec_upd :: "u32 \<Rightarrow> nat \<Rightarrow> u32 \<Rightarrow> 'h fs \<Rightarrow> 'h fs" where
  "sec_upd p k v s = s\<lparr>inodes := (inodes s)(p := map_option (\<lambda>i. i\<lparr>i_sectors := (i_sectors i)[k := v]\<rparr>) (inodes s p))\<rparr>"

lemma sec_upd_fields [simp]:
  "cur_part (sec_upd p k v s) = cur_part s" "heap (sec_upd p k v s) = heap s" "disk (sec_upd p k v s) = disk s"
  "file_table (sec_upd p k v s) = file_table s" "cur_fds (sec_upd p k v s) = cur_fds s" "cur_cwd (sec_upd p k v s) = cur_cwd s"
  "root_dir (sec_upd p k v s) = root_dir s" "dirs (sec_upd p k v s) = dirs s"
  by (simp_all add: sec_upd_def)

lemma blk_byte_sec_upd [simp]: "blk_byte (sec_upd p k v s) = blk_byte s"
  by (simp add: blk_byte_def base_def fun_eq_iff)

lemma entry_sec_upd [simp]: "entry (sec_upd p k v s) = entry s" "child (sec_upd p k v s) = child s"
  by (simp_all add: entry_def child_def fun_eq_iff)

lemmas sec_upd_part [simp] = part_cong [OF sec_upd_fields(1)]

lemma secs_sec_upd: "index_ok s p \<Longrightarrow> secs (sec_upd p k v s) p = (secs s p)[k := v]"
  using index_ok_inode [of s p] by (auto simp: secs_def sec_upd_def)

lemma set_sector_upd: "index_ok s p \<Longrightarrow> k < 15 \<Longrightarrow> set_sector p k v s = Some (sec_upd p k v s)"
proof -
  assume ok: "index_ok s p" and k: "k < 15"
  from index_ok_inode [OF ok] obtain i where "inodes s p = Some i" "i_sectors i = secs s p" by blast
  then show ?thesis using index_okD(1) [OF ok] k by (simp add: set_sector_def upd_inode_def sec_upd_def)
qed

lemma at_direct:
  assumes "index_ok s p" and "k < 12"
  shows "at (sec_upd p k v s) p l = (if l = Data k then v else at s p l)"
  using assms(2) by (cases l) (auto simp: secs_sec_upd [OF assms(1)] index_okD(1) [OF assms(1)] nth_list_update)

lemma at_sector_table:
  assumes ok: "index_ok s p" and k: "k = 12 \<and> x = Single \<or> k = 13 \<and> x = Double" and z: "secs s p ! k = 0"
    and v: "\<And>j. j < 1024 \<Longrightarrow> entry s v j = 0" and l: "valid_loc l"
  shows "at (sec_upd p k v s) p l = (if l = x then v else at s p l)"
proof -
  have zero: "child s v j = 0" if "j < 1024" for j using v [OF that] by (simp add: child_def)
  have zero0: "child s 0 j = 0" for j by (simp add: child_def)
  show ?thesis
  proof (cases l)
    case (Data i)
    have "(i - 1036) div 1024 < 1024" using Data l level2_bound by simp
    with zero [of "(i - 1036) div 1024"] zero [of "i - 12"] k z Data show ?thesis
      by (auto simp: secs_sec_upd [OF ok] index_okD(1) [OF ok] nth_list_update zero0)
  qed (use k z zero zero0 l in \<open>auto simp: secs_sec_upd [OF ok] index_okD(1) [OF ok] nth_list_update\<close>)
qed

text \<open>A change of the index at one place, by a block that was not in use or is not in use elsewhere.\<close>

lemma evolve_sec_upd:
  assumes e: "evolve n p s s'" and ok': "index_ok s' p" and v: "v \<notin> used_blks s \<or> \<not> is_table x"
    and at: "\<And>l. valid_loc l \<Longrightarrow> at (sec_upd p k v s') p l = (if l = x then v else at s' p l)"
  shows "evolve n p s (sec_upd p k v s')"
proof -
  have "tables (sec_upd p k v s') p \<inter> used_blks s \<subseteq> tables s' p \<inter> used_blks s"
    using at v by (auto simp: tables_def split: if_splits)
  moreover obtain i where "inodes s' p = Some i" using index_ok_inode [OF ok'] by blast
  then have "inodes (sec_upd p k v s') p = map_option (\<lambda>i. i\<lparr>i_sectors := secs (sec_upd p k v s') p\<rparr>) (inodes s' p)"
    by (simp add: sec_upd_def secs_def)
  moreover have "inodes (sec_upd p k v s') q = inodes s' q" if "q \<noteq> p" for q using that by (simp add: sec_upd_def)
  ultimately show ?thesis using e unfolding evolve_def by (auto simp: option.map_comp comp_def)
qed

lemma evolve_entry_upd:
  assumes e: "evolve n p s s'" and t: "t \<in> tables s' p" and v: "v \<notin> used_blks s \<or> \<not> is_table x"
    and at: "\<And>l. valid_loc l \<Longrightarrow> at (entry_upd t k v s') p l = (if l = x then v else at s' p l)"
  shows "evolve n p s (entry_upd t k v s')"
proof -
  have "tables (entry_upd t k v s') p \<inter> used_blks s \<subseteq> tables s' p \<inter> used_blks s"
    using at v by (auto simp: tables_def split: if_splits)
  moreover have "tables s' p \<inter> used_blks s \<subseteq> tables s p" using e by (simp add: evolve_def)
  moreover have "blk_byte (entry_upd t k v s') b i = blk_byte s b i" if "b \<in> used_blks s" "b \<notin> tables s p" "i < 4096" for b i
  proof -
    have "b \<noteq> t" using that(1,2) t e by (auto simp: evolve_def)
    then show ?thesis using put_block_other [of b t i _ s'] evolveD(6) [OF e that] that(3) by (simp add: entry_upd_def)
  qed
  ultimately show ?thesis using e unfolding evolve_def by auto
qed

subsection \<open>Tables on the way\<close>

text \<open>What making a table at place \<open>x\<close> guarantees.\<close>

definition made :: "'h heap_ops \<Rightarrow> u32 \<Rightarrow> loc \<Rightarrow> u32 \<Rightarrow> 'h fs \<Rightarrow> 'h fs \<Rightarrow> bool" where
  "made hp p x t s s' \<longleftrightarrow> t \<noteq> 0 \<and> t = at s' p x \<and> evolve 1 p s s' \<and> index_ok s' p \<and>
     (\<forall>l. valid_loc l \<longrightarrow> l \<noteq> x \<longrightarrow> at s' p l = at s p l) \<and> (at s' p x = at s p x \<or> at s' p x \<notin> used_blks s)"

lemma sector_table_made:
  assumes w: "wf_part s" and ok: "index_ok s p" and f: "free_blks s \<noteq> {}" and hp: "heap_serves hp I" and I: "I A (Suc m) (heap s)"
    and k: "k = 12 \<and> x = Single \<or> k = 13 \<and> x = Double"
  shows "\<exists>t s'. sector_table hp p k s = Some (t, s') \<and> made hp p x t s s' \<and> I A (Suc m) (heap s')"
proof (cases "secs s p ! k = 0")
  case False
  have "evolve 1 p s s" by (rule evolve_mono [OF evolve_refl [OF w]]) simp
  then show ?thesis using False ok I k get_sector_secs [OF ok, of k] by (auto simp: sector_table_def made_def)
next
  case True
  from new_table [OF w ok f hp I] obtain t s1 where t: "alloc_indirect_table hp s = Some (t, s1)" "t \<noteq> 0" "t \<in> used_blks s1"
    "t \<notin> used_blks s" "evolve 1 p s s1" "inodes s1 = inodes s" "index_ok s1 p" "\<And>l. valid_loc l \<Longrightarrow> at s1 p l = at s p l"
    "\<And>j. j < 1024 \<Longrightarrow> entry s1 t j = 0" "I A (Suc m) (heap s1)"
    "\<And>b i. b \<in> used_blks s \<Longrightarrow> i < 4096 \<Longrightarrow> blk_byte s1 b i = blk_byte s b i" by blast
  have z: "secs s1 p ! k = 0" using True t(6) by (simp add: secs_def)
  note at = at_sector_table [OF t(7) k z t(9)]
  have "set_sector p k t s1 = Some (sec_upd p k t s1)" by (rule set_sector_upd [OF t(7)]) (use k in auto)
  then have "sector_table hp p k s = Some (t, sec_upd p k t s1)"
    using True t(1,2) k get_sector_secs [OF ok, of k] by (auto simp: sector_table_def)
  moreover have "index_ok (sec_upd p k t s1) p"
  proof (rule index_ok_upd [OF t(7) _ at])
    show "at s1 p l \<noteq> t" if "valid_loc l" for l using t(2,4,8) index_okD(2) [OF ok that] that by metis
  qed (use t(3) index_okD(1) [OF t(7)] secs_sec_upd [OF t(7)] in auto)
  moreover have "evolve 1 p s (sec_upd p k t s1)" by (rule evolve_sec_upd [OF t(5,7) _ at]) (use t(4) in simp)
  moreover have "at (sec_upd p k t s1) p x = t" using at [of x] k by auto
  ultimately show ?thesis using at t(2,4,8,10) unfolding made_def by fastforce
qed

lemma entry_table_made:
  assumes w: "wf_part s" and ok: "index_ok s p" and f: "free_blks s \<noteq> {}" and hp: "heap_serves hp I" and I: "I A (Suc m) (heap s)"
    and d: "d = at s p Double" "d \<noteq> 0" and k: "unat k < 1024"
  shows "\<exists>t s'. entry_table hp d k s = Some (t, s') \<and> made hp p (Level2 (unat k)) t s s' \<and> I A (Suc m) (heap s')"
proof -
  have dd: "data_blk s d" "unat d < n_blks s" using at_data [OF ok, of Double] d data_blk_nz [OF w, of d] by auto
  let ?b = "\<lambda>i. if i < 4096 then blk_byte s d i else 0"
  have "get32 ?b (4 * unat k) = entry s d (unat k)" unfolding entry_def by (rule get32_cong) (use k in simp)
  then have rd: "read_block d (\<lambda>_. 0) s = Some ?b" "tbl_get ?b (unat k) = Some (at s p (Level2 (unat k)))"
    using read_block_bytes [OF w dd(2), of "\<lambda>_. 0"] k d by (simp_all add: tbl_get_def INODE_INDIRECT_ENTRIES_def child_def)
  show ?thesis
  proof (cases "at s p (Level2 (unat k)) = 0")
    case False
    have "evolve 1 p s s" by (rule evolve_mono [OF evolve_refl [OF w]]) simp
    then show ?thesis using False ok I rd by (auto simp: entry_table_def made_def)
  next
    case True
    from new_table [OF w ok f hp I] obtain t s1 where t: "alloc_indirect_table hp s = Some (t, s1)" "t \<noteq> 0" "t \<in> used_blks s1"
      "t \<notin> used_blks s" "evolve 1 p s s1" "inodes s1 = inodes s" "index_ok s1 p" "\<And>l. valid_loc l \<Longrightarrow> at s1 p l = at s p l"
      "\<And>j. j < 1024 \<Longrightarrow> entry s1 t j = 0" "I A (Suc m) (heap s1)"
    "\<And>b i. b \<in> used_blks s \<Longrightarrow> i < 4096 \<Longrightarrow> blk_byte s1 b i = blk_byte s b i" by blast
    note w1 = evolveD(2) [OF t(5)]
    have d1: "d = at s1 p Double" "data_blk s1 d" "unat d < n_blks s1"
      using d t(8) [of Double] dd layout_cong(2,4) [OF evolveD(1) [OF t(5)]] by auto
    have td: "t \<noteq> d" using t(4) index_okD(2) [OF ok, of Double] d by auto
    have z: "at s1 p (Level2 (unat k)) = 0" using True t(8) [of "Level2 (unat k)"] k by simp
    note at = at_table_level2 [OF t(7) d1(1) d(2) k z td t(9)]
    have "d \<in> used_blks s" using index_okD(2) [OF ok, of Double] d by simp
    then have b: "?b = (\<lambda>i. if i < 4096 then blk_byte s1 d i else 0)" using t(11) by auto
    have "write_block d (put32 (4 * unat k) t ?b) s1 = Some (entry_upd d (unat k) t s1)"
      unfolding b entry_upd_def by (rule write_block_bytes [OF w1 d1(3)])
    then have "entry_table hp d k s = Some (t, entry_upd d (unat k) t s1)"
      using True t(1,2) rd k by (simp add: entry_table_def tbl_set_def INODE_INDIRECT_ENTRIES_def)
    moreover have "index_ok (entry_upd d (unat k) t s1) p"
    proof (rule index_ok_upd [OF t(7) _ at])
      show "at s1 p l \<noteq> t" if "valid_loc l" for l using t(2,4,8) index_okD(2) [OF ok that] that by metis
    qed (use t(3) index_okD(1) [OF t(7)] in auto)
    moreover have "d \<in> tables s1 p" using d1(1) d(2) unfolding tables_def by (auto intro: exI [of _ Double])
    then have "evolve 1 p s (entry_upd d (unat k) t s1)" by (rule evolve_entry_upd [OF t(5) _ _ at]) (use t(4) in auto)
    moreover have "at (entry_upd d (unat k) t s1) p (Level2 (unat k)) = t" using at [of "Level2 (unat k)"] k by simp
    ultimately show ?thesis using at t(2,4,8,10) unfolding made_def by fastforce
  qed
qed

subsection \<open>The new block\<close>

lemma made_unplaced:
  assumes "made hp p x t s s'" and "v \<in> used_blks s" and "\<And>l. valid_loc l \<Longrightarrow> at s p l \<noteq> v" and "valid_loc l" and "valid_loc x"
  shows "at s' p l \<noteq> v"
  using assms unfolding made_def by metis

text \<open>The last write, into the table \<open>t\<close> at place \<open>x\<close>.\<close>

lemma leaf_written:
  assumes w: "wf_part s" and ok: "index_ok s p" and v: "v \<in> used_blks s" "\<And>l. valid_loc l \<Longrightarrow> at s p l \<noteq> v"
    and x: "t = at s p x" "t \<noteq> 0" "valid_loc x" "is_table x" and k: "unat k < 1024"
    and at: "\<And>l. valid_loc l \<Longrightarrow> at (entry_upd t (unat k) v s) p l = (if l = Data i then v else at s p l)"
  shows "\<exists>s'. set_entry t k v s = Some s' \<and> index_ok s' p \<and> evolve 0 p s s' \<and> heap s' = heap s \<and>
    (\<forall>l. valid_loc l \<longrightarrow> at s' p l = (if l = Data i then v else at s p l))"
proof -
  have "set_entry t k v s = Some (entry_upd t (unat k) v s)"
    by (rule set_entry_upd [OF w _ k]) (use at_data [OF ok x(3)] x(1,2) in auto)
  moreover have "index_ok (entry_upd t (unat k) v s) p"
    by (rule index_ok_upd [OF ok _ at]) (use v index_okD(1) [OF ok] in auto)
  moreover have "t \<in> tables s p" using x by (auto simp: tables_def)
  then have "evolve 0 p s (entry_upd t (unat k) v s)" by (rule evolve_entry_upd [OF evolve_refl [OF w] _ _ at]) simp_all
  ultimately show ?thesis using at by auto
qed

lemma free_after:
  assumes "evolve n p s s'" and "n < card (free_blks s)"
  shows "card (free_blks s) - n \<le> card (free_blks s')" "free_blks s' \<noteq> {}"
  using evolveD(5) [OF assms(1)] assms(2) by auto

lemma link_block_links:
  assumes w: "wf_part s" and ok: "index_ok s p" and f: "2 \<le> card (free_blks s)" and hp: "heap_serves hp I"
    and I: "I A (Suc m) (heap s)" and i: "unat idx < max_blocks"
    and v: "v \<in> used_blks s" "\<And>l. valid_loc l \<Longrightarrow> at s p l \<noteq> v"
  shows "\<exists>s'. link_block hp p idx v s = Some (True, s') \<and> index_ok s' p \<and> evolve 2 p s s' \<and> I A (Suc m) (heap s') \<and>
    (\<forall>j < max_blocks. at s' p (Data j) = (if j = unat idx then v else at s p (Data j)))"
proof -
  have lt: "idx < SINGLE_INDIRECT_START \<longleftrightarrow> unat idx < 12" "idx < DOUBLE_INDIRECT_START \<longleftrightarrow> unat idx < 1036"
    "idx < TRIPLE_INDIRECT_START \<longleftrightarrow> unat idx < 1049612"
    by (simp_all add: word_less_nat_alt SINGLE_INDIRECT_START_def DOUBLE_INDIRECT_START_def TRIPLE_INDIRECT_START_def)
  have f1: "free_blks s \<noteq> {}" using f by auto
  consider "unat idx < 12" | "12 \<le> unat idx" "unat idx < 1036" | "1036 \<le> unat idx" by linarith
  then show ?thesis
  proof cases
    case 1
    note at = at_direct [OF ok 1, of v]
    have "index_ok (sec_upd p (unat idx) v s) p"
      by (rule index_ok_upd [OF ok _ at]) (use v index_okD(1) [OF ok] secs_sec_upd [OF ok] in auto)
    moreover have "evolve 0 p s (sec_upd p (unat idx) v s)" by (rule evolve_sec_upd [OF evolve_refl [OF w] ok _ at]) simp
    then have "evolve 2 p s (sec_upd p (unat idx) v s)" by (rule evolve_mono) simp
    ultimately show ?thesis using 1 set_sector_upd [OF ok, of "unat idx"] at I by (simp add: link_block_def lt del: at.simps)
  next
    case 2
    let ?k = "idx - SINGLE_INDIRECT_START"
    have u: "unat ?k = unat idx - 12" using 2 by (simp add: SINGLE_INDIRECT_START_def unat_sub word_le_nat_alt)
    from sector_table_made [OF w ok f1 hp I, of 12 Single] obtain t s1 where t: "sector_table hp p 12 s = Some (t, s1)"
      "made hp p Single t s s1" "I A (Suc m) (heap s1)" by auto
    then have m: "t \<noteq> 0" "t = at s1 p Single" "evolve 1 p s s1" "index_ok s1 p" "\<And>l. valid_loc l \<Longrightarrow> l \<noteq> Single \<Longrightarrow> at s1 p l = at s p l"
      by (auto simp: made_def simp del: at.simps)
    have v1: "v \<in> used_blks s1" "\<And>l. valid_loc l \<Longrightarrow> at s1 p l \<noteq> v"
      using v(1) evolveD(3) [OF m(3)] made_unplaced [OF t(2) v] by auto
    have k: "unat ?k < 1024" "12 + unat ?k = unat idx" using u 2 by simp_all
    from leaf_written [OF evolveD(2) [OF m(3)] m(4) v1 m(2,1) _ _ k(1) at_leaf_single [OF m(4,2,1) k(1)]]
    obtain s' where s': "set_entry t ?k v s1 = Some s'" "index_ok s' p" "evolve 0 p s1 s'" "heap s' = heap s1"
      "\<And>l. valid_loc l \<Longrightarrow> at s' p l = (if l = Data (unat idx) then v else at s1 p l)" unfolding k(2) by (auto simp del: at.simps)
    have "evolve 2 p s s'" by (rule evolve_mono [OF evolve_trans [OF m(3) s'(3)]]) simp
    then show ?thesis using 2 t(1,3) m(1,5) s' by (simp add: link_block_def lt INODE_SINGLE_INDIRECT_def del: at.simps)
  next
    case 3
    let ?j = "(idx - DOUBLE_INDIRECT_START) div 1024" and ?k = "(idx - DOUBLE_INDIRECT_START) mod 1024"
    have u: "unat (idx - DOUBLE_INDIRECT_START) = unat idx - 1036"
      using 3 by (simp add: DOUBLE_INDIRECT_START_def unat_sub word_le_nat_alt)
    have j: "unat ?j < 1024" using level2_bound [OF i] by (simp add: unat_div u)
    have k: "unat ?k < 1024" "1036 + 1024 * unat ?j + unat ?k = unat idx" using 3 by (simp_all add: unat_div unat_mod u)
    from sector_table_made [OF w ok f1 hp I, of 13 Double] obtain d s1 where d: "sector_table hp p 13 s = Some (d, s1)"
      "made hp p Double d s s1" "I A (Suc m) (heap s1)" by auto
    then have m: "d \<noteq> 0" "d = at s1 p Double" "evolve 1 p s s1" "index_ok s1 p" "\<And>l. valid_loc l \<Longrightarrow> l \<noteq> Double \<Longrightarrow> at s1 p l = at s p l"
      by (auto simp: made_def simp del: at.simps)
    note w1 = evolveD(2) [OF m(3)]
    have v1: "v \<in> used_blks s1" "\<And>l. valid_loc l \<Longrightarrow> at s1 p l \<noteq> v"
      using v(1) evolveD(3) [OF m(3)] made_unplaced [OF d(2) v] by auto
    have f2: "free_blks s1 \<noteq> {}" using free_after(2) [OF m(3)] f by simp
    from entry_table_made [OF w1 m(4) f2 hp d(3) m(2,1) j] obtain t s2 where t: "entry_table hp d ?j s1 = Some (t, s2)"
      "made hp p (Level2 (unat ?j)) t s1 s2" "I A (Suc m) (heap s2)" by auto
    then have n: "t \<noteq> 0" "t = at s2 p (Level2 (unat ?j))" "evolve 1 p s1 s2" "index_ok s2 p"
      "\<And>l. valid_loc l \<Longrightarrow> l \<noteq> Level2 (unat ?j) \<Longrightarrow> at s2 p l = at s1 p l"
      by (auto simp: made_def simp del: at.simps)
    have v2: "v \<in> used_blks s2" "\<And>l. valid_loc l \<Longrightarrow> at s2 p l \<noteq> v"
      using v1(1) evolveD(3) [OF n(3)] made_unplaced [OF t(2) v1] j by auto
    have vl: "valid_loc (Level2 (unat ?j))" "is_table (Level2 (unat ?j))" using j by simp_all
    from leaf_written [OF evolveD(2) [OF n(3)] n(4) v2 n(2,1) vl k(1) at_leaf_level2 [OF n(4,2,1) k(1) j]]
    obtain s' where s': "set_entry t ?k v s2 = Some s'" "index_ok s' p" "evolve 0 p s2 s'" "heap s' = heap s2"
      "\<And>l. valid_loc l \<Longrightarrow> at s' p l = (if l = Data (unat idx) then v else at s2 p l)" unfolding k(2) by (auto simp del: at.simps)
    have "evolve 2 p s s'" by (rule evolve_mono [OF evolve_trans [OF evolve_trans [OF m(3) n(3)] s'(3)]]) simp
    then show ?thesis using 3 i d(1) t(1,3) m(1,5) n(1,5) s'
      by (simp add: link_block_def lt INODE_DOUBLE_INDIRECT_def max_blocks_def del: at.simps)
  qed
qed

lemma alloc_data_block_links:
  assumes w: "wf_part s" and ok: "index_ok s p" and f: "3 \<le> card (free_blks s)" and hp: "heap_serves hp I"
    and I: "I A (Suc (Suc m)) (heap s)" and i: "unat idx < max_blocks"
  shows "\<exists>b s'. alloc_data_block hp p idx s = Some (b, s') \<and> b \<noteq> 0 \<and> b \<in> used_blks s' \<and> b \<notin> used_blks s \<and> index_ok s' p \<and>
    evolve 3 p s s' \<and> I A (Suc (Suc m)) (heap s') \<and>
    (\<forall>j < max_blocks. at s' p (Data j) = (if j = unat idx then b else at s p (Data j)))"
proof -
  from fs_malloc_serves [OF hp I, of False 4096] obtain q h where
    q: "fs_malloc hp False 4096 s = Some (q, s\<lparr>heap := h\<rparr>)" "q \<noteq> 0" "q \<notin> A" "I (insert q A) (Suc m) h" .
  let ?s = "s\<lparr>heap := h\<rparr>"
  have w0: "wf_part ?s" and ok0: "index_ok ?s p" and f0: "free_blks ?s \<noteq> {}" using w ok f by auto
  from grab_block [OF w0 f0] obtain b s1 s2 where g: "block_bitmap_alloc ?s = Some (b, s1)"
    "bitmap_sync (blk2bidx s1 b) BLOCK_BITMAP s1 = Some s2" "grabbed b ?s s2" by blast
  note e = grabbed_evolve [OF w0 ok0 g(3)]
  have b: "b \<noteq> 0" "b \<noteq> - 1" using data_blk_nz [OF w0 e(6)] by auto
  have np: "at s2 p l \<noteq> b" if "valid_loc l" for l
    using e(2) [OF that] index_okD(2) [OF ok0 that] e(5) b(1) by metis
  have f2: "2 \<le> card (free_blks s2)" using evolveD(5) [OF e(1)] f by simp
  have I2: "I (insert q A) (Suc m) (heap s2)" using q(4) g(3) by (simp add: grabbed_def)
  from link_block_links [OF evolveD(2) [OF e(1)] e(3) f2 hp I2 i e(4) np] obtain s3 where
    s3: "link_block hp p idx b s2 = Some (True, s3)" "index_ok s3 p" "evolve 2 p s2 s3" "I (insert q A) (Suc m) (heap s3)"
      "\<And>j. j < max_blocks \<Longrightarrow> at s3 p (Data j) = (if j = unat idx then b else at s2 p (Data j))" by blast
  from fs_free_serves [OF hp s3(4) q(3), of False] obtain h' where
    h': "fs_free hp False q s3 = Some (s3\<lparr>heap := h'\<rparr>)" "I A (Suc (Suc m)) h'" .
  have "alloc_data_block hp p idx s = Some (b, s3\<lparr>heap := h'\<rparr>)"
    using q(1,2) g(1,2) b(2) s3(1) h'(1) by (simp add: alloc_data_block_def)
  moreover have "evolve 3 p s s3" using evolve_trans [OF e(1) s3(3)] by (simp add: numeral_3_eq_3)
  moreover have "at s3 p (Data j) = (if j = unat idx then b else at s p (Data j))" if "j < max_blocks" for j
    using s3(5) [OF that] e(2) [of "Data j"] that by (simp del: at.simps)
  ultimately show ?thesis using b(1) e(4,5) s3(2) evolveD(3) [OF s3(3)] h'(2)
    by (intro exI [of _ b] exI [of _ "s3\<lparr>heap := h'\<rparr>"]) (auto simp del: at.simps)
qed

text \<open>C4: Allocating block \<open>idx\<close> of a file (below the third level of tables, which a file never reaches): on a partition with
  the layout \<^verbatim>\<open>partition_format\<close> gives, with a sound index, three free blocks and a heap that serves two buffers,
  \<open>alloc_data_block\<close> returns a block that was free; afterwards \<open>get_data_block\<close> finds it at \<open>idx\<close> and finds every other
  block of the file where it was, through the direct entries and both levels of tables. The index stays sound, at most
  three blocks are taken, and no block in use changes except the tables of this file.\<close>

theorem alloc_then_get_data_block:
  assumes "wf_part s" and "index_ok s p" and "3 \<le> card (free_blks s)" and "heap_serves hp I" and "I A (Suc (Suc m)) (heap s)"
    and "unat idx < max_blocks"
  shows "\<exists>b s'. alloc_data_block hp p idx s = Some (b, s') \<and> b \<in> free_blks s \<and> b \<noteq> 0 \<and>
    (\<forall>j. unat j < max_blocks \<longrightarrow> get_data_block p j s' = (if j = idx then Some b else get_data_block p j s)) \<and>
    wf_part s' \<and> index_ok s' p \<and> card (free_blks s) \<le> card (free_blks s') + 3 \<and> I A (Suc (Suc m)) (heap s') \<and>
    (\<forall>c \<in> used_blks s - tables s p. \<forall>i < 4096. blk_byte s' c i = blk_byte s c i)"
proof -
  from alloc_data_block_links [OF assms] obtain b s' where s': "alloc_data_block hp p idx s = Some (b, s')" "b \<noteq> 0"
    "b \<in> used_blks s'" "b \<notin> used_blks s" "index_ok s' p" "evolve 3 p s s'" "I A (Suc (Suc m)) (heap s')"
    "\<And>j. j < max_blocks \<Longrightarrow> at s' p (Data j) = (if j = unat idx then b else at s p (Data j))" by blast
  note e = evolveD [OF s'(6)]
  have "b \<in> free_blks s" using s'(3,4) layout_cong(4) [OF e(1)] by (auto simp: used_blks_def)
  moreover have "get_data_block p j s' = (if j = idx then Some b else get_data_block p j s)" if "unat j < max_blocks" for j
    using get_data_block_at [OF e(2) s'(5) that] get_data_block_at [OF assms(1,2) that] s'(8) [OF that]
    by (simp add: word_unat_eq_iff del: at.simps)
  ultimately show ?thesis using s'(1,2,5,7) e by blast
qed

subsection \<open>A small partition\<close>

text \<open>A heap that hands out addresses from a list, and a partition whose sixteen data blocks from 87 on are free but for the
  first; the inode at \<open>0x2000\<close> is that of an empty file.\<close>

definition demo_heap :: "u32 list heap_ops" where
  "demo_heap = \<lparr>h_malloc = (\<lambda>k n h. case h of [] \<Rightarrow> Some (0, []) | q # h \<Rightarrow> Some (q, h)), h_free = (\<lambda>k q h. Some (q # h))\<rparr>"

definition demo_budget :: "u32 set \<Rightarrow> nat \<Rightarrow> u32 list \<Rightarrow> bool" where
  "demo_budget A m h \<longleftrightarrow> m \<le> length h \<and> distinct h \<and> 0 \<notin> set h \<and> 0 \<notin> A \<and> set h \<inter> A = {}"

definition demo_sb :: super_block where
  "demo_sb = \<lparr>sb_magic = 0x19590321, sb_sec_cnt = 824, sb_inode_cnt = 4096, sb_block_size = 4096, block_bitmap_start = 1,
     block_bitmap_blks = 1, inode_bitmap_start = 2, inode_bitmap_blks = 1, inode_table_start = 3, inode_table_blks = 84,
     data_start = 87, root_inode_no = 0, dir_entry_size = 24\<rparr>"

definition demo_fs :: "u32 list fs" where
  "demo_fs = \<lparr>heap = [1, 2, 3, 4], disk = (\<lambda>_. 0),
     cur_part = \<lparr>start_lba = 63, sec_cnt = 824, sb = demo_sb,
       block_bitmap = \<lparr>btmp_bytes_len = 4096, bits = 1 # 0 # replicate 4094 0xff\<rparr>,
       inode_bitmap = \<lparr>btmp_bytes_len = 4096, bits = 3 # replicate 4095 0\<rparr>, open_inodes = [0x2000]\<rparr>,
     inodes = [0x2000 \<mapsto> \<lparr>i_no = 1, i_size = 0, i_open_cnts = 1, write_deny = False, i_sectors = replicate 15 0\<rparr>],
     file_table = replicate 512 \<lparr>fd_pos = 0, fd_flag = 0, fd_inode = 0\<rparr>, cur_fds = [0, 1, 2] @ replicate 125 (- 1), cur_cwd = 0,
     root_dir = \<lparr>d_inode = 0, dir_pos = 0, dir_buf = (\<lambda>_. 0)\<rparr>, dirs = (\<lambda>_. None), console = [], kbd = []\<rparr>"

lemma demo_heap_serves: "heap_serves demo_heap demo_budget"
  by (auto simp: heap_serves_def demo_heap_def demo_budget_def Suc_le_eq neq_Nil_conv split: list.split)

lemma demo_free_bits: "free_bits demo_fs = {1..<16}"
proof -
  have ff: "bit (0xff :: u8) n" if "n < 8" for n using u8_eq_ff_iff [of "0xff"] that by blast
  have n: "(1 # 0 # replicate 4094 0xff) ! k = (if k = 0 then 1 else if k = 1 then 0 else (0xff :: u8))" if "k < 4096" for k :: nat
    using that by (auto simp: nth_Cons split: nat.split)
  have *: "i \<notin> bitmap_used (block_bitmap (cur_part demo_fs)) \<longleftrightarrow> 1 \<le> i \<and> i < 16" if i: "i < 32768" for i
  proof -
    have "i div 8 < 4096" using i by simp
    then have "i \<notin> bitmap_used (block_bitmap (cur_part demo_fs)) \<longleftrightarrow>
      \<not> bit (if i div 8 = 0 then 1 else if i div 8 = 1 then 0 else (0xff :: u8)) (i mod 8)"
      using i n [of "i div 8"] by (simp add: bitmap_used_def clear_def demo_fs_def del: nth_Cons_Suc)
    also have "\<dots> \<longleftrightarrow> 1 \<le> i \<and> i < 16"
    proof -
      consider "i div 8 = 0" | "i div 8 = 1" | "2 \<le> i div 8" by linarith
      then show ?thesis
      proof cases
        case 1 then show ?thesis by (auto simp: bit_1_iff)
      next
        case 3 then show ?thesis using ff [of "i mod 8"] by auto
      qed auto
    qed
    finally show ?thesis .
  qed
  have t: "bits_total (block_bitmap (cur_part demo_fs)) = 32768" by (simp add: demo_fs_def)
  show ?thesis
  proof (rule set_eqI)
    fix i show "i \<in> free_bits demo_fs \<longleftrightarrow> i \<in> {1..<16}"
      unfolding free_bits_def t using * [of i] by (cases "i < 32768") auto
  qed
qed

lemma demo_layout [simp]: "data0 demo_fs = 87" "n_blks demo_fs = 103"
  by (simp_all add: data0_def n_blks_def demo_fs_def demo_sb_def)

lemma demo_wf: "wf_part demo_fs"
  unfolding wf_part_def Let_def demo_free_bits demo_layout
  by (simp add: demo_fs_def demo_sb_def wf_bitmap_def)

lemma demo_card_free: "card (free_blks demo_fs) = 15"
  unfolding free_blks_def using card_image [OF blk_no_inj [OF demo_wf]] by (simp add: demo_free_bits)

lemma demo_index_ok: "index_ok demo_fs 0x2000"
proof -
  have "secs demo_fs 0x2000 = replicate 15 0" by (simp add: secs_def demo_fs_def)
  then have "at demo_fs 0x2000 l = 0" if "valid_loc l" for l using that by (cases l) (simp_all add: child_def)
  then show ?thesis by (simp add: index_ok_def \<open>secs demo_fs 0x2000 = replicate 15 0\<close>)
qed

theorem alloc_then_get_data_block_witness:
  "\<exists>b s'. alloc_data_block demo_heap 0x2000 2000 demo_fs = Some (b, s') \<and> b \<in> free_blks demo_fs \<and>
     get_data_block 0x2000 2000 s' = Some b \<and> get_data_block 0x2000 1999 s' = get_data_block 0x2000 1999 demo_fs"
proof -
  have "demo_budget {} (Suc (Suc 2)) (heap demo_fs)" by (simp add: demo_budget_def demo_fs_def)
  moreover have "3 \<le> card (free_blks demo_fs)" by (simp add: demo_card_free)
  moreover have u: "unat (2000 :: u32) < max_blocks" "unat (1999 :: u32) < max_blocks" by (simp_all add: max_blocks_def)
  ultimately obtain b s' where "alloc_data_block demo_heap 0x2000 2000 demo_fs = Some (b, s')" "b \<in> free_blks demo_fs"
    "\<And>j. unat j < max_blocks \<Longrightarrow> get_data_block 0x2000 j s' = (if j = 2000 then Some b else get_data_block 0x2000 j demo_fs)"
    using alloc_then_get_data_block [OF demo_wf demo_index_ok _ demo_heap_serves] by blast
  with u show ?thesis by auto
qed

end
