(* ===== verification/Inode_Disk.thy ===== *)
theory Inode_Disk
  imports Block_Alloc
begin

text \<open>
  Inodes on disk: \<open>inode_sync\<close> and \<open>inode_open\<close> against the table of inodes. \<open>disk_inode s n\<close> is what the bytes of entry
  \<open>n\<close> of the table say; an entry may lie across two blocks.
\<close>

definition inode_pos :: "'h fs \<Rightarrow> nat \<Rightarrow> nat" where
  "inode_pos s n = base s (inode_table_start (sb (cur_part s))) + 84 * n"

definition disk_inode :: "'h fs \<Rightarrow> nat \<Rightarrow> inode" where
  "disk_inode s n = words_inode (get_words (inode_pos s n) 21 (disk s))"

text \<open>What of an inode is kept on disk.\<close>

definition persistent :: "inode \<Rightarrow> inode" where
  "persistent i = i\<lparr>i_open_cnts := 0, write_deny := False\<rparr>"

lemma words_inode_words: "length (i_sectors i) = 15 \<Longrightarrow> words_inode (inode_words i) = persistent i"
  by (simp add: words_inode_def inode_words_def persistent_def INODE_SECTORS_CNT_def)

subsection \<open>Location\<close>

lemma inode_locate_pos:
  assumes w: "wf_part s" and n: "unat n < 4096"
  shows "\<exists>two lba off. inode_locate n s = Some (two, lba, off) \<and> unat lba * 512 + off = inode_pos s (unat n) \<and>
    off + 84 \<le> inode_secs two * 512 \<and> lba \<le> max_lba \<and> lba \<le> start_lba (cur_part s) + sec_cnt (cur_part s) \<and>
    unat lba * 512 + inode_secs two * 512 \<le> base s (data_start (sb (cur_part s)))"
proof -
  define x where "x = unat n * 84"
  have x: "x \<le> 343980" "unat n * 84 = x" using n by (simp_all add: x_def)
  let ?t = "inode_table_start (sb (cur_part s))"
  let ?b = "?t + word_of_nat (x div 4096)"
  have t: "unat ?t + 84 \<le> data0 s" using w by (simp add: wf_part_def Let_def)
  have o: "x div 4096 < 84" using x by (simp add: less_mult_imp_div_less)
  have d: "data0 s \<le> n_blks s" "unat (start_lba (cur_part s)) + 8 * n_blks s \<le> 163840" using wf_partD [OF w] by auto
  have ub: "unat ?b = unat ?t + x div 4096" using t o d by (simp add: unat_word_ariths unat_of_nat)
  have lt: "unat ?b < n_blks s" using ub t o d by simp
  note l = unat_blk2lba [OF w lt]
  have two: "x div 4096 + 1 < 84" if "4096 - x mod 4096 < 84"
  proof (rule ccontr)
    assume "\<not> ?thesis"
    then have "x div 4096 = 83" using o by simp
    moreover have "x = 4096 * (x div 4096) + x mod 4096" by (rule mult_div_mod_eq [symmetric])
    ultimately show False using that x(1) by linarith
  qed
  have sc: "unat (start_lba (cur_part s) + sec_cnt (cur_part s)) = unat (start_lba (cur_part s)) + unat (sec_cnt (cur_part s))"
    using w by (simp add: wf_part_def Let_def unat_word_ariths)
  have "inode_locate n s = Some (4096 - x mod 4096 < 84, blk2lba s ?b, x mod 4096)"
    using n by (simp add: inode_locate_def MAX_FILES_PER_PART_def word_less_nat_alt Let_def BLOCK_SIZE_def sizeof_inode_def x(2))
  moreover have "unat (blk2lba s ?b) * 512 + x mod 4096 = inode_pos s (unat n)"
    using l(1) ub x(2) mult_div_mod_eq [of 4096 x] by (simp add: inode_pos_def base_def)
  moreover have "x mod 4096 + 84 \<le> inode_secs (4096 - x mod 4096 < 84) * 512"
  proof -
    have "r + 84 \<le> inode_secs (4096 - r < 84) * 512" if "r < 4096" for r
      using that by (auto simp: inode_secs_def SECTORS_PER_BLOCK_def)
    then show ?thesis by simp
  qed
  moreover have "blk2lba s ?b \<le> start_lba (cur_part s) + sec_cnt (cur_part s)"
    using l(1) lt sc by (simp add: word_le_nat_alt n_blks_def)
  moreover have "unat (blk2lba s ?b) * 512 + inode_secs (4096 - x mod 4096 < 84) * 512 \<le> base s (data_start (sb (cur_part s)))"
  proof (cases "4096 - x mod 4096 < 84")
    case True
    then show ?thesis using two l(1) ub t by (simp add: base_def data0_def [symmetric] inode_secs_def SECTORS_PER_BLOCK_def)
  next
    case False
    then show ?thesis using o l(1) ub t by (simp add: base_def data0_def [symmetric] inode_secs_def SECTORS_PER_BLOCK_def)
  qed
  ultimately show ?thesis using l(2) by blast
qed

subsection \<open>Bytes\<close>

definition word_byte :: "u32 list \<Rightarrow> nat \<Rightarrow> u8" where
  "word_byte ws k = ucast (drop_bit (8 * (k mod 4)) (ws ! (k div 4)))"

lemma word_byte_Cons: "word_byte (w # ws) (k + 4) = word_byte ws k"
proof -
  have "(k + 4) div 4 = Suc (k div 4)" "(k + 4) mod 4 = k mod 4" by simp_all
  then show ?thesis by (simp add: word_byte_def)
qed

lemma put32_byte: "put32 off w b i = (if off \<le> i \<and> i < off + 4 then word_byte [w] (i - off) else b i)"
proof (cases "off \<le> i \<and> i < off + 4")
  case True
  then consider "i = off" | "i = off + 1" | "i = off + 2" | "i = off + 3" by linarith
  then show ?thesis by cases (simp_all add: put32_def word_byte_def)
qed (auto simp: put32_other)

lemma put_words_byte:
  "put_words off ws b i = (if off \<le> i \<and> i < off + 4 * length ws then word_byte ws (i - off) else b i)"
proof (induction ws arbitrary: off b)
  case (Cons w ws)
  consider "i < off" | "off \<le> i" "i < off + 4" | "off + 4 \<le> i" by linarith
  then show ?case
  proof cases
    case 2 then show ?thesis using Cons [of "off + 4"] by (simp add: put32_byte word_byte_def)
  next
    case 3
    then have "i - off = (i - (off + 4)) + 4" by simp
    then show ?thesis using 3 Cons [of "off + 4"] word_byte_Cons [of w ws "i - (off + 4)"] by (simp add: put32_byte)
  qed (simp add: Cons put32_byte)
qed auto

text \<open>Reading whole sectors, changing words inside them and writing the sectors back changes these words.\<close>

lemma sectors_put_words:
  assumes "off + 4 * length ws \<le> n"
  shows "(\<lambda>a. if l \<le> a \<and> a < l + n then put_words off ws (\<lambda>i. if i < n then d (l + i) else 0) (a - l) else d a) =
    put_words (l + off) ws d"
proof
  fix a show "(if l \<le> a \<and> a < l + n then put_words off ws (\<lambda>i. if i < n then d (l + i) else 0) (a - l) else d a) =
    put_words (l + off) ws d a"
    using assms by (auto simp: put_words_byte)
qed

lemma get_words_other:
  "j + 4 * n \<le> off \<or> off + 4 * length ws \<le> j \<Longrightarrow> get_words j n (put_words off ws b) = get_words j n b"
  unfolding get_words_def by (rule map_cong [OF refl]) (auto intro: get32_put_words_other)

subsection \<open>Storing and loading\<close>

definition disk_words :: "nat \<Rightarrow> u32 list \<Rightarrow> 'h fs \<Rightarrow> 'h fs" where
  "disk_words n ws s = s\<lparr>disk := put_words (inode_pos s n) ws (disk s)\<rparr>"

lemma disk_words_fields [simp]:
  "cur_part (disk_words n ws s) = cur_part s" "inodes (disk_words n ws s) = inodes s" "heap (disk_words n ws s) = heap s"
  "file_table (disk_words n ws s) = file_table s" "cur_fds (disk_words n ws s) = cur_fds s" "cur_cwd (disk_words n ws s) = cur_cwd s"
  by (simp_all add: disk_words_def)

lemmas disk_words_part [simp] = part_cong [OF disk_words_fields(1)]

lemma inode_pos_disk_words [simp]: "inode_pos (disk_words n ws s) m = inode_pos s m"
  by (simp add: inode_pos_def base_def)

lemma disk_inode_words:
  assumes "length ws = 21"
  shows "disk_inode (disk_words n ws s) m = (if m = n then words_inode ws else disk_inode s m)"
proof (cases "m = n")
  case True
  then show ?thesis using get_words_put_words [of "inode_pos s n" ws "disk s"] assms
    by (simp add: disk_inode_def disk_words_def inode_pos_def base_def)
next
  case False
  then have "inode_pos s m + 4 * 21 \<le> inode_pos s n \<or> inode_pos s n + 4 * length ws \<le> inode_pos s m"
    using assms by (auto simp: inode_pos_def)
  from get_words_other [OF this, of "disk s"] False show ?thesis
    by (simp add: disk_inode_def disk_words_def inode_pos_def base_def)
qed

lemma inode_table_below:
  assumes "wf_part s" and "n < 4096"
  shows "inode_pos s n + 84 \<le> base s (data_start (sb (cur_part s)))"
proof -
  have "unat (inode_table_start (sb (cur_part s))) + 84 \<le> unat (data_start (sb (cur_part s)))"
    using assms(1) by (simp add: wf_part_def Let_def data0_def)
  then show ?thesis using assms(2) by (simp add: inode_pos_def base_def)
qed

lemma blk_byte_disk_words:
  assumes "wf_part s" and "n < 4096" and "length ws = 21" and "data_blk s b"
  shows "blk_byte (disk_words n ws s) b i = blk_byte s b i"
proof -
  have "base s (data_start (sb (cur_part s))) \<le> base s b" using assms(4) by (simp add: base_def data_blk_def data0_def)
  then have "inode_pos s n + 4 * length ws \<le> base s b + i" using inode_table_below [OF assms(1,2)] assms(3) by simp
  then show ?thesis by (simp add: blk_byte_def disk_words_def put_words_byte base_def)
qed

text \<open>The common part of \<open>inode_sync\<close> and \<open>inode_delete\<close>.\<close>

lemma sync_words:
  assumes w: "wf_part s" and n: "unat n < 4096" and ws: "length ws = 21"
  shows "\<exists>two lba off b. inode_locate n s = Some (two, lba, off) \<and> lba \<le> start_lba (cur_part s) + sec_cnt (cur_part s) \<and>
    disk_read lba (inode_secs two) (\<lambda>_. 0) s = Some b \<and>
    disk_write lba (inode_secs two) (put_words off ws b) s = Some (disk_words (unat n) ws s) \<and>
    get_words off 21 b = get_words (inode_pos s (unat n)) 21 (disk s)"
proof -
  from inode_locate_pos [OF w n] obtain two lba off where l: "inode_locate n s = Some (two, lba, off)"
    "unat lba * 512 + off = inode_pos s (unat n)" "off + 84 \<le> inode_secs two * 512" "lba \<le> max_lba"
    "lba \<le> start_lba (cur_part s) + sec_cnt (cur_part s)" by blast
  let ?n = "inode_secs two * 512"
  let ?b = "\<lambda>i. if i < ?n then disk s (unat lba * 512 + i) else 0"
  have pos: "0 < inode_secs two" by (simp add: inode_secs_def SECTORS_PER_BLOCK_def)
  have "off + 4 * length ws \<le> ?n" using l(3) ws by simp
  note e = sectors_put_words [OF this, of "unat lba * 512" "disk s"]
  have "disk_write lba (inode_secs two) (put_words off ws ?b) s = Some (disk_words (unat n) ws s)"
    using pos l(4) e by (simp add: disk_write_def disk_words_def l(2) [symmetric] distrib_right)
  moreover have "get_words off 21 ?b = get_words (inode_pos s (unat n)) 21 (disk s)"
    unfolding get_words_def
  proof (rule map_cong [OF refl])
    fix i assume "i \<in> set [0..<21]"
    then have "off + 4 * i + 4 \<le> ?n" using l(3) by simp
    then show "get32 ?b (off + 4 * i) = get32 (disk s) (inode_pos s (unat n) + 4 * i)"
      unfolding l(2) [symmetric] by (simp add: get32_def add.assoc)
  qed
  ultimately show ?thesis using l(1,4,5) pos by (auto simp: disk_read_def)
qed

lemma inode_sync_words:
  assumes w: "wf_part s" and i: "inodes s p = Some i" "length (i_sectors i) = 15" and b: "io_buf \<noteq> 0"
  shows "inode_sync p io_buf s = Some (disk_words (unat (i_no i) mod 256) (inode_words i) s)"
proof -
  have u: "unat (ucast (ucast (i_no i) :: u8) :: u32) = unat (i_no i) mod 256"
    by (simp add: unsigned_ucast_eq take_bit_eq_mod unat_mod)
  have "length (inode_words i) = 21" using i(2) by (simp add: inode_words_def)
  moreover have "unat (ucast (ucast (i_no i) :: u8) :: u32) < 4096" using mod_less_divisor [of 256 "unat (i_no i)"] unfolding u by simp
  ultimately show ?thesis using sync_words [OF w, of "ucast (ucast (i_no i) :: u8)" "inode_words i"] i(1) b
    by (auto simp: inode_sync_def inode_store_def u Let_def)
qed

text \<open>C21: \<open>inode_sync\<close> stores an inode into the table on disk: it returns, the entry then reads as the inode (its size and
  its blocks; the open count and the write lock are not kept), every other entry of the table and every data
  block is as before. The entry it writes is the number of the inode modulo 256, because the number goes through
  a \<^verbatim>\<open>uint8_t\<close>: from inode 256 on the wrong entry is overwritten, that of the root directory for inode 256.\<close>

theorem inode_sync_stores:
  assumes "wf_part s" and "inodes s p = Some i" and "length (i_sectors i) = 15" and "io_buf \<noteq> 0"
  shows "\<exists>s'. inode_sync p io_buf s = Some s' \<and>
    (\<forall>n. disk_inode s' n = (if n = unat (i_no i) mod 256 then persistent i else disk_inode s n)) \<and>
    (\<forall>b j. data_blk s b \<longrightarrow> blk_byte s' b j = blk_byte s b j) \<and> cur_part s' = cur_part s \<and> inodes s' = inodes s"
proof -
  have l: "length (inode_words i) = 21" using assms(3) by (simp add: inode_words_def)
  show ?thesis
    using inode_sync_words [OF assms] disk_inode_words [OF l, of "unat (i_no i) mod 256" s] words_inode_words [OF assms(3)]
      blk_byte_disk_words [OF assms(1) _ l, of "unat (i_no i) mod 256"]
    by (simp add: less_trans [OF mod_less_divisor])
qed

text \<open>The file with inode number 256.\<close>

definition demo_big :: "u32 list fs" where
  "demo_big = demo_fs\<lparr>inodes := [0x2000 \<mapsto> \<lparr>i_no = 256, i_size = 5, i_open_cnts = 1, write_deny = True, i_sectors = 90 # replicate 14 0\<rparr>]\<rparr>"

theorem inode_sync_stores_witness:
  "\<exists>s'. inode_sync 0x2000 0x3000 demo_big = Some s' \<and> i_size (disk_inode s' 0) = 5 \<and> disk_inode s' 256 = disk_inode demo_big 256"
proof -
  have w: "wf_part demo_big" using demo_wf part_cong(5) [of demo_big demo_fs] by (simp add: demo_big_def)
  from inode_sync_stores [OF w, of "0x2000" _ "0x3000"] show ?thesis by (auto simp: demo_big_def persistent_def)
qed

subsection \<open>Opening\<close>

text \<open>C22: \<open>inode_open\<close> shares an inode that is open and loads one that is not: with the inode in the list of open inodes it returns
  the same object with its count increased; otherwise it makes a new object that holds what the table on disk says, with
  count 1, puts it in front of the list, and leaves the disk and every other inode in memory as they were.\<close>

theorem inode_open_loads:
  assumes "wf_part s" and "unat n < 4096" and "heap_serves hp I" and "I A (Suc (Suc m)) (heap s)"
  shows "(\<forall>p. find_open n s = Some p \<longrightarrow> (\<exists>i. inodes s p = Some i \<and> i_no i = n \<and>
      inode_open hp n s = Some (p, s\<lparr>inodes := (inodes s)(p \<mapsto> i\<lparr>i_open_cnts := i_open_cnts i + 1\<rparr>)\<rparr>))) \<and>
    (find_open n s = None \<longrightarrow> (\<exists>p s'. inode_open hp n s = Some (p, s') \<and> p \<noteq> 0 \<and> p \<notin> A \<and> I (insert p A) (Suc m) (heap s') \<and>
      inodes s' = (inodes s)(p \<mapsto> (disk_inode s (unat n))\<lparr>i_open_cnts := 1\<rparr>) \<and> disk s' = disk s \<and>
      open_inodes (cur_part s') = p # open_inodes (cur_part s)))"
proof (intro conjI allI impI)
  fix p assume "find_open n s = Some p"
  then obtain i where "inodes s p = Some i" "i_no i = n"
    by (auto simp: find_open_def find_Some_iff split: option.splits)
  then show "\<exists>i. inodes s p = Some i \<and> i_no i = n \<and>
      inode_open hp n s = Some (p, s\<lparr>inodes := (inodes s)(p \<mapsto> i\<lparr>i_open_cnts := i_open_cnts i + 1\<rparr>)\<rparr>)"
    using \<open>find_open n s = Some p\<close> by (simp add: inode_open_def upd_inode_def)
next
  assume none: "find_open n s = None"
  from fs_malloc_serves [OF assms(3,4), of True "word_of_nat sizeof_inode"] obtain p h where
    p: "fs_malloc hp True (word_of_nat sizeof_inode) s = Some (p, s\<lparr>heap := h\<rparr>)" "p \<noteq> 0" "p \<notin> A" "I (insert p A) (Suc m) h" .
  have h: "I (insert p A) (Suc m) (heap (s\<lparr>heap := h\<rparr>))" using p(4) by simp
  from sync_words [OF assms(1,2), of "replicate 21 0"] obtain two lba off b where l: "inode_locate n s = Some (two, lba, off)"
    "disk_read lba (inode_secs two) (\<lambda>_. 0) s = Some b" "get_words off 21 b = get_words (inode_pos s (unat n)) 21 (disk s)" by auto
  from fs_malloc_serves [OF assms(3) h, of False "if two then 8192 else 4096"] obtain q h' where
    q: "fs_malloc hp False (if two then 8192 else 4096) (s\<lparr>heap := h\<rparr>) = Some (q, s\<lparr>heap := h'\<rparr>)" "q \<noteq> 0" "q \<notin> insert p A"
      "I (insert q (insert p A)) m h'" by auto
  let ?i = "(disk_inode s (unat n))\<lparr>i_open_cnts := 1\<rparr>"
  let ?s = "upd_part (\<lambda>r. r\<lparr>open_inodes := p # open_inodes r\<rparr>) (s\<lparr>heap := h', inodes := (inodes s)(p \<mapsto> ?i)\<rparr>)"
  have "I (insert q (insert p A)) m (heap ?s)" using q(4) by (simp add: upd_part_def)
  from fs_free_serves [OF assms(3) this q(3), of False] obtain h'' where
    f: "fs_free hp False q ?s = Some (?s\<lparr>heap := h''\<rparr>)" "I (insert p A) (Suc m) h''" .
  have "disk_read lba (inode_secs two) (\<lambda>_. 0) (s\<lparr>heap := h'\<rparr>) = Some b" using l(2) by (simp add: disk_read_def cong: if_cong)
  then have "inode_open hp n s = Some (p, ?s\<lparr>heap := h''\<rparr>)"
    using none l(1,3) p(1,2) q(1,2) f(1) by (simp add: inode_open_def disk_inode_def sizeof_inode_def Let_def)
  then show "\<exists>p s'. inode_open hp n s = Some (p, s') \<and> p \<noteq> 0 \<and> p \<notin> A \<and> I (insert p A) (Suc m) (heap s') \<and>
      inodes s' = (inodes s)(p \<mapsto> (disk_inode s (unat n))\<lparr>i_open_cnts := 1\<rparr>) \<and> disk s' = disk s \<and>
      open_inodes (cur_part s') = p # open_inodes (cur_part s)"
    using p(2,3) f(2) by (auto simp: upd_part_def)
qed

theorem inode_open_loads_witness:
  "(\<exists>s'. inode_open demo_heap 1 demo_fs = Some (0x2000, s')) \<and>
   (\<exists>p s'. inode_open demo_heap 7 demo_fs = Some (p, s') \<and> inodes s' p = Some ((disk_inode demo_fs 7)\<lparr>i_open_cnts := 1\<rparr>))"
proof -
  have b: "demo_budget {} (Suc (Suc 2)) (heap demo_fs)" by (simp add: demo_budget_def demo_fs_def)
  have f: "find_open 1 demo_fs = Some 0x2000" "find_open 7 demo_fs = None" by (simp_all add: find_open_def demo_fs_def)
  show ?thesis
    using inode_open_loads [OF demo_wf _ demo_heap_serves b, of 1] inode_open_loads [OF demo_wf _ demo_heap_serves b, of 7] f
    by fastforce
qed

end
