(* ===== verification/File_Correct.thy ===== *)
theory File_Correct
  imports File Inode_Disk
begin

text \<open>
  Files as sequences of bytes. \<open>file_byte s p i\<close> is byte \<open>i\<close> of the file with the inode at \<open>p\<close>, found through the index and
  the disk. \<open>file_write\<close> appends to the sequence and \<open>file_read\<close> returns a part of it. \<open>grow p\<close> relates the states
  before and after a write: the blocks in use that do not belong to the file, and the other inodes, are as before.
\<close>

declare at.simps [simp del]

definition file_byte :: "'h fs \<Rightarrow> u32 \<Rightarrow> nat \<Rightarrow> u8" where
  "file_byte s p i = blk_byte s (at s p (Data (i div 4096))) (i mod 4096)"

definition owned :: "'h fs \<Rightarrow> u32 \<Rightarrow> u32 set" where
  "owned s p = {b. b \<noteq> 0 \<and> (\<exists>l. valid_loc l \<and> at s p l = b)}"

definition grow :: "u32 \<Rightarrow> 'h fs \<Rightarrow> 'h fs \<Rightarrow> bool" where
  "grow p s s' \<longleftrightarrow> layout s' = layout s \<and> wf_part s' \<and> free_blks s' \<subseteq> free_blks s \<and>
     (\<forall>q. q \<noteq> p \<longrightarrow> inodes s' q = inodes s q) \<and>
     inodes s' p = map_option (\<lambda>i. i\<lparr>i_sectors := secs s' p\<rparr>) (inodes s p) \<and>
     inode_bitmap (cur_part s') = inode_bitmap (cur_part s) \<and> open_inodes (cur_part s') = open_inodes (cur_part s) \<and>
     cur_fds s' = cur_fds s \<and> cur_cwd s' = cur_cwd s \<and>
     owned s' p \<inter> used_blks s \<subseteq> owned s p \<and>
     (\<forall>b \<in> used_blks s - owned s p. \<forall>i < 4096. blk_byte s' b i = blk_byte s b i)"

lemma growD:
  assumes "grow p s s'"
  shows "layout s' = layout s" "wf_part s'" "used_blks s \<subseteq> used_blks s'"
    "\<And>b i. b \<in> used_blks s \<Longrightarrow> b \<notin> owned s p \<Longrightarrow> i < 4096 \<Longrightarrow> blk_byte s' b i = blk_byte s b i"
  using assms layout_cong(4) [of s' s] unfolding grow_def used_blks_def by auto

lemma grow_refl: "wf_part s \<Longrightarrow> grow p s s"
  by (auto simp: grow_def secs_def split: option.split)

lemma grow_trans:
  assumes a: "grow p s s'" and b: "grow p s' s''"
  shows "grow p s s''"
proof -
  note u = growD(3) [OF a]
  have t: "owned s' p \<inter> used_blks s \<subseteq> owned s p" "owned s'' p \<inter> used_blks s' \<subseteq> owned s' p"
    using a b by (auto simp: grow_def)
  have "blk_byte s'' c i = blk_byte s c i" if c: "c \<in> used_blks s" "c \<notin> owned s p" "i < 4096" for c i
  proof -
    have "c \<in> used_blks s'" "c \<notin> owned s' p" using c u t(1) by auto
    then show ?thesis using growD(4) [OF a c] growD(4) [OF b _ _ c(3), of c] by simp
  qed
  moreover have "owned s'' p \<inter> used_blks s \<subseteq> owned s p" using t u by blast
  moreover have "inodes s'' p = map_option (\<lambda>i. i\<lparr>i_sectors := secs s'' p\<rparr>) (inodes s p)"
    using a b by (simp add: grow_def option.map_comp comp_def)
  ultimately show ?thesis using a b unfolding grow_def by auto
qed

lemma owned_split: "owned s p = tables s p \<union> {b. b \<noteq> 0 \<and> (\<exists>i < max_blocks. at s p (Data i) = b)}"
proof -
  have "valid_loc l \<longleftrightarrow> valid_loc l \<and> is_table l \<or> (\<exists>i < max_blocks. l = Data i)" for l by (cases l) auto
  then show ?thesis unfolding owned_def tables_def by blast
qed

lemma evolve_grow:
  assumes e: "evolve n p s s'" and at: "\<And>j. j < max_blocks \<Longrightarrow> at s' p (Data j) = at s p (Data j) \<or> at s' p (Data j) \<notin> used_blks s"
  shows "grow p s s'"
proof -
  have "tables s' p \<inter> used_blks s \<subseteq> tables s p" using e by (simp add: evolve_def)
  then have "owned s' p \<inter> used_blks s \<subseteq> owned s p" unfolding owned_split using at by fastforce
  moreover have "tables s p \<subseteq> owned s p" unfolding owned_split by blast
  ultimately show ?thesis using e unfolding evolve_def grow_def by auto
qed

text \<open>Writing a data block of the file.\<close>

lemma data_not_table:
  assumes "index_ok s p" and "k < max_blocks" and "at s p (Data k) \<noteq> 0"
  shows "at s p (Data k) \<notin> tables s p"
proof
  assume "at s p (Data k) \<in> tables s p"
  then obtain l where l: "valid_loc l" "is_table l" "at s p l = at s p (Data k)" by (auto simp: tables_def)
  then have "l = Data k" using index_ok_neq [OF assms(1) _ l(1), of "Data k"] assms(2,3) by simp
  then show False using l(2) by simp
qed

lemma put_data_block:
  assumes w: "wf_part s" and ok: "index_ok s p" and k: "k < max_blocks" "at s p (Data k) \<noteq> 0"
  shows "\<And>l. valid_loc l \<Longrightarrow> at (put_block (at s p (Data k)) bf s) p l = at s p l"
    and "index_ok (put_block (at s p (Data k)) bf s) p" and "grow p s (put_block (at s p (Data k)) bf s)"
proof -
  note nt = data_not_table [OF ok k]
  show at: "at (put_block (at s p (Data k)) bf s) p l = at s p l" if "valid_loc l" for l by (rule put_block_index(1) [OF nt that])
  have sec: "secs (put_block (at s p (Data k)) bf s) p = secs s p" by (simp add: secs_def)
  show "index_ok (put_block (at s p (Data k)) bf s) p" by (rule index_ok_same [OF ok _ at]) (use sec index_okD(1) [OF ok] in simp_all)
  have "at s p (Data k) \<in> owned s p" using k by (auto simp: owned_split)
  moreover have "owned (put_block (at s p (Data k)) bf s) p = owned s p" using at by (auto simp: owned_def)
  moreover obtain i where "inodes s p = Some i" "i_sectors i = secs s p" using index_ok_inode [OF ok] by blast
  moreover have "blk_byte (put_block (at s p (Data k)) bf s) b j = blk_byte s b j" if "b \<notin> owned s p" "j < 4096" for b j
    using put_block_other [of b "at s p (Data k)" j bf s] that \<open>at s p (Data k) \<in> owned s p\<close> by metis
  ultimately show "grow p s (put_block (at s p (Data k)) bf s)" using w sec unfolding grow_def by auto
qed

subsection \<open>One round of the loop\<close>

lemma evolve_file_byte:
  assumes ok: "index_ok s p" and e: "evolve n p s s'" and k: "i div 4096 < max_blocks" "at s p (Data (i div 4096)) \<noteq> 0"
    and at: "at s' p (Data (i div 4096)) = at s p (Data (i div 4096))"
  shows "file_byte s' p i = file_byte s p i"
  unfolding file_byte_def at
  by (rule evolveD(6) [OF e _ data_not_table [OF ok k]]) (use index_okD(2) [OF ok, of "Data (i div 4096)"] k in simp_all)

text \<open>The block of a position, made when it is missing.\<close>

lemma block_for_writing:
  assumes w: "wf_part s" and ok: "index_ok s p" and f: "3 \<le> card (free_blks s)" and hp: "heap_serves hp I"
    and I: "I A (Suc (Suc m)) (heap s)" and k: "unat idx < max_blocks"
  shows "\<exists>blk0 blk s'. get_data_block p idx s = Some blk0 \<and>
    (if blk0 = 0 then alloc_data_block hp p idx s else Some (blk0, s)) = Some (blk, s') \<and> blk \<noteq> 0 \<and> blk = at s' p (Data (unat idx)) \<and>
    index_ok s' p \<and> evolve 3 p s s' \<and> grow p s s' \<and> I A (Suc (Suc m)) (heap s') \<and>
    (\<forall>j < max_blocks. j \<noteq> unat idx \<or> at s p (Data j) \<noteq> 0 \<longrightarrow> at s' p (Data j) = at s p (Data j))"
proof (cases "at s p (Data (unat idx)) = 0")
  case False
  have "evolve 3 p s s" by (rule evolve_mono [OF evolve_refl [OF w]]) simp
  then show ?thesis using False get_data_block_at [OF w ok k] ok I grow_refl [OF w] by simp
next
  case True
  from alloc_data_block_links [OF w ok f hp I k] obtain b s' where
    s': "alloc_data_block hp p idx s = Some (b, s')" "b \<noteq> 0" "b \<notin> used_blks s" "index_ok s' p" "evolve 3 p s s'"
      "I A (Suc (Suc m)) (heap s')" "\<And>j. j < max_blocks \<Longrightarrow> at s' p (Data j) = (if j = unat idx then b else at s p (Data j))" by blast
  have "grow p s s'" by (rule evolve_grow [OF s'(5)]) (use s'(3,7) in simp)
  then show ?thesis using True s' k get_data_block_at [OF w ok k] by auto
qed

lemma write_step:
  assumes w: "wf_part s" and ok: "index_ok s p" and f: "3 \<le> card (free_blks s)" and hp: "heap_serves hp I"
    and I: "I A (Suc (Suc m)) (heap s)" and k: "unat idx = pos div 4096" "unat idx < max_blocks"
    and off: "unat off = pos mod 4096" and c: "c \<le> 4096 - pos mod 4096"
    and al: "\<And>j. j * 4096 < pos \<Longrightarrow> at s p (Data j) \<noteq> 0"
  shows "\<exists>blk0 blk s1 io s2. get_data_block p idx s = Some blk0 \<and>
    (if blk0 = 0 then alloc_data_block hp p idx s else Some (blk0, s)) = Some (blk, s1) \<and> blk \<noteq> 0 \<and>
    (if off \<noteq> 0 then read_block blk (\<lambda>_. 0) s1 else Some (\<lambda>_. 0)) = Some io \<and>
    write_block blk (blit (unat off) src c io) s1 = Some s2 \<and>
    index_ok s2 p \<and> grow p s s2 \<and> card (free_blks s) \<le> card (free_blks s2) + 3 \<and> file_table s2 = file_table s \<and>
    I A (Suc (Suc m)) (heap s2) \<and> (\<forall>j. j * 4096 \<le> pos \<longrightarrow> at s2 p (Data j) \<noteq> 0) \<and>
    (\<forall>i < pos. file_byte s2 p i = file_byte s p i) \<and> (\<forall>i < c. file_byte s2 p (pos + i) = src i)"
proof -
  from block_for_writing [OF w ok f hp I k(2)] obtain blk0 blk s1 where
    s1: "get_data_block p idx s = Some blk0" "(if blk0 = 0 then alloc_data_block hp p idx s else Some (blk0, s)) = Some (blk, s1)"
      "blk \<noteq> 0" "blk = at s1 p (Data (unat idx))" "index_ok s1 p" "evolve 3 p s s1" "grow p s s1" "I A (Suc (Suc m)) (heap s1)"
      "\<And>j. j < max_blocks \<Longrightarrow> j \<noteq> unat idx \<or> at s p (Data j) \<noteq> 0 \<Longrightarrow> at s1 p (Data j) = at s p (Data j)" by blast
  note w1 = evolveD(2) [OF s1(6)]
  have db: "data_blk s1 blk" using at_data [OF s1(5), of "Data (unat idx)"] s1(3,4) k(2) by simp
  then have lt: "unat blk < n_blks s1" using data_blk_nz [OF w1] by blast
  define io where "io = (if off \<noteq> 0 then (\<lambda>i. if i < 4096 then blk_byte s1 blk i else 0) else (\<lambda>_. 0))"
  have io: "(if off \<noteq> 0 then read_block blk (\<lambda>_. 0) s1 else Some (\<lambda>_. 0)) = Some io"
    using read_block_bytes [OF w1 lt, of "\<lambda>_. 0"] by (simp add: io_def)
  define s2 where "s2 = put_block blk (blit (unat off) src c io) s1"
  have wr: "write_block blk (blit (unat off) src c io) s1 = Some s2" unfolding s2_def by (rule write_block_bytes [OF w1 lt])
  have nz: "at s1 p (Data (unat idx)) \<noteq> 0" using s1(3,4) by simp
  note pd = put_data_block [OF w1 s1(5) k(2) nz, where bf = "blit (unat off) src c io", folded s1(4), folded s2_def]
  have below: "j < max_blocks" if "j * 4096 \<le> pos" for j using that k by (simp add: max_blocks_def)
  have al2: "at s2 p (Data j) \<noteq> 0" if "j * 4096 \<le> pos" for j
  proof (cases "j = unat idx")
    case True then show ?thesis using pd(1) [of "Data j"] nz below [OF that] by simp
  next
    case False
    then have "j * 4096 < pos" using that k(1) by (metis le_neq_implies_less nonzero_mult_div_cancel_right zero_neq_numeral)
    then show ?thesis using pd(1) [of "Data j"] s1(9) [of j] al [of j] below [OF that] False by simp
  qed
  have old: "file_byte s2 p i = file_byte s p i" if i: "i < pos" for i
  proof -
    let ?j = "i div 4096"
    have j: "?j * 4096 < pos" using i by (metis div_times_less_eq_dividend le_less_trans)
    have jm: "?j < max_blocks" and aj: "at s p (Data ?j) \<noteq> 0" using below [of ?j] al [OF j] j by auto
    have a1: "at s1 p (Data ?j) = at s p (Data ?j)" using s1(9) [OF jm] aj by simp
    have a2: "at s2 p (Data ?j) = at s1 p (Data ?j)" using pd(1) [of "Data ?j"] jm by simp
    have "file_byte s2 p i = file_byte s1 p i"
    proof (cases "?j = unat idx")
      case True
      then have m: "i mod 4096 < pos mod 4096" using i k(1) by (metis div_less_mono less_irrefl mod_less_divisor mult_div_mod_eq nat_add_left_cancel_less)
      then have "off \<noteq> 0" using off by auto
      then show ?thesis using True m a2 s1(4) off by (simp add: file_byte_def s2_def io_def blit_def)
    next
      case False
      then have "at s1 p (Data ?j) \<noteq> blk"
        using index_ok_neq [OF s1(5), of "Data (unat idx)" "Data ?j"] s1(4) nz jm k(2) by auto
      then show ?thesis using put_block_other [of "at s1 p (Data ?j)" blk _ _ s1] a2 by (simp add: file_byte_def s2_def)
    qed
    also have "\<dots> = file_byte s p i" by (rule evolve_file_byte [OF ok s1(6) jm aj a1])
    finally show ?thesis .
  qed
  have new: "file_byte s2 p (pos + i) = src i" if i: "i < c" for i
  proof -
    have e: "pos + i = unat off + i + unat idx * 4096" and l: "unat off + i < 4096" using i c off k(1) by simp_all
    have r: "(pos + i) div 4096 = unat idx" "(pos + i) mod 4096 = unat off + i" unfolding e using l by simp_all
    have "at s2 p (Data (unat idx)) = blk" using pd(1) [of "Data (unat idx)"] k(2) s1(4) by simp
    moreover have "unat off + i < 4096" using i c off by linarith
    ultimately show ?thesis unfolding file_byte_def r using i by (simp add: s2_def blit_def)
  qed
  have "file_table s1 = file_table s" "card (free_blks s) \<le> card (free_blks s1) + 3" using s1(6) by (auto simp: evolve_def)
  moreover have "I A (Suc (Suc m)) (heap s2)" using s1(8) by (simp add: s2_def)
  ultimately show ?thesis
    using s1(1-3) io wr pd(2) grow_trans [OF s1(7) pd(3)] al2 old new
    by (intro exI [of _ blk0] exI [of _ blk] exI [of _ s1] exI [of _ io] exI [of _ s2]) (simp add: s2_def)
qed

subsection \<open>The loop\<close>

text \<open>The number of rounds for \<open>r\<close> bytes from \<open>pos\<close> on.\<close>

definition rounds :: "nat \<Rightarrow> nat \<Rightarrow> nat" where
  "rounds pos r = (if r = 0 then 0 else (pos mod 4096 + r + 4095) div 4096)"

lemma rounds_step:
  assumes "0 < r" and "c = min r (4096 - pos mod 4096)"
  shows "Suc (rounds (pos + c) (r - c)) \<le> rounds pos r"
proof (cases "r \<le> 4096 - pos mod 4096")
  case True
  moreover have "4096 div 4096 \<le> (pos mod 4096 + r + 4095) div 4096" by (rule div_le_mono) (use assms(1) in simp)
  ultimately show ?thesis using assms by (simp add: rounds_def)
next
  case False
  then have c: "c = 4096 - pos mod 4096" "c < r" using assms by simp_all
  have m: "pos mod 4096 < 4096" by simp
  have "(pos + c) mod 4096 = (pos mod 4096 + c) mod 4096" by (simp add: mod_add_left_eq)
  also have "\<dots> = 0" using c(1) m by simp
  finally have z: "(pos + c) mod 4096 = 0" .
  have e: "pos mod 4096 + r + 4095 = (r - c + 4095) + 4096" using c m by linarith
  have "(pos mod 4096 + r + 4095) div 4096 = Suc ((r - c + 4095) div 4096)" unfolding e by (rule div_add_self2 [THEN trans]) simp_all
  then show ?thesis using z c(2) by (simp add: rounds_def)
qed

lemma upd_slot_in: "get_slot f s = Some fl \<Longrightarrow> upd_slot f g s = Some (s\<lparr>file_table := (file_table s)[f := g fl]\<rparr>)"
  by (auto simp: get_slot_def upd_slot_def arr_get_def split: if_splits)

lemma slot_irrelevant [simp]:
  "blk_byte (s\<lparr>file_table := t\<rparr>) = blk_byte s" "secs (s\<lparr>file_table := t\<rparr>) = secs s"
  by (simp_all add: blk_byte_def base_def secs_def fun_eq_iff)

lemma slot_part [simp]:
  "layout (s\<lparr>file_table := t\<rparr>) = layout s" "free_blks (s\<lparr>file_table := t\<rparr>) = free_blks s"
  "used_blks (s\<lparr>file_table := t\<rparr>) = used_blks s" "wf_part (s\<lparr>file_table := t\<rparr>) = wf_part s"
  by (rule part_cong; simp)+

lemma at_slot [simp]: "at (s\<lparr>file_table := t\<rparr>) p l = at s p l"
  by (cases l) (simp_all add: at.simps child_def entry_def)

lemma index_ok_slot [simp]: "index_ok (s\<lparr>file_table := t\<rparr>) p = index_ok s p"
  by (simp add: index_ok_def)

lemma file_byte_slot [simp]: "file_byte (s\<lparr>file_table := t\<rparr>) = file_byte s"
  by (simp add: file_byte_def fun_eq_iff)

lemma grow_slot [simp]: "grow p s (s'\<lparr>file_table := t\<rparr>) = grow p s s'" "grow p (s\<lparr>file_table := t\<rparr>) s' = grow p s s'"
  by (simp_all add: grow_def owned_def)

lemma write_loop_step:
  assumes "bw < count" and "get_slot f s = Some fl" and "fd_inode fl = p" and "fd_pos fl div 4096 = idx" and "fd_pos fl mod 4096 = off"
    and "(if sl < 4096 - off then sl else 4096 - off) = c" and "get_data_block p idx s = Some blk0"
    and "(if blk0 = 0 then alloc_data_block hp p idx s else Some (blk0, s)) = Some (blk, s1)" and blk: "blk \<noteq> 0"
    and "(if off \<noteq> 0 then read_block blk (\<lambda>_. 0) s1 else Some (\<lambda>_. 0)) = Some io"
    and "write_block blk (blit (unat off) (\<lambda>i. b (unat bw + i)) (unat c) io) s1 = Some s2"
    and "upd_slot f (\<lambda>fl. fl\<lparr>fd_pos := fd_pos fl + c\<rparr>) s2 = Some s3"
  shows "write_loop hp f b count bw sl s = write_loop hp f b count (bw + c) (sl - c) s3"
proof -
  have "(blk = 0) = False" using blk by simp
  then show ?thesis by (subst write_loop.simps) (simp only: assms Let_def if_True if_False Option.bind.simps prod.case)
qed

lemma write_loop_appends:
  assumes "wf_part s" and "index_ok s p" and "get_slot f s = Some fl" and "fd_inode fl = p" and hp: "heap_serves hp I"
    and "I A (Suc (Suc m)) (heap s)" and "unat (fd_pos fl) + unat sl < 2 ^ 32" and "unat bw + unat sl = unat count"
    and "3 * rounds (unat (fd_pos fl)) (unat sl) \<le> card (free_blks s)"
    and "\<And>j. j * 4096 < unat (fd_pos fl) \<Longrightarrow> at s p (Data j) \<noteq> 0"
  shows "\<exists>s'. write_loop hp f b count bw sl s = Some (count, s') \<and> index_ok s' p \<and> grow p s s' \<and>
    file_table s' = (file_table s)[f := fl\<lparr>fd_pos := fd_pos fl + sl\<rparr>] \<and> I A (Suc (Suc m)) (heap s') \<and>
    (\<forall>j. j * 4096 < unat (fd_pos fl) + unat sl \<longrightarrow> at s' p (Data j) \<noteq> 0) \<and>
    (\<forall>i < unat (fd_pos fl). file_byte s' p i = file_byte s p i) \<and>
    (\<forall>i < unat sl. file_byte s' p (unat (fd_pos fl) + i) = b (unat bw + i))"
  using assms
proof (induction "unat sl" arbitrary: s fl bw sl rule: less_induct)
  case less
  note w = less.prems(1) and ok = less.prems(2) and sl = less.prems(3) and I = less.prems(6)
  show ?case
  proof (cases "unat sl = 0")
    case True
    then have "sl = 0" by (simp add: unat_eq_zero)
    moreover have "bw = count" using less.prems(8) True by (simp add: word_unat_eq_iff)
    moreover have "(file_table s)[f := fl] = file_table s" using sl by (auto simp: get_slot_def arr_get_def split: if_splits)
    ultimately show ?thesis using less.prems grow_refl [OF w] by (subst write_loop.simps) simp
  next
    case False
    let ?pos = "unat (fd_pos fl)" and ?off = "fd_pos fl mod 4096" and ?idx = "fd_pos fl div 4096"
    define c where "c = (if sl < 4096 - ?off then sl else 4096 - ?off)"
    have uo: "unat ?off = ?pos mod 4096" and ui: "unat ?idx = ?pos div 4096" by (simp_all add: unat_mod unat_div)
    have ul: "unat (4096 - ?off) = 4096 - ?pos mod 4096" using uo by (simp add: unat_sub word_le_nat_alt)
    have uc: "unat c = min (unat sl) (4096 - ?pos mod 4096)" by (simp add: c_def word_less_nat_alt ul min_def)
    have c0: "0 < unat c" "unat c \<le> unat sl" "unat c \<le> 4096 - ?pos mod 4096" using uc False by auto
    have idx: "unat ?idx < max_blocks" using ui unat_less_2p32 [of "fd_pos fl"] by (simp add: max_blocks_def)
    have ub: "unat (bw + c) = unat bw + unat c" "unat (sl - c) = unat sl - unat c" "unat (fd_pos fl + c) = ?pos + unat c"
      using c0 less.prems(7,8) unat_less_2p32 [of count] by (simp_all add: unat_word_ariths unat_sub word_le_nat_alt)
    have r: "Suc (rounds (?pos + unat c) (unat sl - unat c)) \<le> rounds ?pos (unat sl)"
      by (rule rounds_step [OF _ uc]) (use False in simp)
    then have "3 \<le> card (free_blks s)" using less.prems(9) by linarith
    from write_step [OF w ok this hp I ui idx uo c0(3), of "\<lambda>i. b (unat bw + i)"] less.prems(10) obtain blk0 blk s1 io s2 where
      st: "get_data_block p ?idx s = Some blk0" "(if blk0 = 0 then alloc_data_block hp p ?idx s else Some (blk0, s)) = Some (blk, s1)"
        "blk \<noteq> 0" "(if ?off \<noteq> 0 then read_block blk (\<lambda>_. 0) s1 else Some (\<lambda>_. 0)) = Some io"
        "write_block blk (blit (unat ?off) (\<lambda>i. b (unat bw + i)) (unat c) io) s1 = Some s2" "index_ok s2 p" "grow p s s2"
        "card (free_blks s) \<le> card (free_blks s2) + 3" "file_table s2 = file_table s" "I A (Suc (Suc m)) (heap s2)"
        "\<And>j. j * 4096 \<le> ?pos \<Longrightarrow> at s2 p (Data j) \<noteq> 0" "\<And>i. i < ?pos \<Longrightarrow> file_byte s2 p i = file_byte s p i"
        "\<And>i. i < unat c \<Longrightarrow> file_byte s2 p (?pos + i) = b (unat bw + i)" by blast
    let ?fl = "fl\<lparr>fd_pos := fd_pos fl + c\<rparr>"
    let ?s3 = "s2\<lparr>file_table := (file_table s2)[f := ?fl]\<rparr>"
    have sl2: "get_slot f s2 = Some fl" and f: "f < length (file_table s2)"
      using sl st(9) by (auto simp: get_slot_def arr_get_def split: if_splits)
    have lt: "bw < count" using less.prems(8) False by (simp add: word_less_nat_alt)
    have step: "write_loop hp f b count bw sl s = write_loop hp f b count (bw + c) (sl - c) ?s3"
      by (rule write_loop_step [OF lt sl less.prems(4) refl refl c_def [symmetric] st(1-5) upd_slot_in [OF sl2]])
    have "\<exists>s'. write_loop hp f b count (bw + c) (sl - c) ?s3 = Some (count, s') \<and> index_ok s' p \<and> grow p ?s3 s' \<and>
      file_table s' = (file_table ?s3)[f := ?fl\<lparr>fd_pos := fd_pos ?fl + (sl - c)\<rparr>] \<and> I A (Suc (Suc m)) (heap s') \<and>
      (\<forall>j. j * 4096 < unat (fd_pos ?fl) + unat (sl - c) \<longrightarrow> at s' p (Data j) \<noteq> 0) \<and>
      (\<forall>i < unat (fd_pos ?fl). file_byte s' p i = file_byte ?s3 p i) \<and>
      (\<forall>i < unat (sl - c). file_byte s' p (unat (fd_pos ?fl) + i) = b (unat (bw + c) + i))"
    proof (rule less.hyps)
      show "unat (sl - c) < unat sl" using ub(2) c0 by simp
      show "wf_part ?s3" using growD(2) [OF st(7)] by simp
      show "index_ok ?s3 p" using st(6) by simp
      show "get_slot f ?s3 = Some ?fl" using f by (simp add: get_slot_def)
      show "fd_inode ?fl = p" using less.prems(4) by simp
      show "heap_serves hp I" by (rule hp)
      show "I A (Suc (Suc m)) (heap ?s3)" using st(10) by simp
      show "unat (fd_pos ?fl) + unat (sl - c) < 2 ^ 32" using ub less.prems(7) c0 by simp
      show "unat (bw + c) + unat (sl - c) = unat count" using ub less.prems(8) c0 by simp
      show "3 * rounds (unat (fd_pos ?fl)) (unat (sl - c)) \<le> card (free_blks ?s3)"
        using r less.prems(9) st(8) ub by simp
      show "at ?s3 p (Data j) \<noteq> 0" if "j * 4096 < unat (fd_pos ?fl)" for j
      proof -
        have "j * 4096 \<le> ?pos"
        proof (rule ccontr)
          assume "\<not> j * 4096 \<le> ?pos"
          then have "?pos div 4096 < j" by (simp add: div_less_iff_less_mult)
          then have "4096 * (?pos div 4096) + 4096 \<le> j * 4096" by simp
          moreover have "?pos = 4096 * (?pos div 4096) + ?pos mod 4096" by (rule mult_div_mod_eq [symmetric])
          moreover have "j * 4096 < ?pos + unat c" "?pos mod 4096 < 4096" using that ub(3) by simp_all
          ultimately show False using c0(3) by linarith
        qed
        then show ?thesis using st(11) by simp
      qed
    qed
    then obtain s' where s': "write_loop hp f b count (bw + c) (sl - c) ?s3 = Some (count, s')" "index_ok s' p" "grow p ?s3 s'"
      "file_table s' = (file_table ?s3)[f := ?fl\<lparr>fd_pos := fd_pos ?fl + (sl - c)\<rparr>]" "I A (Suc (Suc m)) (heap s')"
      "\<And>j. j * 4096 < unat (fd_pos ?fl) + unat (sl - c) \<Longrightarrow> at s' p (Data j) \<noteq> 0"
      "\<And>i. i < unat (fd_pos ?fl) \<Longrightarrow> file_byte s' p i = file_byte ?s3 p i"
      "\<And>i. i < unat (sl - c) \<Longrightarrow> file_byte s' p (unat (fd_pos ?fl) + i) = b (unat (bw + c) + i)" by blast
    have "file_byte s' p (?pos + i) = b (unat bw + i)" if "i < unat sl" for i
    proof (cases "i < unat c")
      case True then show ?thesis using s'(7) [of "?pos + i"] st(13) [OF True] ub(3) by simp
    next
      case False then show ?thesis using s'(8) [of "i - unat c"] ub that by simp
    qed
    moreover have "file_byte s' p i = file_byte s p i" if "i < ?pos" for i
      using s'(7) [of i] st(12) [OF that] that ub(3) by simp
    moreover have "at s' p (Data j) \<noteq> 0" if "j * 4096 < ?pos + unat sl" for j
      using s'(6) [of j] that ub c0 by simp
    moreover have "grow p s s'" using grow_trans [OF st(7)] s'(3) by simp
    moreover have "file_table s' = (file_table s)[f := fl\<lparr>fd_pos := fd_pos fl + sl\<rparr>]" using s'(4) st(9) by simp
    ultimately show ?thesis using step s'(1,2,5) by auto
  qed
qed

end
