(* ===== verification/File_Io.thy ===== *)
theory File_Io
  imports File_Correct
begin

text \<open>
  \<open>file_write\<close> and \<open>file_read\<close> against the contents of a file, the list of its bytes. \<open>file_ok\<close> is the invariant of a file:
  its index is sound and every position below its size has a block.
\<close>

definition contents :: "'h fs \<Rightarrow> u32 \<Rightarrow> u8 list" where
  "contents s p = (case inodes s p of None \<Rightarrow> [] | Some i \<Rightarrow> map (file_byte s p) [0..<unat (i_size i)])"

definition backed :: "'h fs \<Rightarrow> u32 \<Rightarrow> nat \<Rightarrow> bool" where
  "backed s p n \<longleftrightarrow> (\<forall>j. j * 4096 < n \<longrightarrow> at s p (Data j) \<noteq> 0)"

definition file_ok :: "'h fs \<Rightarrow> u32 \<Rightarrow> bool" where
  "file_ok s p \<longleftrightarrow> index_ok s p \<and> (\<exists>i. inodes s p = Some i \<and> backed s p (unat (i_size i)))"

lemma backed_byte:
  assumes "backed s p n" and "i < n" and "n \<le> 2 ^ 32"
  shows "i div 4096 < max_blocks" "at s p (Data (i div 4096)) \<noteq> 0"
proof -
  have "i div 4096 * 4096 < n" by (rule le_less_trans [OF div_times_less_eq_dividend assms(2)])
  then show "at s p (Data (i div 4096)) \<noteq> 0" using assms(1) by (simp add: backed_def)
  show "i div 4096 < max_blocks" using assms(2,3) by (simp add: max_blocks_def)
qed

text \<open>Whatever keeps the partition, the blocks of the inode and the data on disk keeps the file.\<close>

lemma file_frame:
  assumes ok: "index_ok s p" and c: "cur_part s' = cur_part s" and sec: "secs s' p = secs s p"
    and d: "\<And>b i. data_blk s b \<Longrightarrow> i < 4096 \<Longrightarrow> blk_byte s' b i = blk_byte s b i"
  shows "\<And>l. valid_loc l \<Longrightarrow> at s' p l = at s p l" "index_ok s' p" "owned s' p = owned s p"
    "\<And>i. i div 4096 < max_blocks \<Longrightarrow> at s p (Data (i div 4096)) \<noteq> 0 \<Longrightarrow> file_byte s' p i = file_byte s p i"
proof -
  have t: "data_blk s b" if "b \<in> tables s p" for b using that tables_used [OF ok] used_blks_data by blast
  show at: "at s' p l = at s p l" if "valid_loc l" for l by (rule at_frame [OF sec _ that]) (use t d in blast)
  show "index_ok s' p" by (rule index_ok_same [OF ok _ at]) (use index_okD(1) [OF ok] sec part_cong(4) [OF c] in simp_all)
  show "owned s' p = owned s p" using at by (auto simp: owned_def)
  show "file_byte s' p i = file_byte s p i" if i: "i div 4096 < max_blocks" "at s p (Data (i div 4096)) \<noteq> 0" for i
    using at [of "Data (i div 4096)"] d [of "at s p (Data (i div 4096))" "i mod 4096"] at_data [OF ok, of "Data (i div 4096)"] i
    by (simp add: file_byte_def)
qed

lemma backed_frame: "(\<And>l. valid_loc l \<Longrightarrow> at s' p l = at s p l) \<Longrightarrow> n \<le> 2 ^ 32 \<Longrightarrow> backed s p n \<Longrightarrow> backed s' p n"
  by (force simp: backed_def max_blocks_def)

lemma file_byte_heap [simp]: "file_byte (s\<lparr>heap := h\<rparr>) = file_byte s"
  by (simp add: file_byte_def fun_eq_iff blk_byte_def base_def)

lemma owned_heap [simp]: "owned (s\<lparr>heap := h\<rparr>) = owned s"
  by (simp add: owned_def fun_eq_iff)

lemma chunk_size:
  assumes "c = (if (sl :: u32) < 4096 - pos mod 4096 then sl else 4096 - pos mod 4096)"
  shows "unat (pos mod 4096) = unat pos mod 4096" "unat (pos div 4096) = unat pos div 4096"
    "unat c = min (unat sl) (4096 - unat pos mod 4096)"
proof -
  show u: "unat (pos mod 4096) = unat pos mod 4096" "unat (pos div 4096) = unat pos div 4096" by (simp_all add: unat_mod unat_div)
  have "unat (4096 - pos mod 4096) = 4096 - unat pos mod 4096" using u(1) by (simp add: unat_sub word_le_nat_alt)
  then show "unat c = min (unat sl) (4096 - unat pos mod 4096)" by (simp add: assms word_less_nat_alt min_def)
qed

lemma pos_in_block:
  fixes pos :: nat
  assumes "i < 4096 - pos mod 4096"
  shows "(pos + i) div 4096 = pos div 4096 \<and> (pos + i) mod 4096 = pos mod 4096 + i"
proof -
  define q r where "q = pos div 4096" and "r = pos mod 4096"
  have pos: "pos = r + q * 4096" and "r < 4096" by (simp_all add: q_def r_def)
  then have "r + i < 4096" using assms by (simp add: r_def)
  then have "(r + i + q * 4096) div 4096 = q \<and> (r + i + q * 4096) mod 4096 = r + i" by simp
  moreover have "r + i + q * 4096 = pos + i" using pos by simp
  ultimately show ?thesis unfolding q_def [symmetric] r_def [symmetric] by metis
qed

lemma blit_none [simp]: "blit off src 0 dst = dst"
  by (rule ext) (auto simp: blit_def)

lemma blit_blit:
  assumes "c \<le> n" and "\<And>k. k < c \<Longrightarrow> h k = g k"
  shows "blit (off + c) (\<lambda>i. g (c + i)) (n - c) (blit off h c dst) = blit off g n dst"
proof
  fix j show "blit (off + c) (\<lambda>i. g (c + i)) (n - c) (blit off h c dst) j = blit off g n dst j"
    using assms(1) assms(2) [of "j - off"] by (auto simp: blit_def)
qed

subsection \<open>Writing\<close>

text \<open>The end of \<open>file_write\<close>: the new size, and the inode stored.\<close>

lemma write_finish:
  assumes w: "wf_part s" and i: "inodes s p = Some i" and ok: "index_ok s p" and hp: "heap_serves hp I"
    and I: "I A (Suc m) (heap s)" and n: "n = unat (i_no i) mod 256"
  shows "\<exists>sb s1 s2 s3 h. upd_inode p (\<lambda>i. i\<lparr>i_size := z\<rparr>) s = Some s1 \<and> fs_malloc hp False 8192 s1 = Some (sb, s2) \<and> sb \<noteq> 0 \<and>
    inode_sync p sb s2 = Some s3 \<and> fs_free hp False sb s3 = Some (disk_words n (inode_words (i\<lparr>i_size := z\<rparr>))
      (s\<lparr>inodes := (inodes s)(p \<mapsto> i\<lparr>i_size := z\<rparr>), heap := h\<rparr>)) \<and> I A (Suc m) h"
proof -
  let ?s1 = "s\<lparr>inodes := (inodes s)(p \<mapsto> i\<lparr>i_size := z\<rparr>)\<rparr>"
  have u: "upd_inode p (\<lambda>i. i\<lparr>i_size := z\<rparr>) s = Some ?s1" using i by (simp add: upd_inode_def)
  have "I A (Suc m) (heap ?s1)" using I by simp
  from fs_malloc_serves [OF hp this, of False 8192] obtain q h where
    q: "fs_malloc hp False 8192 ?s1 = Some (q, ?s1\<lparr>heap := h\<rparr>)" "q \<noteq> 0" "q \<notin> A" "I (insert q A) m h" by blast
  let ?s3 = "disk_words n (inode_words (i\<lparr>i_size := z\<rparr>)) (?s1\<lparr>heap := h\<rparr>)"
  have w1: "wf_part (?s1\<lparr>heap := h\<rparr>)" using w part_cong(5) [of "?s1\<lparr>heap := h\<rparr>" s] by simp
  have l: "length (i_sectors (i\<lparr>i_size := z\<rparr>)) = 15" using index_okD(1) [OF ok] i by (simp add: secs_def)
  have y: "inode_sync p q (?s1\<lparr>heap := h\<rparr>) = Some ?s3" using inode_sync_words [OF w1 _ l q(2), of p] by (simp add: n)
  have "I (insert q A) m (heap ?s3)" using q(4) by simp
  from fs_free_serves [OF hp this q(3), of False] obtain h' where h': "fs_free hp False q ?s3 = Some (?s3\<lparr>heap := h'\<rparr>)" "I A (Suc m) h'" .
  have e: "?s3\<lparr>heap := h'\<rparr> = disk_words n (inode_words (i\<lparr>i_size := z\<rparr>)) (?s1\<lparr>heap := h'\<rparr>)"
    by (simp add: disk_words_def inode_pos_def base_def)
  show ?thesis using u q(1,2) y h' unfolding e by blast
qed

lemma file_write_steps:
  assumes w: "wf_part s" and ok: "file_ok s p" and sl: "get_slot f s = Some fl" "fd_inode fl = p" and i: "inodes s p = Some i"
    and hp: "heap_serves hp I" and I: "I A (Suc (Suc (Suc m))) (heap s)" and sz: "unat (i_size i) + unat count < 2 ^ 32"
    and free: "3 * rounds (unat (i_size i)) (unat count) \<le> card (free_blks s)"
  shows "\<exists>s1 s' h. file_write hp f b count s = Some (count, s') \<and> index_ok s1 p \<and> grow p s s1 \<and>
    file_table s1 = (file_table s)[f := fl\<lparr>fd_pos := i_size i + count\<rparr>] \<and> backed s1 p (unat (i_size i) + unat count) \<and>
    (\<forall>k < unat (i_size i). file_byte s1 p k = file_byte s p k) \<and> (\<forall>k < unat count. file_byte s1 p (unat (i_size i) + k) = b k) \<and>
    s' = disk_words (unat (i_no i) mod 256) (inode_words (i\<lparr>i_sectors := secs s1 p, i_size := i_size i + count\<rparr>))
      (s1\<lparr>inodes := (inodes s1)(p \<mapsto> i\<lparr>i_sectors := secs s1 p, i_size := i_size i + count\<rparr>), heap := h\<rparr>) \<and> I A (Suc (Suc (Suc m))) h"
proof -
  let ?fl = "fl\<lparr>fd_pos := i_size i\<rparr>" and ?n = "unat (i_no i) mod 256"
  from fs_malloc_serves [OF hp I, of False 4096] obtain q h0 where
    q: "fs_malloc hp False 4096 s = Some (q, s\<lparr>heap := h0\<rparr>)" "q \<noteq> 0" "q \<notin> A" "I (insert q A) (Suc (Suc m)) h0" by blast
  let ?s0 = "s\<lparr>heap := h0, file_table := (file_table s)[f := ?fl]\<rparr>"
  have f: "f < length (file_table s)" "get_slot f (s\<lparr>heap := h0\<rparr>) = Some fl"
    using sl(1) by (auto simp: get_slot_def arr_get_def split: if_splits)
  have u0: "upd_slot f (\<lambda>fl. fl\<lparr>fd_pos := i_size i\<rparr>) (s\<lparr>heap := h0\<rparr>) = Some ?s0" using upd_slot_in [OF f(2)] by simp
  have at0: "at ?s0 p = at s p" by (rule ext) (simp add: at_slot at_heap)
  have "\<exists>s1. write_loop hp f b count 0 count ?s0 = Some (count, s1) \<and> index_ok s1 p \<and> grow p ?s0 s1 \<and>
    file_table s1 = (file_table ?s0)[f := ?fl\<lparr>fd_pos := fd_pos ?fl + count\<rparr>] \<and> I (insert q A) (Suc (Suc m)) (heap s1) \<and>
    (\<forall>j. j * 4096 < unat (fd_pos ?fl) + unat count \<longrightarrow> at s1 p (Data j) \<noteq> 0) \<and>
    (\<forall>k < unat (fd_pos ?fl). file_byte s1 p k = file_byte ?s0 p k) \<and>
    (\<forall>k < unat count. file_byte s1 p (unat (fd_pos ?fl) + k) = b (unat (0 :: u32) + k))"
    by (rule write_loop_appends)
      (use w ok sl i f hp q sz free at0 in \<open>auto simp: file_ok_def get_slot_def backed_def\<close>)
  then obtain s1 where s1: "write_loop hp f b count 0 count ?s0 = Some (count, s1)" "index_ok s1 p" "grow p s s1"
    "file_table s1 = (file_table s)[f := fl\<lparr>fd_pos := i_size i + count\<rparr>]" "I (insert q A) (Suc (Suc m)) (heap s1)"
    "backed s1 p (unat (i_size i) + unat count)" "\<forall>k < unat (i_size i). file_byte s1 p k = file_byte s p k"
    "\<forall>k < unat count. file_byte s1 p (unat (i_size i) + k) = b k"
    by (auto simp: backed_def grow_def owned_def)
  have i1: "inodes s1 p = Some (i\<lparr>i_sectors := secs s1 p\<rparr>)" using s1(3) i by (simp add: grow_def)
  from write_finish [OF growD(2) [OF s1(3)] i1 s1(2) hp s1(5), of ?n "i_size i + count"] obtain sb s2 s3 s4 h1 where
    e: "upd_inode p (\<lambda>i'. i'\<lparr>i_size := i_size i + count\<rparr>) s1 = Some s2" "fs_malloc hp False 8192 s2 = Some (sb, s3)" "sb \<noteq> 0"
      "inode_sync p sb s3 = Some s4" "fs_free hp False sb s4 = Some (disk_words ?n
         (inode_words (i\<lparr>i_sectors := secs s1 p, i_size := i_size i + count\<rparr>))
         (s1\<lparr>inodes := (inodes s1)(p \<mapsto> i\<lparr>i_sectors := secs s1 p, i_size := i_size i + count\<rparr>), heap := h1\<rparr>))"
      "I (insert q A) (Suc (Suc m)) h1" by auto
  let ?s5 = "\<lambda>h. disk_words ?n (inode_words (i\<lparr>i_sectors := secs s1 p, i_size := i_size i + count\<rparr>))
         (s1\<lparr>inodes := (inodes s1)(p \<mapsto> i\<lparr>i_sectors := secs s1 p, i_size := i_size i + count\<rparr>), heap := h\<rparr>)"
  have "I (insert q A) (Suc (Suc m)) (heap (?s5 h1))" using e(6) by simp
  from fs_free_serves [OF hp this q(3), of False] obtain h2 where
    h2: "fs_free hp False q (?s5 h1) = Some ((?s5 h1)\<lparr>heap := h2\<rparr>)" "I A (Suc (Suc (Suc m))) h2" .
  have e5: "(?s5 h1)\<lparr>heap := h2\<rparr> = ?s5 h2" by (simp add: disk_words_def inode_pos_def base_def)
  have "\<not> FILE_MAX_SIZE - i_size i < count"
    using sz unat_less_2p32 [of "i_size i"] by (simp add: FILE_MAX_SIZE_def word_less_nat_alt unat_sub word_le_nat_alt)
  moreover have "get_slot f s1 = Some (fl\<lparr>fd_pos := i_size i + count\<rparr>)" using s1(4) f(1) by (simp add: get_slot_def)
  ultimately have "file_write hp f b count s = Some (count, ?s5 h2)"
    using sl i q(1,2) u0 s1(1) e(1-5) h2(1) unfolding e5 by (simp add: file_write_def)
  then show ?thesis using s1 h2(2) by blast
qed

lemma contents_Some: "inodes s p = Some i \<Longrightarrow> contents s p = map (file_byte s p) [0..<unat (i_size i)]"
  by (simp add: contents_def)


text \<open>A write that would make the file larger than \<^verbatim>\<open>FILE_MAX_SIZE\<close> is refused; the test does not overflow.\<close>

lemma file_write_too_large:
  assumes "get_slot f s = Some fl" and "inodes s (fd_inode fl) = Some i" and "2 ^ 32 \<le> unat (i_size i) + unat count"
  shows "file_write hp f b count s = Some (- 1, s)"
proof -
  have "FILE_MAX_SIZE - i_size i < count"
    using assms(3) unat_less_2p32 [of "i_size i"] by (auto simp: FILE_MAX_SIZE_def word_less_nat_alt unat_sub word_le_nat_alt)
  then show ?thesis using assms(1,2) by (simp add: file_write_def)
qed

subsection \<open>Reading\<close>

lemma read_loop_step:
  assumes "br < sz" and "get_slot f s = Some fl" and "fd_inode fl = p" and "fd_pos fl div 4096 = idx" and "fd_pos fl mod 4096 = off"
    and "(if sl < 4096 - off then sl else 4096 - off) = c" and "get_data_block p idx s = Some blk" and blk: "blk \<noteq> 0"
    and "read_block blk (\<lambda>_. 0) s = Some io" and "upd_slot f (\<lambda>fl. fl\<lparr>fd_pos := fd_pos fl + c\<rparr>) s = Some s'"
  shows "read_loop f sz br sl b s = read_loop f sz (br + c) (sl - c) (blit (unat br) (\<lambda>i. io (unat off + i)) (unat c) b) s'"
proof -
  have "(blk = 0) = False" using blk by simp
  then show ?thesis by (subst read_loop.simps) (simp only: assms Let_def if_True if_False Option.bind.simps prod.case)
qed

lemma read_loop_reads:
  assumes "wf_part s" and "index_ok s p" and "get_slot f s = Some fl" and "fd_inode fl = p" and "unat br + unat sl = unat sz"
    and "unat (fd_pos fl) + unat sl < 2 ^ 32" and "backed s p (unat (fd_pos fl) + unat sl)"
  shows "read_loop f sz br sl b s = Some (sz, blit (unat br) (\<lambda>i. file_byte s p (unat (fd_pos fl) + i)) (unat sl) b,
    s\<lparr>file_table := (file_table s)[f := fl\<lparr>fd_pos := fd_pos fl + sl\<rparr>]\<rparr>)"
  using assms
proof (induction "unat sl" arbitrary: s fl br sl b rule: less_induct)
  case less
  note w = less.prems(1) and ok = less.prems(2) and sl = less.prems(3)
  show ?case
  proof (cases "unat sl = 0")
    case True
    then have "sl = 0" by (simp add: unat_eq_zero)
    moreover have "br = sz" using less.prems(5) True by (simp add: word_unat_eq_iff)
    moreover have "(file_table s)[f := fl] = file_table s" using sl by (auto simp: get_slot_def arr_get_def split: if_splits)
    ultimately show ?thesis by (subst read_loop.simps) simp
  next
    case False
    let ?pos = "unat (fd_pos fl)" and ?off = "fd_pos fl mod 4096" and ?idx = "fd_pos fl div 4096"
    define c where "c = (if sl < 4096 - ?off then sl else 4096 - ?off)"
    note cs = chunk_size [OF c_def]
    have c0: "0 < unat c" "unat c \<le> unat sl" "unat c \<le> 4096 - ?pos mod 4096" using cs(3) False by auto
    have ub: "unat (br + c) = unat br + unat c" "unat (sl - c) = unat sl - unat c" "unat (fd_pos fl + c) = ?pos + unat c"
      using c0 less.prems(5,6) unat_less_2p32 [of sz] by (simp_all add: unat_word_ariths unat_sub word_le_nat_alt)
    have lt: "br < sz" using less.prems(5) False by (simp add: word_less_nat_alt)
    have le: "?pos + unat sl \<le> 2 ^ 32" and p: "?pos < ?pos + unat sl" using less.prems(6) False by simp_all
    note bk = backed_byte [OF less.prems(7) p le]
    let ?blk = "at s p (Data (?pos div 4096))"
    have g: "get_data_block p ?idx s = Some ?blk" using get_data_block_at [OF w ok, of ?idx] bk(1) by (simp add: cs(2))
    have "unat ?blk < n_blks s" using at_data [OF ok, of "Data (?pos div 4096)"] bk data_blk_nz [OF w] by auto
    note io = read_block_bytes [OF w this, of "\<lambda>_. 0"]
    let ?io = "\<lambda>i. if i < 4096 then blk_byte s ?blk i else 0"
    let ?fl = "fl\<lparr>fd_pos := fd_pos fl + c\<rparr>" and ?b = "blit (unat br) (\<lambda>i. ?io (unat ?off + i)) (unat c) b"
    let ?s = "s\<lparr>file_table := (file_table s)[f := ?fl]\<rparr>"
    have f: "f < length (file_table s)" using sl by (auto simp: get_slot_def arr_get_def split: if_splits)
    have step: "read_loop f sz br sl b s = read_loop f sz (br + c) (sl - c) ?b ?s"
      by (rule read_loop_step [OF lt sl less.prems(4) refl refl c_def [symmetric] g bk(2) io upd_slot_in [OF sl]])
    have "read_loop f sz (br + c) (sl - c) ?b ?s = Some (sz, blit (unat (br + c)) (\<lambda>i. file_byte ?s p (unat (fd_pos ?fl) + i)) (unat (sl - c)) ?b,
      ?s\<lparr>file_table := (file_table ?s)[f := ?fl\<lparr>fd_pos := fd_pos ?fl + (sl - c)\<rparr>]\<rparr>)"
      by (rule less.hyps) (use ub c0 w ok f less.prems in \<open>auto simp: get_slot_def backed_def\<close>)
    also have "blit (unat (br + c)) (\<lambda>i. file_byte ?s p (unat (fd_pos ?fl) + i)) (unat (sl - c)) ?b =
      blit (unat br) (\<lambda>i. file_byte s p (?pos + i)) (unat sl) b"
    proof -
      have "?io (unat ?off + k) = file_byte s p (?pos + k)" if "k < unat c" for k
      proof -
        have "k < 4096 - ?pos mod 4096" using that c0(3) by simp
        note q = pos_in_block [OF this]
        moreover have "?pos mod 4096 + k < 4096" using q by (metis mod_less_divisor zero_less_numeral)
        ultimately show ?thesis by (simp add: file_byte_def cs(1))
      qed
      from blit_blit [OF c0(2), where g = "\<lambda>i. file_byte s p (?pos + i)", OF this] show ?thesis using ub by (simp add: add.assoc)
    qed
    finally show ?thesis using step by simp
  qed
qed

lemma slot_id [simp]: "get_slot f s = Some fl \<Longrightarrow> (file_table s)[f := fl] = file_table s"
  by (auto simp: get_slot_def arr_get_def split: if_splits)

text \<open>C2: Reading returns what was written. For an open file that is sound, with the position inside the file and the end of the
  request below \<open>2\<^sup>32\<close>, \<open>file_read\<close> ends and returns the number of bytes up to the end of the file, at most the number
  asked for; these bytes of the buffer are the contents of the file from the position on, the rest of the buffer is as
  before, the position moves behind them and nothing else changes.\<close>

theorem file_read_returns:
  assumes w: "wf_part s" and ok: "file_ok s p" and sl: "get_slot f s = Some fl" "fd_inode fl = p" and i: "inodes s p = Some i"
    and hp: "heap_serves hp I" and I: "I A (Suc m) (heap s)" and pos: "fd_pos fl \<le> i_size i"
    and sz: "unat (fd_pos fl) + unat count < 2 ^ 32"
  shows "\<exists>n b' h. file_read hp f b count s = Some (n, b', s\<lparr>heap := h, file_table := (file_table s)[f := fl\<lparr>fd_pos := fd_pos fl + n\<rparr>]\<rparr>) \<and>
    unat n = min (unat count) (length (contents s p) - unat (fd_pos fl)) \<and>
    map b' [0..<unat n] = take (unat count) (drop (unat (fd_pos fl)) (contents s p)) \<and> (\<forall>k \<ge> unat n. b' k = b k) \<and> I A (Suc m) h"
proof -
  let ?c = "i_size i < fd_pos fl + count"
  define n where "n = (if ?c then i_size i - fd_pos fl else count)"
  have us: "unat (fd_pos fl + count) = unat (fd_pos fl) + unat count" "unat (i_size i - fd_pos fl) = unat (i_size i) - unat (fd_pos fl)"
    using sz pos by (simp_all add: unat_word_ariths unat_sub)
  have len: "length (contents s p) = unat (i_size i)" by (simp add: contents_Some [OF i])
  have un: "unat n = min (unat count) (unat (i_size i) - unat (fd_pos fl))" using us by (auto simp: n_def word_less_nat_alt)
  have le: "unat (fd_pos fl) + unat n \<le> unat (i_size i)" using un pos by (simp add: word_le_nat_alt)
  have bk: "index_ok s p" "backed s p (unat (fd_pos fl) + unat n)" using ok i le by (auto simp: file_ok_def backed_def)
  let ?b = "blit 0 (\<lambda>k. file_byte s p (unat (fd_pos fl) + k)) (unat n) b"
  have data: "map ?b [0..<unat n] = take (unat count) (drop (unat (fd_pos fl)) (contents s p))"
    using un le by (intro nth_equalityI) (auto simp: contents_Some [OF i] blit_def)
  have rest: "\<forall>k \<ge> unat n. ?b k = b k" by (simp add: blit_def)
  show ?thesis
  proof (cases "?c \<and> n = 0")
    case True
    then have "file_read hp f b count s = Some (0, b, s)" using sl i by (auto simp: file_read_def n_def Let_def)
    then show ?thesis using True data rest un sl(1) I len by (intro exI [of _ n] exI [of _ ?b] exI [of _ "heap s"]) simp
  next
    case False
    from fs_malloc_serves [OF hp I, of False 4096] obtain q h0 where
      q: "fs_malloc hp False 4096 s = Some (q, s\<lparr>heap := h0\<rparr>)" "q \<noteq> 0" "q \<notin> A" "I (insert q A) m h0" by blast
    let ?s = "s\<lparr>heap := h0, file_table := (file_table s)[f := fl\<lparr>fd_pos := fd_pos fl + n\<rparr>]\<rparr>"
    have "read_loop f n 0 n b (s\<lparr>heap := h0\<rparr>) = Some (n, ?b, ?s)"
      using read_loop_reads [of "s\<lparr>heap := h0\<rparr>" p f fl 0 n n b] w bk sl le unat_less_2p32 [of "i_size i"]
      by (simp add: get_slot_def backed_def)
    moreover from fs_free_serves [OF hp _ q(3), of m ?s False] q(4) obtain h1 where
      "fs_free hp False q ?s = Some (?s\<lparr>heap := h1\<rparr>)" "I A (Suc m) h1" by auto
    ultimately show ?thesis using False sl i q(1,2) data rest un len
      by (intro exI [of _ n] exI [of _ ?b] exI [of _ h1]) (auto simp: file_read_def n_def [symmetric] Let_def)
  qed
qed

subsection \<open>An open file\<close>

definition demo_open :: "u32 list fs" where
  "demo_open = demo_fs\<lparr>file_table := (file_table demo_fs)[3 := \<lparr>fd_pos = 0, fd_flag = 2, fd_inode = 0x2000\<rparr>]\<rparr>"

lemma demo_open_ok: "wf_part demo_open" "file_ok demo_open 0x2000" "get_slot 3 demo_open = Some \<lparr>fd_pos = 0, fd_flag = 2, fd_inode = 0x2000\<rparr>"
  "inodes demo_open 0x2000 = Some \<lparr>i_no = 1, i_size = 0, i_open_cnts = 1, write_deny = False, i_sectors = replicate 15 0\<rparr>"
  "demo_budget {} (Suc (Suc (Suc 1))) (heap demo_open)" "card (free_blks demo_open) = 15" "contents demo_open 0x2000 = []"
proof -
  show i: "inodes demo_open 0x2000 = Some \<lparr>i_no = 1, i_size = 0, i_open_cnts = 1, write_deny = False, i_sectors = replicate 15 0\<rparr>"
    by (simp add: demo_open_def demo_fs_def)
  show "wf_part demo_open" "card (free_blks demo_open) = 15" using demo_wf demo_card_free by (simp_all add: demo_open_def)
  show "file_ok demo_open 0x2000" using demo_index_ok i by (simp add: file_ok_def demo_open_def backed_def)
  show "get_slot 3 demo_open = Some \<lparr>fd_pos = 0, fd_flag = 2, fd_inode = 0x2000\<rparr>" by (simp add: get_slot_def demo_open_def demo_fs_def)
  show "demo_budget {} (Suc (Suc (Suc 1))) (heap demo_open)" by (simp add: demo_open_def demo_fs_def demo_budget_def)
  show "contents demo_open 0x2000 = []" by (simp add: contents_Some [OF i])
qed


text \<open>A file of five bytes in block 87, at position 1.\<close>

definition demo_full :: "u32 list fs" where
  "demo_full = demo_fs\<lparr>disk := (\<lambda>a. of_nat a), file_table := (file_table demo_fs)[3 := \<lparr>fd_pos = 1, fd_flag = 0, fd_inode = 0x2000\<rparr>],
     inodes := [0x2000 \<mapsto> \<lparr>i_no = 1, i_size = 5, i_open_cnts = 1, write_deny = False, i_sectors = 87 # replicate 14 0\<rparr>]\<rparr>"

lemma demo_full_ok: "wf_part demo_full" "file_ok demo_full 0x2000" "get_slot 3 demo_full = Some \<lparr>fd_pos = 1, fd_flag = 0, fd_inode = 0x2000\<rparr>"
  "inodes demo_full 0x2000 = Some \<lparr>i_no = 1, i_size = 5, i_open_cnts = 1, write_deny = False, i_sectors = 87 # replicate 14 0\<rparr>"
  "demo_budget {} (Suc 3) (heap demo_full)" "contents demo_full 0x2000 = [0, 1, 2, 3, 4]"
proof -
  show i: "inodes demo_full 0x2000 = Some \<lparr>i_no = 1, i_size = 5, i_open_cnts = 1, write_deny = False, i_sectors = 87 # replicate 14 0\<rparr>"
    by (simp add: demo_full_def)
  have c: "cur_part demo_full = cur_part demo_fs" by (simp add: demo_full_def)
  show "wf_part demo_full" using demo_wf part_cong(5) [OF c] by simp
  show "get_slot 3 demo_full = Some \<lparr>fd_pos = 1, fd_flag = 0, fd_inode = 0x2000\<rparr>" by (simp add: get_slot_def demo_full_def demo_fs_def)
  show "demo_budget {} (Suc 3) (heap demo_full)" by (simp add: demo_full_def demo_fs_def demo_budget_def)
  have sec: "secs demo_full 0x2000 = 87 # replicate 14 0" by (simp add: secs_def i)
  then have at: "at demo_full 0x2000 l = (if l = Data 0 then 87 else 0)" if "valid_loc l" for l
    using that by (cases l) (auto simp: at.simps child_def nth_Cons split: nat.split)
  have "87 \<noteq> blk_no demo_fs k" if "k \<in> {1..<16}" for k using that by (auto simp: blk_no_def word_unat_eq_iff unat_word_ariths unat_of_nat)
  then have "87 \<notin> free_blks demo_fs" unfolding free_blks_def demo_free_bits by blast
  then have "87 \<in> used_blks demo_full" unfolding part_cong(4) [OF c] by (simp add: used_blks_def data_blk_def)
  then have "index_ok demo_full 0x2000" using at by (simp add: index_ok_def sec split: if_splits)
  then show "file_ok demo_full 0x2000" using at by (auto simp: file_ok_def i backed_def max_blocks_def)
  have "file_byte demo_full 0x2000 k = of_nat k" if "k < 5" for k
    using that at [of "Data 0"] by (simp add: file_byte_def max_blocks_def blk_byte_def base_def demo_full_def demo_fs_def word_unat_eq_iff unat_of_nat unat_word_ariths)
  then show "contents demo_full 0x2000 = [0, 1, 2, 3, 4]" by (simp add: contents_Some [OF i] upt_rec)
qed

theorem file_read_returns_witness:
  "\<exists>b' h. file_read demo_heap 3 (\<lambda>_. 7) 10 demo_full = Some (4, b', demo_full\<lparr>heap := h, file_table := (file_table demo_full)[3 := \<lparr>fd_pos = 5, fd_flag = 0, fd_inode = 0x2000\<rparr>]\<rparr>) \<and>
     map b' [0..<5] = [1, 2, 3, 4, 7]"
proof -
  let ?fl = "\<lparr>fd_pos = 1, fd_flag = 0, fd_inode = 0x2000\<rparr>"
  have "\<exists>n b' h. file_read demo_heap 3 (\<lambda>_. 7) 10 demo_full = Some (n, b', demo_full\<lparr>heap := h, file_table := (file_table demo_full)[3 := ?fl\<lparr>fd_pos := fd_pos ?fl + n\<rparr>]\<rparr>) \<and>
    unat n = min (unat (10 :: u32)) (length (contents demo_full 0x2000) - unat (fd_pos ?fl)) \<and>
    map b' [0..<unat n] = take (unat (10 :: u32)) (drop (unat (fd_pos ?fl)) (contents demo_full 0x2000)) \<and>
    (\<forall>k \<ge> unat n. b' k = 7) \<and> demo_budget {} (Suc 3) h"
    by (rule file_read_returns [OF demo_full_ok(1-3) _ demo_full_ok(4) demo_heap_serves demo_full_ok(5)]) simp_all
  then obtain n b' h where
    r: "file_read demo_heap 3 (\<lambda>_. 7) 10 demo_full = Some (n, b', demo_full\<lparr>heap := h, file_table := (file_table demo_full)[3 := ?fl\<lparr>fd_pos := fd_pos ?fl + n\<rparr>]\<rparr>)"
      "unat n = min (unat (10 :: u32)) (length (contents demo_full 0x2000) - unat (fd_pos ?fl))"
      "map b' [0..<unat n] = take (unat (10 :: u32)) (drop (unat (fd_pos ?fl)) (contents demo_full 0x2000))" "\<forall>k \<ge> unat n. b' k = 7" by blast
  have "unat n = 4" using r(2) by (simp add: demo_full_ok(6))
  then have "n = 4" by (simp add: word_unat_eq_iff)
  with r(1,3,4) show ?thesis by (intro exI [of _ b'] exI [of _ h]) (simp add: demo_full_ok(6) upt_rec)
qed

end
