(* ===== verification/Dir.thy ===== *)
theory Dir
  imports File
begin

text \<open>
  \<^verbatim>\<open>fs/dir.c\<close>, and \<^verbatim>\<open>file_create\<close> of \<^verbatim>\<open>fs/file.c\<close> that needs it. A \<^verbatim>\<open>struct dir*\<close> is the static \<^verbatim>\<open>root_dir\<close> or an address of the
  heap. A \<^verbatim>\<open>struct dir_entry\<close> is its 24 bytes: sixteen of the name, the number of the inode, the type. Names are lists of
  bytes without the terminating 0. An entry size other than 24 in the superblock would make the code leave its
  buffers, and is a failure.
\<close>

definition FT_UNKNOWN :: u32 where "FT_UNKNOWN = 0"
definition FT_REGULAR :: u32 where "FT_REGULAR = 1"
definition FT_DIRECTORY :: u32 where "FT_DIRECTORY = 2"
definition MAX_FILE_NAME_LEN :: nat where "MAX_FILE_NAME_LEN = 16"
definition DIR_MAX_BLOCKS :: nat where "DIR_MAX_BLOCKS = 1036"
definition sizeof_dir_entry :: nat where "sizeof_dir_entry = 24"
definition sizeof_dir :: u32 where "sizeof_dir = 4104"

type_synonym dir_entry = buf

datatype dir_ref = Root_Dir | Dir_At u32

definition get_dir :: "dir_ref \<Rightarrow> 'h fs \<Rightarrow> dir option" where
  "get_dir d s = (case d of Root_Dir \<Rightarrow> Some (root_dir s) | Dir_At q \<Rightarrow> dirs s q)"

definition set_dir :: "dir_ref \<Rightarrow> dir \<Rightarrow> 'h fs \<Rightarrow> 'h fs" where
  "set_dir d v s = (case d of Root_Dir \<Rightarrow> s\<lparr>root_dir := v\<rparr> | Dir_At q \<Rightarrow> s\<lparr>dirs := (dirs s)(q \<mapsto> v)\<rparr>)"

text \<open>Fields of the entry at offset \<open>o\<close>; \<open>name_at\<close> is \<^verbatim>\<open>!strcmp(p->filename, name)\<close>.\<close>

definition name_at :: "buf \<Rightarrow> nat \<Rightarrow> u8 list \<Rightarrow> bool" where
  "name_at b off nm \<longleftrightarrow> map (\<lambda>i. b (off + i)) [0..<length nm] = nm \<and> b (off + length nm) = 0"

definition e_no :: "buf \<Rightarrow> nat \<Rightarrow> u32" where "e_no b off = get32 b (off + 16)"
definition e_type :: "buf \<Rightarrow> nat \<Rightarrow> u32" where "e_type b off = get32 b (off + 20)"

definition dir_entrys_per_sec :: "'h fs \<Rightarrow> nat option" where
  "dir_entrys_per_sec s = do {
     ASSERT (dir_entry_size (sb (cur_part s)) = word_of_nat sizeof_dir_entry);
     Some (BLOCK_SIZE div sizeof_dir_entry)
   }"

subsection \<open>Opening and closing\<close>

definition open_root_dir :: "'h heap_ops \<Rightarrow> 'h fs \<Rightarrow> 'h fs option" where
  "open_root_dir hp s = do {
     (p, s) \<leftarrow> inode_open hp (root_inode_no (sb (cur_part s))) s;
     Some (s\<lparr>root_dir := (root_dir s)\<lparr>d_inode := p, dir_pos := 0\<rparr>\<rparr>)
   }"

definition dir_open :: "'h heap_ops \<Rightarrow> u32 \<Rightarrow> 'h fs \<Rightarrow> (dir_ref \<times> 'h fs) option" where
  "dir_open hp inode_no s = do {
     (pdir, s) \<leftarrow> fs_malloc hp False sizeof_dir s;
     (p, s) \<leftarrow> inode_open hp inode_no s;
     ASSERT (pdir \<noteq> 0);
     Some (Dir_At pdir, s\<lparr>dirs := (dirs s)(pdir \<mapsto> \<lparr>d_inode = p, dir_pos = 0, dir_buf = (\<lambda>_. 0)\<rparr>)\<rparr>)
   }"

definition dir_close :: "'h heap_ops \<Rightarrow> dir_ref \<Rightarrow> 'h fs \<Rightarrow> 'h fs option" where
  "dir_close hp d s = (case d of
     Root_Dir \<Rightarrow> Some s
   | Dir_At q \<Rightarrow> do {
       v \<leftarrow> dirs s q;
       s \<leftarrow> inode_close hp (d_inode v) s;
       fs_free hp False q (s\<lparr>dirs := (dirs s)(q := None)\<rparr>)
     })"

subsection \<open>Entries\<close>

text \<open>A name of sixteen characters passes the assertion: its terminator is written behind \<^verbatim>\<open>filename\<close> and is then overwritten by \<^verbatim>\<open>i_no\<close>.\<close>

definition create_dir_entry :: "u8 list \<Rightarrow> u32 \<Rightarrow> u32 \<Rightarrow> dir_entry \<Rightarrow> dir_entry option" where
  "create_dir_entry nm inode_no file_type p_de = do {
     ASSERT (length nm \<le> MAX_FILE_NAME_LEN);
     let p_de = blit 0 (\<lambda>i. nm ! i) (length nm) p_de;
     let p_de = p_de(length nm := 0);
     let p_de = put32 16 inode_no p_de;
     Some (put32 20 file_type p_de)
   }"

primrec search_blocks :: "u8 list \<Rightarrow> nat \<Rightarrow> u32 list \<Rightarrow> 'h fs \<Rightarrow> dir_entry option option" where
  "search_blocks nm cnt [] s = Some None"
| "search_blocks nm cnt (blk # blks) s =
     (if blk = 0 then search_blocks nm cnt blks s
      else do {
        b \<leftarrow> read_block blk (\<lambda>_. 0) s;
        case find (\<lambda>k. name_at b (sizeof_dir_entry * k) nm) [0..<cnt] of
          Some k \<Rightarrow> Some (Some (\<lambda>i. b (sizeof_dir_entry * k + i)))
        | None \<Rightarrow> search_blocks nm cnt blks s
      })"

definition search_dir_entry :: "'h heap_ops \<Rightarrow> dir_ref \<Rightarrow> u8 list \<Rightarrow> 'h fs \<Rightarrow> (dir_entry option \<times> 'h fs) option" where
  "search_dir_entry hp pdir nm s = do {
     (all_blocks, s) \<leftarrow> fs_malloc hp False (word_of_nat (DIR_MAX_BLOCKS * 4)) s;
     if all_blocks = 0 then Some (None, s)
     else do {
       d \<leftarrow> get_dir pdir s;
       blks \<leftarrow> collect_dir_blocks (d_inode d) s;
       (b, s) \<leftarrow> fs_malloc hp False 4096 s;
       cnt \<leftarrow> dir_entrys_per_sec s;
       ASSERT (b \<noteq> 0);
       r \<leftarrow> search_blocks nm cnt blks s;
       s \<leftarrow> fs_free hp False b s;
       s \<leftarrow> fs_free hp False all_blocks s;
       Some (r, s)
     }
   }"

text \<open>The bytes of \<^verbatim>\<open>all_blocks + 12\<close>, the table the code writes back.\<close>

definition indirect_bytes :: "u32 list \<Rightarrow> buf" where
  "indirect_bytes all_blocks = put_words 0 (drop INODE_DIRECT_BLOCKS all_blocks) (\<lambda>_. 0)"

definition clear_block_bit :: "u32 \<Rightarrow> 'h fs \<Rightarrow> 'h fs option" where
  "clear_block_bit idx s = do {
     b \<leftarrow> bitmap_set (block_bitmap (cur_part s)) idx 0;
     Some (upd_part (\<lambda>q. q\<lparr>block_bitmap := b\<rparr>) s)
   }"

text \<open>Where the number of the new block goes; the block that takes the entry, or 0 when none is left.\<close>

definition place_dir_block :: "u32 \<Rightarrow> nat \<Rightarrow> u32 list \<Rightarrow> u32 \<Rightarrow> 'h fs \<Rightarrow> (u32 option \<times> 'h fs) option" where
  "place_dir_block p block_idx all_blocks block_no s =
     (if block_idx < INODE_DIRECT_BLOCKS then do { s \<leftarrow> set_sector p block_idx block_no s; Some (Some block_no, s) }
      else if block_idx = INODE_DIRECT_BLOCKS then do {
        s \<leftarrow> set_sector p INODE_SINGLE_INDIRECT block_no s;
        (data_no, s) \<leftarrow> block_bitmap_alloc s;
        if data_no = - 1 then do {
          s \<leftarrow> clear_block_bit (blk2bidx s block_no) s;
          s \<leftarrow> set_sector p INODE_SINGLE_INDIRECT 0 s;
          Some (None, s)
        }
        else do {
          s \<leftarrow> bitmap_sync (blk2bidx s data_no) BLOCK_BITMAP s;
          s \<leftarrow> write_block block_no (indirect_bytes (all_blocks[INODE_DIRECT_BLOCKS := data_no])) s;
          Some (Some data_no, s)
        }
      }
      else do {
        t \<leftarrow> get_sector p INODE_SINGLE_INDIRECT s;
        s \<leftarrow> write_block t (indirect_bytes (all_blocks[block_idx := block_no])) s;
        Some (Some block_no, s)
      })"

definition new_dir_block :: "u32 \<Rightarrow> nat \<Rightarrow> u32 list \<Rightarrow> dir_entry \<Rightarrow> 'h fs \<Rightarrow> (bool \<times> 'h fs) option" where
  "new_dir_block p block_idx all_blocks p_de s = do {
     (block_no, s) \<leftarrow> block_bitmap_alloc s;
     if block_no = - 1 then Some (False, s)
     else do {
       s \<leftarrow> bitmap_sync (blk2bidx s block_no) BLOCK_BITMAP s;
       (r, s) \<leftarrow> place_dir_block p block_idx all_blocks block_no s;
       case r of None \<Rightarrow> Some (False, s)
       | Some block_no \<Rightarrow> do {
           s \<leftarrow> write_block block_no (blit 0 p_de sizeof_dir_entry (\<lambda>_. 0)) s;
           s \<leftarrow> upd_inode p (\<lambda>i. i\<lparr>i_size := i_size i + word_of_nat sizeof_dir_entry\<rparr>) s;
           Some (True, s)
         }
     }
   }"

primrec sync_loop :: "nat \<Rightarrow> nat \<Rightarrow> u32 \<Rightarrow> nat \<Rightarrow> u32 list \<Rightarrow> dir_entry \<Rightarrow> 'h fs \<Rightarrow> (bool \<times> 'h fs) option" where
  "sync_loop 0 block_idx p cnt all_blocks p_de s = Some (False, s)"
| "sync_loop (Suc n) block_idx p cnt all_blocks p_de s = do {
     blk \<leftarrow> arr_get all_blocks block_idx;
     if blk = 0 then new_dir_block p block_idx all_blocks p_de s
     else do {
       b \<leftarrow> read_block blk (\<lambda>_. 0) s;
       case find (\<lambda>k. e_type b (sizeof_dir_entry * k) = FT_UNKNOWN) [0..<cnt] of
         Some k \<Rightarrow> do {
           s \<leftarrow> write_block blk (blit (sizeof_dir_entry * k) p_de sizeof_dir_entry b) s;
           s \<leftarrow> upd_inode p (\<lambda>i. i\<lparr>i_size := i_size i + word_of_nat sizeof_dir_entry\<rparr>) s;
           Some (True, s)
         }
       | None \<Rightarrow> sync_loop n (Suc block_idx) p cnt all_blocks p_de s
     }
   }"

definition sync_dir_entry :: "'h heap_ops \<Rightarrow> dir_ref \<Rightarrow> dir_entry \<Rightarrow> u32 \<Rightarrow> 'h fs \<Rightarrow> (bool \<times> 'h fs) option" where
  "sync_dir_entry hp parent_dir p_de io_buf s = do {
     d \<leftarrow> get_dir parent_dir s;
     i \<leftarrow> inodes s (d_inode d);
     cnt \<leftarrow> dir_entrys_per_sec s;
     ASSERT (i_size i mod word_of_nat sizeof_dir_entry = 0);
     (all_blocks, s) \<leftarrow> fs_malloc hp False (word_of_nat (DIR_MAX_BLOCKS * 4)) s;
     if all_blocks = 0 then Some (False, s)
     else do {
       blks \<leftarrow> collect_dir_blocks (d_inode d) s;
       ASSERT (io_buf \<noteq> 0);
       (ok, s) \<leftarrow> sync_loop DIR_MAX_BLOCKS 0 (d_inode d) cnt blks p_de s;
       s \<leftarrow> fs_free hp False all_blocks s;
       Some (ok, s)
     }
   }"

subsection \<open>Deleting entries\<close>

text \<open>The first entry in use with the number, and whether an entry \<^verbatim>\<open>"."\<close> was seen up to there.\<close>

primrec del_scan :: "nat \<Rightarrow> nat \<Rightarrow> buf \<Rightarrow> u32 \<Rightarrow> bool \<Rightarrow> nat option \<times> bool" where
  "del_scan 0 k b inode_no first = (None, first)"
| "del_scan (Suc n) k b inode_no first =
     (if e_type b (sizeof_dir_entry * k) \<noteq> FT_UNKNOWN then
        let first = (first \<or> name_at b (sizeof_dir_entry * k) [0x2e])
        in if e_no b (sizeof_dir_entry * k) = inode_no then (Some k, first) else del_scan n (Suc k) b inode_no first
      else del_scan n (Suc k) b inode_no first)"

definition used_entries :: "nat \<Rightarrow> buf \<Rightarrow> nat list" where
  "used_entries cnt b = filter (\<lambda>k. e_type b (sizeof_dir_entry * k) \<noteq> FT_UNKNOWN) [0..<cnt]"

definition drop_dir_block :: "u32 \<Rightarrow> nat \<Rightarrow> u32 list \<Rightarrow> 'h fs \<Rightarrow> 'h fs option" where
  "drop_dir_block p block_idx all_blocks s = do {
     let idx = blk2bidx s (all_blocks ! block_idx);
     s \<leftarrow> clear_block_bit idx s;
     s \<leftarrow> bitmap_sync idx BLOCK_BITMAP s;
     if block_idx < INODE_DIRECT_BLOCKS then set_sector p block_idx 0 s
     else do {
       let indirect_blocks = length (filter (\<lambda>b. b \<noteq> 0) (drop INODE_DIRECT_BLOCKS all_blocks));
       ASSERT (1 \<le> indirect_blocks);
       t \<leftarrow> get_sector p INODE_SINGLE_INDIRECT s;
       if 1 < indirect_blocks then write_block t (indirect_bytes (all_blocks[block_idx := 0])) s
       else do {
         let idx = blk2bidx s t;
         s \<leftarrow> clear_block_bit idx s;
         s \<leftarrow> bitmap_sync idx BLOCK_BITMAP s;
         set_sector p INODE_SINGLE_INDIRECT 0 s
       }
     }
   }"

primrec delete_loop :: "nat \<Rightarrow> nat \<Rightarrow> u32 \<Rightarrow> nat \<Rightarrow> u32 list \<Rightarrow> u32 \<Rightarrow> u32 \<Rightarrow> 'h fs \<Rightarrow> (bool \<times> 'h fs) option" where
  "delete_loop 0 block_idx p cnt all_blocks inode_no io_buf s = Some (False, s)"
| "delete_loop (Suc n) block_idx p cnt all_blocks inode_no io_buf s = do {
     blk \<leftarrow> arr_get all_blocks block_idx;
     if blk = 0 then delete_loop n (Suc block_idx) p cnt all_blocks inode_no io_buf s
     else do {
       b \<leftarrow> read_block blk (\<lambda>_. 0) s;
       case del_scan cnt 0 b inode_no False of
         (None, first) \<Rightarrow> delete_loop n (Suc block_idx) p cnt all_blocks inode_no io_buf s
       | (Some k, first) \<Rightarrow> do {
           let b = blit (sizeof_dir_entry * k) (\<lambda>_. 0) sizeof_dir_entry b;
           s \<leftarrow> write_block blk b s;
           s \<leftarrow> (if used_entries cnt b = [] \<and> \<not> first then drop_dir_block p block_idx all_blocks s else Some s);
           s \<leftarrow> upd_inode p (\<lambda>i. i\<lparr>i_size := i_size i - word_of_nat sizeof_dir_entry\<rparr>) s;
           s \<leftarrow> inode_sync p io_buf s;
           Some (True, s)
         }
     }
   }"

definition delete_dir_entry :: "'h heap_ops \<Rightarrow> dir_ref \<Rightarrow> u32 \<Rightarrow> u32 \<Rightarrow> 'h fs \<Rightarrow> (bool \<times> 'h fs) option" where
  "delete_dir_entry hp pdir inode_no io_buf s = do {
     d \<leftarrow> get_dir pdir s;
     (all_blocks, s) \<leftarrow> fs_malloc hp False (word_of_nat (DIR_MAX_BLOCKS * 4)) s;
     if all_blocks = 0 then Some (False, s)
     else do {
       blks \<leftarrow> collect_dir_blocks (d_inode d) s;
       cnt \<leftarrow> dir_entrys_per_sec s;
       ASSERT (io_buf \<noteq> 0);
       (ok, s) \<leftarrow> delete_loop DIR_MAX_BLOCKS 0 (d_inode d) cnt blks inode_no io_buf s;
       s \<leftarrow> fs_free hp False all_blocks s;
       Some (ok, s)
     }
   }"

subsection \<open>Reading a directory\<close>

text \<open>The entries in use of a block, counted in bytes from \<open>pos\<close> on, up to the position of the directory. The result is the
  index of the entry found, or the position reached.\<close>

primrec read_scan :: "nat \<Rightarrow> nat \<Rightarrow> buf \<Rightarrow> u32 \<Rightarrow> u32 \<Rightarrow> (nat + u32) option" where
  "read_scan 0 k b pos target = Some (Inr pos)"
| "read_scan (Suc n) k b pos target =
     (if e_type b (sizeof_dir_entry * k) \<noteq> FT_UNKNOWN then
        if pos < target then read_scan n (Suc k) b (pos + word_of_nat sizeof_dir_entry) target
        else do { ASSERT (pos = target); Some (Inl k) }
      else read_scan n (Suc k) b pos target)"

primrec read_blocks :: "u32 list \<Rightarrow> nat \<Rightarrow> dir_ref \<Rightarrow> u32 \<Rightarrow> 'h fs \<Rightarrow> (nat option \<times> 'h fs) option" where
  "read_blocks [] cnt d pos s = Some (None, s)"
| "read_blocks (blk # blks) cnt d pos s =
     (if blk = 0 then read_blocks blks cnt d pos s
      else do {
        b \<leftarrow> read_block blk (\<lambda>_. 0) s;
        v \<leftarrow> get_dir d s;
        r \<leftarrow> read_scan cnt 0 b pos (dir_pos v);
        case r of
          Inl k \<Rightarrow> Some (Some (sizeof_dir_entry * k),
                     set_dir d (v\<lparr>dir_buf := b, dir_pos := dir_pos v + word_of_nat sizeof_dir_entry\<rparr>) s)
        | Inr pos \<Rightarrow> read_blocks blks cnt d pos (set_dir d (v\<lparr>dir_buf := b\<rparr>) s)
      })"

text \<open>The result is the offset of the entry in \<^verbatim>\<open>dir_buf\<close>.\<close>

definition dir_read :: "'h heap_ops \<Rightarrow> dir_ref \<Rightarrow> 'h fs \<Rightarrow> (nat option \<times> 'h fs) option" where
  "dir_read hp d s = do {
     v \<leftarrow> get_dir d s;
     (all_blocks, s) \<leftarrow> fs_malloc hp False (word_of_nat (DIR_MAX_BLOCKS * 4)) s;
     if all_blocks = 0 then Some (None, s)
     else do {
       cnt \<leftarrow> dir_entrys_per_sec s;
       blks \<leftarrow> collect_dir_blocks (d_inode v) s;
       (r, s) \<leftarrow> read_blocks blks cnt d 0 s;
       s \<leftarrow> fs_free hp False all_blocks s;
       Some (r, s)
     }
   }"

definition dir_is_empty :: "dir_ref \<Rightarrow> 'h fs \<Rightarrow> bool option" where
  "dir_is_empty d s = do {
     v \<leftarrow> get_dir d s;
     i \<leftarrow> inodes s (d_inode v);
     Some (i_size i = dir_entry_size (sb (cur_part s)) * 2)
   }"

definition dir_remove :: "'h heap_ops \<Rightarrow> dir_ref \<Rightarrow> dir_ref \<Rightarrow> 'h fs \<Rightarrow> (u32 \<times> 'h fs) option" where
  "dir_remove hp parent_dir child_dir s = do {
     v \<leftarrow> get_dir child_dir s;
     i \<leftarrow> inodes s (d_inode v);
     ASSERT (INODE_SECTORS_CNT \<le> length (i_sectors i) \<and> (\<forall>k \<in> set [1..<INODE_SECTORS_CNT]. i_sectors i ! k = 0));
     (io_buf, s) \<leftarrow> fs_malloc hp False 8192 s;
     if io_buf = 0 then Some (- 1, s)
     else do {
       (_, s) \<leftarrow> delete_dir_entry hp parent_dir (i_no i) io_buf s;
       s \<leftarrow> inode_release hp (i_no i) s;
       s \<leftarrow> fs_free hp False io_buf s;
       Some (0, s)
     }
   }"

subsection \<open>Creating a file\<close>

text \<open>The switch after the label \<^verbatim>\<open>rollback\<close>.\<close>

definition create_rollback :: "'h heap_ops \<Rightarrow> nat \<Rightarrow> u32 \<Rightarrow> nat \<Rightarrow> u32 \<Rightarrow> u32 \<Rightarrow> 'h fs \<Rightarrow> (u32 \<times> 'h fs) option" where
  "create_rollback hp step inode_no fd_idx p io_buf s = do {
     s \<leftarrow> (if step = 3 then upd_slot fd_idx (\<lambda>_. \<lparr>fd_pos = 0, fd_flag = 0, fd_inode = 0\<rparr>) s else Some s);
     s \<leftarrow> (if 2 \<le> step then fs_free hp True p (s\<lparr>inodes := (inodes s)(p := None)\<rparr>) else Some s);
     b \<leftarrow> bitmap_set (inode_bitmap (cur_part s)) inode_no 0;
     s \<leftarrow> fs_free hp False io_buf (upd_part (\<lambda>q. q\<lparr>inode_bitmap := b\<rparr>) s);
     Some (- 1, s)
   }"

definition file_create :: "'h heap_ops \<Rightarrow> dir_ref \<Rightarrow> u8 list \<Rightarrow> u32 \<Rightarrow> 'h fs \<Rightarrow> (u32 \<times> 'h fs) option" where
  "file_create hp parent_dir nm flag s = do {
     (io_buf, s) \<leftarrow> fs_malloc hp False 8192 s;
     if io_buf = 0 then Some (- 1, s)
     else do {
       (inode_no, s) \<leftarrow> inode_bitmap_alloc s;
       if inode_no = - 1 then Some (- 1, s)
       else do {
         (p, s) \<leftarrow> fs_malloc hp True (word_of_nat sizeof_inode) s;
         if p = 0 then create_rollback hp 1 inode_no 0 p io_buf s
         else do {
           let s = s\<lparr>inodes := (inodes s)(p \<mapsto> inode_init inode_no)\<rparr>;
           r \<leftarrow> get_free_slot_in_global s;
           case r of None \<Rightarrow> create_rollback hp 2 inode_no 0 p io_buf s
           | Some fd_idx \<Rightarrow> do {
               s \<leftarrow> upd_slot fd_idx (\<lambda>_. \<lparr>fd_pos = 0, fd_flag = flag, fd_inode = p\<rparr>) s;
               de \<leftarrow> create_dir_entry nm inode_no FT_REGULAR (\<lambda>_. 0);
               (ok, s) \<leftarrow> sync_dir_entry hp parent_dir de io_buf s;
               if \<not> ok then create_rollback hp 3 inode_no fd_idx p io_buf s
               else do {
                 d \<leftarrow> get_dir parent_dir s;
                 s \<leftarrow> inode_sync (d_inode d) io_buf s;
                 s \<leftarrow> inode_sync p io_buf s;
                 s \<leftarrow> bitmap_sync inode_no INODE_BITMAP s;
                 let s = upd_part (\<lambda>q. q\<lparr>open_inodes := p # open_inodes q\<rparr>) s;
                 s \<leftarrow> upd_inode p (\<lambda>i. i\<lparr>i_open_cnts := 1\<rparr>) s;
                 s \<leftarrow> fs_free hp False io_buf s;
                 pcb_fd_install fd_idx s
               }
             }
         }
       }
     }
   }"

end
