(* ===== verification/Path.thy ===== *)
theory Path
  imports Dir
begin

text \<open>
  The path functions of \<^verbatim>\<open>fs/fs.c\<close>. A path is the list of its bytes without the terminating 0, a pointer into it the rest
  of the list, \<open>None\<close> for \<^verbatim>\<open>NULL\<close>. \<^verbatim>\<open>path_parse\<close> copies a component into a buffer of \<^verbatim>\<open>MAX_FILE_NAME_LEN\<close> bytes; a component that
  does not fit with its terminator is a write behind the buffer, a failure of the model.
\<close>

definition SLASH :: u8 where "SLASH = 0x2f"
definition MAX_PATH_LEN :: nat where "MAX_PATH_LEN = 512"

definition skip_slashes :: "u8 list \<Rightarrow> u8 list" where
  "skip_slashes pathname = (case pathname of c # cs \<Rightarrow> if c = SLASH then dropWhile (\<lambda>c. c = SLASH) cs else pathname | [] \<Rightarrow> [])"

definition path_parse :: "u8 list \<Rightarrow> (u8 list \<times> u8 list option) option" where
  "path_parse pathname = do {
     let p = skip_slashes pathname;
     let name_store = takeWhile (\<lambda>c. c \<noteq> SLASH) p;
     ASSERT (length name_store < MAX_FILE_NAME_LEN);
     let p = dropWhile (\<lambda>c. c \<noteq> SLASH) p;
     Some (name_store, if p = [] then None else Some p)
   }"

text \<open>The next round of the loops over a path: the name is cleared, and parsed again when a rest is left.\<close>

definition next_name :: "u8 list option \<Rightarrow> (u8 list \<times> u8 list option) option" where
  "next_name sub = (case sub of Some p \<Rightarrow> path_parse p | None \<Rightarrow> Some ([], None))"

definition parse_left :: "u8 list \<Rightarrow> u8 list option \<Rightarrow> nat" where
  "parse_left nm sub = (case sub of Some p \<Rightarrow> length p + 2 | None \<Rightarrow> if nm = [] then 0 else 1)"

lemma skip_slashes_length: "length (skip_slashes p) \<le> length p"
  by (auto simp: skip_slashes_def intro: le_SucI length_dropWhile_le split: list.split)

lemma skip_slashes_first: "skip_slashes p = c # cs \<Longrightarrow> c \<noteq> SLASH"
  by (auto simp: skip_slashes_def dropWhile_eq_Cons_conv split: list.splits if_splits)

lemma path_parse_shorter:
  assumes "path_parse p = Some (nm, Some q)"
  shows "length q < length p"
proof -
  let ?p = "skip_slashes p"
  have q: "q = dropWhile (\<lambda>c. c \<noteq> SLASH) ?p" "q \<noteq> []" using assms by (auto simp: path_parse_def Let_def split: if_splits)
  then obtain c cs where p: "?p = c # cs" by (cases ?p) auto
  then have "length q \<le> length cs" using q(1) skip_slashes_first [OF p] by (simp add: length_dropWhile_le)
  then show ?thesis using p skip_slashes_length [of p] by simp
qed

lemma next_name_left: "nm \<noteq> [] \<Longrightarrow> next_name sub = Some (nm', sub') \<Longrightarrow> parse_left nm' sub' < parse_left nm sub"
  using path_parse_shorter by (cases sub; cases sub') (auto simp: next_name_def parse_left_def)

function depth_loop :: "u8 list \<Rightarrow> u8 list option \<Rightarrow> u32 \<Rightarrow> u32 option" where
  "depth_loop nm sub depth =
     (if nm = [] then Some depth
      else do { (nm, sub) \<leftarrow> next_name sub; depth_loop nm sub (depth + 1) })"
  by pat_completeness auto
termination by (relation "measure (\<lambda>(nm, sub, _). parse_left nm sub)") (auto intro: next_name_left)

declare depth_loop.simps [simp del]

definition path_depth_cnt :: "u8 list \<Rightarrow> u32 option" where
  "path_depth_cnt pathname = do { (nm, sub) \<leftarrow> path_parse pathname; depth_loop nm sub 0 }"

subsection \<open>Components\<close>

text \<open>The nonempty parts of a path between slashes.\<close>

function components :: "u8 list \<Rightarrow> u8 list list" where
  "components [] = []"
| "components (c # cs) =
     (if c = SLASH then components cs
      else (c # takeWhile (\<lambda>c. c \<noteq> SLASH) cs) # components (dropWhile (\<lambda>c. c \<noteq> SLASH) cs))"
  by pat_completeness auto
termination by (relation "measure length") (auto simp: less_Suc_eq_le length_dropWhile_le)

definition left_components :: "u8 list option \<Rightarrow> u8 list list" where
  "left_components sub = (case sub of None \<Rightarrow> [] | Some p \<Rightarrow> components p)"

lemma components_drop_slashes: "components (dropWhile (\<lambda>c. c = SLASH) p) = components p"
  by (induction p) auto

lemma components_skip [simp]: "components (skip_slashes p) = components p"
  by (simp add: skip_slashes_def components_drop_slashes split: list.split)

text \<open>One call of \<open>path_parse\<close> takes the first component.\<close>

lemma path_parse_components:
  "components p = [] \<Longrightarrow> path_parse p = Some ([], None)"
  "components p = nm # ns \<Longrightarrow> length nm < 16 \<Longrightarrow> nm \<noteq> [] \<and> (\<exists>sub. path_parse p = Some (nm, sub) \<and> left_components sub = ns)"
  "components p = nm # ns \<Longrightarrow> 16 \<le> length nm \<Longrightarrow> path_parse p = None"
proof -
  have *: "skip_slashes p = [] \<and> components p = [] \<or> (\<exists>c cs. skip_slashes p = c # cs \<and> c \<noteq> SLASH \<and>
    components p = (c # takeWhile (\<lambda>c. c \<noteq> SLASH) cs) # components (dropWhile (\<lambda>c. c \<noteq> SLASH) cs))"
  proof (cases "skip_slashes p")
    case Nil then show ?thesis using components_skip [of p] by simp
  next
    case (Cons c cs) then show ?thesis using components_skip [of p] skip_slashes_first [OF Cons] by simp
  qed
  show "path_parse p = Some ([], None)" if "components p = []" using * that by (auto simp: path_parse_def MAX_FILE_NAME_LEN_def)
  show "nm \<noteq> [] \<and> (\<exists>sub. path_parse p = Some (nm, sub) \<and> left_components sub = ns)" if "components p = nm # ns" "length nm < 16"
    using * that arg_cong [OF dropWhile_eq_Nil_conv [THEN iffD2], of _ "\<lambda>c. c \<noteq> SLASH" components]
    by (fastforce simp: path_parse_def MAX_FILE_NAME_LEN_def left_components_def)
  show "path_parse p = None" if "components p = nm # ns" "16 \<le> length nm"
    using * that by (auto simp: path_parse_def MAX_FILE_NAME_LEN_def)
qed

lemma depth_loop_counts:
  "nm \<noteq> [] \<Longrightarrow> depth_loop nm sub d =
     (if \<forall>c \<in> set (left_components sub). length c < 16 then Some (d + 1 + of_nat (length (left_components sub))) else None)"
proof (induction "left_components sub" arbitrary: nm sub d)
  case Nil
  then have "next_name sub = Some ([], None)"
    using path_parse_components(1) by (auto simp: next_name_def left_components_def split: option.splits)
  then show ?case using Nil by (simp add: depth_loop.simps)
next
  case (Cons c cs)
  then obtain p where p: "sub = Some p" "components p = c # cs" by (auto simp: left_components_def split: option.splits)
  note pc = path_parse_components(2,3) [OF p(2)]
  have lc: "left_components sub = c # cs" using Cons.hyps(2) by simp
  show ?case
  proof (cases "length c < 16")
    case True
    with pc(1) obtain sub' where "c \<noteq> []" "path_parse p = Some (c, sub')" "left_components sub' = cs" by blast
    then show ?thesis using Cons(1) [of sub' c "d + 1"] Cons.prems True p(1)
      unfolding lc by (subst depth_loop.simps) (simp add: next_name_def add_ac)
  next
    case False
    then show ?thesis using pc(2) Cons.prems p(1) unfolding lc by (subst depth_loop.simps) (simp add: next_name_def)
  qed
qed

text \<open>C27: \<open>path_depth_cnt\<close> always ends and counts the components of a path, however many slashes are between, before and behind them;
  it fails exactly when a component has sixteen characters or more, which \<open>path_parse\<close> writes behind the buffer of its callers.\<close>

theorem path_depth_counts_components:
  "path_depth_cnt p = (if \<forall>c \<in> set (components p). length c < 16 then Some (of_nat (length (components p))) else None)"
proof (cases "components p")
  case Nil
  then show ?thesis using path_parse_components(1) [OF Nil] by (simp add: path_depth_cnt_def depth_loop.simps)
next
  case (Cons c cs)
  note pc = path_parse_components(2,3) [OF Cons]
  show ?thesis
  proof (cases "length c < 16")
    case True
    with pc(1) obtain sub where "c \<noteq> []" "path_parse p = Some (c, sub)" "left_components sub = cs" by blast
    then show ?thesis using depth_loop_counts [of c sub 0] True Cons by (simp add: path_depth_cnt_def)
  next
    case False
    then show ?thesis using pc(2) Cons by (simp add: path_depth_cnt_def)
  qed
qed

theorem path_depth_counts_components_witness:
  "path_depth_cnt [0x2f, 0x61, 0x2f, 0x2f, 0x62, 0x2f] = Some 2 \<and> path_depth_cnt (replicate 16 0x61) = None"
proof -
  have "components (0x61 # replicate 15 0x61) = [0x61 # replicate 15 0x61]" by (simp add: SLASH_def)
  then have "components (replicate 16 0x61) = [replicate 16 0x61]" by (simp add: replicate_Suc [symmetric] del: components.simps)
  then show ?thesis unfolding path_depth_counts_components by (simp add: SLASH_def)
qed

end
