(* ===== verification/Fs.thy ===== *)
theory Fs
  imports Path
begin

text \<open>
  The system calls of \<^verbatim>\<open>fs/fs.c\<close> on the mounted partition. Results are the bits of the \<^verbatim>\<open>int32_t\<close> the functions return, so that -1 is
  \<open>- 1\<close>; descriptors are given by their value. Messages of \<^verbatim>\<open>printk\<close> are not modelled, the output of \<^verbatim>\<open>console_put_str\<close> is. A read of
  the keyboard takes the characters typed; when there are too few it waits, which is \<open>None\<close> here.
\<close>

definition stdin_no :: int where "stdin_no = 0"
definition stdout_no :: int where "stdout_no = 1"
definition stderr_no :: int where "stderr_no = 2"
definition SEEK_SET :: nat where "SEEK_SET = 1"
definition SEEK_CUR :: nat where "SEEK_CUR = 2"
definition SEEK_END :: nat where "SEEK_END = 3"

record path_search_record =
  searched_path :: "u8 list"
  parent_dir :: dir_ref
  file_type :: u32

record fs_stat =
  st_ino :: u32
  st_size :: u32
  st_filetype :: u32

definition fd_local2global :: "int \<Rightarrow> 'h fs \<Rightarrow> nat option" where
  "fd_local2global local_fd s = do {
     ASSERT (0 \<le> local_fd);
     g \<leftarrow> arr_get (cur_fds s) (nat local_fd);
     ASSERT (0 \<le> g \<and> g < int MAX_FILE_OPEN);
     Some (nat g)
   }"

subsection \<open>Looking up a path\<close>

text \<open>\<^verbatim>\<open>"/"\<close>, \<^verbatim>\<open>"/."\<close> and \<^verbatim>\<open>"/.."\<close>\<close>

definition is_root_path :: "u8 list \<Rightarrow> bool" where
  "is_root_path p \<longleftrightarrow> p = [SLASH] \<or> p = [SLASH, 0x2e] \<or> p = [SLASH, 0x2e, 0x2e]"

text \<open>The loop of \<^verbatim>\<open>search_file\<close> and what follows it. \<open>de\<close> is the local \<^verbatim>\<open>dir_e\<close>, \<open>None\<close> before it is first filled.\<close>

function search_loop :: "'h heap_ops \<Rightarrow> u8 list \<Rightarrow> u8 list option \<Rightarrow> dir_ref \<Rightarrow> u32 \<Rightarrow> dir_entry option \<Rightarrow> path_search_record \<Rightarrow>
    'h fs \<Rightarrow> (u32 \<times> path_search_record \<times> 'h fs) option" where
  "search_loop hp nm sub d parent_inode_no de rec s =
     (if nm = [] then do {
        s \<leftarrow> dir_close hp (parent_dir rec) s;
        (d, s) \<leftarrow> dir_open hp parent_inode_no s;
        e \<leftarrow> de;
        Some (e_no e 0, rec\<lparr>parent_dir := d, file_type := FT_DIRECTORY\<rparr>, s)
      }
      else do {
        ASSERT (length (searched_path rec) < MAX_PATH_LEN);
        let path = searched_path rec @ SLASH # nm;
        ASSERT (length path < MAX_PATH_LEN);
        let rec = rec\<lparr>searched_path := path\<rparr>;
        (r, s) \<leftarrow> search_dir_entry hp d nm s;
        case r of
          None \<Rightarrow> Some (- 1, rec, s)
        | Some e \<Rightarrow> do {
            (nm', sub') \<leftarrow> next_name sub;
            if e_type e 0 = FT_DIRECTORY then do {
              v \<leftarrow> get_dir d s;
              i \<leftarrow> inodes s (d_inode v);
              s \<leftarrow> dir_close hp d s;
              (d', s) \<leftarrow> dir_open hp (e_no e 0) s;
              search_loop hp nm' sub' d' (i_no i) (Some e) (rec\<lparr>parent_dir := d'\<rparr>) s
            }
            else if e_type e 0 = FT_REGULAR then Some (e_no e 0, rec\<lparr>file_type := FT_REGULAR\<rparr>, s)
            else search_loop hp nm' sub' d parent_inode_no (Some e) rec s
          }
      })"
  by pat_completeness auto
termination by (relation "measure (\<lambda>(_, nm, sub, _). parse_left nm sub)") (auto intro: next_name_left)

declare search_loop.simps [simp del]

text \<open>The record comes cleared from every caller.\<close>

definition search_file :: "'h heap_ops \<Rightarrow> u8 list \<Rightarrow> 'h fs \<Rightarrow> (u32 \<times> path_search_record \<times> 'h fs) option" where
  "search_file hp pathname s =
     (if is_root_path pathname
      then Some (0, \<lparr>searched_path = [], parent_dir = Root_Dir, file_type = FT_DIRECTORY\<rparr>, s)
      else do {
        ASSERT (pathname \<noteq> [] \<and> hd pathname = SLASH \<and> 1 < length pathname \<and> length pathname < MAX_PATH_LEN);
        (nm, sub) \<leftarrow> path_parse pathname;
        search_loop hp nm sub Root_Dir 0 None \<lparr>searched_path = [], parent_dir = Root_Dir, file_type = FT_UNKNOWN\<rparr> s
      })"

text \<open>\<^verbatim>\<open>strrchr(path, '/') + 1\<close>\<close>

definition last_name :: "u8 list \<Rightarrow> u8 list option" where
  "last_name p = (if SLASH \<in> set p then Some (rev (takeWhile (\<lambda>c. c \<noteq> SLASH) (rev p))) else None)"

subsection \<open>Files\<close>

definition sys_open :: "'h heap_ops \<Rightarrow> u8 list \<Rightarrow> u32 \<Rightarrow> 'h fs \<Rightarrow> (u32 \<times> 'h fs) option" where
  "sys_open hp pathname flags s = do {
     ASSERT (pathname \<noteq> []);
     if last pathname = SLASH then Some (- 1, s)
     else do {
       ASSERT (flags \<le> 7);
       pathname_depth \<leftarrow> path_depth_cnt pathname;
       (inode_no, rec, s) \<leftarrow> search_file hp pathname s;
       let found = (inode_no \<noteq> - 1);
       if file_type rec = FT_DIRECTORY then do { s \<leftarrow> dir_close hp (parent_dir rec) s; Some (- 1, s) }
       else do {
         path_searched_depth \<leftarrow> path_depth_cnt (searched_path rec);
         if pathname_depth \<noteq> path_searched_depth then do { s \<leftarrow> dir_close hp (parent_dir rec) s; Some (- 1, s) }
         else if \<not> found \<and> flags AND O_CREAT = 0 then do { s \<leftarrow> dir_close hp (parent_dir rec) s; Some (- 1, s) }
         else if found \<and> flags AND O_CREAT \<noteq> 0 then do { s \<leftarrow> dir_close hp (parent_dir rec) s; Some (- 1, s) }
         else if flags AND O_CREAT = O_CREAT then do {
           nm \<leftarrow> last_name pathname;
           (fd, s) \<leftarrow> file_create hp (parent_dir rec) nm flags s;
           s \<leftarrow> dir_close hp (parent_dir rec) s;
           Some (fd, s)
         }
         else file_open hp inode_no flags s
       }
     }
   }"

definition sys_close :: "'h heap_ops \<Rightarrow> int \<Rightarrow> 'h fs \<Rightarrow> (u32 \<times> 'h fs) option" where
  "sys_close hp fd s =
     (if 2 < fd then do {
        global_fd \<leftarrow> fd_local2global fd s;
        (ret, s) \<leftarrow> file_close hp global_fd s;
        Some (ret, s\<lparr>cur_fds := (cur_fds s)[nat fd := - 1]\<rparr>)
      }
      else Some (- 1, s))"

text \<open>\<^verbatim>\<open>console_put_str\<close> prints up to the first 0; the copy in \<^verbatim>\<open>tmp_buf[1024]\<close> needs one.\<close>

definition put_console :: "buf \<Rightarrow> u32 \<Rightarrow> 'h fs \<Rightarrow> 'h fs option" where
  "put_console b count s = do {
     ASSERT (count \<le> 1024);
     let tmp_buf = map (blit 0 b (unat count) (\<lambda>_. 0)) [0..<1024];
     let str = takeWhile (\<lambda>c. c \<noteq> 0) tmp_buf;
     ASSERT (length str < 1024);
     Some (s\<lparr>console := console s @ str\<rparr>)
   }"

text \<open>The refusal of a write prints a message of the kernel, \<open>refusal\<close>.\<close>

definition refusal :: "u8 list" where
  "refusal = map of_char ''sys_write: not allowed to write file without flag O_WRONLY or O_RDWR'' @ [10]"

definition sys_write :: "'h heap_ops \<Rightarrow> int \<Rightarrow> buf \<Rightarrow> u32 \<Rightarrow> 'h fs \<Rightarrow> (u32 \<times> 'h fs) option" where
  "sys_write hp fd b count s =
     (if fd < 0 then Some (- 1, s)
      else if fd = stdout_no \<or> fd = stderr_no then do { s \<leftarrow> put_console b count s; Some (count, s) }
      else do {
        f \<leftarrow> fd_local2global fd s;
        wr_file \<leftarrow> get_slot f s;
        if writable (fd_flag wr_file) then file_write hp f b count s
        else Some (- 1, s\<lparr>console := console s @ refusal\<rparr>)
      })"

definition sys_read :: "'h heap_ops \<Rightarrow> int \<Rightarrow> buf \<Rightarrow> u32 \<Rightarrow> 'h fs \<Rightarrow> (u32 \<times> buf \<times> 'h fs) option" where
  "sys_read hp fd b count s =
     (if fd < 0 \<or> fd = stdout_no \<or> fd = stderr_no then Some (- 1, b, s)
      else if fd = stdin_no then do {
        ASSERT (unat count \<le> length (kbd s));
        Some (count, blit 0 (\<lambda>i. kbd s ! i) (unat count) b, s\<lparr>kbd := drop (unat count) (kbd s)\<rparr>)
      }
      else do { f \<leftarrow> fd_local2global fd s; file_read hp f b count s })"

text \<open>The sums of \<^verbatim>\<open>int32_t\<close> values wrap.\<close>

definition sys_lseek :: "int \<Rightarrow> u32 \<Rightarrow> nat \<Rightarrow> 'h fs \<Rightarrow> (u32 \<times> 'h fs) option" where
  "sys_lseek fd offset whence s =
     (if fd < 0 then Some (- 1, s)
      else do {
        ASSERT (0 < whence \<and> whence < 4);
        f \<leftarrow> fd_local2global fd s;
        pf \<leftarrow> get_slot f s;
        i \<leftarrow> inodes s (fd_inode pf);
        let file_size = i_size i;
        let new_pos = (if whence = SEEK_SET then offset else if whence = SEEK_CUR then fd_pos pf + offset else file_size + offset);
        if sint new_pos < 0 \<or> sint file_size < sint new_pos then Some (- 1, s)
        else do { s \<leftarrow> upd_slot f (\<lambda>pf. pf\<lparr>fd_pos := new_pos\<rparr>) s; Some (new_pos, s) }
      })"

text \<open>The scan of the open files for the inode.\<close>

primrec file_in_use :: "file_slot list \<Rightarrow> u32 \<Rightarrow> 'h fs \<Rightarrow> bool option" where
  "file_in_use [] inode_no s = Some False"
| "file_in_use (fl # fls) inode_no s =
     (if fd_inode fl \<noteq> 0 then do {
        i \<leftarrow> inodes s (fd_inode fl);
        if i_no i = inode_no then Some True else file_in_use fls inode_no s
      }
      else file_in_use fls inode_no s)"

definition sys_unlink :: "'h heap_ops \<Rightarrow> u8 list \<Rightarrow> 'h fs \<Rightarrow> (u32 \<times> 'h fs) option" where
  "sys_unlink hp pathname s = do {
     ASSERT (length pathname < MAX_PATH_LEN);
     (inode_no, rec, s) \<leftarrow> search_file hp pathname s;
     ASSERT (inode_no \<noteq> 0);
     if inode_no = - 1 then do { s \<leftarrow> dir_close hp (parent_dir rec) s; Some (- 1, s) }
     else if file_type rec = FT_DIRECTORY then do { s \<leftarrow> dir_close hp (parent_dir rec) s; Some (- 1, s) }
     else do {
       busy \<leftarrow> file_in_use (take MAX_FILE_OPEN (file_table s)) inode_no s;
       if busy then do { s \<leftarrow> dir_close hp (parent_dir rec) s; Some (- 1, s) }
       else do {
         (io_buf, s) \<leftarrow> fs_malloc hp False 8192 s;
         if io_buf = 0 then do { s \<leftarrow> dir_close hp (parent_dir rec) s; Some (- 1, s) }
         else do {
           (_, s) \<leftarrow> delete_dir_entry hp (parent_dir rec) inode_no io_buf s;
           s \<leftarrow> inode_release hp inode_no s;
           s \<leftarrow> fs_free hp False io_buf s;
           s \<leftarrow> dir_close hp (parent_dir rec) s;
           Some (0, s)
         }
       }
     }
   }"

subsection \<open>Directories\<close>

text \<open>The entries \<^verbatim>\<open>"."\<close> and \<^verbatim>\<open>".."\<close> at the start of a cleared block.\<close>

definition dot_entries :: "u32 \<Rightarrow> u32 \<Rightarrow> buf" where
  "dot_entries self parent = put32 44 FT_DIRECTORY (put32 40 parent (put32 20 FT_DIRECTORY (put32 16 self
     ((\<lambda>_. 0)(0 := 0x2e, 24 := 0x2e, 25 := 0x2e)))))"

definition mkdir_rollback :: "'h heap_ops \<Rightarrow> nat \<Rightarrow> u32 \<Rightarrow> u32 \<Rightarrow> dir_ref \<Rightarrow> u32 \<Rightarrow> 'h fs \<Rightarrow> (u32 \<times> 'h fs) option" where
  "mkdir_rollback hp step inode_no block_no parent io_buf s = do {
     s \<leftarrow> (if step = 2 then clear_block_bit (blk2bidx s block_no) s else Some s);
     b \<leftarrow> bitmap_set (inode_bitmap (cur_part s)) inode_no 0;
     s \<leftarrow> dir_close hp parent (upd_part (\<lambda>q. q\<lparr>inode_bitmap := b\<rparr>) s);
     s \<leftarrow> fs_free hp False io_buf s;
     Some (- 1, s)
   }"

definition mkdir_fail :: "'h heap_ops \<Rightarrow> dir_ref \<Rightarrow> u32 \<Rightarrow> 'h fs \<Rightarrow> (u32 \<times> 'h fs) option" where
  "mkdir_fail hp parent io_buf s = do {
     s \<leftarrow> dir_close hp parent s;
     s \<leftarrow> fs_free hp False io_buf s;
     Some (- 1, s)
   }"

definition sys_mkdir :: "'h heap_ops \<Rightarrow> u8 list \<Rightarrow> 'h fs \<Rightarrow> (u32 \<times> 'h fs) option" where
  "sys_mkdir hp pathname s = do {
     (io_buf, s) \<leftarrow> fs_malloc hp False 8192 s;
     if io_buf = 0 then Some (- 1, s)
     else do {
       (inode_no, rec, s) \<leftarrow> search_file hp pathname s;
       if inode_no \<noteq> - 1 then mkdir_fail hp (parent_dir rec) io_buf s
       else do {
         pathname_depth \<leftarrow> path_depth_cnt pathname;
         path_searched_depth \<leftarrow> path_depth_cnt (searched_path rec);
         if pathname_depth \<noteq> path_searched_depth then mkdir_fail hp (parent_dir rec) io_buf s
         else do {
           dirname \<leftarrow> last_name (searched_path rec);
           (inode_no, s) \<leftarrow> inode_bitmap_alloc s;
           if inode_no = - 1 then mkdir_fail hp (parent_dir rec) io_buf s
           else do {
             (block_no, s) \<leftarrow> block_bitmap_alloc s;
             if block_no = - 1 then mkdir_rollback hp 1 inode_no block_no (parent_dir rec) io_buf s
             else do {
               let new_dir_inode = (inode_init inode_no)\<lparr>i_sectors := (i_sectors (inode_init inode_no))[0 := block_no]\<rparr>;
               s \<leftarrow> bitmap_sync (blk2bidx s block_no) BLOCK_BITMAP s;
               d \<leftarrow> get_dir (parent_dir rec) s;
               pi \<leftarrow> inodes s (d_inode d);
               s \<leftarrow> write_block block_no (dot_entries inode_no (i_no pi)) s;
               let new_dir_inode = new_dir_inode\<lparr>i_size := 2 * dir_entry_size (sb (cur_part s))\<rparr>;
               de \<leftarrow> create_dir_entry dirname inode_no FT_DIRECTORY (\<lambda>_. 0);
               (ok, s) \<leftarrow> sync_dir_entry hp (parent_dir rec) de io_buf s;
               if \<not> ok then mkdir_rollback hp 2 inode_no block_no (parent_dir rec) io_buf s
               else do {
                 s \<leftarrow> inode_sync (d_inode d) io_buf s;
                 s \<leftarrow> inode_store new_dir_inode io_buf s;
                 s \<leftarrow> bitmap_sync inode_no INODE_BITMAP s;
                 s \<leftarrow> dir_close hp (parent_dir rec) s;
                 s \<leftarrow> fs_free hp False io_buf s;
                 Some (0, s)
               }
             }
           }
         }
       }
     }
   }"

text \<open>\<^verbatim>\<open>NULL\<close> is \<open>Dir_At 0\<close>.\<close>

definition sys_opendir :: "'h heap_ops \<Rightarrow> u8 list \<Rightarrow> 'h fs \<Rightarrow> (dir_ref \<times> 'h fs) option" where
  "sys_opendir hp pathname s = do {
     ASSERT (length pathname < MAX_PATH_LEN);
     if pathname \<noteq> [] \<and> hd pathname = SLASH \<and> (length pathname = 1 \<or> pathname ! 1 = 0x2e) then Some (Root_Dir, s)
     else do {
       (inode_no, rec, s) \<leftarrow> search_file hp pathname s;
       (ret, s) \<leftarrow> (if inode_no \<noteq> - 1 \<and> file_type rec = FT_DIRECTORY then dir_open hp inode_no s else Some (Dir_At 0, s));
       s \<leftarrow> dir_close hp (parent_dir rec) s;
       Some (ret, s)
     }
   }"

definition sys_closedir :: "'h heap_ops \<Rightarrow> dir_ref \<Rightarrow> 'h fs \<Rightarrow> (u32 \<times> 'h fs) option" where
  "sys_closedir hp d s = (if d \<noteq> Dir_At 0 then do { s \<leftarrow> dir_close hp d s; Some (0, s) } else Some (- 1, s))"

definition sys_readdir :: "'h heap_ops \<Rightarrow> dir_ref \<Rightarrow> 'h fs \<Rightarrow> (nat option \<times> 'h fs) option" where
  "sys_readdir hp d s = do { ASSERT (d \<noteq> Dir_At 0); dir_read hp d s }"

definition sys_rewinddir :: "dir_ref \<Rightarrow> 'h fs \<Rightarrow> 'h fs option" where
  "sys_rewinddir d s = do { v \<leftarrow> get_dir d s; Some (set_dir d (v\<lparr>dir_pos := 0\<rparr>) s) }"

definition sys_rmdir :: "'h heap_ops \<Rightarrow> u8 list \<Rightarrow> 'h fs \<Rightarrow> (u32 \<times> 'h fs) option" where
  "sys_rmdir hp pathname s = do {
     (inode_no, rec, s) \<leftarrow> search_file hp pathname s;
     ASSERT (inode_no \<noteq> 0);
     (retval, s) \<leftarrow>
       (if inode_no = - 1 \<or> file_type rec = FT_REGULAR then Some (- 1, s)
        else do {
          (d, s) \<leftarrow> dir_open hp inode_no s;
          e \<leftarrow> dir_is_empty d s;
          (r, s) \<leftarrow> (if \<not> e then Some (- 1, s) else do { (r, s) \<leftarrow> dir_remove hp (parent_dir rec) d s; Some (if r = 0 then 0 else - 1, s) });
          s \<leftarrow> dir_close hp d s;
          Some (r, s)
        });
     s \<leftarrow> dir_close hp (parent_dir rec) s;
     Some (retval, s)
   }"

subsection \<open>The working directory\<close>

text \<open>The name of an entry; without a 0 in its 24 bytes the code would read on.\<close>

definition entry_name :: "buf \<Rightarrow> nat \<Rightarrow> u8 list option" where
  "entry_name b off = (let nm = takeWhile (\<lambda>c. c \<noteq> 0) (map (\<lambda>i. b (off + i)) [0..<sizeof_dir_entry])
     in if length nm < sizeof_dir_entry then Some nm else None)"

text \<open>The search for the name of the child among the entries of its parent.\<close>

partial_function (option) child_name :: "'h heap_ops \<Rightarrow> dir_ref \<Rightarrow> u32 \<Rightarrow> u8 list \<Rightarrow> 'h fs \<Rightarrow> (u8 list \<times> 'h fs) option" where
  [code]: "child_name hp temp_dir child full_path s = do {
     (r, s) \<leftarrow> dir_read hp temp_dir s;
     case r of None \<Rightarrow> Some (full_path, s)
     | Some off \<Rightarrow> do {
         v \<leftarrow> get_dir temp_dir s;
         if e_no (dir_buf v) off = child then do {
           nm \<leftarrow> entry_name (dir_buf v) off;
           let path = full_path @ SLASH # nm;
           ASSERT (length path < MAX_PATH_LEN);
           Some (path, s)
         }
         else child_name hp temp_dir child full_path s
       }
   }"

partial_function (option) cwd_loop :: "'h heap_ops \<Rightarrow> u32 \<Rightarrow> u8 list \<Rightarrow> 'h fs \<Rightarrow> (u8 list \<times> 'h fs) option" where
  [code]: "cwd_loop hp child full_path s =
     (if child = 0 then Some (full_path, s)
      else do {
        (d, s) \<leftarrow> dir_open hp child s;
        (r, s) \<leftarrow> search_dir_entry hp d [0x2e, 0x2e] s;
        e \<leftarrow> r;
        let parent_inode_no = e_no e 0;
        s \<leftarrow> dir_close hp d s;
        (d, s) \<leftarrow> dir_open hp parent_inode_no s;
        v \<leftarrow> get_dir d s;
        (temp_dir, s) \<leftarrow> fs_malloc hp False sizeof_dir s;
        ASSERT (temp_dir \<noteq> 0);
        let s = s\<lparr>dirs := (dirs s)(temp_dir \<mapsto> \<lparr>d_inode = d_inode v, dir_pos = 0, dir_buf = (\<lambda>_. 0)\<rparr>)\<rparr>;
        (full_path, s) \<leftarrow> child_name hp (Dir_At temp_dir) child full_path s;
        s \<leftarrow> fs_free hp False temp_dir (s\<lparr>dirs := (dirs s)(temp_dir := None)\<rparr>);
        s \<leftarrow> dir_close hp d s;
        cwd_loop hp parent_inode_no full_path s
      })"

text \<open>The last component first.\<close>

function reverse_path :: "u8 list \<Rightarrow> u8 list" where
  "reverse_path p =
     (if p = [] then []
      else let c = rev (takeWhile (\<lambda>c. c \<noteq> SLASH) (rev p))
           in SLASH # c @ reverse_path (take (length p - length c - 1) p))"
  by pat_completeness auto
termination by (relation "measure length") auto

declare reverse_path.simps [simp del]

text \<open>The result is the string left in the buffer, \<open>None\<close> when \<^verbatim>\<open>NULL\<close> is returned.\<close>

definition sys_getcwd :: "'h heap_ops \<Rightarrow> u32 \<Rightarrow> 'h fs \<Rightarrow> (u8 list option \<times> 'h fs) option" where
  "sys_getcwd hp sz s = do {
     (io_buf, s) \<leftarrow> fs_malloc hp False 4096 s;
     if io_buf = 0 then Some (None, s)
     else if cur_cwd s = 0 then do { s \<leftarrow> fs_free hp False io_buf s; Some (Some [SLASH], s) }
     else do {
       (full_path_reverse, s) \<leftarrow> cwd_loop hp (cur_cwd s) [] s;
       let reversed_buf = reverse_path full_path_reverse;
       let reversed_buf = (if reversed_buf = [] then [SLASH] else reversed_buf);
       s \<leftarrow> fs_free hp False io_buf s;
       if length reversed_buf < unat sz then Some (Some reversed_buf, s) else Some (None, s)
     }
   }"

definition sys_chdir :: "'h heap_ops \<Rightarrow> u8 list \<Rightarrow> 'h fs \<Rightarrow> (u32 \<times> 'h fs) option" where
  "sys_chdir hp pathname s = do {
     (inode_no, rec, s) \<leftarrow> search_file hp pathname s;
     let ok = (inode_no \<noteq> - 1 \<and> file_type rec = FT_DIRECTORY);
     s \<leftarrow> dir_close hp (parent_dir rec) (if ok then s\<lparr>cur_cwd := inode_no\<rparr> else s);
     Some (if ok then 0 else - 1, s)
   }"

definition sys_stat :: "'h heap_ops \<Rightarrow> u8 list \<Rightarrow> 'h fs \<Rightarrow> (u32 \<times> fs_stat option \<times> 'h fs) option" where
  "sys_stat hp pathname s =
     (if is_root_path pathname then do {
        i \<leftarrow> inodes s (d_inode (root_dir s));
        Some (0, Some \<lparr>st_ino = 0, st_size = i_size i, st_filetype = FT_DIRECTORY\<rparr>, s)
      }
      else do {
        (inode_no, rec, s) \<leftarrow> search_file hp pathname s;
        (ret, st, s) \<leftarrow>
          (if inode_no \<noteq> - 1 then do {
             (p, s) \<leftarrow> inode_open hp inode_no s;
             i \<leftarrow> inodes s p;
             s \<leftarrow> inode_close hp p s;
             Some (0, Some \<lparr>st_ino = inode_no, st_size = i_size i, st_filetype = file_type rec\<rparr>, s)
           }
           else Some (- 1, None, s));
        s \<leftarrow> dir_close hp (parent_dir rec) s;
        Some (ret, st, s)
      })"

end
