(* ===== verification/Fs_Init.thy ===== *)
theory Fs_Init
  imports Fs
begin

text \<open>
  Formatting, mounting and \<^verbatim>\<open>filesys_init\<close> of \<^verbatim>\<open>fs/fs.c\<close>. A hard disk is its bytes with its primary and logical partitions; the
  code works on one disk at a time, which is the one in the state. \<open>pad\<close> is what the stack holds behind the
  thirteen fields of the superblock that is written. A write outside the heap buffer of \<^verbatim>\<open>partition_format\<close> is a failure.
\<close>

definition FS_MAGIC :: u32 where "FS_MAGIC = 0x19590321"

definition sb_words :: "super_block \<Rightarrow> u32 list" where
  "sb_words b = [sb_magic b, sb_sec_cnt b, sb_inode_cnt b, sb_block_size b, block_bitmap_start b, block_bitmap_blks b,
     inode_bitmap_start b, inode_bitmap_blks b, inode_table_start b, inode_table_blks b, data_start b, root_inode_no b,
     dir_entry_size b]"

definition words_sb :: "u32 list \<Rightarrow> super_block" where
  "words_sb w = \<lparr>sb_magic = w ! 0, sb_sec_cnt = w ! 1, sb_inode_cnt = w ! 2, sb_block_size = w ! 3, block_bitmap_start = w ! 4,
     block_bitmap_blks = w ! 5, inode_bitmap_start = w ! 6, inode_bitmap_blks = w ! 7, inode_table_start = w ! 8,
     inode_table_blks = w ! 9, data_start = w ! 10, root_inode_no = w ! 11, dir_entry_size = w ! 12\<rparr>"

subsection \<open>Formatting\<close>

definition inode_bitmap_size :: u32 where "inode_bitmap_size = DIV_ROUND_UP MAX_FILES_PER_PART BITS_PER_BLOCK"
definition inode_table_size :: u32 where "inode_table_size = DIV_ROUND_UP (MAX_FILES_PER_PART * word_of_nat sizeof_inode) 4096"

text \<open>The number of bits of the block bitmap, and of its blocks.\<close>

definition format_bit_len :: "u32 \<Rightarrow> u32" where
  "format_bit_len secs =
     (let total_blks = secs div 8;
          used_blks = 1 + inode_bitmap_size + inode_table_size;
          free_blks = total_blks - used_blks
      in free_blks - DIV_ROUND_UP free_blks BITS_PER_BLOCK)"

definition format_sb :: "u32 \<Rightarrow> super_block" where
  "format_sb secs =
     (let bb = DIV_ROUND_UP (format_bit_len secs) BITS_PER_BLOCK;
          ib = 1 + bb; it = ib + inode_bitmap_size
      in \<lparr>sb_magic = FS_MAGIC, sb_sec_cnt = secs, sb_inode_cnt = MAX_FILES_PER_PART, sb_block_size = 4096, block_bitmap_start = 1,
          block_bitmap_blks = bb, inode_bitmap_start = ib, inode_bitmap_blks = inode_bitmap_size, inode_table_start = it,
          inode_table_blks = inode_table_size, data_start = it + inode_table_size, root_inode_no = 0,
          dir_entry_size = word_of_nat sizeof_dir_entry\<rparr>)"

text \<open>The block bitmap in the buffer: the first bit, and every bit from \<open>bit_len\<close> to the end of its block, set.\<close>

definition format_bits :: "nat \<Rightarrow> nat \<Rightarrow> buf option" where
  "format_bits buf_size bit_len = do {
     let b = (\<lambda>_. 0)(0 := (0x01 :: u8));
     let last_byte = bit_len div 8;
     let last_bit = bit_len mod 8;
     let last_size = BLOCK_SIZE - (last_byte mod BLOCK_SIZE) - 1;
     ASSERT (last_byte + 1 + last_size \<le> buf_size);
     let b = blit (last_byte + 1) (\<lambda>_. 0xff) last_size b;
     Some (b(last_byte := fold (\<lambda>k v. v OR push_bit k 1) [last_bit..<8] (b last_byte)))
   }"

definition part_write :: "partition \<Rightarrow> u32 \<Rightarrow> buf \<Rightarrow> u32 \<Rightarrow> 'h fs \<Rightarrow> 'h fs option" where
  "part_write part blk b blks s = disk_write (start_lba part + blk * 8) (unat (blks * 8)) b s"

partial_function (option) zero_loop :: "partition \<Rightarrow> u32 \<Rightarrow> u32 \<Rightarrow> u32 \<Rightarrow> 'h fs \<Rightarrow> 'h fs option" where
  [code]: "zero_loop part chunk_blks cur_blk remaining s =
     (if 0 < remaining then do {
        let blks_to_write = (if chunk_blks < remaining then chunk_blks else remaining);
        s \<leftarrow> part_write part cur_blk (\<lambda>_. 0) blks_to_write s;
        zero_loop part chunk_blks (cur_blk + blks_to_write) (remaining - blks_to_write) s
      }
      else Some s)"

text \<open>The block with the inode of the root directory.\<close>

definition root_inode :: "super_block \<Rightarrow> inode" where
  "root_inode b = \<lparr>i_no = 0, i_size = dir_entry_size b * 2, i_open_cnts = 0, write_deny = False, i_sectors = data_start b # replicate 14 0\<rparr>"

definition partition_format :: "'h heap_ops \<Rightarrow> buf \<Rightarrow> partition \<Rightarrow> 'h fs \<Rightarrow> 'h fs option" where
  "partition_format hp pad part s = do {
     let B = format_sb (sec_cnt part);
     s \<leftarrow> disk_write (start_lba part + 1) 1 (put_words 0 (sb_words B) pad) s;
     let buf_blks = (if inode_bitmap_blks B \<le> block_bitmap_blks B then block_bitmap_blks B else inode_bitmap_blks B);
     let buf_size = buf_blks * 4096;
     (b, s) \<leftarrow> fs_malloc hp False buf_size s;
     if b = 0 then Some s
     else do {
       bm \<leftarrow> format_bits (unat buf_size) (unat (format_bit_len (sec_cnt part)));
       s \<leftarrow> part_write part (block_bitmap_start B) bm (block_bitmap_blks B) s;
       s \<leftarrow> part_write part (inode_bitmap_start B) ((\<lambda>_. 0)(0 := 1)) (inode_bitmap_blks B) s;
       s \<leftarrow> part_write part (inode_table_start B) (put_words 0 (inode_words (root_inode B)) (\<lambda>_. 0)) 1 s;
       s \<leftarrow> zero_loop part (buf_size div 4096) (inode_table_start B + 1) (inode_table_blks B - 1) s;
       s \<leftarrow> part_write part (data_start B) (dot_entries 0 0) 1 s;
       fs_free hp False b s
     }
   }"

subsection \<open>Mounting\<close>

definition read_bytes :: "u32 \<Rightarrow> u32 \<Rightarrow> 'h fs \<Rightarrow> u8 list option" where
  "read_bytes lba blks s = do {
     b \<leftarrow> disk_read lba (unat (blks * 8)) (\<lambda>_. 0) s;
     Some (map b [0..<unat (blks * 4096)])
   }"

text \<open>Memory that cannot be had is a panic.\<close>

definition mount_partition :: "'h heap_ops \<Rightarrow> partition \<Rightarrow> 'h fs \<Rightarrow> 'h fs option" where
  "mount_partition hp part s = do {
     let s = s\<lparr>cur_part := part\<rparr>;
     (sb_buf, s) \<leftarrow> fs_malloc hp False 512 s;
     ASSERT (sb_buf \<noteq> 0);
     (sb_mem, s) \<leftarrow> fs_malloc hp False 512 s;
     ASSERT (sb_mem \<noteq> 0);
     b \<leftarrow> disk_read (start_lba part + 1) 1 (\<lambda>_. 0) s;
     let B = words_sb (get_words 0 13 b);
     let s = upd_part (\<lambda>q. q\<lparr>sb := B\<rparr>) s;
     (bits1, s) \<leftarrow> fs_malloc hp False (block_bitmap_blks B * 4096) s;
     ASSERT (bits1 \<noteq> 0);
     bs \<leftarrow> read_bytes (blk2lba s (block_bitmap_start B)) (block_bitmap_blks B) s;
     let s = upd_part (\<lambda>q. q\<lparr>block_bitmap := \<lparr>btmp_bytes_len = block_bitmap_blks B * 4096, bits = bs\<rparr>\<rparr>) s;
     (bits2, s) \<leftarrow> fs_malloc hp False (inode_bitmap_blks B * 4096) s;
     ASSERT (bits2 \<noteq> 0);
     is \<leftarrow> read_bytes (blk2lba s (inode_bitmap_start B)) (inode_bitmap_blks B) s;
     let s = upd_part (\<lambda>q. q\<lparr>inode_bitmap := \<lparr>btmp_bytes_len = inode_bitmap_blks B * 4096, bits = is\<rparr>, open_inodes := []\<rparr>) s;
     fs_free hp False sb_buf s
   }"

subsection \<open>Start\<close>

record hard_disk =
  hd_data :: buf
  prim_parts :: "partition list"
  logic_parts :: "partition list"

definition format_new :: "'h heap_ops \<Rightarrow> buf \<Rightarrow> partition \<Rightarrow> 'h fs \<Rightarrow> 'h fs option" where
  "format_new hp pad part s =
     (if sec_cnt part \<noteq> 0 then do {
        b \<leftarrow> disk_read (start_lba part + 1) 1 (\<lambda>_. 0) s;
        if get32 b 0 = FS_MAGIC then Some s else partition_format hp pad part s
      }
      else Some s)"

text \<open>Device 0 of a channel is skipped, device 1 is searched.\<close>

definition scan_disk :: "'h heap_ops \<Rightarrow> buf \<Rightarrow> hard_disk \<Rightarrow> 'h fs \<Rightarrow> (hard_disk \<times> 'h fs) option" where
  "scan_disk hp pad dk s = do {
     s \<leftarrow> each (format_new hp pad) (prim_parts dk @ logic_parts dk) (s\<lparr>disk := hd_data dk\<rparr>);
     Some (dk\<lparr>hd_data := disk s\<rparr>, s)
   }"

primrec scan_channels :: "'h heap_ops \<Rightarrow> buf \<Rightarrow> (hard_disk \<times> hard_disk) list \<Rightarrow> 'h fs \<Rightarrow> ((hard_disk \<times> hard_disk) list \<times> 'h fs) option" where
  "scan_channels hp pad [] s = Some ([], s)"
| "scan_channels hp pad (ch # chs) s = do {
     (dk, s) \<leftarrow> scan_disk hp pad (snd ch) s;
     (chs, s) \<leftarrow> scan_channels hp pad chs s;
     Some ((fst ch, dk) # chs, s)
   }"

text \<open>The list of partitions has, for each, its name, its channel and device and the partition. Without a partition \<^verbatim>\<open>"sdb1"\<close>
  the pointer \<^verbatim>\<open>cur_part\<close> stays \<^verbatim>\<open>NULL\<close>.\<close>

definition filesys_init :: "'h heap_ops \<Rightarrow> buf \<Rightarrow> (hard_disk \<times> hard_disk) list \<Rightarrow> (string \<times> nat \<times> bool \<times> partition) list \<Rightarrow> 'h fs \<Rightarrow>
    ((hard_disk \<times> hard_disk) list \<times> 'h fs) option" where
  "filesys_init hp pad channels partition_list s = do {
     (sb_buf, s) \<leftarrow> fs_malloc hp False 512 s;
     ASSERT (sb_buf \<noteq> 0);
     (channels, s) \<leftarrow> scan_channels hp pad channels s;
     s \<leftarrow> fs_free hp False sb_buf s;
     (_, ch, dev, part) \<leftarrow> find (\<lambda>(nm, _). nm = ''sdb1'') partition_list;
     c \<leftarrow> arr_get channels ch;
     s \<leftarrow> mount_partition hp part (s\<lparr>disk := hd_data (if dev then snd c else fst c)\<rparr>);
     s \<leftarrow> open_root_dir hp s;
     ASSERT (length (file_table s) = MAX_FILE_OPEN);
     Some (channels, s\<lparr>file_table := map (\<lambda>fl. fl\<lparr>fd_inode := 0\<rparr>) (file_table s)\<rparr>)
   }"

end
