(* ===== verification/Format.thy ===== *)
theory Format
  imports Fs_Init Inode_Disk
begin

text \<open>
  A partition that \<open>partition_format\<close> has formatted and \<open>mount_partition\<close> has mounted is as the other proofs ask for. The disk of the
  driver has 163840 sectors, so the block bitmap is one block: block 0 holds the superblock, block 1 the bitmap of
  blocks, block 2 that of inodes, blocks 3 to 86 the table of inodes, and the data begin at block 87.
\<close>

definition part_pos :: "partition \<Rightarrow> nat \<Rightarrow> nat" where
  "part_pos part b = unat (start_lba part) * 512 + 4096 * b"

lemma part_pos_Suc: "part_pos part (Suc b) = part_pos part b + 4096"
  by (simp add: part_pos_def)

definition part_fits :: "partition \<Rightarrow> bool" where
  "part_fits part \<longleftrightarrow> 704 \<le> unat (sec_cnt part) \<and> unat (start_lba part) + unat (sec_cnt part) \<le> 163840"

lemma part_write_disk:
  assumes "unat (start_lba part) + 8 * (unat blk + unat blks) \<le> 163840" and "0 < unat blks"
  shows "part_write part blk b blks s = Some (s\<lparr>disk := blit (part_pos part (unat blk)) b (4096 * unat blks) (disk s)\<rparr>)"
proof -
  have "unat (blk * 8) = unat blk * 8" "unat (blks * 8) = unat blks * 8" using assms(1) by (simp_all add: unat_word_ariths)
  then have "unat (start_lba part + blk * 8) = unat (start_lba part) + 8 * unat blk"
    using assms(1) by (simp add: unat_word_ariths)
  moreover have "start_lba part + blk * 8 \<le> max_lba"
    using assms calculation by (simp add: word_le_nat_alt max_lba_def)
  ultimately show ?thesis using assms \<open>unat (blks * 8) = unat blks * 8\<close>
    by (simp add: part_write_def disk_write_def blit_def part_pos_def algebra_simps cong: if_cong)
qed

lemma blit_adjacent: "blit (p + n) (\<lambda>_. c) m (blit p (\<lambda>_. c) n d) = blit p (\<lambda>_. c) (n + m) d"
  by (rule ext) (auto simp: blit_def)

lemma zero_loop_zeroes:
  assumes "unat (start_lba part) + 8 * (unat cur + unat rem) \<le> 163840"
  shows "zero_loop part 1 cur rem s = Some (s\<lparr>disk := blit (part_pos part (unat cur)) (\<lambda>_. 0) (4096 * unat rem) (disk s)\<rparr>)"
  using assms
proof (induction "unat rem" arbitrary: cur rem s)
  case 0
  then have "rem = 0" by (simp add: unat_eq_zero)
  moreover have "blit p (\<lambda>_. 0) 0 d = d" for p and d :: buf by (rule ext) (auto simp: blit_def)
  ultimately show ?case by (subst zero_loop.simps) simp
next
  case (Suc n)
  have r0: "0 < rem" using Suc.hyps(2) by (auto simp: word_less_nat_alt)
  then have r: "unat (rem - 1) = n" "0 < rem" using Suc.hyps(2) by (simp_all add: unat_minus_one word_gt_0)
  have c: "unat (cur + 1) = unat cur + 1" using Suc.prems Suc.hyps(2) by (simp add: unat_word_ariths)
  have one: "(if 1 < rem then 1 else rem) = 1" using Suc.hyps(2) by (auto simp: word_less_nat_alt word_unat_eq_iff)
  note w = part_write_disk [of part cur 1 "\<lambda>_. 0" s]
  have "n = unat (rem - 1)" using r(1) by simp
  from Suc.hyps(1) [OF this, of "cur + 1" "s\<lparr>disk := blit (part_pos part (unat cur)) (\<lambda>_. 0) 4096 (disk s)\<rparr>"] show ?case
    using Suc.prems r w c one blit_adjacent [of "part_pos part (unat cur)" 4096 0 "4096 * n" "disk s"]
    by (subst zero_loop.simps) (simp add: Let_def part_pos_Suc flip: Suc.hyps(2))
qed

text \<open>The superblock of every partition that fits.\<close>

lemma format_sizes: "inode_bitmap_size = 1" "inode_table_size = 84"
  by (simp_all add: inode_bitmap_size_def inode_table_size_def DIV_ROUND_UP_def MAX_FILES_PER_PART_def BITS_PER_BLOCK_def sizeof_inode_def)

lemma round_up_one: "0 < unat x \<Longrightarrow> unat x \<le> 32768 \<Longrightarrow> DIV_ROUND_UP x BITS_PER_BLOCK = 1"
proof -
  assume x: "0 < unat x" "unat x \<le> 32768"
  then have "unat (x + 32767) = unat x + 32767" by (simp add: unat_word_ariths)
  then have "unat ((x + 32767) div 32768) = (unat x + 32767) div 32768" by (simp add: unat_div)
  also have "\<dots> = 1" using x by simp
  finally show ?thesis by (simp add: DIV_ROUND_UP_def BITS_PER_BLOCK_def word_unat_eq_iff add.commute)
qed

lemma format_bit_len_fits:
  assumes "part_fits part"
  shows "unat (format_bit_len (sec_cnt part)) = unat (sec_cnt part) div 8 - 87"
proof -
  let ?t = "unat (sec_cnt part) div 8"
  have t: "88 \<le> ?t" "?t \<le> 20480" using assms by (auto simp: part_fits_def)
  have u: "unat (sec_cnt part div 8) = ?t" by (simp add: unat_div)
  then have f: "unat (sec_cnt part div 8 - 86) = ?t - 86" using t by (simp add: unat_sub word_le_nat_alt)
  have r: "DIV_ROUND_UP (sec_cnt part div 8 - 86) BITS_PER_BLOCK = 1" by (rule round_up_one) (use f t in simp_all)
  have "unat (sec_cnt part div 8 - 86 - 1) = ?t - 86 - 1" using f t by (subst unat_sub) (simp_all add: word_le_nat_alt)
  then show ?thesis using r by (simp add: format_bit_len_def format_sizes Let_def)
qed

lemma format_sb_fits:
  assumes "part_fits part"
  shows "format_sb (sec_cnt part) = \<lparr>sb_magic = FS_MAGIC, sb_sec_cnt = sec_cnt part, sb_inode_cnt = 4096, sb_block_size = 4096,
     block_bitmap_start = 1, block_bitmap_blks = 1, inode_bitmap_start = 2, inode_bitmap_blks = 1, inode_table_start = 3,
     inode_table_blks = 84, data_start = 87, root_inode_no = 0, dir_entry_size = 24\<rparr>"
proof -
  have "DIV_ROUND_UP (format_bit_len (sec_cnt part)) BITS_PER_BLOCK = 1"
    by (rule round_up_one) (use assms format_bit_len_fits [OF assms] in \<open>auto simp: part_fits_def\<close>)
  then show ?thesis by (simp add: format_sb_def format_sizes MAX_FILES_PER_PART_def sizeof_dir_entry_def Let_def)
qed

subsection \<open>The block bitmap\<close>

lemma bit_set_from: "bit (fold (\<lambda>k v. v OR 2 ^ k) [a..<n] (v :: u8)) j \<longleftrightarrow> bit v j \<or> a \<le> j \<and> j < n \<and> j < 8"
  by (induction n) (auto simp: bit_or_iff bit_exp_iff possible_bit_word less_Suc_eq)

lemma format_bits_bit:
  assumes "1 \<le> len" and "len < 32768"
  shows "\<exists>b. format_bits 4096 len = Some b \<and> (\<forall>i < 4096. \<forall>j < 8. bit (b i) j \<longleftrightarrow> 8 * i + j = 0 \<or> len \<le> 8 * i + j)"
proof -
  let ?lb = "len div 8"
  have l: "?lb < 4096" using assms by (simp add: less_mult_imp_div_less)
  define c where "c = blit (?lb + 1) (\<lambda>_. 0xff) (4096 - ?lb - 1) ((\<lambda>_. 0)(0 := (1 :: u8)))"
  define b where "b = c(?lb := fold (\<lambda>k v. v OR push_bit k 1) [len mod 8..<8] (c ?lb))"
  have r: "format_bits 4096 len = Some b" using l by (simp add: format_bits_def BLOCK_SIZE_def Let_def b_def c_def)
  have ff: "bit (0xff :: u8) j" if "j < 8" for j using u8_eq_ff_iff [of "0xff"] that by blast
  have "bit (b i) j \<longleftrightarrow> 8 * i + j = 0 \<or> len \<le> 8 * i + j" if i: "i < 4096" and j: "j < 8" for i j
  proof -
    have len: "len = 8 * ?lb + len mod 8" by simp
    have m: "len mod 8 < 8" by simp
    have z: "bit (((\<lambda>_. 0)(0 := (1 :: u8))) i) j \<longleftrightarrow> i = 0 \<and> j = 0" by (simp add: bit_1_iff)
    consider "i < ?lb" | "i = ?lb" | "?lb < i" by linarith
    then show ?thesis
    proof cases
      case 1
      then have "c i = ((\<lambda>_. 0)(0 := (1 :: u8))) i" by (simp add: c_def blit_def)
      then show ?thesis using 1 z len m j by (simp add: b_def) linarith
    next
      case 2
      then have "c ?lb = ((\<lambda>_. 0)(0 := (1 :: u8))) i" by (simp add: c_def blit_def)
      then have "bit (b i) j \<longleftrightarrow> i = 0 \<and> j = 0 \<or> len mod 8 \<le> j" using 2 z j by (simp add: b_def bit_set_from push_bit_of_1)
      then show ?thesis using 2 len by linarith
    next
      case 3
      then have "b i = 0xff" using i by (simp add: b_def c_def blit_def)
      moreover have "len \<le> 8 * i + j" using 3 len m by linarith
      ultimately show ?thesis using ff [OF j] by simp
    qed
  qed
  then show ?thesis using r by blast
qed

subsection \<open>The disk after formatting\<close>

definition format_disk :: "buf \<Rightarrow> buf \<Rightarrow> partition \<Rightarrow> buf \<Rightarrow> buf" where
  "format_disk pad bm part d =
     blit (part_pos part 87) (dot_entries 0 0) 4096
     (blit (part_pos part 4) (\<lambda>_. 0) (4096 * 83)
     (blit (part_pos part 3) (put_words 0 (inode_words (root_inode (format_sb (sec_cnt part)))) (\<lambda>_. 0)) 4096
     (blit (part_pos part 2) ((\<lambda>_. 0)(0 := 1)) 4096
     (blit (part_pos part 1) bm 4096
     (blit (part_pos part 0 + 512) (put_words 0 (sb_words (format_sb (sec_cnt part))) pad) 512 d)))))"

lemma format_disk_writes:
  assumes fit: "part_fits part" and hp: "heap_serves hp I" and I: "I A (Suc m) (heap s)"
    and bm: "format_bits 4096 (unat (sec_cnt part) div 8 - 87) = Some bm"
  shows "\<exists>h. partition_format hp pad part s = Some (s\<lparr>heap := h, disk := format_disk pad bm part (disk s)\<rparr>) \<and> I A (Suc m) h"
proof -
  note B = format_sb_fits [OF fit]
  have st: "unat (start_lba part) + 704 \<le> 163840" using fit by (simp add: part_fits_def)
  let ?d0 = "blit (part_pos part 0 + 512) (put_words 0 (sb_words (format_sb (sec_cnt part))) pad) 512 (disk s)"
  have u: "unat (start_lba part + 1) = unat (start_lba part) + 1" using st by (simp add: unat_word_ariths)
  then have "start_lba part + 1 \<le> max_lba" using st by (simp add: word_le_nat_alt max_lba_def)
  then have w0: "disk_write (start_lba part + 1) 1 (put_words 0 (sb_words (format_sb (sec_cnt part))) pad) s = Some (s\<lparr>disk := ?d0\<rparr>)"
    using u by (simp add: disk_write_def blit_def part_pos_def add.commute cong: if_cong)
  have "I A (Suc m) (heap (s\<lparr>disk := ?d0\<rparr>))" using I by simp
  from fs_malloc_serves [OF hp this, of False 4096] obtain q h where
    q: "fs_malloc hp False 4096 (s\<lparr>disk := ?d0\<rparr>) = Some (q, s\<lparr>disk := ?d0\<rparr>\<lparr>heap := h\<rparr>)" "q \<noteq> 0" "q \<notin> A" "I (insert q A) m h" by blast
  let ?s = "s\<lparr>heap := h, disk := format_disk pad bm part (disk s)\<rparr>"
  have pw: "part_write part blk b 1 s' = Some (s'\<lparr>disk := blit (part_pos part (unat blk)) b 4096 (disk s')\<rparr>)" if "unat blk \<le> 87" for blk b s'
    using part_write_disk [of part blk 1 b s'] that st by simp
  have "I (insert q A) m (heap ?s)" using q(4) by simp
  from fs_free_serves [OF hp this q(3), of False] obtain h' where h': "fs_free hp False q ?s = Some (?s\<lparr>heap := h'\<rparr>)" "I A (Suc m) h'" .
  have z: "zero_loop part 1 4 83 s' = Some (s'\<lparr>disk := blit (part_pos part 4) (\<lambda>_. 0) (4096 * 83) (disk s')\<rparr>)" for s'
    using zero_loop_zeroes [of part 4 83 s'] st by simp
  have "partition_format hp pad part s = fs_free hp False q ?s"
    using w0 q(1,2) bm format_bit_len_fits [OF fit] unfolding partition_format_def B
    by (simp add: Let_def pw z format_disk_def B)
  then show ?thesis using h' by (intro exI [of _ h']) simp
qed

lemma format_disk_at:
  "i < 512 \<Longrightarrow> format_disk pad bm part d (part_pos part 0 + 512 + i) = put_words 0 (sb_words (format_sb (sec_cnt part))) pad i"
  "i < 4096 \<Longrightarrow> format_disk pad bm part d (part_pos part 1 + i) = bm i"
  "i < 4096 \<Longrightarrow> format_disk pad bm part d (part_pos part 2 + i) = (if i = 0 then 1 else 0)"
  "i < 4096 \<Longrightarrow> format_disk pad bm part d (part_pos part 87 + i) = dot_entries 0 0 i"
  by (simp_all add: format_disk_def blit_def part_pos_def)

lemma format_disk_table:
  assumes "i < 4096 * 84"
  shows "format_disk pad bm part d (part_pos part 3 + i) = put_words 0 (inode_words (root_inode (format_sb (sec_cnt part)))) (\<lambda>_. 0) i"
proof -
  have "length (inode_words (root_inode (format_sb (sec_cnt part)))) = 21" by (simp add: inode_words_def root_inode_def)
  then show ?thesis using assms by (simp add: format_disk_def blit_def part_pos_def put_words_byte)
qed

lemma sb_words_length: "length (sb_words b) = 13"
  by (simp add: sb_words_def)

lemma sb_words_roundtrip: "words_sb (sb_words b) = b"
  by (simp add: words_sb_def sb_words_def)

text \<open>The mounted partition.\<close>

definition mounted :: "buf \<Rightarrow> partition \<Rightarrow> partition" where
  "mounted bm part = part\<lparr>sb := format_sb (sec_cnt part), block_bitmap := \<lparr>btmp_bytes_len = 4096, bits = map bm [0..<4096]\<rparr>,
     inode_bitmap := \<lparr>btmp_bytes_len = 4096, bits = map (\<lambda>i. if i = 0 then 1 else 0) [0..<4096]\<rparr>, open_inodes := []\<rparr>"

lemma mount_reads:
  assumes fit: "part_fits part" and hp: "heap_serves hp I" and I: "I A (Suc (Suc (Suc (Suc m)))) (heap s)"
    and d: "disk s = format_disk pad bm part d"
  shows "\<exists>h A'. mount_partition hp part s = Some (s\<lparr>heap := h, cur_part := mounted bm part\<rparr>) \<and> A \<subseteq> A' \<and> I A' (Suc m) h"
proof -
  note B = format_sb_fits [OF fit]
  let ?B = "format_sb (sec_cnt part)"
  have st: "unat (start_lba part) + 704 \<le> 163840" using fit by (simp add: part_fits_def)
  let ?s = "\<lambda>h. s\<lparr>cur_part := part, heap := h\<rparr>"
  have "I A (Suc (Suc (Suc (Suc m)))) (heap (s\<lparr>cur_part := part\<rparr>))" using I by simp
  from fs_malloc_serves [OF hp this, of False 512] obtain q1 h1 where
    q1: "fs_malloc hp False 512 (s\<lparr>cur_part := part\<rparr>) = Some (q1, ?s h1)" "q1 \<noteq> 0" "q1 \<notin> A" "I (insert q1 A) (Suc (Suc (Suc m))) h1" by auto
  then have "I (insert q1 A) (Suc (Suc (Suc m))) (heap (?s h1))" by simp
  from fs_malloc_serves [OF hp this, of False 512] obtain q2 h2 where
    q2: "fs_malloc hp False 512 (?s h1) = Some (q2, ?s h2)" "q2 \<noteq> 0" "q2 \<notin> insert q1 A" "I (insert q2 (insert q1 A)) (Suc (Suc m)) h2" by auto
  have u: "unat (start_lba part + 1) = unat (start_lba part) + 1" using st by (simp add: unat_word_ariths)
  then have le: "start_lba part + 1 \<le> max_lba" using st by (simp add: word_le_nat_alt max_lba_def)
  let ?b = "\<lambda>i. if i < 512 then disk s (unat (start_lba part + 1) * 512 + i) else 0"
  have r0: "disk_read (start_lba part + 1) 1 (\<lambda>_. 0) (?s h2) = Some ?b" using le by (simp add: disk_read_def cong: if_cong)
  have "get_words 0 13 ?b = get_words 0 13 (put_words 0 (sb_words ?B) pad)"
    unfolding get_words_def
  proof (rule map_cong [OF refl])
    fix i assume "i \<in> set [0..<13]"
    moreover have "unat (start_lba part + 1) * 512 = part_pos part 0 + 512" by (simp add: u part_pos_def)
    ultimately show "get32 ?b (0 + 4 * i) = get32 (put_words 0 (sb_words ?B) pad) (0 + 4 * i)"
      using format_disk_at(1) [of _ pad bm part d] by (intro get32_cong) (simp add: d)
  qed
  also have "\<dots> = sb_words ?B" using get_words_put_words [of 0 "sb_words ?B" pad] by (simp add: sb_words_length)
  finally have sbw: "words_sb (get_words 0 13 ?b) = ?B" by (simp add: sb_words_roundtrip)
  let ?p1 = "part\<lparr>sb := ?B\<rparr>"
  let ?t = "\<lambda>h P. s\<lparr>cur_part := P, heap := h\<rparr>" and ?u = "\<lambda>h P. s\<lparr>heap := h, cur_part := P\<rparr>"
  have "I (insert q2 (insert q1 A)) (Suc (Suc m)) (heap (?u h2 ?p1))" using q2(4) by simp
  from fs_malloc_serves [OF hp this, of False 4096] obtain q3 h3 where
    q3: "fs_malloc hp False 4096 (?u h2 ?p1) = Some (q3, ?t h3 ?p1)" "q3 \<noteq> 0" "q3 \<notin> insert q2 (insert q1 A)"
      "I (insert q3 (insert q2 (insert q1 A))) (Suc m) h3" by auto
  have rd: "read_bytes (blk2lba (?t h P) blk) 1 (?t h P) = Some (map (\<lambda>i. disk s (part_pos part (unat blk) + i)) [0..<4096])"
    if "start_lba P = start_lba part" "unat blk \<le> 87" for P blk h
  proof -
    have l: "unat (start_lba part + blk * 8) = unat (start_lba part) + 8 * unat blk" using st that(2) by (simp add: unat_word_ariths)
    then have "start_lba part + blk * 8 \<le> max_lba" using st that(2) by (simp add: word_le_nat_alt max_lba_def)
    moreover have "unat (start_lba part + blk * 8) * 512 = part_pos part (unat blk)" using l by (simp add: part_pos_def)
    ultimately show ?thesis using that(1) by (simp add: read_bytes_def disk_read_def blk2lba_def)
  qed
  let ?p2 = "?p1\<lparr>block_bitmap := \<lparr>btmp_bytes_len = 4096, bits = map bm [0..<4096]\<rparr>\<rparr>"
  have bs: "map (\<lambda>i. disk s (part_pos part 1 + i)) [0..<4096] = map bm [0..<4096]" using format_disk_at(2) [of _ pad bm part d] by (simp add: d)
  have ib: "map (\<lambda>i. disk s (part_pos part 2 + i)) [0..<4096] = map (\<lambda>i. if i = 0 then 1 else 0) [0..<4096]" by (simp add: d format_disk_at(3))
  have "I (insert q3 (insert q2 (insert q1 A))) (Suc m) (heap (?u h3 ?p2))" using q3(4) by simp
  from fs_malloc_serves [OF hp this, of False 4096] obtain q4 h4 where
    q4: "fs_malloc hp False 4096 (?u h3 ?p2) = Some (q4, ?t h4 ?p2)" "q4 \<noteq> 0" "q4 \<notin> insert q3 (insert q2 (insert q1 A))"
      "I (insert q4 (insert q3 (insert q2 (insert q1 A)))) m h4" by auto
  let ?A' = "insert q4 (insert q3 (insert q2 A))"
  have "insert q4 (insert q3 (insert q2 (insert q1 A))) = insert q1 ?A'" "q1 \<notin> ?A'" using q1(3) q2(3) q3(3) q4(3) by auto
  then have "I (insert q1 ?A') m (heap (?u h4 (mounted bm part)))" using q4(4) by simp
  from fs_free_serves [OF hp this \<open>q1 \<notin> ?A'\<close>, of False] obtain h5 where
    h5: "fs_free hp False q1 (?u h4 (mounted bm part)) = Some (?u h4 (mounted bm part)\<lparr>heap := h5\<rparr>)" "I ?A' (Suc m) h5" .
  have rd1: "read_bytes (blk2lba (?t h3 ?p1) 1) 1 (?t h3 ?p1) = Some (map bm [0..<4096])"
    using rd [of ?p1 1 h3] bs by (simp del: map_eq_conv)
  have rd2: "read_bytes (blk2lba (?t h4 ?p2) 2) 1 (?t h4 ?p2) = Some (map (\<lambda>i. if i = 0 then 1 else 0) [0..<4096])"
    using rd [of ?p2 2 h4] ib by (simp del: map_eq_conv)
  have "mount_partition hp part s = fs_free hp False q1 (?u h4 (mounted bm part))"
    using q1(1,2) q2(1,2) r0 sbw q3(1,2) q4(1,2) rd1 rd2
    unfolding mount_partition_def B by (simp add: Let_def upd_part_def mounted_def B)
  then show ?thesis using h5 by (intro exI [of _ h5] exI [of _ ?A']) (simp add: subset_insertI2)
qed

lemma mounted_used:
  assumes "\<And>i j. i < 4096 \<Longrightarrow> j < 8 \<Longrightarrow> bit (f i) j \<longleftrightarrow> P (8 * i + j)"
  shows "bitmap_used \<lparr>btmp_bytes_len = 4096, bits = map f [0..<4096]\<rparr> = {k. k < 32768 \<and> P k}"
proof -
  have "\<not> clear (map f [0..<4096]) k \<longleftrightarrow> P k" if "k < 32768" for k
  proof -
    have "k div 8 < 4096" using that by simp
    then show ?thesis using assms [of "k div 8" "k mod 8"] by (simp add: clear_def)
  qed
  then show ?thesis by (auto simp: bitmap_used_def)
qed

lemma mounted_wf:
  assumes fit: "part_fits part" and c: "cur_part s = mounted bm part"
    and bm: "\<And>i j. i < 4096 \<Longrightarrow> j < 8 \<Longrightarrow> bit (bm i) j \<longleftrightarrow> 8 * i + j = 0 \<or> unat (sec_cnt part) div 8 - 87 \<le> 8 * i + j"
  shows "free_bits s = {1..<unat (sec_cnt part) div 8 - 87}" "wf_part s" "used_blks s = {87}"
    "bitmap_used (inode_bitmap (cur_part s)) = {0}"
proof -
  note B = format_sb_fits [OF fit]
  let ?t = "unat (sec_cnt part) div 8"
  have t: "88 \<le> ?t" "?t \<le> 20480" using fit by (auto simp: part_fits_def)
  have n: "n_blks s = ?t" "data0 s = 87" by (simp_all add: n_blks_def data0_def c mounted_def B)
  have "bitmap_used (block_bitmap (cur_part s)) = {k. k < 32768 \<and> (k = 0 \<or> ?t - 87 \<le> k)}"
    using mounted_used [of bm "\<lambda>k. k = 0 \<or> ?t - 87 \<le> k", OF bm] by (simp add: c mounted_def)
  moreover have bt: "bits_total (block_bitmap (cur_part s)) = 32768" by (simp add: c mounted_def)
  moreover have "k \<in> {..<32768} - {k. k < 32768 \<and> (k = 0 \<or> ?t - 87 \<le> k)} \<longleftrightarrow> k \<in> {1..<?t - 87}" for k using t by (cases "k < 32768") auto
  ultimately show fb: "free_bits s = {1..<?t - 87}" unfolding free_bits_def bt by blast
  have "\<forall>i \<in> {1..<?t - 87}. 87 + i < ?t" by auto
  moreover have "unat (start_lba (cur_part s)) + unat (sec_cnt (cur_part s)) \<le> 163840" using fit by (simp add: c mounted_def part_fits_def)
  ultimately show wf: "wf_part s" using t unfolding wf_part_def Let_def fb n by (simp add: c mounted_def B wf_bitmap_def)
  have "b = 87 \<or> b \<in> free_blks s" if "data_blk s b" for b
  proof (cases "unat b = 87")
    case True then show ?thesis by (simp add: word_unat_eq_iff)
  next
    case False
    then have "unat b - 87 \<in> free_bits s" "blk_no s (unat b - 87) = b" using that by (auto simp: fb data_blk_def n blk_no_def)
    then show ?thesis unfolding free_blks_def by force
  qed
  moreover have "87 \<notin> free_blks s"
  proof
    assume "87 \<in> free_blks s"
    then obtain i where i: "i \<in> {1..<?t - 87}" "87 = blk_no s i" unfolding free_blks_def fb by blast
    then have "87 + i < ?t" by auto
    then show False using unat_blk_no [OF wf, of i] i by (simp add: n)
  qed
  moreover have "data_blk s 87" using t by (simp add: data_blk_def n)
  ultimately show "used_blks s = {87}" unfolding used_blks_def by blast
  have "bit (if i = 0 then 1 else 0 :: u8) j \<longleftrightarrow> 8 * i + j = 0" if "j < 8" for i j :: nat using that by (auto simp: bit_1_iff)
  note mounted_used [of "\<lambda>i. if i = 0 then 1 else 0" "\<lambda>k. k = 0", OF this]
  moreover have "{k. k < 32768 \<and> k = 0} = {0 :: nat}" by auto
  moreover have "inode_bitmap (cur_part s) = \<lparr>btmp_bytes_len = 4096, bits = map (\<lambda>i. if i = 0 then 1 else 0) [0..<4096]\<rparr>"
    by (simp add: c mounted_def)
  ultimately show "bitmap_used (inode_bitmap (cur_part s)) = {0}" by (simp only:)
qed

lemma dot_entries_scan:
  "name_at (dot_entries n m) 0 [0x2e]" "e_no (dot_entries n m) 0 = n" "e_type (dot_entries n m) 0 = FT_DIRECTORY"
  "name_at (dot_entries n m) 24 [0x2e, 0x2e]" "e_no (dot_entries n m) 24 = m" "e_type (dot_entries n m) 24 = FT_DIRECTORY"
  "2 \<le> k \<Longrightarrow> e_type (dot_entries n m) (24 * k) = FT_UNKNOWN"
proof -
  show "e_no (dot_entries n m) 0 = n" "e_type (dot_entries n m) 0 = FT_DIRECTORY" "e_no (dot_entries n m) 24 = m" "e_type (dot_entries n m) 24 = FT_DIRECTORY"
    by (simp_all add: e_no_def e_type_def dot_entries_def get32_put32_other)
  show "name_at (dot_entries n m) 0 [0x2e]" "name_at (dot_entries n m) 24 [0x2e, 0x2e]"
    by (simp_all add: name_at_def dot_entries_def put32_other upt_rec)
  show "e_type (dot_entries n m) (24 * k) = FT_UNKNOWN" if "2 \<le> k"
    using that by (simp add: e_type_def dot_entries_def put32_other FT_UNKNOWN_def get32_def)
qed

lemma format_table_inodes:
  assumes fit: "part_fits part" and c: "cur_part s = mounted bm part" and d: "disk s = format_disk pad bm part d" and n: "n < 4096"
  shows "disk_inode s n = (if n = 0 then root_inode (format_sb (sec_cnt part)) else (inode_init 0))"
proof -
  note B = format_sb_fits [OF fit]
  let ?ws = "inode_words (root_inode (format_sb (sec_cnt part)))"
  have l: "length ?ws = 21" by (simp add: inode_words_def root_inode_def)
  have pos: "inode_pos s n = part_pos part 3 + 84 * n" by (simp add: inode_pos_def base_def c mounted_def B part_pos_def)
  have "get_words (inode_pos s n) 21 (disk s) = get_words (84 * n) 21 (put_words 0 ?ws (\<lambda>_. 0))"
    unfolding get_words_def
  proof (rule map_cong [OF refl])
    fix i assume "i \<in> set [0..<21]"
    then have lt: "84 * n + 4 * i + k < 4096 * 84" if "k < 4" for k using n that by simp
    have "disk s (inode_pos s n + 4 * i + k) = put_words 0 ?ws (\<lambda>_. 0) (84 * n + 4 * i + k)" if "k < 4" for k
      using format_disk_table [OF lt [OF that], of pad bm part d] by (simp add: d pos add.assoc)
    from this [of 0] this [of 1] this [of 2] this [of 3] show "get32 (disk s) (inode_pos s n + 4 * i) = get32 (put_words 0 ?ws (\<lambda>_. 0)) (84 * n + 4 * i)"
      by (simp add: get32_def add.assoc)
  qed
  also have "\<dots> = (if n = 0 then ?ws else replicate 21 0)"
  proof (cases "n = 0")
    case True then show ?thesis using get_words_put_words [of 0 ?ws "\<lambda>_. 0"] l by simp
  next
    case False
    then have "get_words (84 * n) 21 (put_words 0 ?ws (\<lambda>_. 0)) = get_words (84 * n) 21 (\<lambda>_. 0)" using l by (intro get_words_other) simp
    then show ?thesis using False by (simp add: get_words_def map_replicate_const)
  qed
  finally show ?thesis
    by (simp add: disk_inode_def words_inode_def inode_words_def root_inode_def inode_init_def INODE_SECTORS_CNT_def numeral_eq_Suc)
qed

text \<open>C18: Formatting a partition of at least 88 blocks, and mounting it, gives an empty file system: both return, the superblock read back
  is the one written, the partition has the layout the other operations ask for (\<open>wf_part\<close>), every data block but
  the first is free, inode 0 is the only one in use and is a directory of two entries in the first data block, the other
  entries of the inode table are cleared, and the block holds \<^verbatim>\<open>"."\<close> and \<^verbatim>\<open>".."\<close> pointing to inode 0 and no other entry.\<close>

theorem format_then_mount:
  assumes "part_fits part" and "heap_serves hp I" and "I A (Suc (Suc (Suc (Suc m)))) (heap s)"
  shows "\<exists>s1 s2. partition_format hp pad part s = Some s1 \<and> mount_partition hp part s1 = Some s2 \<and>
    sb (cur_part s2) = format_sb (sec_cnt part) \<and> wf_part s2 \<and> used_blks s2 = {87} \<and> bitmap_used (inode_bitmap (cur_part s2)) = {0} \<and>
    open_inodes (cur_part s2) = [] \<and>
    (\<forall>n < 4096. disk_inode s2 n = (if n = 0 then (inode_init 0)\<lparr>i_size := 48, i_sectors := 87 # replicate 14 0\<rparr> else inode_init 0)) \<and>
    name_at (blk_byte s2 87) 0 [0x2e] \<and> e_no (blk_byte s2 87) 0 = 0 \<and> e_type (blk_byte s2 87) 0 = FT_DIRECTORY \<and>
    name_at (blk_byte s2 87) 24 [0x2e, 0x2e] \<and> e_no (blk_byte s2 87) 24 = 0 \<and> e_type (blk_byte s2 87) 24 = FT_DIRECTORY \<and>
    (\<forall>k. 2 \<le> k \<and> k < 170 \<longrightarrow> e_type (blk_byte s2 87) (24 * k) = FT_UNKNOWN)"
proof -
  let ?len = "unat (sec_cnt part) div 8 - 87"
  note B = format_sb_fits [OF assms(1)]
  have "1 \<le> ?len" "?len < 32768" using assms(1) by (auto simp: part_fits_def)
  from format_bits_bit [OF this] obtain bm where bm: "format_bits 4096 ?len = Some bm"
    "\<And>i j. i < 4096 \<Longrightarrow> j < 8 \<Longrightarrow> bit (bm i) j \<longleftrightarrow> 8 * i + j = 0 \<or> ?len \<le> 8 * i + j" by blast
  from format_disk_writes [OF assms bm(1)] obtain h where
    f: "partition_format hp pad part s = Some (s\<lparr>heap := h, disk := format_disk pad bm part (disk s)\<rparr>)" "I A (Suc (Suc (Suc (Suc m)))) h" by blast
  let ?s1 = "s\<lparr>heap := h, disk := format_disk pad bm part (disk s)\<rparr>"
  have "I A (Suc (Suc (Suc (Suc m)))) (heap ?s1)" using f(2) by simp
  from mount_reads [OF assms(1,2) this, of pad bm "disk s"] obtain h' where
    mt: "mount_partition hp part ?s1 = Some (?s1\<lparr>heap := h', cur_part := mounted bm part\<rparr>)" by auto
  define s2 where "s2 = ?s1\<lparr>heap := h', cur_part := mounted bm part\<rparr>"
  have c: "cur_part s2 = mounted bm part" and d: "disk s2 = format_disk pad bm part (disk s)" by (simp_all add: s2_def)
  have blk: "blk_byte s2 87 i = dot_entries 0 0 i" if "i < 4096" for i
    using format_disk_at(4) [OF that, of pad bm part "disk s"] d by (simp add: blk_byte_def base_def c mounted_def part_pos_def)
  have ty: "e_type (blk_byte s2 87) (24 * k) = e_type (dot_entries 0 0) (24 * k)" "e_no (blk_byte s2 87) (24 * k) = e_no (dot_entries 0 0) (24 * k)"
    if "k < 170" for k unfolding e_type_def e_no_def by (rule get32_cong, use that blk in simp)+
  note dots = dot_entries_scan [where n = 0 and m = 0]
  have mt2: "mount_partition hp part ?s1 = Some s2" using mt by (simp add: s2_def)
  have "e_type (blk_byte s2 87) (24 * k) = FT_UNKNOWN" if "2 \<le> k \<and> k < 170" for k using ty(1) [of k] dots(7) [of k] that by simp
  moreover
  have "name_at (blk_byte s2 87) 0 [0x2e]" "name_at (blk_byte s2 87) 24 [0x2e, 0x2e]" using dots(1,4) by (simp_all add: name_at_def blk upt_rec)
  moreover have "disk_inode s2 n = (if n = 0 then (inode_init 0)\<lparr>i_size := 48, i_sectors := 87 # replicate 14 0\<rparr> else inode_init 0)" if "n < 4096" for n
    using format_table_inodes [OF assms(1) c d that] by (simp add: root_inode_def B inode_init_def)
  moreover have "sb (cur_part s2) = format_sb (sec_cnt part)" "open_inodes (cur_part s2) = []" by (simp_all add: c mounted_def)
  ultimately show ?thesis
    using f(1) mt2 mounted_wf(2-4) [OF assms(1) c bm(2)] ty(1) [of 0] ty(1) [of 1] ty(2) [of 0] ty(2) [of 1] dots(2,3,5,6)
    by - (rule exI [of _ ?s1], rule exI [of _ s2], simp)
qed

text \<open>The partition of a disk with one partition of 10 MB, on a disk that held other data.\<close>

definition demo_part :: partition where
  "demo_part = (cur_part demo_fs)\<lparr>start_lba := 2048, sec_cnt := 20480\<rparr>"

theorem format_then_mount_witness:
  "\<exists>s1 s2. partition_format demo_heap (\<lambda>_. 7) demo_part (demo_fs\<lparr>disk := \<lambda>a. of_nat a\<rparr>) = Some s1 \<and>
     mount_partition demo_heap demo_part s1 = Some s2 \<and> wf_part s2 \<and> used_blks s2 = {87} \<and> i_size (disk_inode s2 0) = 48"
proof -
  have "part_fits demo_part" by (simp add: part_fits_def demo_part_def)
  moreover have "demo_budget {} (Suc (Suc (Suc (Suc 0)))) (heap (demo_fs\<lparr>disk := \<lambda>a. of_nat a\<rparr>))" by (simp add: demo_budget_def demo_fs_def)
  ultimately obtain s1 s2 where "partition_format demo_heap (\<lambda>_. 7) demo_part (demo_fs\<lparr>disk := \<lambda>a. of_nat a\<rparr>) = Some s1"
    "mount_partition demo_heap demo_part s1 = Some s2" "wf_part s2" "used_blks s2 = {87}"
    "\<And>n. n < 4096 \<Longrightarrow> disk_inode s2 n = (if n = 0 then (inode_init 0)\<lparr>i_size := 48, i_sectors := 87 # replicate 14 0\<rparr> else inode_init 0)"
    using format_then_mount [OF _ demo_heap_serves, of demo_part "{}" 0 "demo_fs\<lparr>disk := \<lambda>a. of_nat a\<rparr>" "\<lambda>_. 7"] by blast
  then show ?thesis by auto
qed

end
