(* ===== verification/Dir_Correct.thy ===== *)
theory Dir_Correct
  imports Dir File_Correct
begin

text \<open>
  Directories as maps from names to pairs of inode number and type. \<open>slots s p\<close> are the places for entries of the directory with the
  inode at \<open>p\<close>, block and index, in the order the code visits them; \<open>lookup s p nm\<close> is what the first place with the name
  \<open>nm\<close> holds. \<open>search_dir_entry\<close> computes \<open>lookup\<close>, and \<open>sync_dir_entry\<close> updates it at one name.
\<close>

definition slot_list :: "u32 list \<Rightarrow> (u32 \<times> nat) list" where
  "slot_list blks = concat (map (\<lambda>b. if b = 0 then [] else map (Pair b) [0..<170]) blks)"

definition dir_blks :: "'h fs \<Rightarrow> u32 \<Rightarrow> u32 list" where
  "dir_blks s p = map (\<lambda>i. at s p (Data i)) [0..<1036]"

definition slots :: "'h fs \<Rightarrow> u32 \<Rightarrow> (u32 \<times> nat) list" where
  "slots s p = slot_list (dir_blks s p)"

definition slot_no :: "'h fs \<Rightarrow> u32 \<times> nat \<Rightarrow> u32 \<times> u32" where
  "slot_no s = (\<lambda>(b, k). (e_no (blk_byte s b) (24 * k), e_type (blk_byte s b) (24 * k)))"

definition slot_named :: "'h fs \<Rightarrow> u8 list \<Rightarrow> u32 \<times> nat \<Rightarrow> bool" where
  "slot_named s nm = (\<lambda>(b, k). name_at (blk_byte s b) (24 * k) nm)"

definition lookup :: "'h fs \<Rightarrow> u32 \<Rightarrow> u8 list \<Rightarrow> (u32 \<times> u32) option" where
  "lookup s p nm = map_option (slot_no s) (find (slot_named s nm) (slots s p))"

subsection \<open>Searching\<close>

lemma find_append: "find P (xs @ ys) = (case find P xs of None \<Rightarrow> find P ys | Some x \<Rightarrow> Some x)"
  by (induction xs) auto

lemma find_map: "find P (map f xs) = map_option f (find (P \<circ> f) xs)"
  by (induction xs) auto

lemma find_only: "x \<in> set xs \<Longrightarrow> (\<And>y. y \<in> set xs \<Longrightarrow> P y \<longleftrightarrow> y = x) \<Longrightarrow> find P xs = Some x"
  by (induction xs) auto

lemma find_in: "find P xs = Some x \<Longrightarrow> x \<in> set xs"
  by (auto simp: find_Some_iff)

lemma slot_list_Cons: "slot_list (b # bs) = (if b = 0 then [] else map (Pair b) [0..<170]) @ slot_list bs"
  by (simp add: slot_list_def)

lemma slot_list_append: "slot_list (xs @ ys) = slot_list xs @ slot_list ys"
  by (simp add: slot_list_def)

lemma slot_list_in: "(b, k) \<in> set (slot_list bs) \<longleftrightarrow> b \<in> set bs \<and> b \<noteq> 0 \<and> k < 170"
  by (force simp: slot_list_def split: if_splits)

lemma map_upt_split: "map f [0..<m + n] = map f [0..<m] @ map (\<lambda>k. f (m + k)) [0..<n]"
  by (induction n) auto

lemma collect_dir_blocks_at:
  assumes w: "wf_part s" and ok: "index_ok s p"
  shows "collect_dir_blocks p s = Some (dir_blks s p)"
proof -
  from index_ok_inode [OF ok] obtain i where i: "inodes s p = Some i" "i_sectors i = secs s p" by blast
  have l: "length (secs s p) = 15" by (rule index_okD(1) [OF ok])
  let ?t = "secs s p ! 12"
  have t: "at s p Single = ?t" by (simp add: at.simps)
  have "dir_blks s p = map (\<lambda>i. at s p (Data i)) [0..<12 + 1024]" by (simp add: dir_blks_def)
  also have "\<dots> = map (\<lambda>i. at s p (Data i)) [0..<12] @ map (\<lambda>k. at s p (Data (12 + k))) [0..<1024]" by (rule map_upt_split)
  also have "map (\<lambda>i. at s p (Data i)) [0..<12] = take 12 (secs s p)" using l by (intro nth_equalityI) (simp_all add: at.simps)
  also have "map (\<lambda>k. at s p (Data (12 + k))) [0..<1024] = map (\<lambda>k. child s ?t k) [0..<1024]" by (simp add: at.simps)
  finally have e: "dir_blks s p = take 12 (secs s p) @ map (\<lambda>k. child s ?t k) [0..<1024]" .
  show ?thesis
  proof (cases "?t = 0")
    case True
    then have "map (\<lambda>k. child s ?t k) [0..<1024] = replicate 1024 0" by (simp add: child_def map_replicate_const)
    then show ?thesis using True i l e by (simp add: collect_dir_blocks_def INODE_SINGLE_INDIRECT_def INODE_DIRECT_BLOCKS_def INODE_INDIRECT_ENTRIES_def)
  next
    case False
    have "data_blk s ?t" using at_data [OF ok, of Single] False t by simp
    then have "unat ?t < n_blks s" using data_blk_nz [OF w] by blast
    note r = read_block_bytes [OF w this, of "\<lambda>_. 0"]
    have "get_words 0 1024 (\<lambda>i. if i < 4096 then blk_byte s ?t i else 0) = map (\<lambda>k. child s ?t k) [0..<1024]"
      unfolding get_words_def
    proof (rule map_cong [OF refl])
      fix k assume "k \<in> set [0..<1024]"
      then show "get32 (\<lambda>i. if i < 4096 then blk_byte s ?t i else 0) (0 + 4 * k) = child s ?t k"
        using False by (simp add: child_def entry_def) (rule get32_cong, simp)
    qed
    then show ?thesis using False i l e r by (simp add: collect_dir_blocks_def INODE_SINGLE_INDIRECT_def INODE_DIRECT_BLOCKS_def INODE_INDIRECT_ENTRIES_def)
  qed
qed

lemma name_at_cong:
  assumes "\<And>i. i \<le> length nm \<Longrightarrow> b (off + i) = c (off' + i)"
  shows "name_at b off nm = name_at c off' nm"
proof -
  have "map (\<lambda>i. b (off + i)) [0..<length nm] = map (\<lambda>i. c (off' + i)) [0..<length nm]" using assms by simp
  then show ?thesis using assms [of "length nm"] by (simp only: name_at_def)
qed

text \<open>The buffer a block is read into.\<close>

definition rd :: "'h fs \<Rightarrow> u32 \<Rightarrow> buf" where
  "rd s b = (\<lambda>i. if i < 4096 then blk_byte s b i else 0)"

lemma search_blocks_find:
  assumes w: "wf_part s" and nm: "length nm < 16"
  shows "(\<And>b. b \<in> set blks \<Longrightarrow> b \<noteq> 0 \<Longrightarrow> unat b < n_blks s) \<Longrightarrow>
    search_blocks nm 170 blks s = Some (map_option (\<lambda>(b, k) i. rd s b (24 * k + i)) (find (slot_named s nm) (slot_list blks)))"
proof (induction blks)
  case (Cons b bs)
  show ?case
  proof (cases "b = 0")
    case False
    then have r: "read_block b (\<lambda>_. 0) s = Some (rd s b)" using read_block_bytes [OF w, of b] Cons.prems [of b] by (simp add: rd_def)
    have "name_at (rd s b) (24 * k) nm = name_at (blk_byte s b) (24 * k) nm" if "k < 170" for k
      by (rule name_at_cong) (use that nm in \<open>simp add: rd_def\<close>)
    then have "find (\<lambda>k. name_at (rd s b) (24 * k) nm) [0..<170] = find (slot_named s nm \<circ> Pair b) [0..<170]"
      by (intro find_cong) (auto simp: slot_named_def)
    then show ?thesis using False r Cons
      by (simp add: slot_list_Cons find_append find_map sizeof_dir_entry_def split: option.split)
  qed (use Cons in \<open>simp add: slot_list_Cons\<close>)
qed (simp add: slot_list_def)

lemma read_block_heap [simp]: "read_block b bf (s\<lparr>heap := h\<rparr>) = read_block b bf s"
  by (simp add: read_block_def disk_read_def blk2lba_def cong: if_cong)

lemma dir_blks_bound:
  assumes "wf_part s" and "index_ok s p" and "b \<in> set (dir_blks s p)" and "b \<noteq> 0"
  shows "data_blk s b" "unat b < n_blks s"
proof -
  from assms(3) obtain i where "i < 1036" "b = at s p (Data i)" by (auto simp: dir_blks_def)
  then show "data_blk s b" using at_data [OF assms(2), of "Data i"] assms(4) by (simp add: max_blocks_def)
  then show "unat b < n_blks s" using data_blk_nz [OF assms(1)] by blast
qed

lemma search_dir_entry_lookup:
  assumes w: "wf_part s" and ok: "index_ok s p" and d: "get_dir d s = Some v" "d_inode v = p" and sz: "dir_entry_size (sb (cur_part s)) = 24"
    and hp: "heap_serves hp I" and I: "I A (Suc (Suc m)) (heap s)" and nm: "length nm < 16"
  shows "\<exists>r h. search_dir_entry hp d nm s = Some (r, s\<lparr>heap := h\<rparr>) \<and> map_option (\<lambda>e. (e_no e 0, e_type e 0)) r = lookup s p nm \<and>
    I A (Suc (Suc m)) h"
proof -
  from fs_malloc_serves [OF hp I, of False "word_of_nat (DIR_MAX_BLOCKS * 4)"] obtain q1 h1 where
    q1: "fs_malloc hp False (word_of_nat (DIR_MAX_BLOCKS * 4)) s = Some (q1, s\<lparr>heap := h1\<rparr>)" "q1 \<noteq> 0" "q1 \<notin> A" "I (insert q1 A) (Suc m) h1" by blast
  then have "I (insert q1 A) (Suc m) (heap (s\<lparr>heap := h1\<rparr>))" by simp
  from fs_malloc_serves [OF hp this, of False 4096] obtain q2 h2 where
    q2: "fs_malloc hp False 4096 (s\<lparr>heap := h1\<rparr>) = Some (q2, s\<lparr>heap := h2\<rparr>)" "q2 \<noteq> 0" "q2 \<notin> insert q1 A" "I (insert q2 (insert q1 A)) m h2" by auto
  from fs_free_serves [OF hp _ q2(3), of m "s\<lparr>heap := h2\<rparr>" False] q2(4) obtain h3 where
    h3: "fs_free hp False q2 (s\<lparr>heap := h2\<rparr>) = Some (s\<lparr>heap := h3\<rparr>)" "I (insert q1 A) (Suc m) h3" by auto
  from fs_free_serves [OF hp _ q1(3), of "Suc m" "s\<lparr>heap := h3\<rparr>" False] h3(2) obtain h4 where
    h4: "fs_free hp False q1 (s\<lparr>heap := h3\<rparr>) = Some (s\<lparr>heap := h4\<rparr>)" "I A (Suc (Suc m)) h4" by auto
  define r where "r = map_option (\<lambda>(b, k) i. rd s b (24 * k + i)) (find (slot_named s nm) (slots s p))"
  have "search_blocks nm 170 (dir_blks s p) s = Some r"
    using search_blocks_find [OF w nm dir_blks_bound(2) [OF w ok]] by (simp add: r_def slots_def)
  moreover have "search_blocks nm 170 bs (s\<lparr>heap := h\<rparr>) = search_blocks nm 170 bs s" for h bs
    by (induction bs) (simp_all cong: option.case_cong)
  moreover have "collect_dir_blocks p (s\<lparr>heap := h1\<rparr>) = Some (dir_blks s p)"
    using collect_dir_blocks_at [of "s\<lparr>heap := h1\<rparr>" p] w ok by (simp add: dir_blks_def)
  moreover have "get_dir d (s\<lparr>heap := h1\<rparr>) = Some v" using d(1) by (simp add: get_dir_def split: dir_ref.splits)
  ultimately have "search_dir_entry hp d nm s = Some (r, s\<lparr>heap := h4\<rparr>)"
    using q1(1,2) q2(1,2) h3(1) h4(1) d(2) sz by (simp add: search_dir_entry_def dir_entrys_per_sec_def sizeof_dir_entry_def BLOCK_SIZE_def)
  moreover have "map_option (\<lambda>e. (e_no e 0, e_type e 0)) r = lookup s p nm"
  proof (cases "find (slot_named s nm) (slots s p)")
    case (Some bk)
    obtain b k where bk: "bk = (b, k)" by (cases bk)
    then have k: "k < 170" using find_in [OF Some] by (simp add: slots_def slot_list_in)
    have "get32 (\<lambda>i. rd s b (24 * k + i)) o' = get32 (blk_byte s b) (24 * k + o')" if "o' \<le> 20" for o'
      using that k by (simp add: get32_def rd_def add.assoc)
    then show ?thesis using Some bk by (simp add: r_def lookup_def slot_no_def e_no_def e_type_def)
  qed (simp add: r_def lookup_def)
  ultimately show ?thesis using h4(2) by blast
qed

subsection \<open>Entries\<close>

text \<open>A name of a C string that fits with its terminator.\<close>

definition file_name :: "u8 list \<Rightarrow> bool" where
  "file_name nm \<longleftrightarrow> nm \<noteq> [] \<and> length nm < 16 \<and> 0 \<notin> set nm"

lemma name_at_unique: "name_at b off nm \<Longrightarrow> name_at b off nm' \<Longrightarrow> 0 \<notin> set nm \<Longrightarrow> 0 \<notin> set nm' \<Longrightarrow> nm = nm'"
proof -
  assume a: "name_at b off nm" "name_at b off nm'" "0 \<notin> set nm" "0 \<notin> set nm'"
  have *: "\<not> length n < length n'" if "name_at b off n" "name_at b off n'" "0 \<notin> set n'" for n n'
  proof
    assume lt: "length n < length n'"
    have "n' ! length n = b (off + length n)" using that(2) lt unfolding name_at_def by (metis (no_types, lifting) add_0 diff_zero length_map length_upt nth_map nth_upt)
    also have "\<dots> = 0" using that(1) by (simp add: name_at_def)
    finally show False using that(3) lt by (metis nth_mem)
  qed
  have "length nm = length nm'" using * [OF a(1,2,4)] * [OF a(2,1,3)] by simp
  then show ?thesis using a(1,2) unfolding name_at_def by metis
qed

lemma name_at_empty: "b off = 0 \<Longrightarrow> file_name nm \<Longrightarrow> \<not> name_at b off nm"
  by (cases nm) (auto simp: name_at_def file_name_def upt_rec dest: arg_cong [of _ _ hd])

lemma create_dir_entry_fields:
  assumes "file_name nm"
  shows "\<exists>e. create_dir_entry nm n t (\<lambda>_. 0) = Some e \<and> name_at e 0 nm \<and> e_no e 0 = n \<and> e_type e 0 = t"
proof -
  have l: "length nm < 16" using assms by (simp add: file_name_def)
  let ?e = "put32 20 t (put32 16 n ((blit 0 (\<lambda>i. nm ! i) (length nm) (\<lambda>_. 0))(length nm := 0)))"
  have b: "?e i = (if i < length nm then nm ! i else 0)" if "i \<le> length nm" for i using that l by (simp add: put32_other blit_def)
  have "name_at ?e 0 nm" unfolding name_at_def
    by (intro conjI nth_equalityI) (use b in simp_all)
  moreover have "e_no ?e 0 = n" "e_type ?e 0 = t" by (simp_all add: e_no_def e_type_def get32_put32_other)
  ultimately show ?thesis using l by (intro exI [of _ ?e]) (simp add: create_dir_entry_def MAX_FILE_NAME_LEN_def Let_def)
qed

text \<open>The slot \<open>(b, k)\<close> holds the 24 bytes of \<open>e\<close>.\<close>

lemma slot_written:
  assumes "\<And>i. i < 24 \<Longrightarrow> blk_byte s b (24 * k + i) = e i"
  shows "length nm < 16 \<Longrightarrow> slot_named s nm (b, k) = name_at e 0 nm" "slot_no s (b, k) = (e_no e 0, e_type e 0)"
proof -
  show "slot_named s nm (b, k) = name_at e 0 nm" if "length nm < 16"
    unfolding slot_named_def by (simp, rule name_at_cong) (use assms that in simp)
  have "get32 (blk_byte s b) (24 * k + o') = get32 e o'" if "o' \<le> 20" for o'
    using assms [of o'] assms [of "o' + 1"] assms [of "o' + 2"] assms [of "o' + 3"] that by (simp add: get32_def add.assoc)
  then show "slot_no s (b, k) = (e_no e 0, e_type e 0)" by (simp add: slot_no_def e_no_def e_type_def)
qed

lemma slot_same:
  assumes "\<And>i. i < 24 \<Longrightarrow> blk_byte s' b (24 * k + i) = blk_byte s b (24 * k + i)"
  shows "length nm < 16 \<Longrightarrow> slot_named s' nm (b, k) = slot_named s nm (b, k)" "slot_no s' (b, k) = slot_no s (b, k)"
  using slot_written(1) [of s' b k "\<lambda>i. blk_byte s b (24 * k + i)" nm] slot_written(1) [of s b k "\<lambda>i. blk_byte s b (24 * k + i)" nm]
    slot_written(2) [of s' b k "\<lambda>i. blk_byte s b (24 * k + i)"] slot_written(2) [of s b k "\<lambda>i. blk_byte s b (24 * k + i)"] assms
  by simp_all

text \<open>A slot that is not in use has an empty name.\<close>

definition clean :: "'h fs \<Rightarrow> u32 \<Rightarrow> bool" where
  "clean s p \<longleftrightarrow> (\<forall>(b, k) \<in> set (slots s p). snd (slot_no s (b, k)) = FT_UNKNOWN \<longrightarrow> blk_byte s b (24 * k) = 0)"

definition dir_ok :: "'h fs \<Rightarrow> u32 \<Rightarrow> bool" where
  "dir_ok s p \<longleftrightarrow> index_ok s p \<and> dir_entry_size (sb (cur_part s)) = 24 \<and> (\<exists>i. inodes s p = Some i \<and> unat (i_size i) mod 24 = 0) \<and> clean s p"

text \<open>The update of the map: one slot gets the entry; the slots around it stay; a slot that held no entry before.\<close>

lemma lookup_insert:
  assumes old: "slots s p = X @ Z @ Y" and new: "slots s' p = X @ S @ Y" and x: "x \<in> set S"
    and keep: "\<And>y. y \<in> set X \<union> set Y \<Longrightarrow> slot_named s' nm' y = slot_named s nm' y \<and> slot_no s' y = slot_no s y"
    and ent: "slot_named s' nm' x \<longleftrightarrow> nm' = nm" "slot_no s' x = v"
    and Z: "\<And>y. y \<in> set Z \<Longrightarrow> \<not> slot_named s nm' y" and S: "\<And>y. y \<in> set S \<Longrightarrow> y \<noteq> x \<Longrightarrow> \<not> slot_named s' nm' y"
    and abs: "lookup s p nm = None"
  shows "lookup s' p nm' = (if nm' = nm then Some v else lookup s p nm')"
proof (cases "nm' = nm")
  case True
  have none: "\<not> slot_named s nm y" if "y \<in> set X \<union> set Y" for y using abs that old by (cases y) (auto simp: lookup_def find_None_iff)
  have "find (slot_named s' nm') (slots s' p) = Some x"
  proof -
    have "find (slot_named s' nm') X = None" using none keep True by (auto simp: find_None_iff)
    moreover have "find (slot_named s' nm') S = Some x" using x ent(1) S True by (intro find_only) auto
    ultimately show ?thesis by (simp add: new find_append)
  qed
  then show ?thesis using True ent(2) by (simp add: lookup_def)
next
  case False
  have "find (slot_named s' nm') X = find (slot_named s nm') X" "find (slot_named s' nm') Y = find (slot_named s nm') Y"
    using keep by (auto intro!: find_cong)
  moreover have "find (slot_named s' nm') S = None" "find (slot_named s nm') Z = None" using S Z ent(1) False by (auto simp: find_None_iff)
  ultimately have "find (slot_named s' nm') (slots s' p) = find (slot_named s nm') (X @ Y)" by (simp add: new find_append split: option.split)
  moreover have "find (slot_named s nm') (slots s p) = find (slot_named s nm') (X @ Y)"
    using \<open>find (slot_named s nm') Z = None\<close> by (simp add: old find_append split: option.split)
  moreover have "slot_no s' y = slot_no s y" if "find (slot_named s nm') (X @ Y) = Some y" for y
    using find_in [OF that] keep by auto
  ultimately show ?thesis using False by (cases "find (slot_named s nm') (X @ Y)") (simp_all add: lookup_def)
qed

lemma distinct_row: "distinct (map (Pair b) [0..<n])"
  by (simp add: distinct_map inj_on_def)

lemma distinct_slot_list:
  "distinct xs \<Longrightarrow> (\<And>i j. i \<in> set xs \<Longrightarrow> j \<in> set xs \<Longrightarrow> f i = f j \<Longrightarrow> f i \<noteq> 0 \<Longrightarrow> i = j) \<Longrightarrow> distinct (slot_list (map f xs))"
proof (induction xs)
  case (Cons x xs)
  have "f x \<noteq> f y" if "y \<in> set xs" "f x \<noteq> 0" for y
  proof
    assume "f x = f y"
    then have "x = y" using Cons.prems(2) [of x y] that by simp
    then show False using Cons.prems(1) that(1) by simp
  qed
  then have "set (if f x = 0 then [] else map (Pair (f x)) [0..<170]) \<inter> set (slot_list (map f xs)) = {}"
    by (auto simp: slot_list_in) blast
  moreover have "distinct (slot_list (map f xs))" by (rule Cons.IH) (use Cons.prems in auto)
  moreover have "distinct (if f x = 0 then [] else map (Pair (f x)) [0..<170])" by (cases "f x = 0") (simp_all only: if_True if_False refl distinct.simps(1) distinct_row)
  ultimately show ?case by (simp only: list.map slot_list_Cons distinct_append simp_thms)
qed (simp add: slot_list_def)

lemma distinct_slots: "index_ok s p \<Longrightarrow> distinct (slots s p)"
  unfolding slots_def dir_blks_def
  by (rule distinct_slot_list) (use index_okD(3) [of s p "Data i" "Data j" for i j] in \<open>auto simp: max_blocks_def\<close>)

subsection \<open>The size of the directory\<close>

definition dir_grow :: "u32 \<Rightarrow> 'h fs \<Rightarrow> 'h fs" where
  "dir_grow p s = s\<lparr>inodes := (inodes s)(p := map_option (\<lambda>i. i\<lparr>i_size := i_size i + 24\<rparr>) (inodes s p))\<rparr>"

lemma dir_grow_fields [simp]:
  "cur_part (dir_grow p s) = cur_part s" "disk (dir_grow p s) = disk s" "heap (dir_grow p s) = heap s" "file_table (dir_grow p s) = file_table s"
  "root_dir (dir_grow p s) = root_dir s" "dirs (dir_grow p s) = dirs s" "blk_byte (dir_grow p s) = blk_byte s" "secs (dir_grow p s) = secs s"
  by (simp_all add: dir_grow_def blk_byte_def base_def fun_eq_iff secs_def split: option.split)

lemmas dir_grow_part [simp] = part_cong [OF dir_grow_fields(1)]

lemma dir_grow_at [simp]: "at (dir_grow p s) q l = at s q l"
  by (cases l) (simp_all add: at.simps child_def entry_def)

lemma dir_grow_slots [simp]: "slots (dir_grow p s) q = slots s q" "slot_named (dir_grow p s) = slot_named s" "slot_no (dir_grow p s) = slot_no s"
  "index_ok (dir_grow p s) q = index_ok s q" "lookup (dir_grow p s) q = lookup s q"
  by (simp_all add: slots_def dir_blks_def slot_named_def slot_no_def index_ok_def lookup_def fun_eq_iff)

lemma upd_size_grow: "inodes s p = Some i \<Longrightarrow> upd_inode p (\<lambda>i. i\<lparr>i_size := i_size i + word_of_nat sizeof_dir_entry\<rparr>) s = Some (dir_grow p s)"
  by (simp add: upd_inode_def dir_grow_def sizeof_dir_entry_def)

subsection \<open>An entry in a block that exists\<close>

lemma slot_insert:
  assumes w: "wf_part s" and ok: "index_ok s p" and j: "j < 1036" and b: "b = at s p (Data j)" "b \<noteq> 0" and k: "k < 170"
    and s': "s' = put_block b (blit (24 * k) e 24 (rd s b)) s"
  shows "slots s' p = slots s p" "(b, k) \<in> set (slots s p)" "index_ok s' p" "grow p s s'"
    "\<And>i. i < 24 \<Longrightarrow> blk_byte s' b (24 * k + i) = e i"
    "\<And>c l i. (c, l) \<in> set (slots s p) \<Longrightarrow> (c, l) \<noteq> (b, k) \<Longrightarrow> i < 24 \<Longrightarrow> blk_byte s' c (24 * l + i) = blk_byte s c (24 * l + i)"
proof -
  have jm: "j < max_blocks" using j by (simp add: max_blocks_def)
  have nz: "at s p (Data j) \<noteq> 0" using b by simp
  note pd = put_data_block [OF w ok jm nz, where bf = "blit (24 * k) e 24 (rd s b)", folded b(1), folded s']
  have "dir_blks s' p = dir_blks s p" unfolding dir_blks_def by (rule map_cong [OF refl]) (simp add: pd(1) max_blocks_def)
  then show "slots s' p = slots s p" by (simp only: slots_def)
  show "(b, k) \<in> set (slots s p)" using b j k by (auto simp: slots_def slot_list_in dir_blks_def)
  show "index_ok s' p" "grow p s s'" using pd(2,3) by simp_all
  show "blk_byte s' b (24 * k + i) = e i" if "i < 24" for i using that k by (simp add: s' blit_def)
  show "blk_byte s' c (24 * l + i) = blk_byte s c (24 * l + i)" if c: "(c, l) \<in> set (slots s p)" "(c, l) \<noteq> (b, k)" "i < 24" for c l i
  proof -
    have l: "24 * l + i < 4096" using c(1,3) by (simp add: slots_def slot_list_in)
    show ?thesis
    proof (cases "c = b")
      case True
      then have "l < k \<or> k < l" using c(2) by auto
      then have "\<not> (24 * k \<le> 24 * l + i \<and> 24 * l + i < 24 * k + 24)" using c(3) by auto
      then show ?thesis using True l by (auto simp: s' blit_def rd_def)
    next
      case False
      then show ?thesis using put_block_other [OF False l] by (simp add: s')
    qed
  qed
qed

lemma dir_insert_slot:
  assumes w: "wf_part s" and ok: "dir_ok s p" and j: "j < 1036" and b: "b = at s p (Data j)" "b \<noteq> 0" and k: "k < 170"
    and un: "e_type (blk_byte s b) (24 * k) = FT_UNKNOWN" and s': "s' = put_block b (blit (24 * k) e 24 (rd s b)) s"
    and e: "name_at e 0 nm" "e_no e 0 = n" "e_type e 0 = t" "file_name nm" "t \<noteq> FT_UNKNOWN" and abs: "lookup s p nm = None"
  shows "file_name nm' \<Longrightarrow> lookup s' p nm' = (if nm' = nm then Some (n, t) else lookup s p nm')"
    and "clean s' p"
proof -
  have iok: "index_ok s p" using ok by (simp add: dir_ok_def)
  note si = slot_insert [OF w iok j b k s']
  have same: "slot_named s' m y = slot_named s m y" "slot_no s' y = slot_no s y" if "y \<in> set (slots s p)" "y \<noteq> (b, k)" "length m < 16" for y m
    using slot_same [of s' "fst y" "snd y" s] si(6) [of "fst y" "snd y"] that by auto
  have wr: "length m < 16 \<Longrightarrow> slot_named s' m (b, k) = name_at e 0 m" "slot_no s' (b, k) = (e_no e 0, e_type e 0)" for m
    by (rule slot_written, rule si(5), assumption+) (rule slot_written, rule si(5))
  show "lookup s' p nm' = (if nm' = nm then Some (n, t) else lookup s p nm')" if nm': "file_name nm'"
  proof -
    from split_list [OF si(2)] obtain X Y where XY: "slots s p = X @ [(b, k)] @ Y" by auto
    then have nin: "(b, k) \<notin> set X \<union> set Y" using distinct_slots [OF iok] by simp
    have l: "length nm' < 16" using nm' by (simp add: file_name_def)
    have "blk_byte s b (24 * k) = 0" using ok si(2) un by (auto simp: dir_ok_def clean_def slot_no_def)
    then have "\<not> slot_named s nm' (b, k)" using name_at_empty [OF _ nm'] by (simp add: slot_named_def)
    moreover have "slot_named s' nm' (b, k) \<longleftrightarrow> nm' = nm"
      using wr(1) [OF l] e(1,4) nm' name_at_unique [OF e(1), of nm'] by (auto simp: file_name_def)
    moreover have "slot_named s' nm' y = slot_named s nm' y \<and> slot_no s' y = slot_no s y" if "y \<in> set X \<union> set Y" for y
    proof -
      have "y \<in> set (slots s p)" "y \<noteq> (b, k)" using that nin XY by auto
      then show ?thesis using same l by blast
    qed
    moreover have "slots s' p = X @ [(b, k)] @ Y" using XY si(1) by simp
    moreover have "slot_no s' (b, k) = (n, t)" using wr(2) e(2,3) by simp
    ultimately show ?thesis
      using XY abs by (intro lookup_insert [where x = "(b, k)" and X = X and Y = Y and Z = "[(b, k)]" and S = "[(b, k)]"]) auto
  qed
  show "clean s' p"
    unfolding clean_def
  proof (clarify)
    fix c l assume c: "(c, l) \<in> set (slots s' p)" "snd (slot_no s' (c, l)) = FT_UNKNOWN"
    have ne: "(c, l) \<noteq> (b, k)" using c(2) wr(2) e(3,5) by auto
    then have "snd (slot_no s (c, l)) = FT_UNKNOWN" using same(2) [of "(c, l)" "[]"] c si(1) by simp
    then have "blk_byte s c (24 * l) = 0" using ok c(1) si(1) by (auto simp: dir_ok_def clean_def)
    then show "blk_byte s' c (24 * l) = 0" using si(6) [OF _ ne, of 0] c(1) si(1) by simp
  qed
qed

text \<open>What the insertion of an entry leaves: one name more in the map, nothing else of the directory or of the layout changed.\<close>

definition entered :: "u32 \<Rightarrow> u8 list \<Rightarrow> u32 \<times> u32 \<Rightarrow> 'h fs \<Rightarrow> 'h fs \<Rightarrow> bool" where
  "entered p nm v s s' \<longleftrightarrow> layout s' = layout s \<and> wf_part s' \<and> index_ok s' p \<and> clean s' p \<and> heap s' = heap s \<and>
     root_dir s' = root_dir s \<and> dirs s' = dirs s \<and> map_option i_size (inodes s' p) = map_option i_size (inodes s p) \<and>
     (\<forall>nm'. file_name nm' \<longrightarrow> lookup s' p nm' = (if nm' = nm then Some v else lookup s p nm'))"

lemma dir_insert_entered:
  assumes w: "wf_part s" and ok: "dir_ok s p" and j: "j < 1036" and b: "b = at s p (Data j)" "b \<noteq> 0" and k: "k < 170"
    and un: "e_type (blk_byte s b) (24 * k) = FT_UNKNOWN" and s': "s' = put_block b (blit (24 * k) e 24 (rd s b)) s"
    and e: "name_at e 0 nm" "e_no e 0 = n" "e_type e 0 = t" "file_name nm" "t \<noteq> FT_UNKNOWN" and abs: "lookup s p nm = None"
  shows "entered p nm (n, t) s s'"
proof -
  have iok: "index_ok s p" using ok by (simp add: dir_ok_def)
  note si = slot_insert [OF w iok j b k s'] and di = dir_insert_slot [OF w ok j b k un s' e abs]
  show ?thesis using si(3) di growD(1,2) [OF si(4)] by (simp add: entered_def s')
qed

subsection \<open>An entry in a new block\<close>

lemma dir_blks_split: "j < 1036 \<Longrightarrow>
  dir_blks s p = map (\<lambda>i. at s p (Data i)) [0..<j] @ at s p (Data j) # map (\<lambda>i. at s p (Data i)) [Suc j..<1036]"
proof -
  assume j: "j < 1036"
  have "[0..<1036] = [0..<j] @ [j..<1036]" using upt_add_eq_append [of 0 j "1036 - j"] j by simp
  also have "[j..<1036] = j # [Suc j..<1036]" using j by (simp add: upt_conv_Cons)
  finally show ?thesis by (simp add: dir_blks_def)
qed

lemma new_block_state:
  assumes w: "wf_part s" and ok: "index_ok s p" and j: "j < 12" "at s p (Data j) = 0" and g: "grabbed nb s s2"
    and s': "s' = put_block nb bf (sec_upd p j nb s2)"
  shows "\<And>l. valid_loc l \<Longrightarrow> at s' p l = (if l = Data j then nb else at s p l)" "index_ok s' p" "layout s' = layout s" "wf_part s'"
    "\<And>b i. b \<in> used_blks s \<Longrightarrow> i < 4096 \<Longrightarrow> blk_byte s' b i = blk_byte s b i"
    "nb \<noteq> 0" "nb \<notin> used_blks s" "set_sector p j nb s2 = Some (sec_upd p j nb s2)" "unat nb < n_blks s2" "wf_part (sec_upd p j nb s2)"
proof -
  note ge = grabbed_evolve [OF w ok g]
  have wl: "wf_part s2" "layout s2 = layout s" using g by (simp_all add: grabbed_def)
  show nb: "nb \<noteq> 0" "nb \<notin> used_blks s" using data_blk_nz [OF w ge(6)] ge(5) by simp_all
  show "unat nb < n_blks s2" using data_blk_nz [OF wl(1) used_blks_data [OF ge(4)]] by simp
  let ?s3 = "sec_upd p j nb s2"
  show w3: "wf_part ?s3" using wl(1) by simp
  show "set_sector p j nb s2 = Some ?s3" by (rule set_sector_upd [OF ge(3)]) (use j in simp)
  have at3: "at ?s3 p l = (if l = Data j then nb else at s p l)" if "valid_loc l" for l
    using at_direct [OF ge(3) j(1), of nb l] ge(2) [OF that] by simp
  have un: "at s p l \<noteq> nb" if "valid_loc l" for l using index_okD(2) [OF ok that] nb by metis
  have len: "length (secs ?s3 p) = 15" using secs_sec_upd [OF ge(3)] index_okD(1) [OF ge(3)] by simp
  have ok3: "index_ok ?s3 p"
    by (rule index_ok_upd [OF ok len at3 _ _ un]) (use evolveD(3) [OF ge(1)] ge(4) in simp_all)
  have jm: "j < max_blocks" using j by (simp add: max_blocks_def)
  have a: "at ?s3 p (Data j) = nb" using at3 [of "Data j"] jm by simp
  note pd = put_data_block [OF w3 ok3 jm, unfolded a, OF nb(1), where bf = bf, folded s']
  show "at s' p l = (if l = Data j then nb else at s p l)" if "valid_loc l" for l using pd(1) [OF that] at3 [OF that] by simp
  show "index_ok s' p" by (rule pd(2))
  show "layout s' = layout s" "wf_part s'" using wl w3 by (simp_all add: s')
  show "blk_byte s' b i = blk_byte s b i" if "b \<in> used_blks s" "i < 4096" for b i
    using put_block_other [of b nb i bf ?s3] that nb g used_blks_data [OF that(1)] by (auto simp: s' grabbed_def)
qed

lemma dir_new_entered:
  assumes w: "wf_part s" and ok: "dir_ok s p" and j: "j < 12" "at s p (Data j) = 0" and g: "grabbed nb s s2"
    and s': "s' = put_block nb (blit 0 e 24 (\<lambda>_. 0)) (sec_upd p j nb s2)"
    and e: "name_at e 0 nm" "e_no e 0 = n" "e_type e 0 = t" "file_name nm" "t \<noteq> FT_UNKNOWN" and abs: "lookup s p nm = None"
  shows "entered p nm (n, t) s s'"
proof -
  have iok: "index_ok s p" using ok by (simp add: dir_ok_def)
  note nb = new_block_state [OF w iok j g s']
  let ?U = "map (\<lambda>i. at s p (Data i)) [0..<j]" and ?V = "map (\<lambda>i. at s p (Data i)) [Suc j..<1036]"
  let ?X = "slot_list ?U" and ?Y = "slot_list ?V" and ?S = "map (Pair nb) [0..<170]"
  have j': "j < 1036" using j by simp
  have old: "slots s p = ?X @ [] @ ?Y" using dir_blks_split [OF j', of s p] j(2) by (simp add: slots_def slot_list_append slot_list_Cons)
  have UV: "map (\<lambda>i. at s' p (Data i)) [0..<j] = ?U" "map (\<lambda>i. at s' p (Data i)) [Suc j..<1036] = ?V" "at s' p (Data j) = nb"
    using nb(1) [of "Data _"] j' by (auto simp: max_blocks_def)
  have new: "slots s' p = ?X @ ?S @ ?Y"
    unfolding slots_def dir_blks_split [OF j'] UV slot_list_append slot_list_Cons using nb(6) by (simp only: if_False)
  have used: "c \<in> used_blks s" "l < 170" if "(c, l) \<in> set (slots s p)" for c l
  proof -
    show "l < 170" using that by (simp add: slots_def slot_list_in)
    from that obtain i where "i < 1036" "c = at s p (Data i)" "c \<noteq> 0" by (auto simp: slots_def slot_list_in dir_blks_def)
    then show "c \<in> used_blks s" using index_okD(2) [OF iok, of "Data i"] by (simp add: max_blocks_def)
  qed
  have keep: "blk_byte s' c (24 * l + i) = blk_byte s c (24 * l + i)" if "(c, l) \<in> set (slots s p)" "i < 24" for c l i
    using nb(5) [of c "24 * l + i"] used [OF that(1)] that(2) by simp
  have same: "slot_named s' m y = slot_named s m y" "slot_no s' y = slot_no s y" if "y \<in> set (slots s p)" "length m < 16" for y m
    using slot_same [of s' "fst y" "snd y" s] keep [of "fst y" "snd y"] that by auto
  have wr: "blk_byte s' nb (24 * 0 + i) = e i" if "i < 24" for i using that by (simp add: s' blit_def)
  have fresh: "blk_byte s' nb (24 * l) = 0" if "l < 170" "l \<noteq> 0" for l using that by (simp add: s' blit_def)
  have "lookup s' p nm' = (if nm' = nm then Some (n, t) else lookup s p nm')" if nm': "file_name nm'" for nm'
  proof (rule lookup_insert [OF old new _ _ _ _ _ _ abs])
    have l: "length nm' < 16" using nm' by (simp add: file_name_def)
    show "(nb, 0) \<in> set ?S" by auto
    show "slot_named s' nm' y = slot_named s nm' y \<and> slot_no s' y = slot_no s y" if "y \<in> set ?X \<union> set ?Y" for y
      using same [of y nm'] that l old by auto
    show "slot_named s' nm' (nb, 0) \<longleftrightarrow> nm' = nm"
      using slot_written(1) [OF wr l] e(1,4) nm' name_at_unique [OF e(1), of nm'] by (auto simp: file_name_def)
    show "slot_no s' (nb, 0) = (n, t)" using slot_written(2) [OF wr] e(2,3) by simp
    show "\<not> slot_named s' nm' y" if "y \<in> set ?S" "y \<noteq> (nb, 0)" for y
      using that fresh name_at_empty [OF _ nm', of "blk_byte s' nb"] by (auto simp: slot_named_def) (metis neq0_conv)
  qed simp
  moreover have "clean s' p" unfolding clean_def
  proof clarify
    fix c l assume c: "(c, l) \<in> set (slots s' p)" "snd (slot_no s' (c, l)) = FT_UNKNOWN"
    show "blk_byte s' c (24 * l) = 0"
    proof (cases "(c, l) \<in> set (slots s p)")
      case True
      then show ?thesis using same(2) [of "(c, l)" "[]"] c(2) keep [OF True, of 0] ok by (auto simp: dir_ok_def clean_def)
    next
      case False
      then have "c = nb" "l < 170" using c(1) old new by auto
      then show ?thesis using fresh [of l] c(2) slot_written(2) [OF wr] e(3,5) by (cases "l = 0") auto
    qed
  qed
  moreover have "map_option i_size (inodes s' p) = map_option i_size (inodes s p)"
    using g by (simp add: s' sec_upd_def grabbed_def option.map_comp comp_def)
  ultimately show ?thesis using nb(2-4) g by (simp add: entered_def s' grabbed_def)
qed

subsection \<open>The loop over the blocks\<close>

lemma new_dir_block_enters:
  assumes w: "wf_part s" and ok: "dir_ok s p" and j: "j < 12" "at s p (Data j) = 0" and f: "free_blks s \<noteq> {}"
    and e: "name_at e 0 nm" "e_no e 0 = n" "e_type e 0 = t" "file_name nm" "t \<noteq> FT_UNKNOWN" and abs: "lookup s p nm = None"
  shows "\<exists>s'. new_dir_block p j blks e s = Some (True, dir_grow p s') \<and> entered p nm (n, t) s s'"
proof -
  have iok: "index_ok s p" using ok by (simp add: dir_ok_def)
  from grab_block [OF w f] obtain nb s1 s2 where g: "block_bitmap_alloc s = Some (nb, s1)"
    "bitmap_sync (blk2bidx s1 nb) BLOCK_BITMAP s1 = Some s2" "grabbed nb s s2" by blast
  define s' where "s' = put_block nb (blit 0 e 24 (\<lambda>_. 0)) (sec_upd p j nb s2)"
  note nb = new_block_state [OF w iok j g(3) s'_def]
  have "nb \<noteq> - 1" using data_blk_nz [OF w grabbed_evolve(6) [OF w iok g(3)]] by simp
  moreover have "write_block nb (blit 0 e sizeof_dir_entry (\<lambda>_. 0)) (sec_upd p j nb s2) = Some s'"
    unfolding s'_def sizeof_dir_entry_def by (rule write_block_bytes [OF nb(10)]) (use nb(9) in \<open>simp add: n_blks_def\<close>)
  moreover obtain i where "inodes s' p = Some i" using index_ok_inode [OF nb(2)] by blast
  note upd_size_grow [OF this]
  ultimately have "new_dir_block p j blks e s = Some (True, dir_grow p s')"
    using g(1,2) nb(8) j(1) by (simp add: new_dir_block_def place_dir_block_def INODE_DIRECT_BLOCKS_def)
  moreover have "entered p nm (n, t) s s'" by (rule dir_new_entered [OF w ok j g(3) s'_def e abs])
  ultimately show ?thesis by blast
qed

text \<open>A place for one more entry: a slot not in use in the blocks that stand directly in the inode, or no block at one of them.\<close>

definition free_in :: "'h fs \<Rightarrow> u32 \<Rightarrow> nat \<Rightarrow> bool" where
  "free_in s p j \<longleftrightarrow> at s p (Data j) = 0 \<or> (\<exists>k < 170. e_type (blk_byte s (at s p (Data j))) (24 * k) = FT_UNKNOWN)"

definition room :: "'h fs \<Rightarrow> u32 \<Rightarrow> bool" where
  "room s p \<longleftrightarrow> (\<exists>j < 12. free_in s p j)"

lemma find_type_rd: "find (\<lambda>k. e_type (rd s b) (24 * k) = T) [0..<170] = find (\<lambda>k. e_type (blk_byte s b) (24 * k) = T) [0..<170]"
proof (rule find_cong [OF refl])
  fix k assume "k \<in> set [0..<170]"
  then show "(e_type (rd s b) (24 * k) = T) = (e_type (blk_byte s b) (24 * k) = T)" by (simp add: e_type_def get32_def rd_def)
qed

lemma sync_loop_enters:
  assumes w: "wf_part s" and ok: "dir_ok s p" and f: "free_blks s \<noteq> {}"
    and e: "name_at e 0 nm" "e_no e 0 = n" "e_type e 0 = t" "file_name nm" "t \<noteq> FT_UNKNOWN" and abs: "lookup s p nm = None"
  shows "j0 < 12 \<Longrightarrow> free_in s p j0 \<Longrightarrow> j \<le> j0 \<Longrightarrow> j0 < j + m \<Longrightarrow>
    \<exists>s'. sync_loop m j p 170 (dir_blks s p) e s = Some (True, dir_grow p s') \<and> entered p nm (n, t) s s'"
proof (induction m arbitrary: j)
  case (Suc m)
  have iok: "index_ok s p" using ok by (simp add: dir_ok_def)
  let ?b = "at s p (Data j)"
  have j: "j < 12" using Suc.prems by simp
  then have g: "arr_get (dir_blks s p) j = Some ?b" by (simp add: arr_get_def dir_blks_def)
  show ?case
  proof (cases "?b = 0")
    case True
    then show ?thesis using new_dir_block_enters [OF w ok j True f e abs] g by simp
  next
    case False
    have bd: "unat ?b < n_blks s" using dir_blks_bound(2) [OF w iok _ False] j by (auto simp: dir_blks_def)
    then have r: "read_block ?b (\<lambda>_. 0) s = Some (rd s ?b)" using read_block_bytes [OF w, of ?b] by (simp add: rd_def)
    show ?thesis
    proof (cases "find (\<lambda>k. e_type (blk_byte s ?b) (24 * k) = FT_UNKNOWN) [0..<170]")
      case None
      then have "\<not> free_in s p j" using False by (auto simp: free_in_def find_None_iff)
      then have "j \<noteq> j0" using Suc.prems(2) by metis
      then show ?thesis using Suc.IH [of "Suc j"] Suc.prems g r None False find_type_rd [of s ?b FT_UNKNOWN] by (simp add: sizeof_dir_entry_def)
    next
      case (Some k)
      then have k: "k < 170" "e_type (blk_byte s ?b) (24 * k) = FT_UNKNOWN" by (auto simp: find_Some_iff)
      define s' where "s' = put_block ?b (blit (24 * k) e 24 (rd s ?b)) s"
      have en: "entered p nm (n, t) s s'" by (rule dir_insert_entered [OF w ok _ refl False k s'_def e abs]) (use j in simp)
      obtain i where "inodes s' p = Some i" using index_ok_inode [of s' p] en by (auto simp: entered_def)
      note upd_size_grow [OF this]
      moreover have "write_block ?b (blit (24 * k) e 24 (rd s ?b)) s = Some s'" unfolding s'_def by (rule write_block_bytes [OF w bd])
      ultimately have "sync_loop (Suc m) j p 170 (dir_blks s p) e s = Some (True, dir_grow p s')"
        using g r Some False find_type_rd [of s ?b FT_UNKNOWN] by (simp add: sizeof_dir_entry_def)
      then show ?thesis using en by blast
    qed
  qed
qed simp

lemma unat_size_mod: "unat (x :: u32) mod 24 = 0 \<longleftrightarrow> x mod 24 = 0"
  by (simp add: word_unat_eq_iff unat_mod)

lemma dir_grow_ok:
  assumes ok: "dir_ok s p" and en: "entered p nm v s s'" and sz: "\<And>i. inodes s p = Some i \<Longrightarrow> unat (i_size i) + 24 < 2 ^ 32"
  shows "dir_ok (dir_grow p s') p"
proof -
  from ok obtain i where i: "inodes s p = Some i" "unat (i_size i) mod 24 = 0" by (auto simp: dir_ok_def)
  with en obtain i' where i': "inodes s' p = Some i'" "i_size i' = i_size i" by (auto simp: entered_def)
  have "unat (i_size i + 24) = unat (i_size i) + 24" using sz [OF i(1)] by (simp add: unat_word_ariths)
  then have "unat (i_size i + 24) mod 24 = 0" using i(2) by simp
  moreover have "sb (cur_part s') = sb (cur_part s)" using en layout_cong(9) [of s' s] by (simp add: entered_def)
  moreover have "inodes (dir_grow p s') p = Some (i'\<lparr>i_size := i_size i + 24\<rparr>)" using i' by (simp add: dir_grow_def)
  ultimately show ?thesis using ok en by (simp add: dir_ok_def clean_def entered_def)
qed

lemma sync_dir_entry_enters:
  assumes w: "wf_part s" and ok: "dir_ok s p" and d: "get_dir d s = Some v" "d_inode v = p" and rm: "room s p" and f: "free_blks s \<noteq> {}"
    and hp: "heap_serves hp I" and I: "I A (Suc m) (heap s)" and io: "io_buf \<noteq> 0"
    and e: "name_at e 0 nm" "e_no e 0 = n" "e_type e 0 = t" "file_name nm" "t \<noteq> FT_UNKNOWN" and abs: "lookup s p nm = None"
    and sz: "\<And>i. inodes s p = Some i \<Longrightarrow> unat (i_size i) + 24 < 2 ^ 32"
  shows "\<exists>s'. sync_dir_entry hp d e io_buf s = Some (True, s') \<and> wf_part s' \<and> dir_ok s' p \<and> get_dir d s' = Some v \<and> I A (Suc m) (heap s') \<and>
    (\<forall>nm'. file_name nm' \<longrightarrow> lookup s' p nm' = (if nm' = nm then Some (n, t) else lookup s p nm'))"
proof -
  from fs_malloc_serves [OF hp I, of False "word_of_nat (DIR_MAX_BLOCKS * 4)"] obtain q h where
    q: "fs_malloc hp False (word_of_nat (DIR_MAX_BLOCKS * 4)) s = Some (q, s\<lparr>heap := h\<rparr>)" "q \<noteq> 0" "q \<notin> A" "I (insert q A) m h" by blast
  let ?s = "s\<lparr>heap := h\<rparr>"
  have same: "slots ?s p = slots s p" "slot_named ?s = slot_named s" "slot_no ?s = slot_no s" "dir_blks ?s p = dir_blks s p"
    by (simp_all add: slots_def dir_blks_def slot_named_def slot_no_def fun_eq_iff)
  then have lk: "lookup ?s p = lookup s p" by (intro ext) (simp only: lookup_def)
  have ok': "dir_ok ?s p" using ok by (simp add: dir_ok_def clean_def same)
  have w': "wf_part ?s" "index_ok ?s p" using w ok by (simp_all add: dir_ok_def)
  from rm obtain j0 where j0: "j0 < 12" "free_in ?s p j0" by (auto simp: room_def free_in_def)
  from sync_loop_enters [OF w'(1) ok' _ e _ j0, of 0 1036] f abs lk j0(1) obtain s2 where
    s2: "sync_loop 1036 0 p 170 (dir_blks s p) e ?s = Some (True, dir_grow p s2)" "entered p nm (n, t) ?s s2" by (auto simp: same)
  have "I (insert q A) m (heap (dir_grow p s2))" using s2(2) q(4) by (simp add: entered_def)
  from fs_free_serves [OF hp this q(3), of False] obtain h' where
    h': "fs_free hp False q (dir_grow p s2) = Some ((dir_grow p s2)\<lparr>heap := h'\<rparr>)" "I A (Suc m) h'" by blast
  let ?s' = "(dir_grow p s2)\<lparr>heap := h'\<rparr>"
  from ok obtain i where i: "inodes s p = Some i" "unat (i_size i) mod 24 = 0" by (auto simp: dir_ok_def)
  have "dir_entrys_per_sec s = Some 170" using ok by (simp add: dir_entrys_per_sec_def dir_ok_def sizeof_dir_entry_def BLOCK_SIZE_def)
  moreover have "collect_dir_blocks p ?s = Some (dir_blks s p)" using collect_dir_blocks_at [OF w'] same(4) by simp
  ultimately have "sync_dir_entry hp d e io_buf s = Some (True, ?s')"
    using d i q(1,2) s2(1) h'(1) io unat_size_mod [of "i_size i"] by (simp add: sync_dir_entry_def sizeof_dir_entry_def DIR_MAX_BLOCKS_def)
  moreover have "dir_ok (dir_grow p s2) p" by (rule dir_grow_ok [OF ok' s2(2)]) (use sz in simp)
  then have "dir_ok ?s' p" by (simp add: dir_ok_def clean_def slots_def dir_blks_def slot_no_def)
  moreover have "get_dir d ?s' = Some v" using d(1) s2(2) by (simp add: get_dir_def entered_def split: dir_ref.splits)
  moreover have "lookup ?s' p nm' = lookup s2 p nm'" for nm'
  proof -
    have "lookup ?s' p nm' = lookup (dir_grow p s2) p nm'"
      by (simp add: lookup_def slots_def dir_blks_def slot_named_def slot_no_def)
    then show ?thesis by simp
  qed
  ultimately show ?thesis using s2(2) h'(2) lk by (intro exI [of _ ?s']) (simp add: entered_def)
qed

text \<open>C3: Directories are maps from names to inode numbers and types. In a sound directory with room in its direct blocks,
  an entry made by \<open>create_dir_entry\<close> for a name that is not there and stored by \<open>sync_dir_entry\<close> is what
  \<open>search_dir_entry\<close> finds under that name from then on; under every other name it finds what it found before, and the
  directory is sound again.\<close>

theorem dir_insert_lookup:
  assumes w: "wf_part s" and ok: "dir_ok s p" and d: "get_dir d s = Some v" "d_inode v = p" and rm: "room s p" and f: "free_blks s \<noteq> {}"
    and hp: "heap_serves hp I" and I: "I A (Suc (Suc m)) (heap s)" and io: "io_buf \<noteq> 0" and nm: "file_name nm" and t: "t \<noteq> FT_UNKNOWN"
    and abs: "lookup s p nm = None" and sz: "\<And>i. inodes s p = Some i \<Longrightarrow> unat (i_size i) + 24 < 2 ^ 32"
  shows "\<exists>e s'. create_dir_entry nm n t (\<lambda>_. 0) = Some e \<and> sync_dir_entry hp d e io_buf s = Some (True, s') \<and> wf_part s' \<and> dir_ok s' p \<and>
    (\<forall>nm'. file_name nm' \<longrightarrow> (\<exists>r r' h h'. search_dir_entry hp d nm' s = Some (r, s\<lparr>heap := h\<rparr>) \<and>
       search_dir_entry hp d nm' s' = Some (r', s'\<lparr>heap := h'\<rparr>) \<and>
       map_option (\<lambda>e. (e_no e 0, e_type e 0)) r' = (if nm' = nm then Some (n, t) else map_option (\<lambda>e. (e_no e 0, e_type e 0)) r)))"
proof -
  from create_dir_entry_fields [OF nm, of n t] obtain e where
    e: "create_dir_entry nm n t (\<lambda>_. 0) = Some e" "name_at e 0 nm" "e_no e 0 = n" "e_type e 0 = t" by blast
  from sync_dir_entry_enters [OF w ok d rm f hp I io e(2-4) nm t abs sz] obtain s' where
    s': "sync_dir_entry hp d e io_buf s = Some (True, s')" "wf_part s'" "dir_ok s' p" "get_dir d s' = Some v" "I A (Suc (Suc m)) (heap s')"
      "\<And>nm'. file_name nm' \<Longrightarrow> lookup s' p nm' = (if nm' = nm then Some (n, t) else lookup s p nm')" by blast
  have "\<exists>r r' h h'. search_dir_entry hp d nm' s = Some (r, s\<lparr>heap := h\<rparr>) \<and> search_dir_entry hp d nm' s' = Some (r', s'\<lparr>heap := h'\<rparr>) \<and>
     map_option (\<lambda>e. (e_no e 0, e_type e 0)) r' = (if nm' = nm then Some (n, t) else map_option (\<lambda>e. (e_no e 0, e_type e 0)) r)"
    if nm': "file_name nm'" for nm'
  proof -
    have l: "length nm' < 16" using nm' by (simp add: file_name_def)
    have "index_ok s p" "dir_entry_size (sb (cur_part s)) = 24" "index_ok s' p" "dir_entry_size (sb (cur_part s')) = 24"
      using ok s'(3) by (simp_all add: dir_ok_def)
    note srch = search_dir_entry_lookup [OF w this(1) d this(2) hp I l] search_dir_entry_lookup [OF s'(2) this(3) s'(4) d(2) this(4) hp s'(5) l]
    from srch(1) obtain r h where r: "search_dir_entry hp d nm' s = Some (r, s\<lparr>heap := h\<rparr>)"
      "map_option (\<lambda>e. (e_no e 0, e_type e 0)) r = lookup s p nm'" by blast
    from srch(2) obtain r' h' where r': "search_dir_entry hp d nm' s' = Some (r', s'\<lparr>heap := h'\<rparr>)"
      "map_option (\<lambda>e. (e_no e 0, e_type e 0)) r' = lookup s' p nm'" by blast
    show ?thesis by (rule exI [of _ r], rule exI [of _ r'], rule exI [of _ h], rule exI [of _ h']) (simp only: r r' s'(6) [OF nm'] simp_thms)
  qed
  then show ?thesis using e(1) s'(1-3) by blast
qed

text \<open>The inode at \<open>0x2000\<close> of the small partition as the root directory, which has no entry yet.\<close>

definition demo_dir :: "u32 list fs" where
  "demo_dir = demo_fs\<lparr>root_dir := \<lparr>d_inode = 0x2000, dir_pos = 0, dir_buf = (\<lambda>_. 0)\<rparr>\<rparr>"

lemma demo_dir_ok: "wf_part demo_dir" "dir_ok demo_dir 0x2000" "room demo_dir 0x2000" "free_blks demo_dir \<noteq> {}"
  "demo_budget {} (Suc (Suc 2)) (heap demo_dir)" "lookup demo_dir 0x2000 nm = None"
  "inodes demo_dir 0x2000 = Some \<lparr>i_no = 1, i_size = 0, i_open_cnts = 1, write_deny = False, i_sectors = replicate 15 0\<rparr>"
proof -
  have c: "cur_part demo_dir = cur_part demo_fs" by (simp add: demo_dir_def)
  show "wf_part demo_dir" using demo_wf part_cong(5) [OF c] by simp
  show "free_blks demo_dir \<noteq> {}" using demo_card_free part_cong(3) [OF c] by auto
  show i: "inodes demo_dir 0x2000 = Some \<lparr>i_no = 1, i_size = 0, i_open_cnts = 1, write_deny = False, i_sectors = replicate 15 0\<rparr>"
    by (simp add: demo_dir_def demo_fs_def)
  have sec: "secs demo_dir 0x2000 = replicate 15 0" by (simp add: secs_def i)
  then have at: "at demo_dir 0x2000 l = 0" if "valid_loc l" for l using that by (cases l) (simp_all add: at.simps child_def)
  then have "dir_blks demo_dir 0x2000 = map (\<lambda>_. 0) [0..<1036]" unfolding dir_blks_def by (intro map_cong refl) (simp add: max_blocks_def)
  then have sl: "slots demo_dir 0x2000 = []" by (simp add: slots_def slot_list_def comp_def map_replicate_const)
  then show "lookup demo_dir 0x2000 nm = None" by (simp add: lookup_def)
  have "index_ok demo_dir 0x2000" using at sec by (simp add: index_ok_def)
  then show "dir_ok demo_dir 0x2000" using i sl by (simp add: dir_ok_def clean_def demo_dir_def demo_fs_def demo_sb_def)
  show "room demo_dir 0x2000" unfolding room_def free_in_def using at [of "Data 0"] by (intro exI [of _ 0]) (simp add: max_blocks_def)
  show "demo_budget {} (Suc (Suc 2)) (heap demo_dir)" by (simp add: demo_budget_def demo_dir_def demo_fs_def)
qed

theorem dir_insert_lookup_witness:
  "\<exists>e s' r s''. create_dir_entry [0x61] 5 FT_REGULAR (\<lambda>_. 0) = Some e \<and> sync_dir_entry demo_heap Root_Dir e 0x1000 demo_dir = Some (True, s') \<and>
     search_dir_entry demo_heap Root_Dir [0x61] s' = Some (Some r, s'') \<and> e_no r 0 = 5 \<and> e_type r 0 = FT_REGULAR"
proof -
  have g: "get_dir Root_Dir demo_dir = Some \<lparr>d_inode = 0x2000, dir_pos = 0, dir_buf = (\<lambda>_. 0)\<rparr>" by (simp add: get_dir_def demo_dir_def)
  have nm: "file_name [0x61]" by (simp add: file_name_def)
  have "\<exists>e s'. create_dir_entry [0x61] 5 FT_REGULAR (\<lambda>_. 0) = Some e \<and> sync_dir_entry demo_heap Root_Dir e 0x1000 demo_dir = Some (True, s') \<and>
    wf_part s' \<and> dir_ok s' 0x2000 \<and> (\<forall>nm'. file_name nm' \<longrightarrow> (\<exists>r r' h h'. search_dir_entry demo_heap Root_Dir nm' demo_dir = Some (r, demo_dir\<lparr>heap := h\<rparr>) \<and>
       search_dir_entry demo_heap Root_Dir nm' s' = Some (r', s'\<lparr>heap := h'\<rparr>) \<and>
       map_option (\<lambda>e. (e_no e 0, e_type e 0)) r' = (if nm' = [0x61] then Some (5, FT_REGULAR) else map_option (\<lambda>e. (e_no e 0, e_type e 0)) r)))"
    by (rule dir_insert_lookup [OF demo_dir_ok(1,2) g _ demo_dir_ok(3,4) demo_heap_serves demo_dir_ok(5) _ nm _ demo_dir_ok(6)])
      (simp_all add: demo_dir_ok(7) FT_REGULAR_def FT_UNKNOWN_def)
  then obtain e s' where s': "create_dir_entry [0x61] 5 FT_REGULAR (\<lambda>_. 0) = Some e" "sync_dir_entry demo_heap Root_Dir e 0x1000 demo_dir = Some (True, s')"
    and all: "\<forall>nm'. file_name nm' \<longrightarrow> (\<exists>r r' h h'. search_dir_entry demo_heap Root_Dir nm' demo_dir = Some (r, demo_dir\<lparr>heap := h\<rparr>) \<and>
       search_dir_entry demo_heap Root_Dir nm' s' = Some (r', s'\<lparr>heap := h'\<rparr>) \<and>
       map_option (\<lambda>e. (e_no e 0, e_type e 0)) r' = (if nm' = [0x61] then Some (5, FT_REGULAR) else map_option (\<lambda>e. (e_no e 0, e_type e 0)) r))"
    by blast
  from all [rule_format, OF nm] obtain r' h' where "search_dir_entry demo_heap Root_Dir [0x61] s' = Some (r', s'\<lparr>heap := h'\<rparr>)"
    "map_option (\<lambda>e. (e_no e 0, e_type e 0)) r' = Some (5, FT_REGULAR)" by auto
  then show ?thesis using s' by auto
qed

end
