(* ===== verification/Dma.thy ===== *)
theory Dma
  imports Paging
begin

text \<open>
  \<^verbatim>\<open>device/dma.c\<close>: the driver of the two 8237A controllers. The driver keeps no state; its functions give the port
  writes they make, in order, and read the page tables of the kernel state. \<open>dma_chip\<close> is one channel of the controller as
  its data sheet describes it: address and count are written in two halves selected by a flip-flop, the page register
  supplies the upper address lines, and on the 16-bit channels the address counts words, so bit 0 of the page
  register is not connected.
\<close>

subsection \<open>The driver\<close>

definition DMA_PAGE_SIZE :: u32 where "DMA_PAGE_SIZE = 4096"
definition DMA_MAX_PHYS_ADDR :: u32 where "DMA_MAX_PHYS_ADDR = 0x01000000"
definition DMA_CHANNEL_CNT :: u8 where "DMA_CHANNEL_CNT = 8"

definition DMA1_MASK_REG :: u16 where "DMA1_MASK_REG = 0x0a"
definition DMA1_MODE_REG :: u16 where "DMA1_MODE_REG = 0x0b"
definition DMA1_CLEAR_FF_REG :: u16 where "DMA1_CLEAR_FF_REG = 0x0c"
definition DMA2_MASK_REG :: u16 where "DMA2_MASK_REG = 0xd4"
definition DMA2_MODE_REG :: u16 where "DMA2_MODE_REG = 0xd6"
definition DMA2_CLEAR_FF_REG :: u16 where "DMA2_CLEAR_FF_REG = 0xd8"

definition DMA_MODE_SINGLE :: u8 where "DMA_MODE_SINGLE = 0x40"
definition DMA_MODE_ADDR_INC :: u8 where "DMA_MODE_ADDR_INC = 0x00"
definition DMA_MODE_WRITE :: u8 where "DMA_MODE_WRITE = 0x04"
definition DMA_MODE_READ :: u8 where "DMA_MODE_READ = 0x08"

definition dma_addr_ports :: "u16 list" where "dma_addr_ports = [0x00, 0x02, 0x04, 0x06, 0x00, 0xc4, 0xc8, 0xcc]"
definition dma_count_ports :: "u16 list" where "dma_count_ports = [0x01, 0x03, 0x05, 0x07, 0x00, 0xc6, 0xca, 0xce]"
definition dma_page_ports :: "u16 list" where "dma_page_ports = [0x87, 0x83, 0x81, 0x82, 0x00, 0x8b, 0x89, 0x8a]"

datatype dma_transfer_direction = DMA_IO_TO_MEMORY | DMA_MEMORY_TO_IO

type_synonym port_writes = "(u16 \<times> u8) list"

definition dma_channel_valid :: "u8 \<Rightarrow> bool" where
  "dma_channel_valid channel \<longleftrightarrow> channel < DMA_CHANNEL_CNT \<and> channel \<noteq> 4"

definition dma_channel_is_16bit :: "u8 \<Rightarrow> bool" where
  "dma_channel_is_16bit channel \<longleftrightarrow> 5 \<le> channel"

definition dma_mask_port :: "u8 \<Rightarrow> u16" where
  "dma_mask_port channel = (if channel < 4 then DMA1_MASK_REG else DMA2_MASK_REG)"

definition dma_mode_port :: "u8 \<Rightarrow> u16" where
  "dma_mode_port channel = (if channel < 4 then DMA1_MODE_REG else DMA2_MODE_REG)"

definition dma_clear_ff_port :: "u8 \<Rightarrow> u16" where
  "dma_clear_ff_port channel = (if channel < 4 then DMA1_CLEAR_FF_REG else DMA2_CLEAR_FF_REG)"

definition dma_reset_flip_flop :: "u8 \<Rightarrow> port_writes" where
  "dma_reset_flip_flop channel = [(dma_clear_ff_port channel, 0xff)]"

definition dma_local_channel :: "u8 \<Rightarrow> u8" where
  "dma_local_channel channel = channel AND 0x03"

text \<open>The bytes of this round: up to the end of the page, and no more than are left.\<close>

definition dma_chunk :: "u32 \<Rightarrow> u32 \<Rightarrow> u32 \<Rightarrow> u32" where
  "dma_chunk vaddr sz offset = (let bytes_this_page = DMA_PAGE_SIZE - ((vaddr + offset) AND (DMA_PAGE_SIZE - 1)) in
     if bytes_this_page < sz - offset then bytes_this_page else sz - offset)"

lemma unat_dma_chunk:
  assumes "offset < sz"
  shows "unat (dma_chunk vaddr sz offset) = min (4096 - unat (vaddr + offset) mod 4096) (unat sz - unat offset)"
proof -
  have lo: "unat ((vaddr + offset) AND 0xfff) = unat (vaddr + offset) mod 4096" by (rule unat_low)
  have "unat (0x1000 - ((vaddr + offset) AND 0xfff)) = 4096 - unat (vaddr + offset) mod 4096"
    using lo by (subst unat_sub) (simp_all add: word_le_nat_alt)
  moreover have "unat (sz - offset) = unat sz - unat offset" using assms by (intro unat_sub) simp
  ultimately show ?thesis by (simp add: dma_chunk_def DMA_PAGE_SIZE_def Let_def word_less_nat_alt min_def)
qed

lemma dma_chunk_advances:
  assumes "offset < sz"
  shows "unat (offset + dma_chunk vaddr sz offset) = unat offset + unat (dma_chunk vaddr sz offset)" "0 < unat (dma_chunk vaddr sz offset)"
    "unat offset + unat (dma_chunk vaddr sz offset) \<le> unat sz"
proof -
  note c = unat_dma_chunk [OF assms, of vaddr]
  have o: "unat offset < unat sz" using assms by (simp add: word_less_nat_alt)
  show "0 < unat (dma_chunk vaddr sz offset)" using c o by simp
  show le: "unat offset + unat (dma_chunk vaddr sz offset) \<le> unat sz" using c o by simp
  show "unat (offset + dma_chunk vaddr sz offset) = unat offset + unat (dma_chunk vaddr sz offset)"
    using le unat_less_2p32 [of sz] by (simp add: unat_word_ariths)
qed

function contiguous_loop :: "u32 \<Rightarrow> u32 \<Rightarrow> u32 \<Rightarrow> u32 \<Rightarrow> 'a kernel_scheme \<Rightarrow> bool option" where
  "contiguous_loop vaddr sz start offset s =
     (if offset < sz then
        (case addr_v2p (vaddr + offset) s of
           None \<Rightarrow> None
         | Some cur_paddr \<Rightarrow>
             if cur_paddr \<noteq> start + offset then Some False
             else contiguous_loop vaddr sz start (offset + dma_chunk vaddr sz offset) s)
      else Some True)"
  by pat_completeness auto
termination
proof (relation "measure (\<lambda>(v, sz, st, off, s). unat sz - unat off)")
  fix vaddr sz start offset cur_paddr :: u32 and s :: "'a kernel_scheme"
  assume lt: "offset < sz"
  have "unat offset < unat sz" using lt by (simp add: word_less_nat_alt)
  then show "((vaddr, sz, start, offset + dma_chunk vaddr sz offset, s), vaddr, sz, start, offset, s)
      \<in> measure (\<lambda>(v, sz, st, off, s). unat sz - unat off)"
    using dma_chunk_advances [OF lt, of vaddr] by simp
qed simp

declare contiguous_loop.simps [simp del]

text \<open>The physical address of the buffer, or \<open>None\<close> inside \<open>Some\<close> for the result \<^verbatim>\<open>false\<close>.\<close>

definition dma_region_contiguous :: "u32 \<Rightarrow> u32 \<Rightarrow> 'a kernel_scheme \<Rightarrow> u32 option option" where
  "dma_region_contiguous vaddr sz s = do {
     start \<leftarrow> addr_v2p vaddr s;
     ok \<leftarrow> contiguous_loop vaddr sz start 0 s;
     Some (if ok then Some start else None)
   }"

definition dma_boundary_ok :: "u8 \<Rightarrow> u32 \<Rightarrow> u32 \<Rightarrow> bool" where
  "dma_boundary_ok channel phys_addr sz =
     (if sz = 0 then False
      else if DMA_MAX_PHYS_ADDR \<le> phys_addr then False
      else let end_addr = phys_addr + sz - 1 in
        if DMA_MAX_PHYS_ADDR \<le> end_addr \<or> end_addr < phys_addr then False
        else if dma_channel_is_16bit channel then
          (if phys_addr AND 0x1 \<noteq> 0 \<or> sz AND 0x1 \<noteq> 0 then False
           else phys_addr AND 0xfffe0000 = end_addr AND 0xfffe0000)
        else phys_addr AND 0xffff0000 = end_addr AND 0xffff0000)"

definition dma_buffer_is_compatible :: "u8 \<Rightarrow> u32 \<Rightarrow> u32 \<Rightarrow> 'a kernel_scheme \<Rightarrow> bool option" where
  "dma_buffer_is_compatible channel addr sz s =
     (if \<not> dma_channel_valid channel \<or> addr = 0 then Some False
      else do {
        r \<leftarrow> dma_region_contiguous addr sz s;
        case r of None \<Rightarrow> Some False | Some phys_addr \<Rightarrow> Some (dma_boundary_ok channel phys_addr sz)
      })"

definition dma_channel_mask :: "u8 \<Rightarrow> port_writes option" where
  "dma_channel_mask channel = do {
     ASSERT (dma_channel_valid channel);
     Some [(dma_mask_port channel, 0x04 OR dma_local_channel channel)]
   }"

definition dma_channel_unmask :: "u8 \<Rightarrow> port_writes option" where
  "dma_channel_unmask channel = do {
     ASSERT (dma_channel_valid channel);
     Some [(dma_mask_port channel, dma_local_channel channel)]
   }"

definition dma_mode :: "u8 \<Rightarrow> dma_transfer_direction \<Rightarrow> u8" where
  "dma_mode channel direction = (DMA_MODE_SINGLE OR DMA_MODE_ADDR_INC OR dma_local_channel channel) OR
     (if direction = DMA_IO_TO_MEMORY then DMA_MODE_WRITE else DMA_MODE_READ)"

text \<open>The programming of an accepted request.\<close>

definition dma_program :: "u8 \<Rightarrow> u32 \<Rightarrow> u32 \<Rightarrow> dma_transfer_direction \<Rightarrow> port_writes option" where
  "dma_program channel phys_addr sz direction = do {
     w1 \<leftarrow> dma_channel_mask channel;
     let (count, phys_addr) = (if dma_channel_is_16bit channel then (drop_bit 1 sz - 1, drop_bit 1 phys_addr) else (sz - 1, phys_addr));
     ap \<leftarrow> arr_get dma_addr_ports (unat channel);
     cp \<leftarrow> arr_get dma_count_ports (unat channel);
     pp \<leftarrow> arr_get dma_page_ports (unat channel);
     w2 \<leftarrow> dma_channel_unmask channel;
     Some (w1 @ dma_reset_flip_flop channel @
       [(ap, ucast (phys_addr AND 0xff)), (ap, ucast (drop_bit 8 phys_addr AND 0xff))] @
       dma_reset_flip_flop channel @
       [(cp, ucast (count AND 0xff)), (cp, ucast (drop_bit 8 count AND 0xff)), (pp, ucast (drop_bit 16 phys_addr AND 0xff)),
        (dma_mode_port channel, dma_mode channel direction)] @ w2)
   }"

definition dma_channel_setup :: "u8 \<Rightarrow> u32 \<Rightarrow> u32 \<Rightarrow> dma_transfer_direction \<Rightarrow> 'a kernel_scheme \<Rightarrow> (bool \<times> port_writes) option" where
  "dma_channel_setup channel addr sz direction s =
     (if \<not> dma_channel_valid channel \<or> addr = 0 \<or> sz = 0 then Some (False, [])
      else do {
        r \<leftarrow> dma_region_contiguous addr sz s;
        case r of None \<Rightarrow> Some (False, [])
        | Some phys_addr \<Rightarrow>
            if \<not> dma_boundary_ok channel phys_addr sz then Some (False, [])
            else do { w \<leftarrow> dma_program channel phys_addr sz direction; Some (True, w) }
      })"

definition dma_init_channel :: "u8 \<Rightarrow> port_writes option" where
  "dma_init_channel channel = (if \<not> dma_channel_valid channel then Some []
     else do { w \<leftarrow> dma_channel_mask channel; Some (w @ dma_reset_flip_flop channel) })"

definition dma_init :: "port_writes option" where
  "dma_init = foldl (\<lambda>r channel. do { w \<leftarrow> r; w' \<leftarrow> dma_init_channel (word_of_nat channel); Some (w @ w') }) (Some []) [0..<unat DMA_CHANNEL_CNT]"

subsection \<open>Contiguous buffers\<close>

text \<open>Inside a page the physical address follows the virtual one.\<close>

lemma page_add:
  fixes a b :: nat
  assumes "a mod 4096 + b < 4096"
  shows "(a + b) div 4096 = a div 4096" "(a + b) mod 4096 = a mod 4096 + b" "(a + b) div 2 ^ 22 = a div 2 ^ 22" "a < 2 ^ 32 \<Longrightarrow> a + b < 2 ^ 32"
proof -
  have e: "a + b = (a mod 4096 + b) + 4096 * (a div 4096)" by simp
  show q: "(a + b) div 4096 = a div 4096" unfolding e div_mult_self2 [OF zero_neq_numeral [symmetric]] using assms by simp
  show "(a + b) mod 4096 = a mod 4096 + b" unfolding e mod_mult_self2 using assms by simp
  have "x div 2 ^ 22 = x div 4096 div 1024" for x :: nat by (simp flip: div_mult2_eq)
  then show "(a + b) div 2 ^ 22 = a div 2 ^ 22" using q by metis
  assume "a < 2 ^ 32"
  then have "a div 4096 < 1048576" by simp
  then have "a + b < 4294967296" using e assms by linarith
  then show "a + b < 2 ^ 32" by simp
qed

lemma addr_v2p_in_page:
  assumes v: "addr_v2p v s = Some p" and d: "unat v mod 4096 + unat d < 4096"
  shows "addr_v2p (v + d) s = Some (p + d)"
proof -
  note pa = page_add [OF d]
  have u: "unat (v + d) = unat v + unat d" using pa(4) [OF unat_less_2p32] by (simp add: unat_word_ariths)
  have "PDE_IDX (v + d) = PDE_IDX v" "PTE_IDX (v + d) = PTE_IDX v"
    unfolding word_unat_eq_iff unat_PDE_IDX unat_PTE_IDX u pa(1,3) by simp_all
  then have "pte_ptr (v + d) = pte_ptr v" by (simp add: word_unat_eq_iff unat_pte_ptr)
  moreover have "unat ((v AND 0xfff) + d) = unat v mod 4096 + unat d" using d by (simp add: unat_word_ariths unat_low)
  then have "unat ((v + d) AND 0xfff) = unat ((v AND 0xfff) + d)" unfolding unat_low u pa(2) by simp
  then have "(v + d) AND 0xfff = (v AND 0xfff) + d" by (rule word_unat_eq_iff [THEN iffD2])
  ultimately show ?thesis using v by (auto simp: addr_v2p_def add.assoc split: bind_splits)
qed

lemma word_of_unat: "word_of_nat (unat (x :: u32)) = x"
  by simp

definition maps_to :: "u32 \<Rightarrow> u32 \<Rightarrow> nat \<Rightarrow> nat \<Rightarrow> 'a kernel_scheme \<Rightarrow> bool" where
  "maps_to vaddr start lo hi s \<longleftrightarrow> (\<forall>i. lo \<le> i \<longrightarrow> i < hi \<longrightarrow> addr_v2p (vaddr + word_of_nat i) s = Some (start + word_of_nat i))"

lemma maps_to_split:
  assumes "\<And>i. lo \<le> i \<Longrightarrow> i < lo + n \<Longrightarrow> addr_v2p (vaddr + word_of_nat i) s = Some (start + word_of_nat i)"
  shows "maps_to vaddr start lo hi s \<longleftrightarrow> maps_to vaddr start (lo + n) hi s"
proof
  assume r: "maps_to vaddr start (lo + n) hi s"
  show "maps_to vaddr start lo hi s" unfolding maps_to_def
  proof (intro allI impI)
    fix i assume i: "lo \<le> i" "i < hi"
    show "addr_v2p (vaddr + word_of_nat i) s = Some (start + word_of_nat i)"
      using assms [OF i(1)] r i(2) by (cases "i < lo + n") (simp_all add: maps_to_def)
  qed
qed (simp add: maps_to_def)

lemma contiguous_loop_maps:
  assumes "\<forall>i < unat sz. addr_v2p (vaddr + word_of_nat i) s \<noteq> None"
  shows "contiguous_loop vaddr sz start offset s = Some (maps_to vaddr start (unat offset) (unat sz) s)"
proof (induction "unat sz - unat offset" arbitrary: offset rule: less_induct)
  case less
  show ?case
  proof (cases "offset < sz")
    case False
    then show ?thesis by (simp add: contiguous_loop.simps [of vaddr sz start offset] maps_to_def word_less_nat_alt)
  next
    case True
    let ?c = "dma_chunk vaddr sz offset"
    have o: "unat offset < unat sz" using True by (simp add: word_less_nat_alt)
    note c = dma_chunk_advances [OF True, of vaddr] and cu = unat_dma_chunk [OF True, of vaddr]
    from assms o obtain p where p: "addr_v2p (vaddr + offset) s = Some p" by (metis not_None_eq word_of_unat)
    show ?thesis
    proof (cases "p = start + offset")
      case False
      then have "\<not> maps_to vaddr start (unat offset) (unat sz) s" using p o by (auto simp: maps_to_def)
      then show ?thesis using p True False by (simp add: contiguous_loop.simps [of vaddr sz start offset])
    next
      case eq: True
      have page: "addr_v2p (vaddr + word_of_nat i) s = Some (start + word_of_nat i)" if "unat offset \<le> i" "i < unat offset + unat ?c" for i
      proof -
        let ?d = "word_of_nat (i - unat offset) :: u32"
        have i: "word_of_nat i = offset + ?d" using that(1) by (metis le_add_diff_inverse of_nat_add word_of_unat)
        have "unat ?d = i - unat offset" using that c(3) unat_less_2p32 [of sz] by (simp add: unat_of_nat del: of_nat_diff)
        then have "unat (vaddr + offset) mod 4096 + unat ?d < 4096" using that cu by linarith
        from addr_v2p_in_page [OF p this] show ?thesis by (simp add: i eq add.assoc)
      qed
      have "maps_to vaddr start (unat offset) (unat sz) s \<longleftrightarrow> maps_to vaddr start (unat (offset + ?c)) (unat sz) s"
        unfolding c(1) by (rule maps_to_split) (rule page)
      moreover have "contiguous_loop vaddr sz start (offset + ?c) s = Some (maps_to vaddr start (unat (offset + ?c)) (unat sz) s)"
        by (rule less) (use c o in simp)
      ultimately show ?thesis using p True eq by (simp add: contiguous_loop.simps [of vaddr sz start offset])
    qed
  qed
qed

lemma dma_region_contiguous_maps:
  assumes m: "\<forall>i < unat sz. addr_v2p (vaddr + word_of_nat i) s \<noteq> None" and sz: "sz \<noteq> 0"
  obtains "\<And>p. \<not> maps_to vaddr p 0 (unat sz) s" "dma_region_contiguous vaddr sz s = Some None"
  | p where "maps_to vaddr p 0 (unat sz) s" "dma_region_contiguous vaddr sz s = Some (Some p)"
proof -
  have z: "0 < unat sz" using sz by (simp add: word_neq_0_conv word_less_nat_alt)
  with m obtain p where p: "addr_v2p vaddr s = Some p" by force
  have eq: "q = p" if "maps_to vaddr q 0 (unat sz) s" for q using that z p by (auto simp: maps_to_def)
  have r: "dma_region_contiguous vaddr sz s = Some (if maps_to vaddr p 0 (unat sz) s then Some p else None)"
    using p contiguous_loop_maps [OF m, of p 0] by (simp add: dma_region_contiguous_def)
  show ?thesis
  proof (cases "maps_to vaddr p 0 (unat sz) s")
    case True then show ?thesis using that(2) r by simp
  next
    case False then show ?thesis using that(1) r eq by auto
  qed
qed

subsection \<open>The limits of the controller\<close>

lemma unat_high_half: "unat (a AND 0xffff0000 :: u32) = unat a div 65536 * 65536"
proof -
  have "a AND 0xffff0000 = push_bit 16 (drop_bit 16 a)"
  proof -
    have m: "(0xffff0000 :: u32) = NOT (mask 16)" by (simp add: mask_eq_exp_minus_1)
    show ?thesis unfolding m
      by (rule bit_word_eqI) (auto simp: bit_and_iff bit_not_iff bit_mask_iff bit_push_bit_iff bit_drop_bit_eq)
  qed
  also have "\<dots> = a div 65536 * 65536" by (simp add: push_bit_eq_mult drop_bit_eq_div)
  also have "unat \<dots> = unat a div 65536 * 65536 mod 2 ^ 32" by (simp add: unat_word_ariths unat_div mod_mult_left_eq)
  also have "\<dots> = unat a div 65536 * 65536"
    using unat_less_2p32 [of a] by (intro mod_less) (meson div_times_less_eq_dividend le_less_trans)
  finally show ?thesis .
qed

lemma boundary_8bit:
  assumes c: "channel < 4" and sz: "sz \<noteq> 0"
  shows "dma_boundary_ok channel p sz \<longleftrightarrow>
    unat p + unat sz \<le> 2 ^ 24 \<and> unat p div 65536 = (unat p + unat sz - 1) div 65536"
proof -
  have n16: "\<not> dma_channel_is_16bit channel" using c by (simp add: dma_channel_is_16bit_def word_le_nat_alt word_less_nat_alt)
  have z: "0 < unat sz" using sz by (simp add: word_neq_0_conv word_less_nat_alt)
  show ?thesis
  proof (cases "unat p + unat sz \<le> 2 ^ 32")
    case True
    have "unat (p + sz - 1) = unat p + unat sz - 1"
    proof (cases "unat p + unat sz = 2 ^ 32")
      case True
      then have "p + sz = 0" by (simp add: word_unat_eq_iff unat_word_ariths)
      then show ?thesis using True by (simp add: unsigned_minus_1_eq_mask mask_eq_exp_minus_1)
    next
      case False
      then have "unat (p + sz) = unat p + unat sz" using \<open>unat p + unat sz \<le> 2 ^ 32\<close> by (simp add: unat_word_ariths)
      then show ?thesis using z by (subst unat_sub) (simp_all add: word_le_nat_alt)
    qed
    then show ?thesis using sz n16 z
      by (auto simp: dma_boundary_ok_def Let_def DMA_MAX_PHYS_ADDR_def word_le_nat_alt word_less_nat_alt word_unat_eq_iff unat_high_half)
  next
    case False
    then have "unat (p + sz) = unat p + unat sz - 2 ^ 32" using unat_less_2p32 [of p] unat_less_2p32 [of sz]
      by (simp add: unat_word_ariths mod_if)
    moreover have "unat (p + sz - 1) = unat (p + sz) - 1" using calculation False by (subst unat_sub) (simp_all add: word_le_nat_alt)
    ultimately have "p + sz - 1 < p" using unat_less_2p32 [of sz] False by (simp add: word_less_nat_alt)
    then show ?thesis using False by (auto simp: dma_boundary_ok_def Let_def)
  qed
qed

subsection \<open>A channel of the controller\<close>

record dma_chip =
  flip_flop :: bool
  base_addr :: u16
  base_count :: u16
  chan_page :: u8
  chan_mode :: u8
  masked :: bool

definition half :: "bool \<Rightarrow> u8 \<Rightarrow> u16 \<Rightarrow> u16" where
  "half ff v r = (if ff then (r AND 0xff) OR push_bit 8 (ucast v) else (r AND 0xff00) OR ucast v)"

definition chip_write :: "u8 \<Rightarrow> u16 \<times> u8 \<Rightarrow> dma_chip \<Rightarrow> dma_chip" where
  "chip_write ch = (\<lambda>(port, v) c.
     if port = dma_clear_ff_port ch then c\<lparr>flip_flop := False\<rparr>
     else if port = dma_mask_port ch then (if v AND 3 = ch AND 3 then c\<lparr>masked := bit v 2\<rparr> else c)
     else if port = dma_mode_port ch then (if v AND 3 = ch AND 3 then c\<lparr>chan_mode := v\<rparr> else c)
     else if port = dma_addr_ports ! unat ch then c\<lparr>base_addr := half (flip_flop c) v (base_addr c), flip_flop := \<not> flip_flop c\<rparr>
     else if port = dma_count_ports ! unat ch then c\<lparr>base_count := half (flip_flop c) v (base_count c), flip_flop := \<not> flip_flop c\<rparr>
     else if port = dma_page_ports ! unat ch then c\<lparr>chan_page := v\<rparr>
     else c)"

definition chip_run :: "u8 \<Rightarrow> port_writes \<Rightarrow> dma_chip \<Rightarrow> dma_chip" where
  "chip_run ch w c = foldl (\<lambda>c x. chip_write ch x c) c w"

text \<open>The address the channel puts on the bus first.\<close>

definition bus_addr :: "u8 \<Rightarrow> dma_chip \<Rightarrow> nat" where
  "bus_addr ch c = (if ch < 4 then unat (chan_page c) * 65536 + unat (base_addr c)
     else unat (chan_page c) div 2 * 131072 + 2 * unat (base_addr c))"

lemma half_halves: "half True (ucast (drop_bit 8 p AND 0xff)) (half False (ucast (p AND 0xff)) r) = ucast (p :: u32)"
proof -
  have m: "(0xff :: u32) = mask 8" "(0xff :: u16) = mask 8" "(0xff00 :: u16) = NOT (mask 8)" by (simp_all add: mask_eq_exp_minus_1)
  show ?thesis unfolding half_def m
    by (rule bit_word_eqI) (auto simp: bit_and_iff bit_or_iff bit_not_iff bit_mask_iff bit_push_bit_iff bit_drop_bit_eq bit_ucast_iff)
qed

lemma unat_page_byte: "unat (ucast (drop_bit 16 p AND 0xff :: u32) :: u8) = unat p div 65536 mod 256"
proof -
  have "(drop_bit 16 p AND 0xff :: u32) = take_bit 8 (drop_bit 16 p)"
    by (simp add: take_bit_eq_mask mask_eq_exp_minus_1)
  then show ?thesis by (simp add: unsigned_ucast_eq take_bit_eq_mod drop_bit_eq_div unat_mod unat_div)
qed

lemma small_words: "channel < 4 \<Longrightarrow> channel = 0 \<or> channel = 1 \<or> channel = 2 \<or> channel = (3 :: u8)"
  "5 \<le> channel \<Longrightarrow> channel < 8 \<Longrightarrow> channel = 5 \<or> channel = 6 \<or> channel = (7 :: u8)"
  by (auto simp: word_unat_eq_iff word_less_nat_alt word_le_nat_alt)

lemmas dma_ports = dma_channel_valid_def DMA_CHANNEL_CNT_def dma_mask_port_def dma_mode_port_def dma_clear_ff_port_def
  dma_addr_ports_def dma_count_ports_def dma_page_ports_def DMA1_MASK_REG_def DMA1_MODE_REG_def DMA1_CLEAR_FF_REG_def
  DMA2_MASK_REG_def DMA2_MODE_REG_def DMA2_CLEAR_FF_REG_def dma_local_channel_def

lemma dma_channels:
  assumes "channel < 4 \<or> 5 \<le> channel \<and> channel < (8 :: u8)"
  obtains "channel = 0" | "channel = 1" | "channel = 2" | "channel = 3" | "channel = 5" | "channel = 6" | "channel = 7"
  using small_words [of channel] assms by blast

lemma mode_channel:
  assumes "channel < 4 \<or> 5 \<le> channel \<and> channel < 8"
  shows "dma_mode channel dir AND 3 = channel AND 3"
  using assms by (cases rule: dma_channels) (auto simp: dma_mode_def DMA_MODE_SINGLE_def DMA_MODE_ADDR_INC_def DMA_MODE_WRITE_def DMA_MODE_READ_def dma_local_channel_def)

lemma dma_program_chip:
  assumes "channel < 4 \<or> 5 \<le> channel \<and> channel < 8"
  shows "\<exists>w. dma_program channel p sz dir = Some w \<and> chip_run channel w c =
    (let q = (if 5 \<le> channel then drop_bit 1 p else p); n = (if 5 \<le> channel then drop_bit 1 sz - 1 else sz - 1) in
     c\<lparr>base_addr := ucast q, base_count := ucast n, flip_flop := False, chan_page := ucast (drop_bit 16 q AND 0xff),
       chan_mode := dma_mode channel dir, masked := False\<rparr>)"
  using assms
  by (cases rule: dma_channels) (simp_all add: dma_program_def dma_channel_mask_def dma_channel_unmask_def dma_reset_flip_flop_def
      dma_channel_is_16bit_def dma_ports chip_run_def chip_write_def half_halves mode_channel Let_def word_le_nat_alt del: drop_bit_drop_bit)

text \<open>C19: \<open>dma_channel_setup\<close> on an 8-bit channel, for a buffer whose page tables exist. It returns; it accepts exactly the
  buffers that are not empty, not at \<^verbatim>\<open>NULL\<close>, contiguous in physical memory byte by byte, below 16 MB and inside one 64 KB
  page; it writes no port when it refuses. Whatever the controller held before, after the writes of an accepted request
  the channel starts at the physical address of the buffer, moves exactly the bytes of the buffer, has the mode
  asked for and is unmasked.\<close>

theorem dma_setup_programs:
  assumes ch: "channel < 4" and m: "\<forall>i < unat sz. addr_v2p (addr + word_of_nat i) s \<noteq> None"
  shows "\<exists>ok w. dma_channel_setup channel addr sz dir s = Some (ok, w) \<and>
    (ok \<longleftrightarrow> addr \<noteq> 0 \<and> sz \<noteq> 0 \<and> (\<exists>p. maps_to addr p 0 (unat sz) s \<and> unat p + unat sz \<le> 2 ^ 24 \<and>
       unat p div 65536 = (unat p + unat sz - 1) div 65536)) \<and>
    (\<not> ok \<longrightarrow> w = []) \<and>
    (ok \<longrightarrow> maps_to addr (word_of_nat (bus_addr channel (chip_run channel w c))) 0 (unat sz) s \<and>
       unat (base_count (chip_run channel w c)) + 1 = unat sz \<and> \<not> masked (chip_run channel w c) \<and>
       chan_mode (chip_run channel w c) = dma_mode channel dir)"
proof -
  have v: "dma_channel_valid channel" using ch by (auto simp: dma_channel_valid_def DMA_CHANNEL_CNT_def word_less_nat_alt)
  show ?thesis
  proof (cases "addr = 0 \<or> sz = 0")
    case True
    then show ?thesis by (auto simp: dma_channel_setup_def)
  next
    case False
    then have sz: "sz \<noteq> 0" by simp
    from m sz show ?thesis
    proof (cases rule: dma_region_contiguous_maps)
      case 1
      then show ?thesis using False v by (auto simp: dma_channel_setup_def)
    next
      case (2 p)
      have uniq: "q = p" if "maps_to addr q 0 (unat sz) s" for q using that 2(1) sz by (auto simp: maps_to_def word_neq_0_conv word_less_nat_alt)
      note b = boundary_8bit [OF ch sz, of p]
      show ?thesis
      proof (cases "dma_boundary_ok channel p sz")
        case bad: False
        then have "\<nexists>q. maps_to addr q 0 (unat sz) s \<and> unat q + unat sz \<le> 2 ^ 24 \<and> unat q div 65536 = (unat q + unat sz - 1) div 65536"
          using b uniq by blast
        then show ?thesis using False v 2(2) bad by (intro exI [of _ False] exI [of _ "[]"]) (simp add: dma_channel_setup_def)
      next
        case True
        from dma_program_chip [of channel p sz dir c] ch obtain w where w: "dma_program channel p sz dir = Some w"
          "chip_run channel w c = c\<lparr>base_addr := ucast p, base_count := ucast (sz - 1), flip_flop := False,
             chan_page := ucast (drop_bit 16 p AND 0xff), chan_mode := dma_mode channel dir, masked := False\<rparr>"
          by (auto simp: Let_def word_le_nat_alt word_less_nat_alt)
        have z: "0 < unat sz" using sz by (simp add: word_neq_0_conv word_less_nat_alt)
        have lim: "unat p + unat sz \<le> 2 ^ 24" "unat p div 65536 = (unat p + unat sz - 1) div 65536" using b True by simp_all
        have "bus_addr channel (chip_run channel w c) = unat p"
        proof -
          have "unat p div 65536 mod 256 = unat p div 65536" using lim(1) z by simp
          then show ?thesis using ch w(2) unat_page_byte [of p] by (simp add: bus_addr_def unsigned_ucast_eq take_bit_eq_mod)
        qed
        moreover have "unat (base_count (chip_run channel w c)) + 1 = unat sz"
        proof -
          have "unat p + unat sz - 1 < unat p div 65536 * 65536 + 65536" unfolding lim(2) using dividend_less_times_div [of 65536 "unat p + unat sz - 1"] by simp
          then have "unat sz - 1 < 65536" using div_times_less_eq_dividend [of "unat p" 65536] z by linarith
          moreover have "unat (sz - 1) = unat sz - 1" using z by (subst unat_sub) (simp_all add: word_le_nat_alt)
          ultimately show ?thesis using w(2) z by (simp add: unsigned_ucast_eq take_bit_eq_mod)
        qed
        ultimately show ?thesis using False v 2 b True w by (intro exI [of _ True] exI [of _ w]) (auto simp: dma_channel_setup_def)
      qed
    qed
  qed
qed

text \<open>A buffer in the page through which the page directory sees itself, and a controller in the middle of another request.\<close>

definition demo_chip :: dma_chip where
  "demo_chip = \<lparr>flip_flop = True, base_addr = 0x1234, base_count = 0xffff, chan_page = 0xff, chan_mode = 0, masked = False\<rparr>"

lemma demo_maps:
  assumes "i < 512"
  shows "addr_v2p (0xfffff000 + word_of_nat i) demo_mkernel = Some (0x100000 + word_of_nat i)"
proof (rule addr_v2p_in_page)
  show "addr_v2p 0xfffff000 demo_mkernel = Some 0x100000"
    by (simp add: addr_v2p_def vread_def walk_def pte_ptr_def pde_phys_def pte_phys_def PDE_IDX_def PTE_IDX_def frame_def present_def demo_mkernel_fields)
qed (use assms in \<open>simp add: unat_of_nat\<close>)

theorem dma_setup_programs_witness:
  "\<exists>w. dma_channel_setup 2 0xfffff000 512 DMA_IO_TO_MEMORY demo_mkernel = Some (True, w) \<and>
     word_of_nat (bus_addr 2 (chip_run 2 w demo_chip)) = (0x100000 :: u32) \<and> unat (base_count (chip_run 2 w demo_chip)) = 511"
proof -
  have m: "\<forall>i < unat (512 :: u32). addr_v2p (0xfffff000 + word_of_nat i) demo_mkernel \<noteq> None" using demo_maps by simp
  have mt: "maps_to 0xfffff000 0x100000 0 (unat (512 :: u32)) demo_mkernel" using demo_maps by (simp add: maps_to_def)
  have "\<exists>p. maps_to 0xfffff000 p 0 (unat (512 :: u32)) demo_mkernel \<and> unat p + unat (512 :: u32) \<le> 2 ^ 24 \<and>
    unat p div 65536 = (unat p + unat (512 :: u32) - 1) div 65536"
    by (rule exI [of _ "0x100000"]) (use mt in simp)
  moreover have "(2 :: u8) < 4" by simp
  from dma_setup_programs [OF this m, of DMA_IO_TO_MEMORY demo_chip] obtain ok w where
    w: "dma_channel_setup 2 0xfffff000 512 DMA_IO_TO_MEMORY demo_mkernel = Some (ok, w)"
      "ok \<longleftrightarrow> (0xfffff000 :: u32) \<noteq> 0 \<and> (512 :: u32) \<noteq> 0 \<and> (\<exists>p. maps_to 0xfffff000 p 0 (unat (512 :: u32)) demo_mkernel \<and>
        unat p + unat (512 :: u32) \<le> 2 ^ 24 \<and> unat p div 65536 = (unat p + unat (512 :: u32) - 1) div 65536)"
      "ok \<longrightarrow> maps_to 0xfffff000 (word_of_nat (bus_addr 2 (chip_run 2 w demo_chip))) 0 (unat (512 :: u32)) demo_mkernel \<and>
        unat (base_count (chip_run 2 w demo_chip)) + 1 = unat (512 :: u32)" by blast
  ultimately have ok: "ok" by simp
  with w(3) have mb: "maps_to 0xfffff000 (word_of_nat (bus_addr 2 (chip_run 2 w demo_chip))) 0 (unat (512 :: u32)) demo_mkernel"
    and "unat (base_count (chip_run 2 w demo_chip)) = 511" by simp_all
  moreover have "addr_v2p (0xfffff000 + word_of_nat 0) demo_mkernel = Some (word_of_nat (bus_addr 2 (chip_run 2 w demo_chip)) + word_of_nat 0)"
    by (rule mb [unfolded maps_to_def, rule_format]) simp_all
  ultimately show ?thesis using w(1) ok demo_maps [of 0] by auto
qed

text \<open>On the 16-bit channels the page register is written with the address shifted by 17 bits. The controller takes
  address lines 17 to 23 from bits 1 to 7 of that register, so the channel starts at the address asked for only below 128 KB;
  every other transfer goes to the wrong memory.\<close>

theorem dma_16bit_page_shifted:
  assumes "5 \<le> channel" and "channel < 8" and "unat p < 2 ^ 24" and "even (unat p)"
  shows "\<exists>w. dma_program channel p sz dir = Some w \<and> (bus_addr channel (chip_run channel w c) = unat p \<longleftrightarrow> unat p < 131072)"
proof -
  from dma_program_chip [of channel p sz dir c] assms(1,2) obtain w where w: "dma_program channel p sz dir = Some w"
    "base_addr (chip_run channel w c) = ucast (drop_bit 1 p)" "chan_page (chip_run channel w c) = ucast (drop_bit 16 (drop_bit 1 p) AND 0xff)"
    by (auto simp: Let_def simp del: drop_bit_drop_bit)
  have h: "unat (drop_bit 1 p) = unat p div 2" by (simp add: drop_bit_eq_div unat_div)
  have "unat (base_addr (chip_run channel w c)) = unat p div 2 mod 65536" using w(2) h by (simp add: unsigned_ucast_eq take_bit_eq_mod)
  moreover have "unat (chan_page (chip_run channel w c)) = unat p div 131072 mod 256"
    unfolding w(3) unat_page_byte h by (simp flip: div_mult2_eq)
  moreover have "unat p div 131072 mod 256 = unat p div 131072" using assms(3) by simp
  moreover have "\<not> channel < 4" using assms(1) by (simp add: word_le_nat_alt word_less_nat_alt)
  ultimately have "bus_addr channel (chip_run channel w c) = unat p div 131072 div 2 * 131072 + 2 * (unat p div 2 mod 65536)"
    by (simp add: bus_addr_def)
  moreover have "2 * (unat p div 2 mod 65536) = unat p mod 131072" using assms(4) by (metis (no_types) dvd_mult_div_cancel mult_mod_right mult_2 numeral_Bit0)
  moreover have "unat p = unat p div 131072 * 131072 + unat p mod 131072" by simp
  ultimately have "bus_addr channel (chip_run channel w c) = unat p \<longleftrightarrow> unat p div 131072 div 2 = unat p div 131072" by (metis add_right_cancel mult_cancel2 zero_neq_numeral)
  also have "\<dots> \<longleftrightarrow> unat p < 131072" by (metis div_eq_0_iff div_less div_less_dividend gr0I less_irrefl one_less_numeral_iff semiring_norm(76) zero_neq_numeral)
  finally show ?thesis using w(1) by blast
qed

theorem dma_16bit_page_shifted_witness:
  "\<exists>w. dma_program 5 0x20000 512 DMA_IO_TO_MEMORY = Some w \<and> bus_addr 5 (chip_run 5 w demo_chip) \<noteq> 0x20000"
  using dma_16bit_page_shifted [of 5 "0x20000" 512 DMA_IO_TO_MEMORY demo_chip] by auto

end
