(* ===== verification/Ide.thy ===== *)
theory Ide
  imports Fs_Disk Page_Pool
begin

text \<open>
  \<^verbatim>\<open>device/ide.c\<close>: the driver of the ATA disks. What it stands on is the record \<open>platform\<close>: the port instructions of
  \<^verbatim>\<open>lib/kernel/io.h\<close>, memory at virtual addresses, \<^verbatim>\<open>addr_v2p\<close>, \<^verbatim>\<open>mtime_sleep\<close>, pages and heap memory, and the arrival of an interrupt. A
  disk is named by the index of its channel and its index there. A driver that waits on \<^verbatim>\<open>disk_done\<close> holds the lock of its
  channel, so no other thread changes the channel until the interrupt comes; \<open>p_irq\<close> gives the platform at that moment,
  or \<open>None\<close> when no interrupt ever comes. \<^verbatim>\<open>printk\<close> and the names of disks and partitions are left out. \<open>None\<close> is a failed
  \<^verbatim>\<open>ASSERT\<close>, a \<^verbatim>\<open>PANIC\<close>, or a thread that waits for ever.
\<close>

subsection \<open>Registers and bits\<close>

definition BIT_STAT_BSY :: u8 where "BIT_STAT_BSY = 0x80"
definition BIT_STAT_DF :: u8 where "BIT_STAT_DF = 0x20"
definition BIT_STAT_DRQ :: u8 where "BIT_STAT_DRQ = 0x08"
definition BIT_STAT_ERR :: u8 where "BIT_STAT_ERR = 0x01"
definition BIT_DEV_MBS :: u8 where "BIT_DEV_MBS = 0xa0"
definition BIT_DEV_LBA :: u8 where "BIT_DEV_LBA = 0x40"
definition BIT_DEV_DEV :: u8 where "BIT_DEV_DEV = 0x10"
definition CMD_IDENTIFY :: u8 where "CMD_IDENTIFY = 0xec"
definition CMD_READ_SECTOR :: u8 where "CMD_READ_SECTOR = 0x20"
definition CMD_WRITE_SECTOR :: u8 where "CMD_WRITE_SECTOR = 0x30"
definition CMD_READ_DMA :: u8 where "CMD_READ_DMA = 0xc8"
definition CMD_WRITE_DMA :: u8 where "CMD_WRITE_DMA = 0xca"
definition PCI_CONFIG_ADDR :: u16 where "PCI_CONFIG_ADDR = 0xcf8"
definition PCI_CONFIG_DATA :: u16 where "PCI_CONFIG_DATA = 0xcfc"
definition PCI_CLASS_MASS_STORAGE :: u32 where "PCI_CLASS_MASS_STORAGE = 0x01"
definition PCI_SUBCLASS_IDE :: u32 where "PCI_SUBCLASS_IDE = 0x01"
definition PCI_REG_CLASS_CODE :: u8 where "PCI_REG_CLASS_CODE = 0x08"
definition PCI_REG_COMMAND :: u8 where "PCI_REG_COMMAND = 0x04"
definition PCI_REG_BAR4 :: u8 where "PCI_REG_BAR4 = 0x20"
definition PCI_CMD_IO_SPACE :: u32 where "PCI_CMD_IO_SPACE = 0x01"
definition PCI_CMD_BUS_MASTER :: u32 where "PCI_CMD_BUS_MASTER = 0x04"
definition BM_CMD_START :: u8 where "BM_CMD_START = 0x01"
definition BM_CMD_READ :: u8 where "BM_CMD_READ = 0x08"
definition BM_STATUS_ERROR :: u8 where "BM_STATUS_ERROR = 0x02"
definition BM_STATUS_INTR :: u8 where "BM_STATUS_INTR = 0x04"
definition IDE_PRDT_MAX_ENTRIES :: nat where "IDE_PRDT_MAX_ENTRIES = 256"
definition IDE_PRD_EOT :: u16 where "IDE_PRD_EOT = 0x8000"
definition IDE_DMA_MAX_BYTES :: u32 where "IDE_DMA_MAX_BYTES = 256 * 512"

record ide_disk =
  dev_no :: u8
  dma_supported :: bool
  prim_parts :: "partition list"
  logic_parts :: "partition list"

record ide_channel =
  port_base :: u16
  irq_no :: u8
  dma_base :: u16
  prdt_phys :: u32
  prdt :: u32
  dma_enabled :: bool
  ch_lock :: lock
  expecting_intr :: bool
  disk_done :: semaphore
  devices :: "ide_disk list"

definition reg_data :: "ide_channel \<Rightarrow> u16" where "reg_data c = port_base c + 0"
definition reg_error :: "ide_channel \<Rightarrow> u16" where "reg_error c = port_base c + 1"
definition reg_feature :: "ide_channel \<Rightarrow> u16" where "reg_feature c = reg_error c"
definition reg_sect_cnt :: "ide_channel \<Rightarrow> u16" where "reg_sect_cnt c = port_base c + 2"
definition reg_lba_l :: "ide_channel \<Rightarrow> u16" where "reg_lba_l c = port_base c + 3"
definition reg_lba_m :: "ide_channel \<Rightarrow> u16" where "reg_lba_m c = port_base c + 4"
definition reg_lba_h :: "ide_channel \<Rightarrow> u16" where "reg_lba_h c = port_base c + 5"
definition reg_dev :: "ide_channel \<Rightarrow> u16" where "reg_dev c = port_base c + 6"
definition reg_status :: "ide_channel \<Rightarrow> u16" where "reg_status c = port_base c + 7"
definition reg_cmd :: "ide_channel \<Rightarrow> u16" where "reg_cmd c = reg_status c"
definition reg_bm_cmd :: "ide_channel \<Rightarrow> u16" where "reg_bm_cmd c = dma_base c + 0"
definition reg_bm_status :: "ide_channel \<Rightarrow> u16" where "reg_bm_status c = dma_base c + 2"
definition reg_bm_prdt :: "ide_channel \<Rightarrow> u16" where "reg_bm_prdt c = dma_base c + 4"

subsection \<open>The platform\<close>

text \<open>\<open>p_insw\<close> and \<open>p_outsw\<close> move words between a port and memory, \<open>p_irq\<close> is told the vector waited for.\<close>

record 'e platform =
  p_inb :: "u16 \<Rightarrow> 'e \<Rightarrow> u8 \<times> 'e"
  p_outb :: "u16 \<Rightarrow> u8 \<Rightarrow> 'e \<Rightarrow> 'e"
  p_inl :: "u16 \<Rightarrow> 'e \<Rightarrow> u32 \<times> 'e"
  p_outl :: "u16 \<Rightarrow> u32 \<Rightarrow> 'e \<Rightarrow> 'e"
  p_insw :: "u16 \<Rightarrow> u32 \<Rightarrow> nat \<Rightarrow> 'e \<Rightarrow> 'e"
  p_outsw :: "u16 \<Rightarrow> u32 \<Rightarrow> nat \<Rightarrow> 'e \<Rightarrow> 'e"
  p_load :: "u32 \<Rightarrow> 'e \<Rightarrow> u8"
  p_store :: "u32 \<Rightarrow> u8 list \<Rightarrow> 'e \<Rightarrow> 'e"
  p_v2p :: "u32 \<Rightarrow> 'e \<Rightarrow> u32"
  p_sleep :: "u32 \<Rightarrow> 'e \<Rightarrow> 'e"
  p_pages :: "u32 \<Rightarrow> 'e \<Rightarrow> u32 \<times> 'e"
  p_malloc :: "u32 \<Rightarrow> 'e \<Rightarrow> u32 \<times> 'e"
  p_free :: "u32 \<Rightarrow> 'e \<Rightarrow> 'e"
  p_irq :: "u8 \<Rightarrow> 'e \<Rightarrow> 'e option"

text \<open>The state: the platform, the thread that runs the driver, the channels, and the list of partitions found, each by
  channel, disk, whether it is a logical one, and index.\<close>

record 'e ide =
  env :: 'e
  thr :: kernel
  channel_cnt :: u8
  channels :: "ide_channel list"
  partition_list :: "(nat \<times> nat \<times> bool \<times> nat) list"

definition chan :: "nat \<Rightarrow> 'e ide \<Rightarrow> ide_channel option" where
  "chan ci s = arr_get (channels s) ci"

definition upd_chan :: "nat \<Rightarrow> (ide_channel \<Rightarrow> ide_channel) \<Rightarrow> 'e ide \<Rightarrow> 'e ide" where
  "upd_chan ci f s = s\<lparr>channels := (channels s)[ci := f (channels s ! ci)]\<rparr>"

definition device :: "nat \<Rightarrow> nat \<Rightarrow> 'e ide \<Rightarrow> ide_disk option" where
  "device ci di s = do { c \<leftarrow> chan ci s; arr_get (devices c) di }"

definition ch_outb :: "'e platform \<Rightarrow> nat \<Rightarrow> (ide_channel \<Rightarrow> u16) \<Rightarrow> u8 \<Rightarrow> 'e ide \<Rightarrow> 'e ide option" where
  "ch_outb m ci r v s = do { c \<leftarrow> chan ci s; Some (s\<lparr>env := p_outb m (r c) v (env s)\<rparr>) }"

definition ch_inb :: "'e platform \<Rightarrow> nat \<Rightarrow> (ide_channel \<Rightarrow> u16) \<Rightarrow> 'e ide \<Rightarrow> (u8 \<times> 'e ide) option" where
  "ch_inb m ci r s = do { c \<leftarrow> chan ci s; let (v, e) = p_inb m (r c) (env s); Some (v, s\<lparr>env := e\<rparr>) }"

definition ch_lock_acquire :: "nat \<Rightarrow> 'e ide \<Rightarrow> 'e ide option" where
  "ch_lock_acquire ci s = do {
     c \<leftarrow> chan ci s;
     (l, t) \<leftarrow> lock_acquire (ch_lock c) (thr s);
     Some (upd_chan ci (\<lambda>c. c\<lparr>ch_lock := l\<rparr>) (s\<lparr>thr := t\<rparr>))
   }"

definition ch_lock_release :: "nat \<Rightarrow> 'e ide \<Rightarrow> 'e ide option" where
  "ch_lock_release ci s = do {
     c \<leftarrow> chan ci s;
     (l, t) \<leftarrow> lock_release (ch_lock c) (thr s);
     Some (upd_chan ci (\<lambda>c. c\<lparr>ch_lock := l\<rparr>) (s\<lparr>thr := t\<rparr>))
   }"

subsection \<open>Commands\<close>

definition select_disk :: "'e platform \<Rightarrow> nat \<Rightarrow> nat \<Rightarrow> 'e ide \<Rightarrow> 'e ide option" where
  "select_disk m ci di s = do {
     hd' \<leftarrow> device ci di s;
     let reg_device = BIT_DEV_MBS OR BIT_DEV_LBA;
     let reg_device = (if dev_no hd' = 1 then reg_device OR BIT_DEV_DEV else reg_device);
     ch_outb m ci reg_dev reg_device s
   }"

definition select_sector :: "'e platform \<Rightarrow> nat \<Rightarrow> nat \<Rightarrow> u32 \<Rightarrow> u8 \<Rightarrow> 'e ide \<Rightarrow> 'e ide option" where
  "select_sector m ci di lba cnt s = do {
     ASSERT (lba \<le> max_lba);
     hd' \<leftarrow> device ci di s;
     s \<leftarrow> ch_outb m ci reg_sect_cnt cnt s;
     s \<leftarrow> ch_outb m ci reg_lba_l (ucast lba) s;
     s \<leftarrow> ch_outb m ci reg_lba_m (ucast (drop_bit 8 lba)) s;
     s \<leftarrow> ch_outb m ci reg_lba_h (ucast (drop_bit 16 lba)) s;
     ch_outb m ci reg_dev (BIT_DEV_MBS OR BIT_DEV_LBA OR (if dev_no hd' = 1 then BIT_DEV_DEV else 0) OR ucast (drop_bit 24 lba)) s
   }"

definition cmd_out :: "'e platform \<Rightarrow> nat \<Rightarrow> u8 \<Rightarrow> 'e ide \<Rightarrow> 'e ide option" where
  "cmd_out m ci cmd s = ch_outb m ci reg_cmd cmd (upd_chan ci (\<lambda>c. c\<lparr>expecting_intr := True\<rparr>) s)"

subsection \<open>The interrupt\<close>

definition intr_hd_handler :: "'e platform \<Rightarrow> u8 \<Rightarrow> 'e ide \<Rightarrow> 'e ide option" where
  "intr_hd_handler m irq s = do {
     ASSERT (irq = 0x2e \<or> irq = 0x2f);
     let ch_no = unat (irq - 0x2e);
     c \<leftarrow> chan ch_no s;
     ASSERT (irq_no c = irq);
     if expecting_intr c then do {
       let (woken, sem) = up_post (disk_done c);
       ASSERT (1 \<le> sem_value sem);
       let s = upd_chan ch_no (\<lambda>c. c\<lparr>expecting_intr := False, disk_done := sem\<rparr>) s;
       (_, s) \<leftarrow> ch_inb m ch_no reg_status s;
       Some s
     }
     else Some s
   }"

text \<open>\<^verbatim>\<open>sema_down(&channel->disk_done)\<close>: a caller that finds 0 sleeps until the interrupt, and then tests again.\<close>

definition down_done :: "'e platform \<Rightarrow> nat \<Rightarrow> 'e ide \<Rightarrow> 'e ide option" where
  "down_done m ci s = do {
     c \<leftarrow> chan ci s;
     case down_try (running (thr s)) (disk_done c) of
       Inr sem \<Rightarrow> Some (upd_chan ci (\<lambda>c. c\<lparr>disk_done := sem\<rparr>) s)
     | Inl sem \<Rightarrow> do {
         let s = upd_chan ci (\<lambda>c. c\<lparr>disk_done := sem\<rparr>) s;
         e \<leftarrow> p_irq m (irq_no c) (env s);
         s \<leftarrow> intr_hd_handler m (irq_no c) (s\<lparr>env := e\<rparr>);
         c \<leftarrow> chan ci s;
         case down_try (running (thr s)) (disk_done c) of
           Inr sem \<Rightarrow> Some (upd_chan ci (\<lambda>c. c\<lparr>disk_done := sem\<rparr>) s)
         | Inl _ \<Rightarrow> None
       }
   }"

subsection \<open>Waiting\<close>

text \<open>\<^verbatim>\<open>while (time_limit -= 10 >= 0)\<close> subtracts the value of the comparison, 1, and goes on until the rest is 0. The loops
  start with 30000, so the case 0 does not come up.\<close>

primrec busy_loop :: "'e platform \<Rightarrow> nat \<Rightarrow> nat \<Rightarrow> 'e ide \<Rightarrow> (bool \<times> 'e ide) option" where
  "busy_loop m ci 0 s = None"
| "busy_loop m ci (Suc time_limit) s =
     (if time_limit = 0 then Some (False, s)
      else do {
        (st, s) \<leftarrow> ch_inb m ci reg_status s;
        if st AND BIT_STAT_BSY = 0 then do {
          (st, s) \<leftarrow> ch_inb m ci reg_status s;
          Some (st AND BIT_STAT_DRQ \<noteq> 0, s)
        }
        else busy_loop m ci time_limit (s\<lparr>env := p_sleep m 10 (env s)\<rparr>)
      })"

definition busy_wait :: "'e platform \<Rightarrow> nat \<Rightarrow> 'e ide \<Rightarrow> (bool \<times> 'e ide) option" where
  "busy_wait m ci s = busy_loop m ci (30 * 1000) s"

primrec dma_wait_loop :: "'e platform \<Rightarrow> nat \<Rightarrow> nat \<Rightarrow> 'e ide \<Rightarrow> (bool \<times> 'e ide) option" where
  "dma_wait_loop m ci 0 s = None"
| "dma_wait_loop m ci (Suc time_limit) s =
     (if time_limit = 0 then Some (False, s)
      else do {
        (st, s) \<leftarrow> ch_inb m ci reg_status s;
        if st AND BIT_STAT_BSY = 0 then Some (st AND (BIT_STAT_ERR OR BIT_STAT_DF) = 0, s)
        else dma_wait_loop m ci time_limit (s\<lparr>env := p_sleep m 10 (env s)\<rparr>)
      })"

definition dma_wait :: "'e platform \<Rightarrow> nat \<Rightarrow> 'e ide \<Rightarrow> (bool \<times> 'e ide) option" where
  "dma_wait m ci s = dma_wait_loop m ci (30 * 1000) s"

subsection \<open>Bus-master transfers\<close>

text \<open>The bytes of a \<^verbatim>\<open>struct ide_prd_entry\<close>.\<close>

definition prd_bytes :: "u32 \<Rightarrow> u16 \<Rightarrow> u16 \<Rightarrow> u8 list" where
  "prd_bytes phys_addr byte_count flags =
     [ucast phys_addr, ucast (drop_bit 8 phys_addr), ucast (drop_bit 16 phys_addr), ucast (drop_bit 24 phys_addr),
      ucast byte_count, ucast (drop_bit 8 byte_count), ucast flags, ucast (drop_bit 8 flags)]"

definition prd_chunk :: "u32 \<Rightarrow> u32 \<Rightarrow> u32" where
  "prd_chunk phys_addr bytes_left =
     (let page_left = 4096 - (phys_addr AND 0xfff) in if bytes_left < page_left then bytes_left else page_left)"

lemma unat_prd_chunk: "unat (prd_chunk p n) = min (unat n) (4096 - unat p mod 4096)"
proof -
  have "unat (0x1000 - (p AND 0xfff)) = 4096 - unat p mod 4096"
    using unat_low [of p] by (subst unat_sub) (simp_all add: word_le_nat_alt)
  then show ?thesis by (simp add: prd_chunk_def Let_def word_less_nat_alt min_def)
qed

text \<open>The loop of \<^verbatim>\<open>ide_build_prdt\<close>: \<open>False\<close> when the table is full, and the number of entries written.\<close>

function prdt_loop :: "'e platform \<Rightarrow> u32 \<Rightarrow> u32 \<Rightarrow> u32 \<Rightarrow> nat \<Rightarrow> 'e \<Rightarrow> bool \<times> nat \<times> 'e" where
  "prdt_loop m table vaddr bytes_left prd_idx e =
     (if 0 < bytes_left then
        let phys_addr = p_v2p m vaddr e;
            chunk = prd_chunk phys_addr bytes_left
        in if IDE_PRDT_MAX_ENTRIES \<le> prd_idx then (False, prd_idx, e)
           else prdt_loop m table (vaddr + chunk) (bytes_left - chunk) (prd_idx + 1)
             (p_store m (table + word_of_nat (8 * prd_idx)) (prd_bytes phys_addr (if chunk = 0x10000 then 0 else ucast chunk) 0) e)
      else (True, prd_idx, e))"
  by pat_completeness auto
termination
proof (relation "measure (\<lambda>(m, t, v, n, i, e). unat n)")
  fix m :: "'e platform" and table vaddr bytes_left phys_addr chunk :: u32 and prd_idx :: nat and e :: 'e
  assume a: "0 < bytes_left" "chunk = prd_chunk phys_addr bytes_left"
  have "unat chunk = min (unat bytes_left) (4096 - unat phys_addr mod 4096)" using a(2) unat_prd_chunk by simp
  moreover have "0 < unat bytes_left" using a(1) by (simp add: word_less_nat_alt)
  ultimately have "0 < unat chunk" "unat chunk \<le> unat bytes_left" by simp_all
  then have "unat (bytes_left - chunk) < unat bytes_left" by (simp add: unat_sub word_le_nat_alt)
  then show "((m, table, vaddr + chunk, bytes_left - chunk, prd_idx + 1,
      p_store m (table + word_of_nat (8 * prd_idx)) (prd_bytes phys_addr (if chunk = 0x10000 then 0 else ucast chunk) 0) e),
      m, table, vaddr, bytes_left, prd_idx, e) \<in> measure (\<lambda>(m, t, v, n, i, e). unat n)" by simp
qed simp

declare prdt_loop.simps [simp del]

definition ide_build_prdt :: "'e platform \<Rightarrow> nat \<Rightarrow> u32 \<Rightarrow> u32 \<Rightarrow> 'e ide \<Rightarrow> (bool \<times> 'e ide) option" where
  "ide_build_prdt m ci buf bytes s = do {
     c \<leftarrow> chan ci s;
     ASSERT (prdt c \<noteq> 0);
     let e = p_store m (prdt c) (replicate 4096 0) (env s);
     let (ok, prd_idx, e) = prdt_loop m (prdt c) buf bytes 0 e;
     if \<not> ok then Some (False, s\<lparr>env := e\<rparr>)
     else do {
       ASSERT (1 \<le> prd_idx);
       let e = p_store m (prdt c + word_of_nat (8 * (prd_idx - 1) + 6)) [ucast IDE_PRD_EOT, ucast (drop_bit 8 IDE_PRD_EOT)] e;
       Some (True, s\<lparr>env := e\<rparr>)
     }
   }"

definition ide_dma_channel_init :: "'e platform \<Rightarrow> nat \<Rightarrow> u16 \<Rightarrow> 'e ide \<Rightarrow> 'e ide option" where
  "ide_dma_channel_init m ci bmide_base s = do {
     c \<leftarrow> chan ci s;
     let (pages, e) = p_pages m 1 (env s);
     let s = upd_chan ci (\<lambda>c. c\<lparr>dma_base := bmide_base + word_of_nat (ci * 8), prdt := pages\<rparr>) (s\<lparr>env := e\<rparr>);
     if pages = 0 then Some (upd_chan ci (\<lambda>c. c\<lparr>dma_enabled := False, dma_base := 0\<rparr>) s)
     else do {
       let s = upd_chan ci (\<lambda>c. c\<lparr>prdt_phys := p_v2p m pages e, dma_enabled := True\<rparr>) s;
       s \<leftarrow> ch_outb m ci reg_bm_cmd 0x00 s;
       ch_outb m ci reg_bm_status (BM_STATUS_ERROR OR BM_STATUS_INTR) s
     }
   }"

definition ide_dma_transfer :: "'e platform \<Rightarrow> nat \<Rightarrow> nat \<Rightarrow> u32 \<Rightarrow> u32 \<Rightarrow> u8 \<Rightarrow> bool \<Rightarrow> 'e ide \<Rightarrow> (bool \<times> 'e ide) option" where
  "ide_dma_transfer m ci di lba buf cnt is_write s = do {
     c \<leftarrow> chan ci s;
     hd' \<leftarrow> device ci di s;
     let bytes = (if cnt = 0 then IDE_DMA_MAX_BYTES else ucast cnt * 512);
     let bm_cmd = (if is_write then 0 else BM_CMD_READ);
     if \<not> dma_enabled c \<or> \<not> dma_supported hd' then Some (False, s)
     else do {
       (ok, s) \<leftarrow> ide_build_prdt m ci buf bytes s;
       if \<not> ok then Some (False, s)
       else do {
         s \<leftarrow> ch_outb m ci reg_bm_cmd bm_cmd s;
         let s = s\<lparr>env := p_outl m (reg_bm_prdt c) (prdt_phys c) (env s)\<rparr>;
         s \<leftarrow> ch_outb m ci reg_bm_status (BM_STATUS_ERROR OR BM_STATUS_INTR) s;
         s \<leftarrow> select_disk m ci di s;
         s \<leftarrow> select_sector m ci di lba cnt s;
         s \<leftarrow> ch_outb m ci reg_feature 0x00 s;
         s \<leftarrow> cmd_out m ci (if is_write then CMD_WRITE_DMA else CMD_READ_DMA) s;
         s \<leftarrow> ch_outb m ci reg_bm_cmd (bm_cmd OR BM_CMD_START) s;
         s \<leftarrow> down_done m ci s;
         s \<leftarrow> ch_outb m ci reg_bm_cmd bm_cmd s;
         (bm_status, s) \<leftarrow> ch_inb m ci reg_bm_status s;
         s \<leftarrow> ch_outb m ci reg_bm_status (BM_STATUS_ERROR OR BM_STATUS_INTR) s;
         if bm_status AND BM_STATUS_ERROR \<noteq> 0 \<or> bm_status AND BM_STATUS_INTR = 0 then Some (False, s)
         else dma_wait m ci s
       }
     }
   }"

subsection \<open>Reading and writing\<close>

definition size_in_byte :: "u8 \<Rightarrow> nat" where
  "size_in_byte cnt = (if cnt = 0 then 256 * 512 else unat cnt * 512)"

definition read_from_sector :: "'e platform \<Rightarrow> nat \<Rightarrow> u32 \<Rightarrow> u8 \<Rightarrow> 'e ide \<Rightarrow> 'e ide option" where
  "read_from_sector m ci buf cnt s = do {
     c \<leftarrow> chan ci s;
     Some (s\<lparr>env := p_insw m (reg_data c) buf (size_in_byte cnt div 2) (env s)\<rparr>)
   }"

definition write2sector :: "'e platform \<Rightarrow> nat \<Rightarrow> u32 \<Rightarrow> u8 \<Rightarrow> 'e ide \<Rightarrow> 'e ide option" where
  "write2sector m ci buf cnt s = do {
     c \<leftarrow> chan ci s;
     Some (s\<lparr>env := p_outsw m (reg_data c) buf (size_in_byte cnt div 2) (env s)\<rparr>)
   }"

text \<open>One round of each loop: \<open>secs_op\<close> sectors at \<open>lba\<close> and at the address \<open>buf\<close>.\<close>

definition read_secs :: "'e platform \<Rightarrow> nat \<Rightarrow> nat \<Rightarrow> u32 \<Rightarrow> u32 \<Rightarrow> u32 \<Rightarrow> 'e ide \<Rightarrow> 'e ide option" where
  "read_secs m ci di lba buf secs_op s = do {
     c \<leftarrow> chan ci s;
     hd' \<leftarrow> device ci di s;
     if dma_enabled c \<and> dma_supported hd' then do {
       (ok, s) \<leftarrow> ide_dma_transfer m ci di lba buf (ucast secs_op) False s;
       ASSERT ok;
       Some s
     }
     else do {
       s \<leftarrow> select_sector m ci di lba (ucast secs_op) s;
       s \<leftarrow> cmd_out m ci CMD_READ_SECTOR s;
       s \<leftarrow> down_done m ci s;
       (ok, s) \<leftarrow> busy_wait m ci s;
       ASSERT ok;
       read_from_sector m ci buf (ucast secs_op) s
     }
   }"

definition write_secs :: "'e platform \<Rightarrow> nat \<Rightarrow> nat \<Rightarrow> u32 \<Rightarrow> u32 \<Rightarrow> u32 \<Rightarrow> 'e ide \<Rightarrow> 'e ide option" where
  "write_secs m ci di lba buf secs_op s = do {
     c \<leftarrow> chan ci s;
     hd' \<leftarrow> device ci di s;
     if dma_enabled c \<and> dma_supported hd' then do {
       (ok, s) \<leftarrow> ide_dma_transfer m ci di lba buf (ucast secs_op) True s;
       ASSERT ok;
       Some s
     }
     else do {
       s \<leftarrow> select_sector m ci di lba (ucast secs_op) s;
       s \<leftarrow> cmd_out m ci CMD_WRITE_SECTOR s;
       (ok, s) \<leftarrow> busy_wait m ci s;
       ASSERT ok;
       s \<leftarrow> write2sector m ci buf (ucast secs_op) s;
       down_done m ci s
     }
   }"

definition secs_op :: "u32 \<Rightarrow> u32 \<Rightarrow> u32" where
  "secs_op secs_done cnt = (if secs_done + 256 \<le> cnt then 256 else cnt - secs_done)"

partial_function (option) ide_read_loop :: "'e platform \<Rightarrow> nat \<Rightarrow> nat \<Rightarrow> u32 \<Rightarrow> u32 \<Rightarrow> u32 \<Rightarrow> u32 \<Rightarrow> 'e ide \<Rightarrow> 'e ide option" where
  [code]: "ide_read_loop m ci di lba buf cnt secs_done s =
     (if secs_done < cnt then do {
        s \<leftarrow> read_secs m ci di (lba + secs_done) (buf + secs_done * 512) (secs_op secs_done cnt) s;
        ide_read_loop m ci di lba buf cnt (secs_done + secs_op secs_done cnt) s
      }
      else Some s)"

partial_function (option) ide_write_loop :: "'e platform \<Rightarrow> nat \<Rightarrow> nat \<Rightarrow> u32 \<Rightarrow> u32 \<Rightarrow> u32 \<Rightarrow> u32 \<Rightarrow> 'e ide \<Rightarrow> 'e ide option" where
  [code]: "ide_write_loop m ci di lba buf cnt secs_done s =
     (if secs_done < cnt then do {
        s \<leftarrow> write_secs m ci di (lba + secs_done) (buf + secs_done * 512) (secs_op secs_done cnt) s;
        ide_write_loop m ci di lba buf cnt (secs_done + secs_op secs_done cnt) s
      }
      else Some s)"

definition ide_read :: "'e platform \<Rightarrow> nat \<Rightarrow> nat \<Rightarrow> u32 \<Rightarrow> u32 \<Rightarrow> u32 \<Rightarrow> 'e ide \<Rightarrow> 'e ide option" where
  "ide_read m ci di lba buf cnt s = do {
     ASSERT (lba \<le> max_lba);
     ASSERT (0 < cnt);
     s \<leftarrow> ch_lock_acquire ci s;
     s \<leftarrow> select_disk m ci di s;
     s \<leftarrow> ide_read_loop m ci di lba buf cnt 0 s;
     ch_lock_release ci s
   }"

definition ide_write :: "'e platform \<Rightarrow> nat \<Rightarrow> nat \<Rightarrow> u32 \<Rightarrow> u32 \<Rightarrow> u32 \<Rightarrow> 'e ide \<Rightarrow> 'e ide option" where
  "ide_write m ci di lba buf cnt s = do {
     ASSERT (lba \<le> max_lba);
     ASSERT (0 < cnt);
     s \<leftarrow> ch_lock_acquire ci s;
     s \<leftarrow> select_disk m ci di s;
     s \<leftarrow> ide_write_loop m ci di lba buf cnt 0 s;
     ch_lock_release ci s
   }"

subsection \<open>Finding the bus master\<close>

definition pci_addr :: "u8 \<Rightarrow> u8 \<Rightarrow> u8 \<Rightarrow> u8 \<Rightarrow> u32" where
  "pci_addr bus dev fnc reg = 0x80000000 OR push_bit 16 (ucast bus) OR push_bit 11 (ucast dev) OR push_bit 8 (ucast fnc) OR
     ucast (reg AND 0xfc)"

definition pci_config_read_dword :: "'e platform \<Rightarrow> u8 \<Rightarrow> u8 \<Rightarrow> u8 \<Rightarrow> u8 \<Rightarrow> 'e \<Rightarrow> u32 \<times> 'e" where
  "pci_config_read_dword m bus dev fnc reg e = p_inl m PCI_CONFIG_DATA (p_outl m PCI_CONFIG_ADDR (pci_addr bus dev fnc reg) e)"

definition pci_config_write_dword :: "'e platform \<Rightarrow> u8 \<Rightarrow> u8 \<Rightarrow> u8 \<Rightarrow> u8 \<Rightarrow> u32 \<Rightarrow> 'e \<Rightarrow> 'e" where
  "pci_config_write_dword m bus dev fnc reg v e = p_outl m PCI_CONFIG_DATA v (p_outl m PCI_CONFIG_ADDR (pci_addr bus dev fnc reg) e)"

text \<open>The functions of one device, in order; \<open>None\<close> when the inner loop ends without a return.\<close>

primrec pci_functions :: "'e platform \<Rightarrow> u8 \<Rightarrow> u8 list \<Rightarrow> 'e \<Rightarrow> u16 option \<times> 'e" where
  "pci_functions m dev [] e = (None, e)"
| "pci_functions m dev (fnc # fs) e =
     (let (vendor_device, e) = pci_config_read_dword m 0 dev fnc 0x00 e
      in if vendor_device AND 0xffff = 0xffff then (if fnc = 0 then (None, e) else pci_functions m dev fs e)
         else let (class_reg, e) = pci_config_read_dword m 0 dev fnc PCI_REG_CLASS_CODE e
           in if drop_bit 24 class_reg AND 0xff \<noteq> PCI_CLASS_MASS_STORAGE \<or> drop_bit 16 class_reg AND 0xff \<noteq> PCI_SUBCLASS_IDE
              then pci_functions m dev fs e
              else let (cmd_reg, e) = pci_config_read_dword m 0 dev fnc PCI_REG_COMMAND e;
                       e = pci_config_write_dword m 0 dev fnc PCI_REG_COMMAND (cmd_reg OR (PCI_CMD_IO_SPACE OR PCI_CMD_BUS_MASTER)) e;
                       (bar4, e) = pci_config_read_dword m 0 dev fnc PCI_REG_BAR4 e
                   in (Some (if bar4 AND 0x1 = 0 then 0 else ucast (bar4 AND 0xfff0)), e))"

primrec pci_devices :: "'e platform \<Rightarrow> u8 list \<Rightarrow> 'e \<Rightarrow> u16 \<times> 'e" where
  "pci_devices m [] e = (0, e)"
| "pci_devices m (dev # ds) e =
     (case pci_functions m dev [0, 1, 2, 3, 4, 5, 6, 7] e of (Some base, e) \<Rightarrow> (base, e) | (None, e) \<Rightarrow> pci_devices m ds e)"

definition pci_find_ide_bmibase :: "'e platform \<Rightarrow> 'e \<Rightarrow> u16 \<times> 'e" where
  "pci_find_ide_bmibase m e = pci_devices m (map word_of_nat [0..<32]) e"

subsection \<open>Identification\<close>

text \<open>The text fields of \<^verbatim>\<open>IDENTIFY\<close> have the bytes of each word exchanged.\<close>

fun swap_pairs_bytes :: "u8 list \<Rightarrow> u8 list" where
  "swap_pairs_bytes (a # b # bs) = b # a # swap_pairs_bytes bs"
| "swap_pairs_bytes bs = bs"

definition id_word :: "'e platform \<Rightarrow> u32 \<Rightarrow> nat \<Rightarrow> 'e \<Rightarrow> u16" where
  "id_word m id_info k e = ucast (p_load m (id_info + word_of_nat (2 * k)) e) OR push_bit 8 (ucast (p_load m (id_info + word_of_nat (2 * k + 1)) e))"

definition upd_dev :: "nat \<Rightarrow> nat \<Rightarrow> (ide_disk \<Rightarrow> ide_disk) \<Rightarrow> 'e ide \<Rightarrow> 'e ide" where
  "upd_dev ci di f s = upd_chan ci (\<lambda>c. c\<lparr>devices := (devices c)[di := f (devices c ! di)]\<rparr>) s"

text \<open>\<open>id_info\<close> is the address of the buffer on the stack.\<close>

definition identify_disk :: "'e platform \<Rightarrow> u32 \<Rightarrow> nat \<Rightarrow> nat \<Rightarrow> 'e ide \<Rightarrow> 'e ide option" where
  "identify_disk m id_info ci di s = do {
     s \<leftarrow> ch_lock_acquire ci s;
     s \<leftarrow> select_disk m ci di s;
     s \<leftarrow> cmd_out m ci CMD_IDENTIFY s;
     s \<leftarrow> down_done m ci s;
     (ok, s) \<leftarrow> busy_wait m ci s;
     ASSERT ok;
     s \<leftarrow> read_from_sector m ci id_info 1 s;
     let sup = (id_word m id_info 49 (env s) AND 0x0100 \<noteq> 0 \<or> id_word m id_info 63 (env s) \<noteq> 0 \<or> id_word m id_info 88 (env s) \<noteq> 0);
     ch_lock_release ci (upd_dev ci di (\<lambda>d. d\<lparr>dma_supported := sup\<rparr>) s)
   }"

subsection \<open>Partition tables\<close>

text \<open>The entry \<open>k\<close> of the table in a boot sector, from offset 446 on.\<close>

definition pte_type :: "buf \<Rightarrow> nat \<Rightarrow> u8" where "pte_type bs k = bs (446 + 16 * k + 4)"
definition pte_start :: "buf \<Rightarrow> nat \<Rightarrow> u32" where "pte_start bs k = get32 bs (446 + 16 * k + 8)"
definition pte_secs :: "buf \<Rightarrow> nat \<Rightarrow> u32" where "pte_secs bs k = get32 bs (446 + 16 * k + 12)"

text \<open>What a scan has found: the tables of the disk and the counters, and the partitions appended to the list.\<close>

record scan =
  sc_prim :: "partition list"
  sc_logic :: "partition list"
  ext_lba_base :: u32
  p_no :: nat
  l_no :: nat
  sc_list :: "(bool \<times> nat) list"

definition set_extent :: "u32 \<Rightarrow> u32 \<Rightarrow> partition \<Rightarrow> partition" where
  "set_extent lba n p = p\<lparr>start_lba := lba, sec_cnt := n\<rparr>"

definition add_prim :: "u32 \<Rightarrow> u32 \<Rightarrow> scan \<Rightarrow> scan option" where
  "add_prim lba n x = do {
     p \<leftarrow> arr_get (sc_prim x) (p_no x);
     ps \<leftarrow> arr_set (sc_prim x) (p_no x) (set_extent lba n p);
     let x = x\<lparr>sc_prim := ps, sc_list := sc_list x @ [(False, p_no x)], p_no := p_no x + 1\<rparr>;
     ASSERT (p_no x < 4);
     Some x
   }"

definition add_logic :: "u32 \<Rightarrow> u32 \<Rightarrow> scan \<Rightarrow> scan option" where
  "add_logic lba n x = do {
     p \<leftarrow> arr_get (sc_logic x) (l_no x);
     ps \<leftarrow> arr_set (sc_logic x) (l_no x) (set_extent lba n p);
     Some (x\<lparr>sc_logic := ps, sc_list := sc_list x @ [(True, l_no x)], l_no := l_no x + 1\<rparr>)
   }"

text \<open>How a scan reaches boot sectors: \<open>acq lba\<close> allocates a buffer and reads the sector \<open>lba\<close> into it, \<open>rel\<close> frees it.\<close>

record 's boot_io =
  acq :: "u32 \<Rightarrow> 's \<Rightarrow> ((u32 \<times> buf) \<times> 's) option"
  rel :: "u32 \<Rightarrow> 's \<Rightarrow> 's option"

text \<open>What happens at an entry of the table: the table to scan next, the counters after it, or the end of this table.\<close>

datatype scan_step = Descend u32 scan | Next scan | Return scan

definition scan_entry :: "u32 \<Rightarrow> buf \<Rightarrow> nat \<Rightarrow> scan \<Rightarrow> scan_step option" where
  "scan_entry ext_lba bs k x =
     (if pte_type bs k = 0x05 \<or> pte_type bs k = 0x0f then
        Some (if ext_lba_base x \<noteq> 0 then Descend (pte_start bs k + ext_lba_base x) x
              else Descend (pte_start bs k) (x\<lparr>ext_lba_base := pte_start bs k\<rparr>))
      else if pte_type bs k \<noteq> 0 then
        if ext_lba = 0 then map_option Next (add_prim (ext_lba + pte_start bs k) (pte_secs bs k) x)
        else do {
          x \<leftarrow> add_logic (ext_lba + pte_start bs k) (pte_secs bs k) x;
          Some (if 8 \<le> l_no x then Return x else Next x)
        }
      else Some (Next x))"

text \<open>The loop over the entries from \<open>k\<close> on; the recursive call scans a whole table. A chain of tables that comes back to
  itself is scanned for ever.\<close>

partial_function (option) scan_entries :: "'s boot_io \<Rightarrow> u32 \<Rightarrow> u32 \<times> buf \<Rightarrow> nat \<Rightarrow> scan \<times> 's \<Rightarrow> (scan \<times> 's) option" where
  [code]: "scan_entries io ext_lba bs k xs =
     (if 4 \<le> k then do { s \<leftarrow> rel io (fst bs) (snd xs); Some (fst xs, s) }
      else do {
        r \<leftarrow> scan_entry ext_lba (snd bs) k (fst xs);
        case r of
          Descend lba x \<Rightarrow> do {
            bs' \<leftarrow> acq io lba (snd xs);
            xs \<leftarrow> scan_entries io lba (fst bs') 0 (x, snd bs');
            scan_entries io ext_lba bs (k + 1) xs
          }
        | Next x \<Rightarrow> scan_entries io ext_lba bs (k + 1) (x, snd xs)
        | Return x \<Rightarrow> do { s \<leftarrow> rel io (fst bs) (snd xs); Some (x, s) }
      })"

definition partition_scan :: "'s boot_io \<Rightarrow> u32 \<Rightarrow> scan \<Rightarrow> 's \<Rightarrow> (scan \<times> 's) option" where
  "partition_scan io ext_lba x s = do {
     (bs, s) \<leftarrow> acq io ext_lba s;
     scan_entries io ext_lba bs 0 (x, s)
   }"

subsection \<open>Start\<close>

text \<open>A boot sector in heap memory, for the disk \<open>(ci, di)\<close>; \<^verbatim>\<open>sys_malloc\<close> is not tested for \<^verbatim>\<open>NULL\<close>.\<close>

definition boot_read :: "'e platform \<Rightarrow> nat \<Rightarrow> nat \<Rightarrow> u32 \<Rightarrow> 'e ide \<Rightarrow> ((u32 \<times> buf) \<times> 'e ide) option" where
  "boot_read m ci di lba s = do {
     let (bs, e) = p_malloc m 512 (env s);
     s \<leftarrow> ide_read m ci di lba bs 1 (s\<lparr>env := e\<rparr>);
     Some ((bs, \<lambda>i. p_load m (bs + word_of_nat i) (env s)), s)
   }"

definition boot_free :: "'e platform \<Rightarrow> u32 \<Rightarrow> 'e ide \<Rightarrow> 'e ide option" where
  "boot_free m bs s = Some (s\<lparr>env := p_free m bs (env s)\<rparr>)"

definition init_disk :: "'e platform \<Rightarrow> u32 \<Rightarrow> nat \<Rightarrow> nat \<Rightarrow> 'e ide \<Rightarrow> 'e ide option" where
  "init_disk m id_info ci di s = do {
     let s = upd_dev ci di (\<lambda>d. d\<lparr>dev_no := word_of_nat di, dma_supported := False\<rparr>) s;
     s \<leftarrow> identify_disk m id_info ci di s;
     if di \<noteq> 0 then do {
       d \<leftarrow> device ci di s;
       (x, s) \<leftarrow> partition_scan \<lparr>acq = boot_read m ci di, rel = boot_free m\<rparr> 0
         \<lparr>sc_prim = prim_parts d, sc_logic = logic_parts d, ext_lba_base = 0, p_no = 0, l_no = 0, sc_list = []\<rparr> s;
       let s = upd_dev ci di (\<lambda>d. d\<lparr>prim_parts := sc_prim x, logic_parts := sc_logic x\<rparr>) s;
       Some (s\<lparr>partition_list := partition_list s @ map (\<lambda>(l, i). (ci, di, l, i)) (sc_list x)\<rparr>)
     }
     else Some s
   }"

definition init_channel :: "'e platform \<Rightarrow> u32 \<Rightarrow> u16 \<Rightarrow> nat \<Rightarrow> 'e ide \<Rightarrow> 'e ide option" where
  "init_channel m id_info bmide_base ci s = do {
     c \<leftarrow> chan ci s;
     let s = (if ci = 0 then upd_chan ci (\<lambda>c. c\<lparr>port_base := 0x1f0, irq_no := 0x20 + 14\<rparr>) s
              else if ci = 1 then upd_chan ci (\<lambda>c. c\<lparr>port_base := 0x170, irq_no := 0x20 + 15\<rparr>) s
              else s);
     let s = upd_chan ci (\<lambda>c. c\<lparr>dma_base := 0, prdt := 0, prdt_phys := 0, dma_enabled := False, expecting_intr := False,
       ch_lock := lock_init, disk_done := sema_init 0\<rparr>) s;
     s \<leftarrow> (if bmide_base \<noteq> 0 then ide_dma_channel_init m ci bmide_base s else Some s);
     s \<leftarrow> init_disk m id_info ci 0 s;
     init_disk m id_info ci 1 s
   }"

primrec init_channels :: "'e platform \<Rightarrow> u32 \<Rightarrow> u16 \<Rightarrow> nat list \<Rightarrow> 'e ide \<Rightarrow> 'e ide option" where
  "init_channels m id_info bmide_base [] s = Some s"
| "init_channels m id_info bmide_base (ci # cs) s = do {
     s \<leftarrow> init_channel m id_info bmide_base ci s;
     init_channels m id_info bmide_base cs s
   }"

text \<open>The byte at \<^verbatim>\<open>0x475\<close> is the number of disks the BIOS found. \<open>register_handler\<close> of \<open>Interrupt\<close> is not repeated here: the
  handler of both vectors is \<open>intr_hd_handler\<close>.\<close>

definition ide_init :: "'e platform \<Rightarrow> u32 \<Rightarrow> 'e ide \<Rightarrow> 'e ide option" where
  "ide_init m id_info s = do {
     let (bmide_base, e) = pci_find_ide_bmibase m (env s);
     let s = s\<lparr>env := e\<rparr>;
     let hd_cnt = p_load m 0x475 (env s);
     ASSERT (0 < hd_cnt);
     let s = s\<lparr>channel_cnt := ucast (DIV_ROUND_UP (ucast hd_cnt) 2), partition_list := []\<rparr>;
     init_channels m id_info bmide_base [0..<unat (channel_cnt s)] s
   }"

end
