(* ===== verification/Ide_Correct.thy ===== *)
theory Ide_Correct
  imports Ide Block_Alloc
begin

text \<open>
  The driver in front of an ATA controller. \<open>ata\<close> is a controller with two drives behind the ports from \<open>pb\<close> on: registers,
  the command in progress, the bytes of the drives, and the memory of the machine. It is busy for \<open>delay\<close> reads of its status
  after a command, has the data of a whole request ready at once, and raises its interrupt when a read can be
  fetched and when a write is done. On it \<open>ide_read\<close> and \<open>ide_write\<close> implement \<open>disk_read\<close> and \<open>disk_write\<close> of
  \<open>Fs_Disk\<close>, on which the file system is built.
\<close>

subsection \<open>The controller\<close>

datatype phase = Idle | Read_Data bool nat nat | Write_Data bool nat nat

record ata =
  r_cnt :: u8
  r_lba_l :: u8
  r_lba_m :: u8
  r_lba_h :: u8
  r_dev :: u8
  phase :: phase
  busy :: nat
  pending :: bool
  delay :: nat
  media :: "bool \<Rightarrow> nat \<Rightarrow> u8"
  mem :: "u32 \<Rightarrow> u8"

definition ata_lba :: "ata \<Rightarrow> u32" where
  "ata_lba e = ucast (r_lba_l e) OR push_bit 8 (ucast (r_lba_m e)) OR push_bit 16 (ucast (r_lba_h e)) OR
     push_bit 24 (ucast (r_dev e AND 0x0f))"

definition ata_secs :: "ata \<Rightarrow> nat" where
  "ata_secs e = (if r_cnt e = 0 then 256 else unat (r_cnt e))"

definition ata_command :: "u8 \<Rightarrow> ata \<Rightarrow> ata" where
  "ata_command cmd e =
     (if cmd = 0x20 then e\<lparr>phase := Read_Data (bit (r_dev e) 4) (unat (ata_lba e)) (ata_secs e), busy := delay e, pending := True\<rparr>
      else if cmd = 0x30 then e\<lparr>phase := Write_Data (bit (r_dev e) 4) (unat (ata_lba e)) (ata_secs e), busy := delay e, pending := False\<rparr>
      else e)"

definition ata_outb :: "u16 \<Rightarrow> u16 \<Rightarrow> u8 \<Rightarrow> ata \<Rightarrow> ata" where
  "ata_outb pb port v e =
     (if port = pb + 2 then e\<lparr>r_cnt := v\<rparr> else if port = pb + 3 then e\<lparr>r_lba_l := v\<rparr> else if port = pb + 4 then e\<lparr>r_lba_m := v\<rparr>
      else if port = pb + 5 then e\<lparr>r_lba_h := v\<rparr> else if port = pb + 6 then e\<lparr>r_dev := v\<rparr> else if port = pb + 7 then ata_command v e
      else e)"

definition ata_inb :: "u16 \<Rightarrow> u16 \<Rightarrow> ata \<Rightarrow> u8 \<times> ata" where
  "ata_inb pb port e =
     (if port = pb + 7 then
        if 0 < busy e then (0x80, e\<lparr>busy := busy e - 1\<rparr>) else (if phase e = Idle then 0x40 else 0x48, e)
      else (0, e))"

definition ata_insw :: "u16 \<Rightarrow> u16 \<Rightarrow> u32 \<Rightarrow> nat \<Rightarrow> ata \<Rightarrow> ata" where
  "ata_insw pb port addr n e = (case phase e of
     Read_Data d lba k \<Rightarrow>
       if port = pb \<and> 2 * n = 512 * k
       then e\<lparr>mem := (\<lambda>a. if unat (a - addr) < 512 * k then media e d (512 * lba + unat (a - addr)) else mem e a), phase := Idle\<rparr>
       else e
   | _ \<Rightarrow> e)"

definition ata_outsw :: "u16 \<Rightarrow> u16 \<Rightarrow> u32 \<Rightarrow> nat \<Rightarrow> ata \<Rightarrow> ata" where
  "ata_outsw pb port addr n e = (case phase e of
     Write_Data d lba k \<Rightarrow>
       if port = pb \<and> 2 * n = 512 * k
       then e\<lparr>media := (media e)(d := (\<lambda>i. if 512 * lba \<le> i \<and> i < 512 * (lba + k) then mem e (addr + word_of_nat (i - 512 * lba)) else media e d i)),
          phase := Idle, busy := delay e, pending := True\<rparr>
       else e
   | _ \<Rightarrow> e)"

text \<open>The rest of the platform is not used on this path: ports of other devices, pages and heap memory.\<close>

definition ata_platform :: "u16 \<Rightarrow> ata platform" where
  "ata_platform pb = \<lparr>p_inb = ata_inb pb, p_outb = ata_outb pb, p_inl = (\<lambda>port e. (0, e)), p_outl = (\<lambda>port v e. e),
     p_insw = ata_insw pb, p_outsw = ata_outsw pb, p_load = (\<lambda>a e. mem e a),
     p_store = (\<lambda>a bs e. e\<lparr>mem := (\<lambda>x. if unat (x - a) < length bs then bs ! unat (x - a) else mem e x)\<rparr>),
     p_v2p = (\<lambda>a e. a), p_sleep = (\<lambda>n e. e), p_pages = (\<lambda>n e. (0, e)), p_malloc = (\<lambda>n e. (0, e)), p_free = (\<lambda>a e. e),
     p_irq = (\<lambda>v e. if pending e then Some (e\<lparr>pending := False, busy := 0\<rparr>) else None)\<rparr>"

lemma ata_platform_sel [simp]:
  "p_inb (ata_platform pb) = ata_inb pb" "p_outb (ata_platform pb) = ata_outb pb" "p_insw (ata_platform pb) = ata_insw pb"
  "p_outsw (ata_platform pb) = ata_outsw pb" "p_sleep (ata_platform pb) = (\<lambda>n e. e)"
  "p_irq (ata_platform pb) v e = (if pending e then Some (e\<lparr>pending := False, busy := 0\<rparr>) else None)"
  by (simp_all add: ata_platform_def)

subsection \<open>A disk at rest\<close>

text \<open>Channel \<open>ci\<close> is the one with the ports from \<open>pb\<close> on and uses no bus master, its disk \<open>di\<close> is there, nobody holds its lock or waits,
  and no command is in progress.\<close>

definition quiet :: "ata \<Rightarrow> bool" where
  "quiet e \<longleftrightarrow> phase e = Idle \<and> busy e = 0 \<and> \<not> pending e \<and> delay e < 29998"

definition at_rest :: "u16 \<Rightarrow> nat \<Rightarrow> nat \<Rightarrow> ide_channel \<Rightarrow> bool" where
  "at_rest pb ci di c \<longleftrightarrow> ci < 2 \<and> port_base c = pb \<and> irq_no c = 0x2e + word_of_nat ci \<and> \<not> expecting_intr c \<and> disk_done c = sema_init 0 \<and>
     di < length (devices c) \<and> di < 2 \<and> dev_no (devices c ! di) = word_of_nat di \<and> \<not> (dma_enabled c \<and> dma_supported (devices c ! di))"

lemma list_update_same: "ci < length xs \<Longrightarrow> xs ! ci = c \<Longrightarrow> xs[ci := c] = xs"
  by auto

lemma down_done_quick:
  assumes c: "chan ci s = Some (c\<lparr>expecting_intr := True\<rparr>)" and r: "at_rest pb ci di c" and e: "pending (env s)"
  shows "down_done (ata_platform pb) ci s = Some (upd_chan ci (\<lambda>_. c) (s\<lparr>env := (env s)\<lparr>pending := False, busy := 0\<rparr>\<rparr>))"
proof -
  have ci: "ci < length (channels s)" "channels s ! ci = c\<lparr>expecting_intr := True\<rparr>" using c by (auto simp: chan_def arr_get_def split: if_splits)
  have irq: "irq_no c = 0x2e \<or> irq_no c = 0x2f" "unat (irq_no c - 0x2e) = ci" using r by (auto simp: at_rest_def less_2_cases_iff)
  have dd: "disk_done c = \<lparr>sem_value = 0, waiters = []\<rparr>" using r by (simp add: at_rest_def sema_init_def)
  have cc: "c\<lparr>expecting_intr := False, disk_done := \<lparr>sem_value = 0, waiters = []\<rparr>\<rparr> = c" using r by (simp add: at_rest_def sema_init_def)
  show ?thesis using c ci irq dd e r
    by (simp add: cc down_done_def down_try_def intr_hd_handler_def up_post_def upd_chan_def chan_def ch_inb_def at_rest_def ata_inb_def reg_status_def sema_init_def)
qed

lemma busy_loop_ends:
  assumes "chan ci s = Some c" and "port_base c = pb" and "phase (env s) \<noteq> Idle" and "busy (env s) = d" and "Suc d < n"
  shows "busy_loop (ata_platform pb) ci n s = Some (True, s\<lparr>env := (env s)\<lparr>busy := 0\<rparr>\<rparr>)"
  using assms
proof (induction d arbitrary: n s)
  case 0
  have k: "n = Suc (Suc (n - 2))" using 0(5) by simp
  have "(env s)\<lparr>busy := 0\<rparr> = env s" by (rule ata.equality) (simp_all add: 0(4))
  then have "s\<lparr>env := (env s)\<lparr>busy := 0\<rparr>\<rparr> = s" by simp
  moreover have "busy_loop (ata_platform pb) ci (Suc (Suc k)) s = Some (True, s)" for k using 0 by (simp add: ch_inb_def chan_def ata_inb_def reg_status_def BIT_STAT_BSY_def BIT_STAT_DRQ_def)
  ultimately show ?case using k by metis
next
  case (Suc d)
  define k where "k = n - 2"
  have k: "n = Suc (Suc k)" using Suc.prems(5) by (simp add: k_def)
  let ?s = "s\<lparr>env := (env s)\<lparr>busy := d\<rparr>\<rparr>"
  have "busy_loop (ata_platform pb) ci (Suc k) ?s = Some (True, ?s\<lparr>env := (env ?s)\<lparr>busy := 0\<rparr>\<rparr>)"
    by (rule Suc.IH) (use Suc.prems k in \<open>simp_all add: chan_def\<close>)
  moreover have "busy_loop (ata_platform pb) ci (Suc (Suc k)) s = busy_loop (ata_platform pb) ci (Suc k) ?s"
    using Suc.prems by (subst busy_loop.simps(2)) (simp add: ch_inb_def chan_def ata_inb_def reg_status_def BIT_STAT_BSY_def del: busy_loop.simps)
  ultimately show ?case using k by simp
qed

subsection \<open>The command block\<close>

lemma small_lba_bits: "lba \<le> max_lba \<Longrightarrow> drop_bit 24 lba = 0" "lba \<le> max_lba \<Longrightarrow> bit lba n \<Longrightarrow> n < 24"
proof -
  assume "lba \<le> max_lba"
  then have lt: "unat lba < 2 ^ 24" by (simp add: max_lba_def word_le_nat_alt)
  then show z: "drop_bit 24 lba = 0" by (simp add: drop_bit_eq_div word_unat_eq_iff unat_div)
  show "n < 24" if "bit lba n"
  proof (rule ccontr)
    assume "\<not> n < 24"
    then have "bit (drop_bit 24 lba) (n - 24)" using that by (simp add: bit_drop_bit_eq)
    then show False using z by simp
  qed
qed

lemma lba_bytes:
  assumes "lba \<le> max_lba"
  shows "ucast (ucast lba :: u8) OR push_bit 8 (ucast (ucast (drop_bit 8 lba) :: u8)) OR push_bit 16 (ucast (ucast (drop_bit 16 lba) :: u8)) = lba"
proof (rule bit_word_eqI)
  fix n assume "n < LENGTH(32)"
  consider "n < 8" | "8 \<le> n" "n < 16" | "16 \<le> n" "n < 24" | "24 \<le> n" by linarith
  then show "bit (ucast (ucast lba :: u8) OR push_bit 8 (ucast (ucast (drop_bit 8 lba) :: u8)) OR push_bit 16 (ucast (ucast (drop_bit 16 lba) :: u8)) :: u32) n = bit lba n"
    by cases (use small_lba_bits(2) [OF assms, of n] \<open>n < LENGTH(32)\<close> in \<open>auto simp: bit_or_iff bit_push_bit_iff bit_ucast_iff bit_drop_bit_eq\<close>)
qed

text \<open>After \<open>select_sector\<close> the registers describe the request.\<close>

definition addressed :: "nat \<Rightarrow> u32 \<Rightarrow> u8 \<Rightarrow> ata \<Rightarrow> ata" where
  "addressed di lba cnt e = e\<lparr>r_cnt := cnt, r_lba_l := ucast lba, r_lba_m := ucast (drop_bit 8 lba), r_lba_h := ucast (drop_bit 16 lba),
     r_dev := (if di = 1 then 0xf0 else 0xe0)\<rparr>"

lemma addressed_fields [simp]:
  "phase (addressed di lba cnt e) = phase e" "busy (addressed di lba cnt e) = busy e" "pending (addressed di lba cnt e) = pending e"
  "delay (addressed di lba cnt e) = delay e" "media (addressed di lba cnt e) = media e" "mem (addressed di lba cnt e) = mem e"
  by (simp_all add: addressed_def)

lemma select_sector_addressed:
  assumes c: "chan ci s = Some c" and r: "at_rest pb ci di c" and lba: "lba \<le> max_lba"
  shows "select_sector (ata_platform pb) ci di lba cnt s = Some (s\<lparr>env := addressed di lba cnt (env s)\<rparr>)"
proof -
  have d: "device ci di s = Some (devices c ! di)" "di = 0 \<or> di = 1" "dev_no (devices c ! di) = word_of_nat di" "port_base c = pb"
    using c r by (auto simp: device_def at_rest_def)
  then have dev: "dev_no (devices c ! di) = 1 \<longleftrightarrow> di = 1" by auto
  show ?thesis using c d(1,4) small_lba_bits(1) [OF lba] lba
    by (simp add: select_sector_def dev ch_outb_def chan_def ata_outb_def addressed_def reg_sect_cnt_def reg_lba_l_def reg_lba_m_def reg_lba_h_def
        reg_dev_def BIT_DEV_MBS_def BIT_DEV_LBA_def BIT_DEV_DEV_def)
qed

lemma addressed_request:
  assumes "lba \<le> max_lba" and "di < 2"
  shows "ata_lba (addressed di lba cnt e) = lba" "bit (r_dev (addressed di lba cnt e)) 4 \<longleftrightarrow> di = 1"
    "ata_secs (addressed di lba cnt e) = (if cnt = 0 then 256 else unat cnt)"
  using lba_bytes [OF assms(1)] assms(2) by (auto simp: ata_lba_def addressed_def ata_secs_def)

lemma secs_byte:
  assumes "1 \<le> unat n" and "unat (n :: u32) \<le> 256"
  shows "(if ucast n = (0 :: u8) then 256 else unat (ucast n :: u8)) = unat n" "size_in_byte (ucast n) = 512 * unat n"
proof -
  have "unat (ucast n :: u8) = unat n mod 256" by (simp add: unsigned_ucast_eq take_bit_eq_mod)
  then show 1: "(if ucast n = (0 :: u8) then 256 else unat (ucast n :: u8)) = unat n" using assms
    by (cases "unat n = 256") (auto simp: word_unat_eq_iff)
  then show "size_in_byte (ucast n) = 512 * unat n" by (auto simp: size_in_byte_def split: if_splits)
qed

subsection \<open>One round\<close>

lemma cmd_out_command:
  assumes "chan ci s = Some c" and "port_base c = pb"
  shows "cmd_out (ata_platform pb) ci cmd s = Some (upd_chan ci (\<lambda>_. c\<lparr>expecting_intr := True\<rparr>) (s\<lparr>env := ata_command cmd (env s)\<rparr>))"
  using assms by (auto simp: cmd_out_def ch_outb_def chan_def upd_chan_def ata_outb_def reg_cmd_def reg_status_def arr_get_def split: if_splits)

lemma upd_chan_chan: "ci < length (channels s) \<Longrightarrow> chan ci (upd_chan ci f s) = Some (f (channels s ! ci))"
  by (simp add: chan_def upd_chan_def)

lemma upd_chan_back: "chan ci s = Some c \<Longrightarrow> upd_chan ci (\<lambda>_. c) (upd_chan ci f s\<lparr>env := e\<rparr>) = s\<lparr>env := e\<rparr>"
  by (auto simp: chan_def upd_chan_def arr_get_def split: if_splits)

definition stored :: "u32 \<Rightarrow> nat \<Rightarrow> buf \<Rightarrow> (u32 \<Rightarrow> u8) \<Rightarrow> u32 \<Rightarrow> u8" where
  "stored addr n b M = (\<lambda>a. if unat (a - addr) < n then b (unat (a - addr)) else M a)"

lemma read_secs_reads:
  assumes c: "chan ci s = Some c" and r: "at_rest pb ci di c" and q: "quiet (env s)" and lba: "lba \<le> max_lba" and n: "1 \<le> unat n" "unat n \<le> 256"
  shows "\<exists>e. read_secs (ata_platform pb) ci di lba buf n s = Some (s\<lparr>env := e\<rparr>) \<and> quiet e \<and> delay e = delay (env s) \<and> media e = media (env s) \<and>
    mem e = stored buf (512 * unat n) (\<lambda>i. media (env s) (di = 1) (512 * unat lba + i)) (mem (env s))"
proof -
  let ?p = "ata_platform pb"
  have pb: "port_base c = pb" "di < 2" "device ci di s = Some (devices c ! di)" "\<not> (dma_enabled c \<and> dma_supported (devices c ! di))"
    using c r by (auto simp: at_rest_def device_def)
  define e1 where "e1 = addressed di lba (ucast n) (env s)"
  note req = addressed_request [OF lba pb(2), of "ucast n" "env s", folded e1_def] and sb = secs_byte [OF n]
  have 1: "select_sector ?p ci di lba (ucast n) s = Some (s\<lparr>env := e1\<rparr>)" unfolding e1_def by (rule select_sector_addressed [OF c r lba])
  have c1: "chan ci (s\<lparr>env := e1\<rparr>) = Some c" using c by (simp add: chan_def)
  define e2 where "e2 = e1\<lparr>phase := Read_Data (di = 1) (unat lba) (unat n), busy := delay e1, pending := True\<rparr>"
  have cmd: "ata_command CMD_READ_SECTOR e1 = e2" using req sb(1) by (simp add: ata_command_def CMD_READ_SECTOR_def e2_def)
  define s2 where "s2 = upd_chan ci (\<lambda>_. c\<lparr>expecting_intr := True\<rparr>) (s\<lparr>env := e2\<rparr>)"
  have 2: "cmd_out ?p ci CMD_READ_SECTOR (s\<lparr>env := e1\<rparr>) = Some s2" using cmd_out_command [OF c1 pb(1), of CMD_READ_SECTOR] cmd by (simp add: s2_def)
  have c2: "chan ci s2 = Some (c\<lparr>expecting_intr := True\<rparr>)" using c by (auto simp: s2_def chan_def upd_chan_def arr_get_def split: if_splits)
  define e3 where "e3 = e2\<lparr>pending := False, busy := 0\<rparr>"
  have "pending (env s2)" by (simp add: s2_def upd_chan_def e2_def)
  from down_done_quick [OF c2 r this] have 3: "down_done ?p ci s2 = Some (s\<lparr>env := e3\<rparr>)"
    using c by (auto simp: s2_def upd_chan_def e3_def chan_def arr_get_def split: if_splits)
  have c3: "chan ci (s\<lparr>env := e3\<rparr>) = Some c" using c by (simp add: chan_def)
  have "phase e3 \<noteq> Idle" "busy e3 = 0" by (simp_all add: e3_def e2_def)
  then have 4: "busy_wait ?p ci (s\<lparr>env := e3\<rparr>) = Some (True, s\<lparr>env := e3\<rparr>)"
    unfolding busy_wait_def using busy_loop_ends [OF c3 pb(1), of 0 "30 * 1000"] by (simp add: e3_def)
  define e4 where "e4 = ata_insw pb pb buf (256 * unat n) e3"
  have 5: "read_from_sector ?p ci buf (ucast n) (s\<lparr>env := e3\<rparr>) = Some (s\<lparr>env := e4\<rparr>)"
    using c3 pb(1) sb(2) by (simp add: read_from_sector_def reg_data_def e4_def)
  have "quiet e4 \<and> delay e4 = delay (env s) \<and> media e4 = media (env s) \<and>
    mem e4 = stored buf (512 * unat n) (\<lambda>i. media (env s) (di = 1) (512 * unat lba + i)) (mem (env s))"
    using q by (simp add: e4_def ata_insw_def e3_def e2_def e1_def quiet_def stored_def cong: if_cong)
  moreover have "read_secs ?p ci di lba buf n s = Some (s\<lparr>env := e4\<rparr>)" using c pb(3,4) 1 2 3 4 5 by (auto simp: read_secs_def)
  ultimately show ?thesis by blast
qed

lemma write_secs_writes:
  assumes c: "chan ci s = Some c" and r: "at_rest pb ci di c" and q: "quiet (env s)" and lba: "lba \<le> max_lba" and n: "1 \<le> unat n" "unat n \<le> 256"
  shows "\<exists>e. write_secs (ata_platform pb) ci di lba buf n s = Some (s\<lparr>env := e\<rparr>) \<and> quiet e \<and> delay e = delay (env s) \<and> mem e = mem (env s) \<and>
    media e = (media (env s))(di = 1 := (\<lambda>i. if 512 * unat lba \<le> i \<and> i < 512 * (unat lba + unat n)
      then mem (env s) (buf + word_of_nat (i - 512 * unat lba)) else media (env s) (di = 1) i))"
proof -
  let ?p = "ata_platform pb"
  have pb: "port_base c = pb" "di < 2" "device ci di s = Some (devices c ! di)" "\<not> (dma_enabled c \<and> dma_supported (devices c ! di))"
    using c r by (auto simp: at_rest_def device_def)
  define e1 where "e1 = addressed di lba (ucast n) (env s)"
  note req = addressed_request [OF lba pb(2), of "ucast n" "env s", folded e1_def] and sb = secs_byte [OF n]
  have 1: "select_sector ?p ci di lba (ucast n) s = Some (s\<lparr>env := e1\<rparr>)" unfolding e1_def by (rule select_sector_addressed [OF c r lba])
  have c1: "chan ci (s\<lparr>env := e1\<rparr>) = Some c" using c by (simp add: chan_def)
  define e2 where "e2 = e1\<lparr>phase := Write_Data (di = 1) (unat lba) (unat n), busy := delay e1, pending := False\<rparr>"
  have cmd: "ata_command CMD_WRITE_SECTOR e1 = e2" using req sb(1) by (simp add: ata_command_def CMD_WRITE_SECTOR_def e2_def)
  define s2 where "s2 e = upd_chan ci (\<lambda>_. c\<lparr>expecting_intr := True\<rparr>) (s\<lparr>env := e\<rparr>)" for e
  have s2: "chan ci (s2 e) = Some (c\<lparr>expecting_intr := True\<rparr>)" "env (s2 e) = e" "(s2 e)\<lparr>env := e'\<rparr> = s2 e'" for e e'
    using c by (auto simp: s2_def chan_def upd_chan_def arr_get_def split: if_splits)
  have 2: "cmd_out ?p ci CMD_WRITE_SECTOR (s\<lparr>env := e1\<rparr>) = Some (s2 e2)" using cmd_out_command [OF c1 pb(1), of CMD_WRITE_SECTOR] cmd by (simp add: s2_def)
  have "Suc (delay e1) < 30 * 1000" using q by (simp add: quiet_def e1_def)
  then have 3: "busy_wait ?p ci (s2 e2) = Some (True, s2 (e2\<lparr>busy := 0\<rparr>))"
    unfolding busy_wait_def using busy_loop_ends [OF s2(1), of pb e2 "delay e1" "30 * 1000"] pb(1) by (simp add: s2(2,3) e2_def)
  define e4 where "e4 = ata_outsw pb pb buf (256 * unat n) (e2\<lparr>busy := 0\<rparr>)"
  have 4: "write2sector ?p ci buf (ucast n) (s2 (e2\<lparr>busy := 0\<rparr>)) = Some (s2 e4)"
    using s2(1) [of "e2\<lparr>busy := 0\<rparr>"] pb(1) sb(2) by (simp add: write2sector_def reg_data_def e4_def s2(2,3))
  have "pending (env (s2 e4))" by (simp add: s2(2) e4_def ata_outsw_def e2_def)
  from down_done_quick [OF s2(1) r this] have 5: "down_done ?p ci (s2 e4) = Some (s\<lparr>env := e4\<lparr>pending := False, busy := 0\<rparr>\<rparr>)"
    using c by (auto simp: s2_def upd_chan_def chan_def arr_get_def split: if_splits)
  have "write_secs ?p ci di lba buf n s = Some (s\<lparr>env := e4\<lparr>pending := False, busy := 0\<rparr>\<rparr>)"
    using c pb(3,4) 1 2 3 4 5 by (auto simp: write_secs_def)
  moreover have "quiet (e4\<lparr>pending := False, busy := 0\<rparr>) \<and> delay (e4\<lparr>pending := False, busy := 0\<rparr>) = delay (env s) \<and>
    mem (e4\<lparr>pending := False, busy := 0\<rparr>) = mem (env s) \<and>
    media (e4\<lparr>pending := False, busy := 0\<rparr>) = (media (env s))(di = 1 := (\<lambda>i. if 512 * unat lba \<le> i \<and> i < 512 * (unat lba + unat n)
      then mem (env s) (buf + word_of_nat (i - 512 * unat lba)) else media (env s) (di = 1) i))"
    using q by (simp add: e4_def ata_outsw_def e2_def e1_def quiet_def cong: if_cong)
  ultimately show ?thesis by blast
qed

subsection \<open>The loops\<close>

lemma secs_op_step:
  assumes d: "unat secs_done < unat cnt" and n: "unat cnt \<le> 163840"
  shows "unat (secs_op secs_done cnt) = min 256 (unat cnt - unat secs_done)"
    "unat (secs_done + secs_op secs_done cnt) = unat secs_done + unat (secs_op secs_done cnt)"
proof -
  have "unat (secs_done + 256) = unat secs_done + 256" using assms by (simp add: unat_word_ariths)
  moreover have "unat (cnt - secs_done) = unat cnt - unat secs_done" using d by (intro unat_sub) (simp add: word_le_nat_alt)
  ultimately show 1: "unat (secs_op secs_done cnt) = min 256 (unat cnt - unat secs_done)" using d
    by (cases "unat secs_done + 256 \<le> unat cnt") (simp_all add: secs_op_def word_le_nat_alt)
  show "unat (secs_done + secs_op secs_done cnt) = unat secs_done + unat (secs_op secs_done cnt)"
    using 1 assms by (simp add: unat_word_ariths)
qed

lemma unat_lba_max: "lba \<le> max_lba \<longleftrightarrow> unat lba < 163840"
  by (auto simp: max_lba_def word_le_nat_alt)

lemma lba_advance: "unat lba + unat cnt \<le> 163840 \<Longrightarrow> unat d < unat cnt \<Longrightarrow> unat (lba + d) = unat lba + unat d \<and> lba + d \<le> max_lba"
  by (simp add: unat_lba_max unat_word_ariths)

text \<open>Storing a run of sectors behind another.\<close>

lemma stored_stored:
  assumes "n + k < 2 ^ 32"
  shows "stored (buf + word_of_nat n) k (\<lambda>i. b (n + i)) (stored buf n b M) = stored buf (n + k) b M"
proof
  fix a
  let ?d = "unat (a - buf)"
  have "unat (a - (buf + word_of_nat n)) = (if n \<le> ?d then ?d - n else 2 ^ 32 + ?d - n)"
  proof -
    have e: "a - (buf + word_of_nat n) = (a - buf) - word_of_nat n" by simp
    have "unat (word_of_nat n :: u32) = n" using assms by (simp add: unat_of_nat)
    then show ?thesis unfolding e using unat_sub_if' [of "a - buf" "word_of_nat n"] by auto
  qed
  then show "stored (buf + word_of_nat n) k (\<lambda>i. b (n + i)) (stored buf n b M) a = stored buf (n + k) b M a"
    using assms by (auto simp: stored_def)
qed

lemma chan_env: "chan ci (s\<lparr>env := e\<rparr>) = chan ci s"
  by (simp add: chan_def)

lemma byte_offset: "d * 512 = (word_of_nat (512 * unat d) :: u32)"
  by simp

lemma ide_read_loop_reads:
  assumes r: "at_rest pb ci di c" and n: "unat lba + unat cnt \<le> 163840" and B: "B = (\<lambda>i. MD (di = 1) (512 * unat lba + i))"
  shows "chan ci s = Some c \<Longrightarrow> quiet (env s) \<Longrightarrow> media (env s) = MD \<Longrightarrow> mem (env s) = stored buf (512 * unat d) B M \<Longrightarrow> unat d \<le> unat cnt \<Longrightarrow>
    \<exists>e. ide_read_loop (ata_platform pb) ci di lba buf cnt d s = Some (s\<lparr>env := e\<rparr>) \<and> quiet e \<and> media e = MD \<and> mem e = stored buf (512 * unat cnt) B M"
proof (induction "unat cnt - unat d" arbitrary: d s rule: less_induct)
  case less
  show ?case
  proof (cases "unat d < unat cnt")
    case False
    then have "d = cnt" using less.prems(5) by (simp add: word_unat_eq_iff)
    then show ?thesis using less.prems by (intro exI [of _ "env s"]) (simp add: ide_read_loop.simps)
  next
    case True
    let ?k = "secs_op d cnt"
    have k: "unat ?k = min 256 (unat cnt - unat d)" "unat (d + ?k) = unat d + unat ?k" using secs_op_step [OF True] n by simp_all
    then have k1: "1 \<le> unat ?k" "unat ?k \<le> 256" using True by simp_all
    have l: "unat (lba + d) = unat lba + unat d" "lba + d \<le> max_lba" using lba_advance [OF n True] by simp_all
    from read_secs_reads [OF less.prems(1) r less.prems(2) l(2) k1, of "buf + d * 512"] obtain e where
      e: "read_secs (ata_platform pb) ci di (lba + d) (buf + d * 512) ?k s = Some (s\<lparr>env := e\<rparr>)" "quiet e" "media e = media (env s)"
        "mem e = stored (buf + d * 512) (512 * unat ?k) (\<lambda>i. media (env s) (di = 1) (512 * unat (lba + d) + i)) (mem (env s))" by blast
    have "(\<lambda>i. media (env s) (di = 1) (512 * unat (lba + d) + i)) = (\<lambda>i. B (512 * unat d + i))"
      using less.prems(3) by (simp add: B l(1) distrib_left add.assoc)
    then have "mem e = stored buf (512 * unat (d + ?k)) B M"
      using e(4) less.prems(4) k True n stored_stored [of "512 * unat d" "512 * unat ?k" buf B M] unfolding byte_offset by (simp add: distrib_left)
    moreover have "unat cnt - unat (d + ?k) < unat cnt - unat d" "unat (d + ?k) \<le> unat cnt" using k True by simp_all
    ultimately obtain e' where "ide_read_loop (ata_platform pb) ci di lba buf cnt (d + ?k) (s\<lparr>env := e\<rparr>) = Some (s\<lparr>env := e'\<rparr>)" "quiet e'" "media e' = MD"
      "mem e' = stored buf (512 * unat cnt) B M"
      using less.hyps [of "d + ?k" "s\<lparr>env := e\<rparr>"] e(2,3) less.prems(1,3) by (auto simp: chan_env)
    then show ?thesis using True e(1) by (intro exI [of _ e']) (simp add: ide_read_loop.simps [of _ _ _ _ _ _ d] word_less_nat_alt)
  qed
qed

definition written :: "nat \<Rightarrow> nat \<Rightarrow> buf \<Rightarrow> buf \<Rightarrow> buf" where
  "written p n b D = (\<lambda>i. if p \<le> i \<and> i < p + n then b (i - p) else D i)"

lemma written_none: "written p 0 b D = D"
  by (auto simp: written_def fun_eq_iff)

lemma written_written: "written (p + n) k (\<lambda>i. b (n + i)) (written p n b D) = written p (n + k) b D"
  by (auto simp: written_def fun_eq_iff)

lemma ide_write_loop_writes:
  assumes r: "at_rest pb ci di c" and n: "unat lba + unat cnt \<le> 163840" and B: "B = (\<lambda>i. M (buf + word_of_nat i))"
  shows "chan ci s = Some c \<Longrightarrow> quiet (env s) \<Longrightarrow> mem (env s) = M \<Longrightarrow>
    media (env s) = MD(di = 1 := written (512 * unat lba) (512 * unat d) B (MD (di = 1))) \<Longrightarrow> unat d \<le> unat cnt \<Longrightarrow>
    \<exists>e. ide_write_loop (ata_platform pb) ci di lba buf cnt d s = Some (s\<lparr>env := e\<rparr>) \<and> quiet e \<and> mem e = M \<and>
      media e = MD(di = 1 := written (512 * unat lba) (512 * unat cnt) B (MD (di = 1)))"
proof (induction "unat cnt - unat d" arbitrary: d s rule: less_induct)
  case less
  show ?case
  proof (cases "unat d < unat cnt")
    case False
    then have "d = cnt" using less.prems(5) by (simp add: word_unat_eq_iff)
    then show ?thesis using less.prems by (intro exI [of _ "env s"]) (simp add: ide_write_loop.simps)
  next
    case True
    let ?k = "secs_op d cnt"
    have k: "unat ?k = min 256 (unat cnt - unat d)" "unat (d + ?k) = unat d + unat ?k" using secs_op_step [OF True] n by simp_all
    then have k1: "1 \<le> unat ?k" "unat ?k \<le> 256" using True by simp_all
    have l: "unat (lba + d) = unat lba + unat d" "lba + d \<le> max_lba" using lba_advance [OF n True] by simp_all
    from write_secs_writes [OF less.prems(1) r less.prems(2) l(2) k1, of "buf + d * 512"] obtain e where
      e: "write_secs (ata_platform pb) ci di (lba + d) (buf + d * 512) ?k s = Some (s\<lparr>env := e\<rparr>)" "quiet e" "mem e = mem (env s)"
        "media e = (media (env s))(di = 1 := (\<lambda>i. if 512 * unat (lba + d) \<le> i \<and> i < 512 * (unat (lba + d) + unat ?k)
          then mem (env s) (buf + d * 512 + word_of_nat (i - 512 * unat (lba + d))) else media (env s) (di = 1) i))" by blast
    have "(\<lambda>i. if 512 * unat (lba + d) \<le> i \<and> i < 512 * (unat (lba + d) + unat ?k)
        then mem (env s) (buf + d * 512 + word_of_nat (i - 512 * unat (lba + d))) else media (env s) (di = 1) i) =
      written (512 * unat lba + 512 * unat d) (512 * unat ?k) (\<lambda>i. B (512 * unat d + i)) (media (env s) (di = 1))"
      unfolding written_def B byte_offset using less.prems(3) by (auto simp: l(1) distrib_left add.assoc fun_eq_iff simp del: of_nat_mult)
    also have "\<dots> = written (512 * unat lba) (512 * unat (d + ?k)) B (MD (di = 1))"
      using less.prems(4) k(2) by (simp add: written_written distrib_left)
    finally have "media e = MD(di = 1 := written (512 * unat lba) (512 * unat (d + ?k)) B (MD (di = 1)))" using e(4) less.prems(4) by simp
    moreover have "unat cnt - unat (d + ?k) < unat cnt - unat d" "unat (d + ?k) \<le> unat cnt" using k True by simp_all
    ultimately obtain e' where "ide_write_loop (ata_platform pb) ci di lba buf cnt (d + ?k) (s\<lparr>env := e\<rparr>) = Some (s\<lparr>env := e'\<rparr>)" "quiet e'" "mem e' = M"
      "media e' = MD(di = 1 := written (512 * unat lba) (512 * unat cnt) B (MD (di = 1)))"
      using less.hyps [of "d + ?k" "s\<lparr>env := e\<rparr>"] e(2,3) less.prems(1,3) by (auto simp: chan_env)
    then show ?thesis using True e(1) by (intro exI [of _ e']) (simp add: ide_write_loop.simps [of _ _ _ _ _ _ d] word_less_nat_alt)
  qed
qed

subsection \<open>The driver implements the disk\<close>

lemma lock_frame:
  assumes c: "chan ci s = Some c" and l: "ch_lock c = lock_init" and held: "held = lock_at (running (thr s)) 1"
  shows "ch_lock_acquire ci s = Some (upd_chan ci (\<lambda>_. c\<lparr>ch_lock := held\<rparr>) s)"
    "ch_lock_release ci ((upd_chan ci (\<lambda>_. c\<lparr>ch_lock := held\<rparr>) s)\<lparr>env := e\<rparr>) = Some (s\<lparr>env := e\<rparr>)"
    "chan ci ((upd_chan ci (\<lambda>_. c\<lparr>ch_lock := held\<rparr>) s)\<lparr>env := e\<rparr>) = Some (c\<lparr>ch_lock := held\<rparr>)"
proof -
  have z: "lock_init = lock_at (running (thr s)) 0" by (simp add: lock_at_def)
  have ci: "ci < length (channels s)" "channels s ! ci = c" using c by (auto simp: chan_def arr_get_def split: if_splits)
  have "lock_acquire lock_init (thr s) = Some (held, thr s)" unfolding z held using lock_acquire_at [of 0 "running (thr s)" "thr s"] by simp
  then show "ch_lock_acquire ci s = Some (upd_chan ci (\<lambda>_. c\<lparr>ch_lock := held\<rparr>) s)" using c l ci by (simp add: ch_lock_acquire_def upd_chan_def)
  have "lock_release held (thr s) = Some (lock_init, thr s)" unfolding z held using lock_release_at [of 0 "running (thr s)" "thr s"] by simp
  moreover have "c\<lparr>ch_lock := lock_init\<rparr> = c" using l by simp
  ultimately show "ch_lock_release ci ((upd_chan ci (\<lambda>_. c\<lparr>ch_lock := held\<rparr>) s)\<lparr>env := e\<rparr>) = Some (s\<lparr>env := e\<rparr>)"
    using ci by (auto simp: ch_lock_release_def upd_chan_def chan_def)
  show "chan ci ((upd_chan ci (\<lambda>_. c\<lparr>ch_lock := held\<rparr>) s)\<lparr>env := e\<rparr>) = Some (c\<lparr>ch_lock := held\<rparr>)" using ci by (simp add: chan_def upd_chan_def)
qed

lemma select_disk_dev:
  assumes c: "chan ci s = Some c" and r: "at_rest pb ci di c"
  shows "\<exists>v. select_disk (ata_platform pb) ci di s = Some (s\<lparr>env := (env s)\<lparr>r_dev := v\<rparr>\<rparr>)"
proof -
  have "device ci di s = Some (devices c ! di)" "port_base c = pb" using c r by (auto simp: device_def at_rest_def)
  then show ?thesis using c by (auto simp: select_disk_def ch_outb_def ata_outb_def reg_dev_def Let_def)
qed

lemma ide_read_reads:
  assumes c: "chan ci s = Some c" and r: "at_rest pb ci di c" and l: "ch_lock c = lock_init" and q: "quiet (env s)"
    and n: "unat lba + unat cnt \<le> 163840" "0 < cnt"
  shows "\<exists>e. ide_read (ata_platform pb) ci di lba buf cnt s = Some (s\<lparr>env := e\<rparr>) \<and> quiet e \<and> media e = media (env s) \<and>
    mem e = stored buf (512 * unat cnt) (\<lambda>i. media (env s) (di = 1) (512 * unat lba + i)) (mem (env s))"
proof -
  define held where "held = lock_at (running (thr s)) 1"
  define s1 where "s1 e = (upd_chan ci (\<lambda>_. c\<lparr>ch_lock := held\<rparr>) s)\<lparr>env := e\<rparr>" for e
  note lf = lock_frame [OF c l held_def, folded s1_def]
  have s1: "(s1 e)\<lparr>env := e'\<rparr> = s1 e'" "env (s1 e) = e" for e e' by (simp_all add: s1_def)
  have a: "ch_lock_acquire ci s = Some (s1 (env s))" using lf(1) by (simp add: s1_def upd_chan_def)
  have r1: "at_rest pb ci di (c\<lparr>ch_lock := held\<rparr>)" using r by (simp add: at_rest_def)
  from select_disk_dev [OF lf(3) r1, of "env s"] obtain v where v: "select_disk (ata_platform pb) ci di (s1 (env s)) = Some (s1 ((env s)\<lparr>r_dev := v\<rparr>))"
    by (auto simp: s1)
  let ?e = "(env s)\<lparr>r_dev := v\<rparr>"
  have "quiet (env (s1 ?e))" "media (env (s1 ?e)) = media (env s)" "mem (env (s1 ?e)) = stored buf (512 * unat 0) B (mem (env s))" "unat 0 \<le> unat cnt" for B
    using q by (simp_all add: s1 quiet_def stored_def)
  from ide_read_loop_reads [OF r1 n(1) refl lf(3) this] obtain e where
    e: "ide_read_loop (ata_platform pb) ci di lba buf cnt 0 (s1 ?e) = Some (s1 e)" "quiet e" "media e = media (env s)"
      "mem e = stored buf (512 * unat cnt) (\<lambda>i. media (env s) (di = 1) (512 * unat lba + i)) (mem (env s))" by (auto simp: s1)
  have "lba \<le> max_lba" using n by (simp add: unat_lba_max word_less_nat_alt)
  then have "ide_read (ata_platform pb) ci di lba buf cnt s = Some (s\<lparr>env := e\<rparr>)" using n(2) a v e(1) lf(2) by (simp add: ide_read_def)
  then show ?thesis using e by blast
qed

lemma ide_write_writes:
  assumes c: "chan ci s = Some c" and r: "at_rest pb ci di c" and l: "ch_lock c = lock_init" and q: "quiet (env s)"
    and n: "unat lba + unat cnt \<le> 163840" "0 < cnt"
  shows "\<exists>e. ide_write (ata_platform pb) ci di lba buf cnt s = Some (s\<lparr>env := e\<rparr>) \<and> quiet e \<and> mem e = mem (env s) \<and>
    media e = (media (env s))(di = 1 := written (512 * unat lba) (512 * unat cnt) (\<lambda>i. mem (env s) (buf + word_of_nat i)) (media (env s) (di = 1)))"
proof -
  define held where "held = lock_at (running (thr s)) 1"
  define s1 where "s1 e = (upd_chan ci (\<lambda>_. c\<lparr>ch_lock := held\<rparr>) s)\<lparr>env := e\<rparr>" for e
  note lf = lock_frame [OF c l held_def, folded s1_def]
  have s1: "(s1 e)\<lparr>env := e'\<rparr> = s1 e'" "env (s1 e) = e" for e e' by (simp_all add: s1_def)
  have a: "ch_lock_acquire ci s = Some (s1 (env s))" using lf(1) by (simp add: s1_def upd_chan_def)
  have r1: "at_rest pb ci di (c\<lparr>ch_lock := held\<rparr>)" using r by (simp add: at_rest_def)
  from select_disk_dev [OF lf(3) r1, of "env s"] obtain v where v: "select_disk (ata_platform pb) ci di (s1 (env s)) = Some (s1 ((env s)\<lparr>r_dev := v\<rparr>))"
    by (auto simp: s1)
  let ?e = "(env s)\<lparr>r_dev := v\<rparr>"
  have "quiet (env (s1 ?e))" "mem (env (s1 ?e)) = mem (env s)"
    "media (env (s1 ?e)) = (media (env s))(di = 1 := written (512 * unat lba) (512 * unat 0) B (media (env s) (di = 1)))" "unat 0 \<le> unat cnt" for B
    using q by (simp_all add: s1 quiet_def written_none)
  from ide_write_loop_writes [OF r1 n(1) refl lf(3) this] obtain e where
    e: "ide_write_loop (ata_platform pb) ci di lba buf cnt 0 (s1 ?e) = Some (s1 e)" "quiet e" "mem e = mem (env s)"
      "media e = (media (env s))(di = 1 := written (512 * unat lba) (512 * unat cnt) (\<lambda>i. mem (env s) (buf + word_of_nat i)) (media (env s) (di = 1)))"
    by (auto simp: s1)
  have "lba \<le> max_lba" using n by (simp add: unat_lba_max word_less_nat_alt)
  then have "ide_write (ata_platform pb) ci di lba buf cnt s = Some (s\<lparr>env := e\<rparr>)" using n(2) a v e(1) lf(2) by (simp add: ide_write_def)
  then show ?thesis using e by blast
qed


text \<open>The second disk of the first channel, on a controller that is busy for three reads of its status; 600 sectors are three
  rounds.\<close>

definition demo_ata :: ata where
  "demo_ata = \<lparr>r_cnt = 0, r_lba_l = 0, r_lba_m = 0, r_lba_h = 0, r_dev = 0, phase = Idle, busy = 0, pending = False, delay = 3,
     media = (\<lambda>d i. if d then word_of_nat (i div 512) else 0), mem = (\<lambda>_. 7)\<rparr>"

definition demo_disk :: "nat \<Rightarrow> ide_disk" where
  "demo_disk k = \<lparr>dev_no = word_of_nat k, dma_supported = True, prim_parts = [], logic_parts = []\<rparr>"

definition demo_channel :: ide_channel where
  "demo_channel = \<lparr>port_base = 0x1f0, irq_no = 0x2e, dma_base = 0, prdt_phys = 0, prdt = 0, dma_enabled = False, ch_lock = lock_init,
     expecting_intr = False, disk_done = sema_init 0, devices = [demo_disk 0, demo_disk 1]\<rparr>"

definition demo_ide :: "ata ide" where
  "demo_ide = \<lparr>env = demo_ata, thr = demo_kernel, channel_cnt = 1, channels = [demo_channel], partition_list = []\<rparr>"


end
