(* ===== verification/Part_Scan.thy ===== *)
theory Part_Scan
  imports Ide Block_Alloc
begin

text \<open>
  What \<open>partition_scan\<close> finds: on a disk whose master boot record has up to three primary partitions and an extended one, and
  whose extended boot records form a chain of at most eight, the tables get exactly these partitions, with absolute addresses.
\<close>

subsection \<open>Tables on the disk\<close>

definition is_plain :: "buf \<Rightarrow> nat \<Rightarrow> bool" where
  "is_plain bs k \<longleftrightarrow> pte_type bs k \<noteq> 0 \<and> pte_type bs k \<noteq> 0x05 \<and> pte_type bs k \<noteq> 0x0f"

definition is_extended :: "buf \<Rightarrow> nat \<Rightarrow> bool" where
  "is_extended bs k \<longleftrightarrow> pte_type bs k = 0x05 \<or> pte_type bs k = 0x0f"

text \<open>The chain of extended boot records from \<open>lba\<close> on holds the logical partitions \<open>ls\<close>, each by its first sector and its length.\<close>

fun ebr_chain :: "(u32 \<Rightarrow> buf) \<Rightarrow> u32 \<Rightarrow> u32 \<Rightarrow> (u32 \<times> u32) list \<Rightarrow> bool" where
  "ebr_chain sec ext lba [] = False"
| "ebr_chain sec ext lba ((a, n) # ls) =
     (lba \<noteq> 0 \<and> is_plain (sec lba) 0 \<and> lba + pte_start (sec lba) 0 = a \<and> pte_secs (sec lba) 0 = n \<and>
      pte_type (sec lba) 2 = 0 \<and> pte_type (sec lba) 3 = 0 \<and>
      (if ls = [] then pte_type (sec lba) 1 = 0
       else is_extended (sec lba) 1 \<and> ebr_chain sec ext (pte_start (sec lba) 1 + ext) ls))"

definition mbr_table :: "buf \<Rightarrow> (u32 \<times> u32) list \<Rightarrow> u32 \<Rightarrow> bool" where
  "mbr_table bs ps ext \<longleftrightarrow> length ps \<le> 3 \<and> ext \<noteq> 0 \<and>
     (\<forall>k < length ps. is_plain bs k \<and> (pte_start bs k, pte_secs bs k) = ps ! k) \<and>
     is_extended bs (length ps) \<and> pte_start bs (length ps) = ext \<and> (\<forall>k. length ps < k \<and> k < 4 \<longrightarrow> pte_type bs k = 0)"

text \<open>Buffers can be had and freed, and hold the sector asked for.\<close>

definition boot_ok :: "'s boot_io \<Rightarrow> (u32 \<Rightarrow> buf) \<Rightarrow> bool" where
  "boot_ok io sec \<longleftrightarrow> (\<forall>lba s. \<exists>q s'. acq io lba s = Some ((q, sec lba), s')) \<and> (\<forall>q s. \<exists>s'. rel io q s = Some s')"

subsection \<open>Entries added to the tables\<close>

fun put_logics :: "(u32 \<times> u32) list \<Rightarrow> scan \<Rightarrow> scan" where
  "put_logics [] x = x"
| "put_logics ((a, n) # ls) x = put_logics ls (x\<lparr>sc_logic := (sc_logic x)[l_no x := set_extent a n (sc_logic x ! l_no x)],
     sc_list := sc_list x @ [(True, l_no x)], l_no := l_no x + 1\<rparr>)"

fun put_prims :: "(u32 \<times> u32) list \<Rightarrow> scan \<Rightarrow> scan" where
  "put_prims [] x = x"
| "put_prims ((a, n) # ps) x = put_prims ps (x\<lparr>sc_prim := (sc_prim x)[p_no x := set_extent a n (sc_prim x ! p_no x)],
     sc_list := sc_list x @ [(False, p_no x)], p_no := p_no x + 1\<rparr>)"

lemma put_logics_fields:
  "l_no (put_logics ls x) = l_no x + length ls" "sc_prim (put_logics ls x) = sc_prim x" "p_no (put_logics ls x) = p_no x"
  "ext_lba_base (put_logics ls x) = ext_lba_base x" "length (sc_logic (put_logics ls x)) = length (sc_logic x)"
  "sc_list (put_logics ls x) = sc_list x @ map (Pair True) [l_no x..<l_no x + length ls]"
  by (induction ls x rule: put_logics.induct) (simp_all add: upt_conv_Cons del: upt_Suc)

lemma put_logics_nth:
  "l_no x + length ls \<le> length (sc_logic x) \<Longrightarrow> k < length (sc_logic x) \<Longrightarrow> sc_logic (put_logics ls x) ! k =
     (if l_no x \<le> k \<and> k < l_no x + length ls then set_extent (fst (ls ! (k - l_no x))) (snd (ls ! (k - l_no x))) (sc_logic x ! k) else sc_logic x ! k)"
proof (induction ls x rule: put_logics.induct)
  case (2 a n ls x)
  then show ?case by (cases "k = l_no x") (auto simp: nth_list_update nth_Cons' Suc_diff_le split: if_splits)
qed auto

lemma put_prims_fields:
  "p_no (put_prims ps x) = p_no x + length ps" "sc_logic (put_prims ps x) = sc_logic x" "l_no (put_prims ps x) = l_no x"
  "ext_lba_base (put_prims ps x) = ext_lba_base x" "length (sc_prim (put_prims ps x)) = length (sc_prim x)"
  "sc_list (put_prims ps x) = sc_list x @ map (Pair False) [p_no x..<p_no x + length ps]"
  by (induction ps x rule: put_prims.induct) (simp_all add: upt_conv_Cons del: upt_Suc)

lemma put_prims_nth:
  "p_no x + length ps \<le> length (sc_prim x) \<Longrightarrow> k < length (sc_prim x) \<Longrightarrow> sc_prim (put_prims ps x) ! k =
     (if p_no x \<le> k \<and> k < p_no x + length ps then set_extent (fst (ps ! (k - p_no x))) (snd (ps ! (k - p_no x))) (sc_prim x ! k) else sc_prim x ! k)"
proof (induction ps x rule: put_prims.induct)
  case (2 a n ps x)
  then show ?case by (cases "k = p_no x") (auto simp: nth_list_update nth_Cons' Suc_diff_le split: if_splits)
qed auto

subsection \<open>The chain\<close>

lemma scan_blank:
  assumes "pte_type (snd bs) k = 0" and "k < 4"
  shows "scan_entries io lba bs k (x, s) = scan_entries io lba bs (k + 1) (x, s)"
  using assms by (simp add: scan_entries.simps [of io lba bs k] scan_entry_def)

lemma scan_end:
  assumes "boot_ok io sec"
  shows "\<exists>s'. scan_entries io lba bs 4 (x, s) = Some (x, s')"
  using assms by (simp add: scan_entries.simps [of io lba bs 4] boot_ok_def) (metis bind.bind_lunit)

lemma scan_ebr_chain:
  assumes ok: "boot_ok io sec" and b: "ext \<noteq> 0"
  shows "ebr_chain sec ext lba ls \<Longrightarrow> ext_lba_base x = ext \<Longrightarrow> l_no x + length ls \<le> 8 \<Longrightarrow> length (sc_logic x) = 8 \<Longrightarrow>
    \<exists>s'. scan_entries io lba (q, sec lba) 0 (x, s) = Some (put_logics ls x, s')"
proof (induction ls arbitrary: lba x q s)
  case (Cons p ls)
  obtain a n where p: "p = (a, n)" by (cases p)
  let ?x = "x\<lparr>sc_logic := (sc_logic x)[l_no x := set_extent a n (sc_logic x ! l_no x)], sc_list := sc_list x @ [(True, l_no x)], l_no := l_no x + 1\<rparr>"
  have add: "add_logic (lba + pte_start (sec lba) 0) (pte_secs (sec lba) 0) x = Some ?x" using Cons.prems p by (simp add: add_logic_def)
  have e0: "scan_entry lba (sec lba) 0 x = Some (if 8 \<le> l_no ?x then Return ?x else Next ?x)"
    using Cons.prems p add by (simp add: scan_entry_def is_plain_def)
  have blank: "scan_entries io lba (q, sec lba) 2 (y, t) = scan_entries io lba (q, sec lba) 4 (y, t)" for y t
    using Cons.prems(1) p scan_blank [of "(q, sec lba)" 2 io lba y t] scan_blank [of "(q, sec lba)" 3 io lba y t] by simp
  show ?case
  proof (cases "8 \<le> l_no ?x")
    case True
    then have "7 \<le> l_no x" by simp
    then have "ls = []" using Cons.prems(3) by (cases ls) simp_all
    moreover obtain s' where "rel io q s = Some s'" using ok by (meson boot_ok_def)
    ultimately show ?thesis using e0 True p by (simp add: scan_entries.simps [of io lba _ 0])
  next
    case False
    then have 0: "scan_entries io lba (q, sec lba) 0 (x, s) = scan_entries io lba (q, sec lba) 1 (?x, s)"
      using e0 by (simp add: scan_entries.simps [of io lba _ 0])
    show ?thesis
    proof (cases "ls = []")
      case True
      then have "scan_entries io lba (q, sec lba) 1 (?x, s) = scan_entries io lba (q, sec lba) 2 (?x, s)"
        using Cons.prems(1) p scan_blank [of "(q, sec lba)" 1 io lba ?x s] by (simp add: numeral_2_eq_2)
      then show ?thesis using 0 blank scan_end [OF ok, of lba "(q, sec lba)" ?x s] True p by (metis put_logics.simps)
    next
      case more: False
      let ?l = "pte_start (sec lba) 1 + ext"
      have ex: "is_extended (sec lba) 1" and ch: "ebr_chain sec ext ?l ls" using Cons.prems(1) p more by simp_all
      have e1: "scan_entry lba (sec lba) 1 ?x = Some (Descend ?l ?x)" using ex b Cons.prems(2) by (simp add: scan_entry_def is_extended_def)
      obtain q' s' where acq: "acq io ?l s = Some ((q', sec ?l), s')" using ok by (meson boot_ok_def)
      have "l_no ?x + length ls \<le> 8" "ext_lba_base ?x = ext" "length (sc_logic ?x) = 8" using Cons.prems by simp_all
      from Cons.IH [OF ch this(2,1,3), of q' s'] obtain t where t: "scan_entries io ?l (q', sec ?l) 0 (?x, s') = Some (put_logics ls ?x, t)" by blast
      have "scan_entries io lba (q, sec lba) 1 (?x, s) = scan_entries io lba (q, sec lba) 2 (put_logics ls ?x, t)"
        using e1 acq t by (subst scan_entries.simps) (simp add: numeral_2_eq_2)
      then show ?thesis using 0 blank scan_end [OF ok, of lba "(q, sec lba)" "put_logics ls ?x" t] p by (metis put_logics.simps(2))
    qed
  qed
qed simp

subsection \<open>The master boot record\<close>

lemma scan_mbr_prims:
  assumes k: "k + length ps \<le> 3" and x: "p_no x = k" "length (sc_prim x) = 4"
    and t: "\<And>i. i < length ps \<Longrightarrow> is_plain bs (k + i) \<and> (pte_start bs (k + i), pte_secs bs (k + i)) = ps ! i"
  shows "scan_entries io 0 (q, bs) k (x, s) = scan_entries io 0 (q, bs) (k + length ps) (put_prims ps x, s)"
  using assms
proof (induction ps arbitrary: k x)
  case (Cons p ps)
  obtain a n where p: "p = (a, n)" by (cases p)
  let ?x = "x\<lparr>sc_prim := (sc_prim x)[p_no x := set_extent a n (sc_prim x ! p_no x)], sc_list := sc_list x @ [(False, p_no x)], p_no := p_no x + 1\<rparr>"
  have an: "is_plain bs k" "pte_start bs k = a" "pte_secs bs k = n" using Cons.prems(4) [of 0] p by simp_all
  have k: "k < 4" using Cons.prems(1) by simp
  have "add_prim (0 + pte_start bs k) (pte_secs bs k) x = Some ?x" using Cons.prems(1-3) an by (simp add: add_prim_def)
  then have "scan_entry 0 bs k x = Some (Next ?x)" using an(1) by (simp add: scan_entry_def is_plain_def)
  then have "scan_entries io 0 (q, bs) k (x, s) = scan_entries io 0 (q, bs) (k + 1) (?x, s)" using k by (simp add: scan_entries.simps [of io 0 _ k])
  also have "\<dots> = scan_entries io 0 (q, bs) (k + 1 + length ps) (put_prims ps ?x, s)"
    by (rule Cons.IH) (use Cons.prems(1-3) Cons.prems(4) [of "Suc _"] in auto)
  finally show ?case by (simp add: p)
qed simp

lemma scan_blanks:
  assumes "\<And>j. k \<le> j \<Longrightarrow> j < 4 \<Longrightarrow> pte_type bs j = 0" and "k \<le> 4"
  shows "scan_entries io lba (q, bs) k (x, s) = scan_entries io lba (q, bs) 4 (x, s)"
  using assms
proof (induction "4 - k" arbitrary: k)
  case (Suc m)
  then have "scan_entries io lba (q, bs) k (x, s) = scan_entries io lba (q, bs) (k + 1) (x, s)" by (intro scan_blank) auto
  also have "\<dots> = scan_entries io lba (q, bs) 4 (x, s)" by (rule Suc.hyps) (use Suc in auto)
  finally show ?case .
qed simp

definition fresh_scan :: "scan \<Rightarrow> bool" where
  "fresh_scan x \<longleftrightarrow> length (sc_prim x) = 4 \<and> length (sc_logic x) = 8 \<and> ext_lba_base x = 0 \<and> p_no x = 0 \<and> l_no x = 0 \<and> sc_list x = []"


text \<open>The disk of the drawing in \<^verbatim>\<open>ide.c\<close>, with one primary partition: the extended partition begins at 500, and its boot records are
  at 500, 700 and 900.\<close>

definition demo_table :: "u8 \<Rightarrow> u32 \<Rightarrow> u32 \<Rightarrow> u8 \<Rightarrow> u32 \<Rightarrow> buf" where
  "demo_table t1 start1 secs1 t2 start2 =
     put32 454 start1 (put32 458 secs1 (put32 470 start2 ((\<lambda>_. 0)(450 := t1, 466 := t2))))"

definition demo_sector :: "u32 \<Rightarrow> buf" where
  "demo_sector lba = (if lba = 0 then demo_table 0x83 63 400 0x05 500 else if lba = 500 then demo_table 0x83 1 150 0x05 200
     else if lba = 700 then demo_table 0x83 1 150 0x05 400 else demo_table 0x83 1 80 0 0)"

definition demo_io :: "unit boot_io" where
  "demo_io = \<lparr>acq = (\<lambda>lba s. Some ((1, demo_sector lba), s)), rel = (\<lambda>q s. Some s)\<rparr>"

definition demo_scan :: scan where
  "demo_scan = \<lparr>sc_prim = replicate 4 (cur_part demo_fs), sc_logic = replicate 8 (cur_part demo_fs), ext_lba_base = 0, p_no = 0, l_no = 0,
     sc_list = []\<rparr>"

lemma demo_table_fields:
  "pte_type (demo_table t1 a1 n1 t2 a2) 0 = t1" "pte_start (demo_table t1 a1 n1 t2 a2) 0 = a1" "pte_secs (demo_table t1 a1 n1 t2 a2) 0 = n1"
  "pte_type (demo_table t1 a1 n1 t2 a2) (Suc 0) = t2" "pte_start (demo_table t1 a1 n1 t2 a2) (Suc 0) = a2"
  "pte_type (demo_table t1 a1 n1 t2 a2) 2 = 0" "pte_type (demo_table t1 a1 n1 t2 a2) 3 = 0"
  by (simp_all add: demo_table_def pte_type_def pte_start_def pte_secs_def get32_put32_other put32_other)


text \<open>Four primary partitions, which the table has room for, stop the machine: \<^verbatim>\<open>ASSERT(p_no < 4)\<close> comes after the increment.\<close>

lemma partition_scan_four_primaries:
  assumes "boot_ok io sec" and "fresh_scan x" and "\<And>k. k < 4 \<Longrightarrow> is_plain (sec 0) k"
  shows "partition_scan io 0 x s = None"
proof -
  obtain q s1 where a: "acq io 0 s = Some ((q, sec 0), s1)" using assms(1) by (meson boot_ok_def)
  define ps where "ps = [(pte_start (sec 0) 0, pte_secs (sec 0) 0), (pte_start (sec 0) 1, pte_secs (sec 0) 1), (pte_start (sec 0) 2, pte_secs (sec 0) 2)]"
  have f: "length (sc_prim x) = 4" "p_no x = 0" and l: "length ps = 3" using assms(2) by (simp_all add: fresh_scan_def ps_def)
  have "is_plain (sec 0) (0 + i) \<and> (pte_start (sec 0) (0 + i), pte_secs (sec 0) (0 + i)) = ps ! i" if "i < length ps" for i
  proof -
    have "is_plain (sec 0) i" by (rule assms(3)) (use that l in simp)
    moreover have "i = 0 \<or> i = 1 \<or> i = 2" using that l by linarith
    then have "(pte_start (sec 0) i, pte_secs (sec 0) i) = ps ! i" by (elim disjE) (simp_all add: ps_def)
    ultimately show ?thesis by simp
  qed
  then have "scan_entries io 0 (q, sec 0) 0 (x, s1) = scan_entries io 0 (q, sec 0) (0 + length ps) (put_prims ps x, s1)"
    by (intro scan_mbr_prims) (use f l in simp_all)
  moreover have "p_no (put_prims ps x) = 3" "length (sc_prim (put_prims ps x)) = 4" using f l by (simp_all add: put_prims_fields)
  then have "scan_entry 0 (sec 0) 3 (put_prims ps x) = None" using assms(3) [of 3] by (simp add: scan_entry_def is_plain_def add_prim_def)
  then have "scan_entries io 0 (q, sec 0) 3 (put_prims ps x, s1) = None" by (simp add: scan_entries.simps [of io 0 _ 3])
  ultimately show ?thesis using a l by (simp add: partition_scan_def)
qed

end
