(* ===== verification/Shell.thy ===== *)
theory Shell
  imports Fs Stdio Block_Alloc
begin

text \<open>
  \<^verbatim>\<open>shell/shell.c\<close>: the kernel thread that reads commands from the keyboard and runs them on the file system, and \<^verbatim>\<open>printk\<close> of
  \<^verbatim>\<open>lib/kernel/stdio-kernel.c\<close>. The command line is an array of bytes with positions for the pointers into it; the arguments of a
  command are C strings, given without their terminators. \<open>console\<close> is the text printed since the screen was cleared last (the messages
  the file system prints itself are left out, as in \<open>Fs\<close>), \<open>kbd\<close> the characters typed and not yet read. \<open>None\<close> is a failed
  assertion, an access outside an array, or a wait for a key that does not come.
\<close>

definition CMD_LEN :: nat where "CMD_LEN = 128"
definition MAX_ARG_NR :: nat where "MAX_ARG_NR = 16"

definition c_str :: "string \<Rightarrow> u8 list" where "c_str cs = map of_char cs"

text \<open>\<^verbatim>\<open>printk\<close> is given the text that \<^verbatim>\<open>vsprintf\<close> makes of its arguments, which has to fit the buffer of 1024 bytes with its
  terminator. \<open>dec\<close> is the text of \<^verbatim>\<open>%d\<close>.\<close>

definition printk :: "u8 list \<Rightarrow> 'h fs \<Rightarrow> 'h fs option" where
  "printk cs s = do {
     ASSERT (length cs < 1024);
     Some (s\<lparr>console := console s @ takeWhile (\<lambda>c. c \<noteq> 0) cs\<rparr>)
   }"

definition dec :: "u32 \<Rightarrow> u8 list option" where
  "dec v = map_option fst (convert (\<lambda>_. 0) 0x64 False False 0 [v])"

subsection \<open>The command line\<close>

primrec readline :: "nat \<Rightarrow> u8 list \<Rightarrow> u8 list \<Rightarrow> nat \<Rightarrow> (nat \<times> u8 list \<times> u8 list) option" where
  "readline buf_size [] line pos = None"
| "readline buf_size (ch # keys) line pos =
     (if ch = 10 \<or> ch = 13 then do { line \<leftarrow> arr_set line pos 0; Some (pos, line, keys) }
      else if ch = 8 then readline buf_size keys line (if 0 < pos then pos - 1 else pos)
      else if pos < buf_size - 1 then do { line \<leftarrow> arr_set line pos ch; readline buf_size keys line (pos + 1) }
      else readline buf_size keys line pos)"

function skip_spaces :: "u8 list \<Rightarrow> nat \<Rightarrow> nat option" where
  "skip_spaces line p = do { c \<leftarrow> arr_get line p; if c = 0x20 then skip_spaces line (p + 1) else Some p }"
  by pat_completeness auto
termination by (relation "measure (\<lambda>(line, p). length line - p)") (auto simp: arr_get_def split: if_splits)

function word_end :: "u8 list \<Rightarrow> nat \<Rightarrow> nat option" where
  "word_end line p = do { c \<leftarrow> arr_get line p; if c \<noteq> 0 \<and> c \<noteq> 0x20 then word_end line (p + 1) else Some p }"
  by pat_completeness auto
termination by (relation "measure (\<lambda>(line, p). length line - p)") (auto simp: arr_get_def split: if_splits)

declare skip_spaces.simps [simp del] word_end.simps [simp del]

text \<open>The loop of \<^verbatim>\<open>cmd_parse\<close> with room for \<open>n\<close> more arguments; it collects what it stores in \<^verbatim>\<open>argv\<close>, and \<^verbatim>\<open>argc\<close> is the length.\<close>

primrec cmd_parse :: "nat \<Rightarrow> u8 list \<Rightarrow> nat \<Rightarrow> (nat list \<times> u8 list) option" where
  "cmd_parse 0 line p = Some ([], line)"
| "cmd_parse (Suc n) line p = do {
     c \<leftarrow> arr_get line p;
     if c = 0 then Some ([], line)
     else do {
       a \<leftarrow> skip_spaces line p;
       c \<leftarrow> arr_get line a;
       if c = 0 then Some ([], line)
       else do {
         e \<leftarrow> word_end line a;
         c \<leftarrow> arr_get line e;
         (line, p) \<leftarrow> (if c = 0x20 then do { line \<leftarrow> arr_set line e 0; Some (line, e + 1) } else Some (line, e));
         (argv, line) \<leftarrow> cmd_parse n line p;
         Some (a # argv, line)
       }
     }
   }"

text \<open>The C string at a position.\<close>

definition arg_str :: "u8 list \<Rightarrow> nat \<Rightarrow> u8 list option" where
  "arg_str line a = (if 0 \<in> set (drop a line) then Some (takeWhile (\<lambda>c. c \<noteq> 0) (drop a line)) else None)"

primrec arg_strs :: "u8 list \<Rightarrow> nat list \<Rightarrow> u8 list list option" where
  "arg_strs line [] = Some []"
| "arg_strs line (a # argv) = do { x \<leftarrow> arg_str line a; xs \<leftarrow> arg_strs line argv; Some (x # xs) }"

subsection \<open>Paths\<close>

text \<open>The buffers for a path are cleared, so that a failing \<^verbatim>\<open>sys_getcwd\<close> leaves the empty string.\<close>

definition cwd_or_empty :: "'h heap_ops \<Rightarrow> 'h fs \<Rightarrow> (u8 list \<times> 'h fs) option" where
  "cwd_or_empty hp s = do {
     (r, s) \<leftarrow> sys_getcwd hp (word_of_nat MAX_PATH_LEN) s;
     Some (case r of None \<Rightarrow> [] | Some cwd \<Rightarrow> cwd, s)
   }"

definition print_prompt :: "'h heap_ops \<Rightarrow> 'h fs \<Rightarrow> 'h fs option" where
  "print_prompt hp s = do { (cwd, s) \<leftarrow> cwd_or_empty hp s; printk (c_str ''[LinkOS '' @ cwd @ c_str '']$ '') s }"

definition make_abs_path :: "'h heap_ops \<Rightarrow> u8 list \<Rightarrow> 'h fs \<Rightarrow> (u8 list \<times> 'h fs) option" where
  "make_abs_path hp path s =
     (if path \<noteq> [] \<and> hd path = SLASH then do { ASSERT (length path < MAX_PATH_LEN); Some (path, s) }
      else do {
        (abs_path, s) \<leftarrow> cwd_or_empty hp s;
        let abs_path = (if abs_path \<noteq> [SLASH] then abs_path @ [SLASH] else abs_path);
        let abs_path = abs_path @ path;
        ASSERT (length abs_path < MAX_PATH_LEN);
        Some (abs_path, s)
      })"

subsection \<open>Built-in commands\<close>

definition builtin_help :: "'h fs \<Rightarrow> 'h fs option" where
  "builtin_help s = do {
     s \<leftarrow> printk (c_str ''LinkOS Shell - Built-in Commands:'' @ [10]) s;
     s \<leftarrow> printk (c_str ''  help              - Show this help message'' @ [10]) s;
     s \<leftarrow> printk (c_str ''  clear / cls       - Clear screen'' @ [10]) s;
     s \<leftarrow> printk (c_str ''  pwd               - Print working directory'' @ [10]) s;
     s \<leftarrow> printk (c_str ''  cd <path>         - Change directory'' @ [10]) s;
     s \<leftarrow> printk (c_str ''  ls [path]         - List directory contents'' @ [10]) s;
     s \<leftarrow> printk (c_str ''  mkdir <path>      - Create directory'' @ [10]) s;
     s \<leftarrow> printk (c_str ''  rmdir <path>      - Remove empty directory'' @ [10]) s;
     s \<leftarrow> printk (c_str ''  touch <path>      - Create empty file'' @ [10]) s;
     s \<leftarrow> printk (c_str ''  rm <path>         - Delete file'' @ [10]) s;
     s \<leftarrow> printk (c_str ''  cat <path>        - Display file contents'' @ [10]) s;
     s \<leftarrow> printk (c_str ''  echo <text>       - Print text (use > file to write)'' @ [10]) s;
     printk (c_str ''  stat <path>       - Show file/directory info'' @ [10]) s
   }"

definition builtin_clear :: "'h fs \<Rightarrow> 'h fs option" where
  "builtin_clear s = Some (s\<lparr>console := []\<rparr>)"

definition builtin_pwd :: "'h heap_ops \<Rightarrow> 'h fs \<Rightarrow> 'h fs option" where
  "builtin_pwd hp s = do {
     (r, s) \<leftarrow> sys_getcwd hp (word_of_nat MAX_PATH_LEN) s;
     case r of Some cwd \<Rightarrow> printk (cwd @ [10]) s
     | None \<Rightarrow> printk (c_str ''pwd: failed to get current directory'' @ [10]) s
   }"

definition builtin_cd :: "'h heap_ops \<Rightarrow> u8 list list \<Rightarrow> 'h fs \<Rightarrow> 'h fs option" where
  "builtin_cd hp argv s =
     (if length argv < 2 then map_option snd (sys_chdir hp [SLASH] s)
      else do {
        (abs_path, s) \<leftarrow> make_abs_path hp (argv ! 1) s;
        (r, s) \<leftarrow> sys_chdir hp abs_path s;
        if r = - 1 then printk (c_str ''cd: '' @ argv ! 1 @ c_str '': No such directory'' @ [10]) s else Some s
      })"

partial_function (option) ls_loop :: "'h heap_ops \<Rightarrow> dir_ref \<Rightarrow> 'h fs \<Rightarrow> 'h fs option" where
  [code]: "ls_loop hp d s = do {
     (de, s) \<leftarrow> sys_readdir hp d s;
     case de of None \<Rightarrow> Some s
     | Some off \<Rightarrow> do {
         v \<leftarrow> get_dir d s;
         nm \<leftarrow> entry_name (dir_buf v) off;
         s \<leftarrow> (if nm = [0x2e] \<or> nm = [0x2e, 0x2e] then Some s
                else if e_type (dir_buf v) off = FT_DIRECTORY then printk (nm @ c_str ''/  '') s
                else printk (nm @ c_str ''  '') s);
         ls_loop hp d s
       }
   }"

definition builtin_ls :: "'h heap_ops \<Rightarrow> u8 list list \<Rightarrow> 'h fs \<Rightarrow> 'h fs option" where
  "builtin_ls hp argv s = do {
     (abs_path, s) \<leftarrow> (if length argv < 2 then cwd_or_empty hp s else make_abs_path hp (argv ! 1) s);
     (d, s) \<leftarrow> sys_opendir hp abs_path s;
     if d = Dir_At 0
     then printk (c_str ''ls: cannot access '' @ [0x27] @ (if length argv < 2 then [0x2e] else argv ! 1) @ [0x27] @ c_str '': No such directory'' @ [10]) s
     else do {
       s \<leftarrow> sys_rewinddir d s;
       s \<leftarrow> ls_loop hp d s;
       s \<leftarrow> printk [10] s;
       map_option snd (sys_closedir hp d s)
     }
   }"

text \<open>The message of a command without its operand, and of one that failed on the path given: the operand between quotes.\<close>

definition missing :: "string \<Rightarrow> 'h fs \<Rightarrow> 'h fs option" where
  "missing msg s = printk (c_str msg @ [10]) s"

definition failed :: "string \<Rightarrow> u8 list \<Rightarrow> string \<Rightarrow> 'h fs \<Rightarrow> 'h fs option" where
  "failed msg path rest s = printk (c_str msg @ [0x27] @ path @ [0x27] @ c_str rest @ [10]) s"

definition builtin_mkdir :: "'h heap_ops \<Rightarrow> u8 list list \<Rightarrow> 'h fs \<Rightarrow> 'h fs option" where
  "builtin_mkdir hp argv s =
     (if length argv < 2 then missing ''mkdir: missing operand'' s
      else do {
        (abs_path, s) \<leftarrow> make_abs_path hp (argv ! 1) s;
        (r, s) \<leftarrow> sys_mkdir hp abs_path s;
        if r = - 1 then failed ''mkdir: cannot create directory '' (argv ! 1) [] s else Some s
      })"

definition builtin_rmdir :: "'h heap_ops \<Rightarrow> u8 list list \<Rightarrow> 'h fs \<Rightarrow> 'h fs option" where
  "builtin_rmdir hp argv s =
     (if length argv < 2 then missing ''rmdir: missing operand'' s
      else do {
        (abs_path, s) \<leftarrow> make_abs_path hp (argv ! 1) s;
        (r, s) \<leftarrow> sys_rmdir hp abs_path s;
        if r = - 1 then failed ''rmdir: failed to remove '' (argv ! 1) [] s else Some s
      })"

definition builtin_touch :: "'h heap_ops \<Rightarrow> u8 list list \<Rightarrow> 'h fs \<Rightarrow> 'h fs option" where
  "builtin_touch hp argv s =
     (if length argv < 2 then missing ''touch: missing file operand'' s
      else do {
        (abs_path, s) \<leftarrow> make_abs_path hp (argv ! 1) s;
        (fd, s) \<leftarrow> sys_open hp abs_path (O_CREAT OR O_RDWR) s;
        if fd = - 1 then failed ''touch: cannot create '' (argv ! 1) [] s
        else map_option snd (sys_close hp (sint fd) s)
      })"

definition builtin_rm :: "'h heap_ops \<Rightarrow> u8 list list \<Rightarrow> 'h fs \<Rightarrow> 'h fs option" where
  "builtin_rm hp argv s =
     (if length argv < 2 then missing ''rm: missing operand'' s
      else do {
        (abs_path, s) \<leftarrow> make_abs_path hp (argv ! 1) s;
        (r, s) \<leftarrow> sys_unlink hp abs_path s;
        if r = - 1 then failed ''rm: cannot remove '' (argv ! 1) [] s else Some s
      })"

text \<open>The bytes read, up to the first 0, are printed; the text of a buffer that is full does not fit \<^verbatim>\<open>printk\<close>.\<close>

partial_function (option) cat_loop :: "'h heap_ops \<Rightarrow> int \<Rightarrow> buf \<Rightarrow> 'h fs \<Rightarrow> 'h fs option" where
  [code]: "cat_loop hp fd b s = do {
     (bytes_read, b, s) \<leftarrow> sys_read hp fd b 1024 s;
     if 0 < sint bytes_read then do {
       ASSERT (unat bytes_read < 1025);
       let b = b(unat bytes_read := 0);
       s \<leftarrow> printk (takeWhile (\<lambda>c. c \<noteq> 0) (map b [0..<1025])) s;
       cat_loop hp fd b s
     }
     else Some s
   }"

text \<open>\<^verbatim>\<open>struct stat\<close> is not set when \<^verbatim>\<open>sys_stat\<close> fails; its bytes, and those of \<^verbatim>\<open>buf\<close>, are what the stack holds.\<close>

definition builtin_cat :: "'h heap_ops \<Rightarrow> fs_stat \<Rightarrow> buf \<Rightarrow> u8 list list \<Rightarrow> 'h fs \<Rightarrow> 'h fs option" where
  "builtin_cat hp stack_stat stack_buf argv s =
     (if length argv < 2 then missing ''cat: missing file operand'' s
      else do {
        (abs_path, s) \<leftarrow> make_abs_path hp (argv ! 1) s;
        (fd, s) \<leftarrow> sys_open hp abs_path 0 s;
        if fd = - 1 then printk (c_str ''cat: '' @ argv ! 1 @ c_str '': No such file'' @ [10]) s
        else do {
          (r, file_stat, s) \<leftarrow> sys_stat hp abs_path s;
          if st_filetype (case file_stat of None \<Rightarrow> stack_stat | Some st \<Rightarrow> st) = FT_DIRECTORY then do {
            s \<leftarrow> printk (c_str ''cat: '' @ argv ! 1 @ c_str '': Is a directory'' @ [10]) s;
            map_option snd (sys_close hp (sint fd) s)
          }
          else do {
            s \<leftarrow> cat_loop hp (sint fd) stack_buf s;
            map_option snd (sys_close hp (sint fd) s)
          }
        }
      })"

text \<open>\<^verbatim>\<open>echo\<close>: the words with a space between two of them, as text and as printed.\<close>

fun join_words :: "u8 list list \<Rightarrow> u8 list" where
  "join_words [] = []"
| "join_words [w] = w"
| "join_words (w # ws) = w @ 0x20 # join_words ws"

fun print_words :: "u8 list list \<Rightarrow> 'h fs \<Rightarrow> 'h fs option" where
  "print_words [] s = Some s"
| "print_words [w] s = printk w s"
| "print_words (w # ws) s = do { s \<leftarrow> printk w s; s \<leftarrow> printk [0x20] s; print_words ws s }"

definition builtin_echo :: "'h heap_ops \<Rightarrow> u8 list list \<Rightarrow> 'h fs \<Rightarrow> 'h fs option" where
  "builtin_echo hp argv s =
     (if length argv < 2 then printk [10] s
      else case find (\<lambda>i. argv ! i = [0x3e]) [1..<length argv] of
        Some redir_idx \<Rightarrow>
          if length argv \<le> redir_idx + 1
          then printk (c_str ''echo: syntax error: expected filename after '' @ [0x27, 0x3e, 0x27, 10]) s
          else do {
            let txt = join_words (take (redir_idx - 1) (drop 1 argv)) @ [10];
            ASSERT (length txt < CMD_LEN);
            (abs_path, s) \<leftarrow> make_abs_path hp (argv ! (redir_idx + 1)) s;
            (fd, s) \<leftarrow> sys_open hp abs_path (O_CREAT OR O_WRONLY) s;
            if fd = - 1 then failed ''echo: cannot open '' (argv ! (redir_idx + 1)) [] s
            else do {
              (r, s) \<leftarrow> sys_lseek (sint fd) 0 SEEK_SET s;
              (r, s) \<leftarrow> sys_write hp (sint fd) (\<lambda>i. (txt @ [0]) ! i) (word_of_nat (length txt)) s;
              map_option snd (sys_close hp (sint fd) s)
            }
          }
      | None \<Rightarrow> do { s \<leftarrow> print_words (drop 1 argv) s; printk [10] s })"

definition builtin_stat :: "'h heap_ops \<Rightarrow> u8 list list \<Rightarrow> 'h fs \<Rightarrow> 'h fs option" where
  "builtin_stat hp argv s =
     (if length argv < 2 then missing ''stat: missing operand'' s
      else do {
        (abs_path, s) \<leftarrow> make_abs_path hp (argv ! 1) s;
        (r, st, s) \<leftarrow> sys_stat hp abs_path s;
        case st of None \<Rightarrow> failed ''stat: cannot stat '' (argv ! 1) '': No such file or directory'' s
        | Some v \<Rightarrow> do {
            s \<leftarrow> printk (c_str ''  File: '' @ argv ! 1 @ [10]) s;
            ino \<leftarrow> dec (st_ino v);
            s \<leftarrow> printk (c_str ''  inode: '' @ ino @ [10]) s;
            sz \<leftarrow> dec (st_size v);
            s \<leftarrow> printk (c_str ''  size: '' @ sz @ c_str '' bytes'' @ [10]) s;
            printk (c_str ''  type: '' @ c_str (if st_filetype v = FT_REGULAR then ''regular file''
              else if st_filetype v = FT_DIRECTORY then ''directory'' else ''unknown'') @ [10]) s
          }
      })"

subsection \<open>The loop of the shell\<close>

definition run_command :: "'h heap_ops \<Rightarrow> fs_stat \<Rightarrow> buf \<Rightarrow> u8 list list \<Rightarrow> 'h fs \<Rightarrow> 'h fs option" where
  "run_command hp stack_stat stack_buf argv s =
     (let cmd = argv ! 0 in
      if cmd = c_str ''help'' then builtin_help s
      else if cmd = c_str ''clear'' \<or> cmd = c_str ''cls'' then builtin_clear s
      else if cmd = c_str ''pwd'' then builtin_pwd hp s
      else if cmd = c_str ''cd'' then builtin_cd hp argv s
      else if cmd = c_str ''ls'' then builtin_ls hp argv s
      else if cmd = c_str ''mkdir'' then builtin_mkdir hp argv s
      else if cmd = c_str ''rmdir'' then builtin_rmdir hp argv s
      else if cmd = c_str ''touch'' then builtin_touch hp argv s
      else if cmd = c_str ''rm'' then builtin_rm hp argv s
      else if cmd = c_str ''cat'' then builtin_cat hp stack_stat stack_buf argv s
      else if cmd = c_str ''echo'' then builtin_echo hp argv s
      else if cmd = c_str ''stat'' then builtin_stat hp argv s
      else printk (cmd @ c_str '': command not found'' @ [10]) s)"

definition read_command :: "'h fs \<Rightarrow> (u8 list list \<times> 'h fs) option" where
  "read_command s = do {
     (len, cmd_line, keys) \<leftarrow> readline CMD_LEN (kbd s) (replicate CMD_LEN 0) 0;
     let s = s\<lparr>kbd := keys\<rparr>;
     if len = 0 then Some ([], s)
     else do {
       (argv, cmd_line) \<leftarrow> cmd_parse MAX_ARG_NR cmd_line 0;
       args \<leftarrow> arg_strs cmd_line argv;
       Some (args, s)
     }
   }"

definition shell_round :: "'h heap_ops \<Rightarrow> fs_stat \<Rightarrow> buf \<Rightarrow> 'h fs \<Rightarrow> 'h fs option" where
  "shell_round hp stack_stat stack_buf s = do {
     s \<leftarrow> print_prompt hp s;
     (argv, s) \<leftarrow> read_command s;
     if argv = [] then Some s else run_command hp stack_stat stack_buf argv s
   }"

primrec shell_rounds :: "'h heap_ops \<Rightarrow> (fs_stat \<times> buf) list \<Rightarrow> 'h fs \<Rightarrow> 'h fs option" where
  "shell_rounds hp [] s = Some s"
| "shell_rounds hp (st # sts) s = do { s \<leftarrow> shell_round hp (fst st) (snd st) s; shell_rounds hp sts s }"

text \<open>The thread runs for ever; \<open>sts\<close> has what the stack holds in each of the rounds looked at.\<close>

definition my_shell :: "'h heap_ops \<Rightarrow> (fs_stat \<times> buf) list \<Rightarrow> 'h fs \<Rightarrow> 'h fs option" where
  "my_shell hp sts s = do {
     s \<leftarrow> printk ([10] @ c_str ''========================================'' @ [10]) s;
     s \<leftarrow> printk (c_str ''  Welcome to LinkOS Shell!'' @ [10]) s;
     s \<leftarrow> printk (c_str ''  Type '' @ [0x27] @ c_str ''help'' @ [0x27] @ c_str '' for available commands.'' @ [10]) s;
     s \<leftarrow> printk (c_str ''========================================'' @ [10, 10]) s;
     shell_rounds hp sts s
   }"


subsection \<open>Reading a command\<close>

text \<open>What the keys of a line amount to: a backspace removes the last character, a line of \<open>n - 1\<close> characters takes no more.\<close>

definition edit_key :: "nat \<Rightarrow> u8 list \<Rightarrow> u8 \<Rightarrow> u8 list" where
  "edit_key n l c = (if c = 8 then butlast l else if length l < n - 1 then l @ [c] else l)"

definition edit :: "nat \<Rightarrow> u8 list \<Rightarrow> u8 list" where
  "edit n ks = foldl (edit_key n) [] ks"

text \<open>The nonempty parts of a line between spaces.\<close>

fun split_spaces :: "u8 list \<Rightarrow> u8 list list" where
  "split_spaces [] = [[]]"
| "split_spaces (c # cs) =
     (if c = 0x20 then [] # split_spaces cs else (case split_spaces cs of [] \<Rightarrow> [[c]] | w # ws \<Rightarrow> (c # w) # ws))"

definition words :: "u8 list \<Rightarrow> u8 list list" where
  "words l = filter (\<lambda>w. w \<noteq> []) (split_spaces l)"

lemma split_spaces_not_Nil [simp]: "split_spaces l \<noteq> []"
  by (cases l) (auto split: list.split)

lemma split_spaces_word:
  "0x20 \<notin> set w \<Longrightarrow> split_spaces (w @ 0x20 # l) = w # split_spaces l"
  "0x20 \<notin> set w \<Longrightarrow> split_spaces w = [w]"
  by (induction w) auto

lemma words_spaces: "words (replicate n 0x20 @ l) = words l"
  by (induction n) (auto simp: words_def)

lemma words_Nil [simp]: "words [] = []"
  by (simp add: words_def)

lemma words_first:
  "w \<noteq> [] \<Longrightarrow> 0x20 \<notin> set w \<Longrightarrow> words (w @ 0x20 # l) = w # words l"
  "w \<noteq> [] \<Longrightarrow> 0x20 \<notin> set w \<Longrightarrow> words w = [w]"
  by (simp_all add: words_def split_spaces_word)

text \<open>A line starts with spaces and then is empty, or has a word that ends at its end or at a space.\<close>

lemma line_cases:
  fixes l :: "u8 list"
  obtains (empty) n where "l = replicate n 0x20"
    | (last) n w where "l = replicate n 0x20 @ w" "w \<noteq> []" "0x20 \<notin> set w"
    | (more) n w r where "l = replicate n 0x20 @ w @ 0x20 # r" "w \<noteq> []" "0x20 \<notin> set w"
proof -
  define r where "r = dropWhile (\<lambda>c. c = 0x20) l"
  have l: "l = replicate (length (takeWhile (\<lambda>c. c = 0x20) l)) 0x20 @ r"
    proof -
    have "takeWhile (\<lambda>c. c = 0x20) l = replicate (length (takeWhile (\<lambda>c. c = 0x20) l)) 0x20"
      using set_takeWhileD by (subst replicate_length_same) fastforce+
    then show ?thesis unfolding r_def by (metis takeWhile_dropWhile_id)
  qed
  show ?thesis
  proof (cases r)
    case Nil then show ?thesis using l empty by simp
  next
    case (Cons c cs)
    then have c: "c \<noteq> 0x20" using hd_dropWhile [of "\<lambda>c. c = 0x20" l] unfolding r_def [symmetric] by simp
    show ?thesis
    proof (cases "0x20 \<in> set r")
      case False then show ?thesis using l last Cons by (metis list.distinct(1))
    next
      case True
      then obtain w r' where "r = w @ 0x20 # r'" "0x20 \<notin> set w" by (meson split_list_first)
      moreover from this have "w \<noteq> []" using Cons c by auto
      ultimately show ?thesis using l more by metis
    qed
  qed
qed

lemma scan_step:
  "skip_spaces (pre @ 0x20 # r) (length pre) = skip_spaces (pre @ 0x20 # r) (Suc (length pre))"
  "c \<noteq> 0 \<Longrightarrow> c \<noteq> 0x20 \<Longrightarrow> word_end (pre @ c # r) (length pre) = word_end (pre @ c # r) (Suc (length pre))"
  by (subst skip_spaces.simps word_end.simps, simp)+

lemma skip_spaces_run:
  "c \<noteq> 0x20 \<Longrightarrow> skip_spaces (pre @ replicate n 0x20 @ c # post) (length pre) = Some (length pre + n)"
proof (induction n arbitrary: pre)
  case 0 then show ?case by (subst skip_spaces.simps) simp
next
  case (Suc n)
  then show ?case using Suc.IH [of "pre @ [0x20]"] by (simp add: scan_step)
qed

lemma word_end_run:
  "c = 0 \<or> c = 0x20 \<Longrightarrow> 0 \<notin> set w \<Longrightarrow> 0x20 \<notin> set w \<Longrightarrow> word_end (pre @ w @ c # post) (length pre) = Some (length pre + length w)"
proof (induction w arbitrary: pre)
  case Nil then show ?case by (subst word_end.simps) auto
next
  case (Cons x w)
  then show ?case using Cons.IH [of "pre @ [x]"] by (simp add: scan_step)
qed

lemma arg_str_at: "0 \<notin> set w \<Longrightarrow> arg_str (pre @ w @ 0 # post) (length pre) = Some w"
proof -
  assume "0 \<notin> set w"
  then have "takeWhile (\<lambda>c. c \<noteq> 0) (w @ 0 # post) = w" by (subst takeWhile_append2) auto
  then show ?thesis by (simp add: arg_str_def)
qed


lemma cmd_parse_step:
  assumes w: "w \<noteq> []" "0 \<notin> set w" "0x20 \<notin> set w" and c: "c = 0 \<or> c = 0x20"
  shows "cmd_parse (Suc n) (pre @ replicate m 0x20 @ w @ c # post) (length pre) =
    map_option (\<lambda>(argv, line). ((length pre + m) # argv, line))
      (cmd_parse n (pre @ replicate m 0x20 @ w @ 0 # post) (length pre + m + length w + (if c = 0x20 then 1 else 0)))"
proof -
  let ?line = "pre @ replicate m 0x20 @ w @ c # post"
  from w obtain x w' where w': "w = x # w'" "x \<noteq> 0" "x \<noteq> 0x20" by (cases w) auto
  obtain f where first: "arr_get ?line (length pre) = Some f" "f \<noteq> 0"
    using w' by (cases m) (simp_all add: nth_append)
  have a: "skip_spaces ?line (length pre) = Some (length pre + m)"
    using skip_spaces_run [of x pre m "w' @ c # post"] w' by simp
  have at: "arr_get ?line (length pre + m) = Some x" using w' by (simp add: arr_get_def nth_append)
  have e: "word_end ?line (length pre + m) = Some (length pre + m + length w)"
    using word_end_run [OF c w(2,3), of "pre @ replicate m 0x20" post] by simp
  have ec: "arr_get ?line (length pre + m + length w) = Some c" by (simp add: arr_get_def nth_append)
  have es: "arr_set (pre @ replicate m 0x20 @ w @ d # post) (length pre + m + length w) 0 = Some (pre @ replicate m 0x20 @ w @ 0 # post)" for d
    by (simp add: arr_set_def list_update_append)
  have cont: "cmd_parse (Suc n) ?line (length pre) = do {
       (line, p) \<leftarrow> (if c = 0x20 then Some (pre @ replicate m 0x20 @ w @ 0 # post, length pre + m + length w + 1)
         else Some (?line, length pre + m + length w));
       (argv, line) \<leftarrow> cmd_parse n line p;
       Some ((length pre + m) # argv, line)
     }"
    using w'(2) by (simp add: first a at e ec es del: arr_get_in arr_set_in)
  show ?thesis unfolding cont using c
    by (auto simp: map_option_case split: option.split)
qed

text \<open>The words of the line, as many as there is room for, are where \<^verbatim>\<open>argv\<close> points when the spaces behind them are overwritten.\<close>

lemma cmd_parse_words:
  "0 \<notin> set l \<Longrightarrow> \<exists>argv l'. cmd_parse n (pre @ l @ 0 # post) (length pre) = Some (argv, pre @ l' @ 0 # post)
     \<and> length l' = length l \<and> arg_strs (pre @ l' @ 0 # post) argv = Some (take n (words l))"
proof (induction n arbitrary: pre l)
  case 0 then show ?case by (intro exI [of _ "[]"] exI [of _ l]) simp
next
  case (Suc n)
  show ?case
  proof (cases l rule: line_cases)
    case (empty m)
    have "cmd_parse (Suc n) (pre @ l @ 0 # post) (length pre) = Some ([], pre @ l @ 0 # post)"
    proof (cases m)
      case 0 then show ?thesis using empty by simp
    next
      case (Suc k)
      have "skip_spaces (pre @ replicate m 0x20 @ 0 # post) (length pre) = Some (length pre + m)"
        by (rule skip_spaces_run) simp
      moreover have "arr_get (pre @ replicate m 0x20 @ 0 # post) (length pre + m) = Some 0" by (simp add: arr_get_def nth_append)
      moreover have "arr_get (pre @ replicate m 0x20 @ 0 # post) (length pre) = Some 0x20" using Suc by (simp add: nth_append)
      ultimately show ?thesis using empty by simp
    qed
    moreover have "words l = []" using words_spaces [of m "[]"] empty by simp
    ultimately show ?thesis by (intro exI [of _ "[]"] exI [of _ l]) simp
  next
    case (last m w)
    note w0 = Suc.prems [unfolded last(1), simplified]
    let ?pre = "pre @ replicate m 0x20 @ w"
    have "cmd_parse n (?pre @ [] @ 0 # post) (length ?pre) = Some ([], ?pre @ [] @ 0 # post)"
      by (cases n) (simp_all add: arr_get_def nth_append)
    then have "cmd_parse (Suc n) (pre @ l @ 0 # post) (length pre) = Some ([length pre + m], pre @ l @ 0 # post)"
      using cmd_parse_step [OF last(2) _ last(3), of 0 n pre m post] w0 last(1) by (simp add: add.assoc)
    moreover have "arg_str (pre @ l @ 0 # post) (length pre + m) = Some w"
      using arg_str_at [of w "pre @ replicate m 0x20" post] w0 last(1) by simp
    ultimately show ?thesis
      using words_spaces [of m w] words_first(2) [OF last(2,3)] last(1) by (intro exI [of _ "[length pre + m]"] exI [of _ l]) simp
  next
    case (more m w r)
    note w0 = Suc.prems [unfolded more(1), simplified]
    let ?pre = "pre @ replicate m 0x20 @ w @ [0]"
    obtain argv l' where IH: "cmd_parse n (?pre @ r @ 0 # post) (length ?pre) = Some (argv, ?pre @ l' @ 0 # post)"
      "length l' = length r" "arg_strs (?pre @ l' @ 0 # post) argv = Some (take n (words r))"
      using Suc.IH [of r ?pre] w0 by auto
    have "cmd_parse (Suc n) (pre @ l @ 0 # post) (length pre) = Some ((length pre + m) # argv, ?pre @ l' @ 0 # post)"
      using cmd_parse_step [OF more(2) _ more(3), of "0x20" n pre m "r @ 0 # post"] w0 more(1) IH(1) by (simp add: add.assoc)
    moreover have "arg_str (?pre @ l' @ 0 # post) (length pre + m) = Some w"
      using arg_str_at [of w "pre @ replicate m 0x20" "l' @ 0 # post"] w0 by simp
    moreover have "words l = w # words r"
      using words_spaces [of m "w @ 0x20 # r"] words_first(1) [OF more(2,3)] more(1) by simp
    ultimately show ?thesis
      using IH(2,3) more(1)
      by (intro exI [of _ "(length pre + m) # argv"] exI [of _ "replicate m 0x20 @ w @ 0 # l'"]) simp
  qed
qed

text \<open>The line in the buffer is the edited one.\<close>

lemma readline_edits:
  assumes "c = 10 \<or> c = 13"
  shows "\<forall>k \<in> set ks. k \<noteq> 10 \<and> k \<noteq> 13 \<Longrightarrow> length l < n \<Longrightarrow> length l + length post = n \<Longrightarrow>
   \<exists>post'. readline n (ks @ c # keys) (l @ post) (length l) =
     Some (length (foldl (edit_key n) l ks), foldl (edit_key n) l ks @ 0 # post', keys)"
proof (induction ks arbitrary: l post)
  case Nil
  then obtain x post' where "post = x # post'" by (cases post) auto
  then show ?case using assms by auto
next
  case (Cons k ks)
  consider "k = 8" "l = []" | x l' where "k = 8" "l = l' @ [x]" | "k \<noteq> 8" "length l < n - 1" | "k \<noteq> 8" "\<not> length l < n - 1"
    by (metis rev_exhaust)
  then show ?case
  proof cases
    case 1 then show ?thesis using Cons.IH [of "[]" post] Cons.prems by (simp add: edit_key_def)
  next
    case 2 then show ?thesis using Cons.IH [of l' "x # post"] Cons.prems by (simp add: edit_key_def)
  next
    case 3
    then obtain x post' where "post = x # post'" using Cons.prems by (cases post) auto
    then show ?thesis using Cons.IH [of "l @ [k]" post'] Cons.prems 3 by (simp add: edit_key_def)
  next
    case 4 then show ?thesis using Cons.IH [of l post] Cons.prems by (simp add: edit_key_def)
  qed
qed

lemma edit_chars: "set (foldl (edit_key n) l ks) \<subseteq> set l \<union> set ks"
proof (induction ks arbitrary: l)
  case (Cons k ks)
  have "set (edit_key n l k) \<subseteq> set l \<union> {k}" by (auto simp: edit_key_def dest: in_set_butlastD)
  then show ?case using Cons.IH [of "edit_key n l k"] by auto
qed simp

lemma edit_plain: "8 \<notin> set ks \<Longrightarrow> length l + length ks < n \<Longrightarrow> foldl (edit_key n) l ks = l @ ks"
  by (induction ks arbitrary: l) (auto simp: edit_key_def)

lemma read_words:
  assumes keys: "kbd s = ks @ c # keys" and c: "c = 10 \<or> c = 13" and ks: "\<forall>k \<in> set ks. k \<noteq> 10 \<and> k \<noteq> 13 \<and> k \<noteq> 0"
  shows "read_command s = Some (take MAX_ARG_NR (words (edit CMD_LEN ks)), s\<lparr>kbd := keys\<rparr>)"
proof -
  let ?l = "edit CMD_LEN ks"
  obtain post where r: "readline CMD_LEN (kbd s) (replicate CMD_LEN 0) 0 = Some (length ?l, ?l @ 0 # post, keys)"
    using readline_edits [OF c, of ks "[]" CMD_LEN "replicate CMD_LEN 0" keys] ks keys by (auto simp: edit_def CMD_LEN_def)
  have "0 \<notin> set ?l" using edit_chars [of CMD_LEN "[]" ks] ks by (auto simp: edit_def)
  from cmd_parse_words [OF this, of MAX_ARG_NR "[]" post] obtain argv l' where
    "cmd_parse MAX_ARG_NR (?l @ 0 # post) 0 = Some (argv, l' @ 0 # post)"
    "arg_strs (l' @ 0 # post) argv = Some (take MAX_ARG_NR (words ?l))" by auto
  then show ?thesis by (simp add: read_command_def r Let_def)
qed


text \<open>C25: The command that the shell runs has as its arguments the first sixteen words of the line as it was edited at the keyboard
  (backspaces taken into account, cut at 127 characters), whatever spaces are before, between and behind them; every key up to the end of
  the line is used up and none behind it. The positions in \<^verbatim>\<open>argv\<close> stay valid: overwriting the spaces ends each argument where its word ends.\<close>

theorem shell_reads_words:
  assumes keys: "kbd s = ks @ c # keys" and c: "c = 10 \<or> c = 13" and ks: "\<forall>k \<in> set ks. k \<noteq> 10 \<and> k \<noteq> 13 \<and> k \<noteq> 0"
  shows "read_command s = Some (take MAX_ARG_NR (words (edit CMD_LEN ks)), s\<lparr>kbd := keys\<rparr>)"
  by (rule read_words [OF assms])

theorem shell_reads_words_witness:
  "read_command (demo_fs\<lparr>kbd := c_str '' cd  /ax'' @ [8, 0x62, 0x20, 10, 0x6c]\<rparr>) =
     Some ([c_str ''cd'', c_str ''/ab''], demo_fs\<lparr>kbd := [0x6c]\<rparr>)"
proof -
  let ?ks = "c_str '' cd  /ax'' @ [8, 0x62, 0x20]"
  let ?s = "demo_fs\<lparr>kbd := ?ks @ 10 # [0x6c]\<rparr>"
  have "read_command ?s = Some (take MAX_ARG_NR (words (edit CMD_LEN ?ks)), ?s\<lparr>kbd := [0x6c]\<rparr>)"
    by (rule shell_reads_words [of ?s ?ks 10 "[0x6c]"]) (simp_all add: c_str_def of_char_def)
  moreover have "words (edit CMD_LEN ?ks) = [c_str ''cd'', c_str ''/ab'']"
    by (simp add: c_str_def of_char_def edit_def edit_key_def CMD_LEN_def words_def)
  ultimately show ?thesis by (simp add: MAX_ARG_NR_def)
qed

subsection \<open>Absolute paths\<close>

lemma components_append: "components (p @ SLASH # q) = components p @ components q"
proof (induction p rule: components.induct)
  case (2 c cs)
  then show ?case
  proof (cases "SLASH \<in> set cs")
    case True
    then show ?thesis using 2 by (auto simp: takeWhile_append1 dropWhile_append1)
  next
    case False
    then have "takeWhile (\<lambda>c. c \<noteq> SLASH) cs = cs" "dropWhile (\<lambda>c. c \<noteq> SLASH) cs = []"
      "takeWhile (\<lambda>c. c \<noteq> SLASH) (cs @ SLASH # q) = cs" "dropWhile (\<lambda>c. c \<noteq> SLASH) (cs @ SLASH # q) = SLASH # q"
      by (auto simp: takeWhile_append dropWhile_append)
    then show ?thesis using 2 by (simp del: takeWhile_eq_all_conv dropWhile_eq_Nil_conv)
  qed
qed simp

lemma reverse_path_absolute: "reverse_path p = [] \<or> (\<exists>r. reverse_path p = SLASH # r)"
  by (subst (1 2) reverse_path.simps) (simp add: Let_def)

lemma sys_getcwd_absolute: "sys_getcwd hp sz s = Some (Some cwd, s') \<Longrightarrow> \<exists>r. cwd = SLASH # r"
  using reverse_path_absolute by (force simp: sys_getcwd_def Let_def bind_eq_Some_conv split: if_splits)




subsection \<open>A round of the shell\<close>

lemma split_spaces_part: "w \<in> set (split_spaces l) \<Longrightarrow> set w \<subseteq> set l \<and> length w \<le> length l"
proof (induction l arbitrary: w)
  case (Cons c l)
  then show ?case by (cases "split_spaces l") (fastforce split: if_splits)+
qed simp

lemma words_part: "w \<in> set (words l) \<Longrightarrow> set w \<subseteq> set l \<and> length w \<le> length l"
  by (auto simp: words_def dest: split_spaces_part)

lemma edit_length: "length l < n \<Longrightarrow> length (foldl (edit_key n) l ks) < n"
  by (induction ks arbitrary: l) (auto simp: edit_key_def)

lemma printk_text: "0 \<notin> set cs \<Longrightarrow> length cs < 1024 \<Longrightarrow> printk cs s = Some (s\<lparr>console := console s @ cs\<rparr>)"
proof -
  assume "0 \<notin> set cs" "length cs < 1024"
  moreover from this have "takeWhile (\<lambda>c. c \<noteq> 0) cs = cs" by auto
  ultimately show ?thesis by (simp add: printk_def)
qed

lemma print_words_joins:
  "\<forall>w \<in> set ws. 0 \<notin> set w \<and> length w < 1024 \<Longrightarrow> print_words ws s = Some (s\<lparr>console := console s @ join_words ws\<rparr>)"
  by (induction ws s rule: print_words.induct) (auto simp: printk_text)


lemma echo_words:
  assumes "[0x3e] \<notin> set ws" "\<forall>w \<in> set ws. 0 \<notin> set w \<and> length w < 1024"
  shows "builtin_echo hp (e # ws) s = Some (s\<lparr>console := console s @ join_words ws @ [10]\<rparr>)"
proof (cases "ws = []")
  case False
  have "(e # ws) ! i \<noteq> [0x3e]" if "i \<in> set [1..<length (e # ws)]" for i
  proof -
    from that have "1 \<le> i" "i < Suc (length ws)" by (simp_all del: upt_Suc)
    then obtain k where "i = Suc k" "k < length ws" by (cases i) simp_all
    then show ?thesis using assms(1) nth_mem [of k ws] by (metis nth_Cons_Suc)
  qed
  then have "find (\<lambda>i. (e # ws) ! i = [0x3e]) [1..<length (e # ws)] = None" by (simp only: find_None_iff) blast
  then show ?thesis using False assms(2) by (simp add: builtin_echo_def print_words_joins printk_text del: length_Cons)
qed (simp add: builtin_echo_def printk_text)

text \<open>C24: One round of the shell, from the keys to the screen: for a line that edits to \<^verbatim>\<open>echo\<close> and some words (none of them \<^verbatim>\<open>>\<close>, at most
  fifteen) the round returns, prints the prompt with the working directory, then the words with one space between two of them and a
  newline, and leaves the keys typed ahead; nothing else of the system changes but what \<^verbatim>\<open>sys_getcwd\<close> did.\<close>

theorem shell_echo_round:
  assumes keys: "kbd s' = ks @ c # keys" and c: "c = 10 \<or> c = 13" and ks: "\<forall>k \<in> set ks. k \<noteq> 10 \<and> k \<noteq> 13 \<and> k \<noteq> 0"
    and cwd: "sys_getcwd hp (word_of_nat MAX_PATH_LEN) s = Some (Some cwd, s')" "0 \<notin> set cwd" "length cwd < MAX_PATH_LEN"
    and line: "words (edit CMD_LEN ks) = c_str ''echo'' # ws" "[0x3e] \<notin> set ws" "length ws < MAX_ARG_NR"
  shows "shell_round hp st b s = Some (s'\<lparr>kbd := keys,
    console := console s' @ c_str ''[LinkOS '' @ cwd @ c_str '']$ '' @ join_words ws @ [10]\<rparr>)"
proof -
  let ?p = "c_str ''[LinkOS '' @ cwd @ c_str '']$ ''"
  let ?s = "s'\<lparr>console := console s' @ ?p\<rparr>"
  have "print_prompt hp s = Some ?s"
    using cwd by (simp add: print_prompt_def cwd_or_empty_def printk_text c_str_def of_char_def MAX_PATH_LEN_def)
  moreover have "read_command ?s = Some (c_str ''echo'' # ws, ?s\<lparr>kbd := keys\<rparr>)"
    using read_words [of ?s, OF _ c ks] keys line by simp
  moreover have "\<forall>w \<in> set ws. 0 \<notin> set w \<and> length w < 1024"
  proof
    fix w assume "w \<in> set ws"
    then have w: "set w \<subseteq> set (edit CMD_LEN ks)" "length w \<le> length (edit CMD_LEN ks)"
      using words_part [of w "edit CMD_LEN ks"] line(1) by auto
    then show "0 \<notin> set w \<and> length w < 1024"
      using edit_chars [of CMD_LEN "[]" ks] edit_length [of "[]" CMD_LEN ks] ks by (auto simp: edit_def CMD_LEN_def)
  qed
  ultimately show ?thesis
    using echo_words [OF line(2), of hp "c_str ''echo''" "?s\<lparr>kbd := keys\<rparr>"]
    by (simp add: shell_round_def run_command_def Let_def c_str_def of_char_def)
qed

theorem shell_echo_round_witness:
  "shell_round demo_heap \<lparr>st_ino = 0, st_size = 0, st_filetype = 0\<rparr> (\<lambda>_. 0) (demo_fs\<lparr>kbd := c_str ''echo  a b'' @ [10, 0x6c]\<rparr>) =
    Some (demo_fs\<lparr>kbd := [0x6c], console := c_str ''[LinkOS /]$ a b'' @ [10]\<rparr>)"
proof -
  let ?ks = "c_str ''echo  a b''"
  let ?s = "demo_fs\<lparr>kbd := ?ks @ 10 # [0x6c]\<rparr>"
  have "sys_getcwd demo_heap (word_of_nat MAX_PATH_LEN) ?s = Some (Some [SLASH], ?s)"
    by (simp add: sys_getcwd_def fs_malloc_def fs_free_def demo_heap_def demo_fs_def)
  moreover have "words (edit CMD_LEN ?ks) = c_str ''echo'' # [[0x61], [0x62]]"
    by (simp add: c_str_def of_char_def edit_def edit_key_def CMD_LEN_def words_def)
  ultimately have "shell_round demo_heap \<lparr>st_ino = 0, st_size = 0, st_filetype = 0\<rparr> (\<lambda>_. 0) ?s = Some (?s\<lparr>kbd := [0x6c],
    console := console ?s @ c_str ''[LinkOS '' @ [SLASH] @ c_str '']$ '' @ join_words [[0x61], [0x62]] @ [10]\<rparr>)"
    by (intro shell_echo_round [of ?s ?ks 10 "[0x6c]"]) (simp_all add: c_str_def of_char_def SLASH_def MAX_PATH_LEN_def MAX_ARG_NR_def)
  then show ?thesis by (simp add: c_str_def of_char_def SLASH_def demo_fs_def)
qed

end
