(* ===== verification/Syscall.thy ===== *)
theory Syscall
  imports Prelude
begin

text \<open>
  The way of a system call from a user program to the kernel and back: the wrappers and \<^verbatim>\<open>syscall\<close> of \<^verbatim>\<open>lib/usr/syscall.c\<close>, the entry
  \<^verbatim>\<open>syscall_handler\<close> and the exit \<^verbatim>\<open>intr_exit\<close> of \<^verbatim>\<open>kernel/kernel.asm\<close>, and the table of \<^verbatim>\<open>kernel/syscall.c\<close>. The functions behind the table are
  modelled in \<open>Malloc\<close> and \<open>Fs\<close>; here they are the parameter \<open>ex\<close>, which is given the function, its arguments and the state of the
  kernel. A stack is the list of its words from the top on; reading past its end and a jump through a word outside the table are \<open>None\<close>.
\<close>

datatype SYSCALL_NR =
  SYS_GETPID | SYS_WRITE | SYS_MALLOC | SYS_FREE | SYS_OPEN | SYS_CLOSE | SYS_READ | SYS_LSEEK | SYS_UNLINK | SYS_MKDIR | SYS_OPENDIR |
  SYS_CLOSEDIR | SYS_READDIR | SYS_REWINDDIR | SYS_RMDIR | SYS_GETCWD | SYS_CHDIR | SYS_STAT

text \<open>The values of the \<^verbatim>\<open>enum\<close>, which both headers declare alike.\<close>

fun nr :: "SYSCALL_NR \<Rightarrow> u32" where
  "nr SYS_GETPID = 0" | "nr SYS_WRITE = 1" | "nr SYS_MALLOC = 2" | "nr SYS_FREE = 3" | "nr SYS_OPEN = 4" | "nr SYS_CLOSE = 5"
| "nr SYS_READ = 6" | "nr SYS_LSEEK = 7" | "nr SYS_UNLINK = 8" | "nr SYS_MKDIR = 9" | "nr SYS_OPENDIR = 10" | "nr SYS_CLOSEDIR = 11"
| "nr SYS_READDIR = 12" | "nr SYS_REWINDDIR = 13" | "nr SYS_RMDIR = 14" | "nr SYS_GETCWD = 15" | "nr SYS_CHDIR = 16" | "nr SYS_STAT = 17"

datatype syscall_func =
  Sys_getpid | Sys_write | Sys_malloc | Sys_free | Sys_open | Sys_close | Sys_read | Sys_lseek | Sys_unlink | Sys_mkdir | Sys_opendir |
  Sys_closedir | Sys_readdir | Sys_rewinddir | Sys_rmdir | Sys_getcwd | Sys_chdir | Sys_stat

definition syscall_table :: "syscall_func list" where
  "syscall_table = [Sys_getpid, Sys_write, Sys_malloc, Sys_free, Sys_open, Sys_close, Sys_read, Sys_lseek, Sys_unlink, Sys_mkdir,
     Sys_opendir, Sys_closedir, Sys_readdir, Sys_rewinddir, Sys_rmdir, Sys_getcwd, Sys_chdir, Sys_stat]"

text \<open>How many words of the stack a function takes as its parameters.\<close>

fun params :: "syscall_func \<Rightarrow> nat" where
  "params Sys_getpid = 0" | "params Sys_write = 3" | "params Sys_malloc = 1" | "params Sys_free = 1" | "params Sys_open = 2"
| "params Sys_close = 1" | "params Sys_read = 3" | "params Sys_lseek = 3" | "params Sys_unlink = 1" | "params Sys_mkdir = 1"
| "params Sys_opendir = 1" | "params Sys_closedir = 1" | "params Sys_readdir = 1" | "params Sys_rewinddir = 1" | "params Sys_rmdir = 1"
| "params Sys_getcwd = 2" | "params Sys_chdir = 1" | "params Sys_stat = 2"

type_synonym 's kernel_funcs = "syscall_func \<Rightarrow> u32 list \<Rightarrow> 's \<Rightarrow> (u32 \<times> 's) option"

subsection \<open>The kernel's side\<close>

text \<open>The registers of the program; \<^verbatim>\<open>int\<close> and \<^verbatim>\<open>iretd\<close> keep and restore the stack pointer, the flags and the address.\<close>

record cpu =
  eax :: u32  ecx :: u32  edx :: u32  ebx :: u32  esp :: u32  ebp :: u32  esi :: u32  edi :: u32
  ds :: u32  es :: u32  fs_reg :: u32  gs :: u32

definition SEL_K_DATA :: u32 where "SEL_K_DATA = 0x10"

text \<open>The stack when the segments are switched, and then with the parameters.\<close>

definition saved :: "cpu \<Rightarrow> u32 list" where
  "saved c = [0x80, edi c, esi c, ebp c, esp c, ebx c, edx c, ecx c, eax c, gs c, fs_reg c, es c, ds c, 0]"

definition pushed :: "cpu \<Rightarrow> u32 list" where
  "pushed c = [ebx c, ecx c, edx c, esi c, edi c] @ saved c"

fun intr_exit :: "u32 list \<Rightarrow> cpu \<Rightarrow> cpu option" where
  "intr_exit [vec, di, si, bp, sp, b, d, cc, a, g, f, e, dd, err] c =
     Some (c\<lparr>edi := di, esi := si, ebp := bp, ebx := b, edx := d, ecx := cc, eax := a, gs := g, fs_reg := f, es := e, ds := dd\<rparr>)"
| "intr_exit _ c = None"

definition syscall_handler :: "'s kernel_funcs \<Rightarrow> cpu \<Rightarrow> 's \<Rightarrow> (cpu \<times> 's) option" where
  "syscall_handler ex c s = do {
     let stk = pushed c;
     let c = c\<lparr>ds := SEL_K_DATA, es := SEL_K_DATA\<rparr>;
     f \<leftarrow> arr_get syscall_table (unat (eax c));
     (v, s) \<leftarrow> ex f (take (params f) stk) s;
     let stk = drop 5 stk;
     stk \<leftarrow> arr_set stk 8 v;
     c \<leftarrow> intr_exit stk c;
     Some (c, s)
   }"

subsection \<open>The program's side\<close>

text \<open>\<^verbatim>\<open>syscall\<close> takes five words behind its first argument, whatever the caller has put there.\<close>

fun syscall :: "'s kernel_funcs \<Rightarrow> u32 \<Rightarrow> u32 list \<Rightarrow> cpu \<Rightarrow> 's \<Rightarrow> (u32 \<times> cpu \<times> 's) option" where
  "syscall ex number (arg1 # arg2 # arg3 # arg4 # arg5 # stk) c s = do {
     (c, s) \<leftarrow> syscall_handler ex (c\<lparr>eax := number, ebx := arg1, ecx := arg2, edx := arg3, esi := arg4, edi := arg5\<rparr>) s;
     Some (eax c, c, s)
   }"
| "syscall ex number _ c s = None"

definition usr_getpid where "usr_getpid ex stk c s = syscall ex (nr SYS_GETPID) stk c s"
definition usr_write where "usr_write ex fd b count stk c s = syscall ex (nr SYS_WRITE) (fd # b # count # stk) c s"
definition usr_malloc where "usr_malloc ex sz stk c s = syscall ex (nr SYS_MALLOC) (sz # stk) c s"
definition usr_free where "usr_free ex p stk c s = map_option snd (syscall ex (nr SYS_FREE) (p # stk) c s)"
definition usr_open where "usr_open ex pathname (flags :: u8) stk c s = syscall ex (nr SYS_OPEN) (pathname # ucast flags # stk) c s"
definition usr_close where "usr_close ex fd stk c s = syscall ex (nr SYS_CLOSE) (fd # stk) c s"
definition usr_read where "usr_read ex fd b count stk c s = syscall ex (nr SYS_READ) (fd # b # count # stk) c s"
definition usr_lseek where "usr_lseek ex fd off (whence :: u8) stk c s = syscall ex (nr SYS_LSEEK) (fd # off # ucast whence # stk) c s"
definition usr_unlink where "usr_unlink ex pathname stk c s = syscall ex (nr SYS_UNLINK) (pathname # stk) c s"
definition usr_mkdir where "usr_mkdir ex pathname stk c s = syscall ex (nr SYS_MKDIR) (pathname # stk) c s"
definition usr_opendir where "usr_opendir ex pathname stk c s = syscall ex (nr SYS_OPENDIR) (pathname # stk) c s"
definition usr_closedir where "usr_closedir ex d stk c s = syscall ex (nr SYS_CLOSEDIR) (d # stk) c s"
definition usr_readdir where "usr_readdir ex d stk c s = syscall ex (nr SYS_READDIR) (d # stk) c s"
definition usr_rewinddir where "usr_rewinddir ex d stk c s = map_option snd (syscall ex (nr SYS_REWINDDIR) (d # stk) c s)"
definition usr_rmdir where "usr_rmdir ex pathname stk c s = syscall ex (nr SYS_RMDIR) (pathname # stk) c s"
definition usr_getcwd where "usr_getcwd ex b sz stk c s = syscall ex (nr SYS_GETCWD) (b # sz # stk) c s"
definition usr_chdir where "usr_chdir ex pathname stk c s = syscall ex (nr SYS_CHDIR) (pathname # stk) c s"
definition usr_stat where "usr_stat ex pathname b stk c s = syscall ex (nr SYS_STAT) (pathname # b # stk) c s"

lemmas usr_defs = usr_getpid_def usr_write_def usr_malloc_def usr_free_def usr_open_def usr_close_def usr_read_def usr_lseek_def
  usr_unlink_def usr_mkdir_def usr_opendir_def usr_closedir_def usr_readdir_def usr_rewinddir_def usr_rmdir_def usr_getcwd_def
  usr_chdir_def usr_stat_def

subsection \<open>The call reaches its function\<close>

text \<open>The kernel function of the name of a call, and what its caller sees: the result in \<^verbatim>\<open>eax\<close>, the words passed in the registers that
  carry them, every other register as it was.\<close>

fun kernel_func :: "SYSCALL_NR \<Rightarrow> syscall_func" where
  "kernel_func SYS_GETPID = Sys_getpid" | "kernel_func SYS_WRITE = Sys_write" | "kernel_func SYS_MALLOC = Sys_malloc"
| "kernel_func SYS_FREE = Sys_free" | "kernel_func SYS_OPEN = Sys_open" | "kernel_func SYS_CLOSE = Sys_close"
| "kernel_func SYS_READ = Sys_read" | "kernel_func SYS_LSEEK = Sys_lseek" | "kernel_func SYS_UNLINK = Sys_unlink"
| "kernel_func SYS_MKDIR = Sys_mkdir" | "kernel_func SYS_OPENDIR = Sys_opendir" | "kernel_func SYS_CLOSEDIR = Sys_closedir"
| "kernel_func SYS_READDIR = Sys_readdir" | "kernel_func SYS_REWINDDIR = Sys_rewinddir" | "kernel_func SYS_RMDIR = Sys_rmdir"
| "kernel_func SYS_GETCWD = Sys_getcwd" | "kernel_func SYS_CHDIR = Sys_chdir" | "kernel_func SYS_STAT = Sys_stat"

definition after :: "u32 list \<Rightarrow> u32 \<Rightarrow> cpu \<Rightarrow> cpu" where
  "after w v c = c\<lparr>eax := v, ebx := w ! 0, ecx := w ! 1, edx := w ! 2, esi := w ! 3, edi := w ! 4\<rparr>"

definition seen :: "u32 list \<Rightarrow> cpu \<Rightarrow> (u32 \<times> 's) option \<Rightarrow> (u32 \<times> cpu \<times> 's) option" where
  "seen w c = map_option (\<lambda>(v, s). (v, after w v c, s))"

text \<open>The exit undoes what the entry saved, but for the result in the place of \<^verbatim>\<open>eax\<close>.\<close>

lemma syscall_handler_returns:
  "arr_get syscall_table (unat (eax c)) = Some f \<Longrightarrow>
   syscall_handler ex c s = map_option (\<lambda>(v, s). (c\<lparr>eax := v\<rparr>, s)) (ex f (take (params f) [ebx c, ecx c, edx c, esi c, edi c]) s)"
  by (cases c; cases f) (auto simp: syscall_handler_def pushed_def saved_def Let_def map_option_case split: option.split)

lemma table_entry: "arr_get syscall_table (unat (nr n)) = Some (kernel_func n)"
  by (cases n) (simp_all add: syscall_table_def)

lemma params_le: "params f \<le> 5"
  by (cases f) simp_all

lemma syscall_delivers:
  assumes "5 \<le> length w"
  shows "syscall ex (nr n) w c s = seen w c (ex (kernel_func n) (take (params (kernel_func n)) w) s)"
proof -
  from assms obtain a1 a2 a3 a4 a5 r where w: "w = a1 # a2 # a3 # a4 # a5 # r"
    by (auto simp: Suc_le_length_iff eval_nat_numeral)
  let ?f = "kernel_func n" and ?c = "c\<lparr>eax := nr n, ebx := a1, ecx := a2, edx := a3, esi := a4, edi := a5\<rparr>"
  have "take (params ?f) w = take (params ?f) [a1, a2, a3, a4, a5]" using params_le [of ?f] by (simp add: w take_Cons')
  moreover have "syscall_handler ex ?c s = map_option (\<lambda>(v, s). (after w v c, s)) (ex ?f (take (params ?f) [a1, a2, a3, a4, a5]) s)"
    using syscall_handler_returns [of ?c ?f ex s] table_entry [of n] by (cases c) (simp add: after_def w)
  ultimately show ?thesis by (auto simp: w seen_def after_def map_option_case split: option.split)
qed

text \<open>A number outside the table is not refused: \<^verbatim>\<open>call [syscall_table + eax*4]\<close> takes whatever word is behind it.\<close>

lemma syscall_number_unchecked: "18 \<le> number \<Longrightarrow> 5 \<le> length w \<Longrightarrow> syscall ex number w c s = None"
proof -
  assume n: "18 \<le> number" and w: "5 \<le> length w"
  from w obtain a1 a2 a3 a4 a5 r where "w = a1 # a2 # a3 # a4 # a5 # r" by (auto simp: Suc_le_length_iff eval_nat_numeral)
  moreover have "\<not> unat number < 18" using n by (simp add: word_le_nat_alt)
  ultimately show ?thesis by (simp add: syscall_handler_def arr_get_def syscall_table_def Let_def)
qed

text \<open>C23: Every wrapper of the user library reaches the kernel function of its name with exactly the arguments it was given, in order,
  and returns the result of that function (\<^verbatim>\<open>free\<close> and \<^verbatim>\<open>rewinddir\<close> return nothing): the numbers of both headers, the order of the table,
  the registers used on both sides and the place of \<^verbatim>\<open>eax\<close> in the saved frame agree. The program's other registers, segment
  registers included, come back as they were. It needs five words on the stack behind the number, as \<^verbatim>\<open>syscall\<close> always takes five.\<close>

theorem wrappers_reach_kernel:
  assumes "5 \<le> length stk"
  shows "usr_getpid ex stk c s = seen stk c (ex Sys_getpid [] s) \<and>
    usr_write ex fd b count stk c s = seen (fd # b # count # stk) c (ex Sys_write [fd, b, count] s) \<and>
    usr_malloc ex sz stk c s = seen (sz # stk) c (ex Sys_malloc [sz] s) \<and>
    usr_free ex p stk c s = map_option snd (seen (p # stk) c (ex Sys_free [p] s)) \<and>
    usr_open ex path flags stk c s = seen (path # ucast flags # stk) c (ex Sys_open [path, ucast flags] s) \<and>
    usr_close ex fd stk c s = seen (fd # stk) c (ex Sys_close [fd] s) \<and>
    usr_read ex fd b count stk c s = seen (fd # b # count # stk) c (ex Sys_read [fd, b, count] s) \<and>
    usr_lseek ex fd off whence stk c s = seen (fd # off # ucast whence # stk) c (ex Sys_lseek [fd, off, ucast whence] s) \<and>
    usr_unlink ex path stk c s = seen (path # stk) c (ex Sys_unlink [path] s) \<and>
    usr_mkdir ex path stk c s = seen (path # stk) c (ex Sys_mkdir [path] s) \<and>
    usr_opendir ex path stk c s = seen (path # stk) c (ex Sys_opendir [path] s) \<and>
    usr_closedir ex d stk c s = seen (d # stk) c (ex Sys_closedir [d] s) \<and>
    usr_readdir ex d stk c s = seen (d # stk) c (ex Sys_readdir [d] s) \<and>
    usr_rewinddir ex d stk c s = map_option snd (seen (d # stk) c (ex Sys_rewinddir [d] s)) \<and>
    usr_rmdir ex path stk c s = seen (path # stk) c (ex Sys_rmdir [path] s) \<and>
    usr_getcwd ex b sz stk c s = seen (b # sz # stk) c (ex Sys_getcwd [b, sz] s) \<and>
    usr_chdir ex path stk c s = seen (path # stk) c (ex Sys_chdir [path] s) \<and>
    usr_stat ex path b stk c s = seen (path # b # stk) c (ex Sys_stat [path, b] s)"
  using assms by (simp add: usr_defs syscall_delivers del: nr.simps)

definition demo_cpu :: cpu where
  "demo_cpu = \<lparr>eax = 1, ecx = 2, edx = 3, ebx = 4, esp = 5, ebp = 6, esi = 7, edi = 8, ds = 0x33, es = 0x33, fs_reg = 0x33, gs = 0\<rparr>"

theorem wrappers_reach_kernel_witness:
  "usr_write (\<lambda>f args s. if f = Sys_write then Some (args ! 2, s @ args) else None) 1 0x8048000 12 [0, 0, 0, 9, 9] demo_cpu [] =
     Some (12, demo_cpu\<lparr>eax := 12, ebx := 1, ecx := 0x8048000, edx := 12, esi := 0, edi := 0\<rparr>, [1, 0x8048000, 12])"
  using wrappers_reach_kernel [of "[0, 0, 0, 9, 9]" "\<lambda>f args s. if f = Sys_write then Some (args ! 2, s @ args) else None" demo_cpu "[]" 1
    "0x8048000" 12] by (simp add: seen_def after_def)

end
