(* ===== verification/Console.thy ===== *)
theory Console
  imports Sync
begin

text \<open>
  \<^verbatim>\<open>device/console.c\<close>: the screen behind a lock. The routines that draw, in assembly (\<^verbatim>\<open>lib/kernel/print.asm\<close>), are a parameter; so is the
  type of the screen. \<open>None\<close> is the wait for a lock another thread holds, as in \<open>Sync\<close>.
\<close>

record 'c print_ops =
  put_str :: "u8 list \<Rightarrow> 'c \<Rightarrow> 'c"
  put_char :: "u8 \<Rightarrow> 'c \<Rightarrow> 'c"
  put_int :: "u32 \<Rightarrow> 'c \<Rightarrow> 'c"
  put_hex :: "u32 \<Rightarrow> 'c \<Rightarrow> 'c"

record 'c console_dev =
  console_lock :: lock
  con_screen :: 'c

definition console_init :: "'c console_dev \<Rightarrow> 'c console_dev" where
  "console_init d = d\<lparr>console_lock := lock_init\<rparr>"

definition console_acquire :: "'c console_dev \<Rightarrow> 'a kernel_scheme \<Rightarrow> ('c console_dev \<times> 'a kernel_scheme) option" where
  "console_acquire d s = do { (l, s) \<leftarrow> lock_acquire (console_lock d) s; Some (d\<lparr>console_lock := l\<rparr>, s) }"

definition console_release :: "'c console_dev \<Rightarrow> 'a kernel_scheme \<Rightarrow> ('c console_dev \<times> 'a kernel_scheme) option" where
  "console_release d s = do { (l, s) \<leftarrow> lock_release (console_lock d) s; Some (d\<lparr>console_lock := l\<rparr>, s) }"

definition console_put_str :: "'c print_ops \<Rightarrow> u8 list \<Rightarrow> 'c console_dev \<Rightarrow> 'a kernel_scheme \<Rightarrow> ('c console_dev \<times> 'a kernel_scheme) option" where
  "console_put_str io str d s = do {
     (d, s) \<leftarrow> console_acquire d s;
     let d = d\<lparr>con_screen := put_str io str (con_screen d)\<rparr>;
     console_release d s
   }"

definition console_put_char :: "'c print_ops \<Rightarrow> u8 \<Rightarrow> 'c console_dev \<Rightarrow> 'a kernel_scheme \<Rightarrow> ('c console_dev \<times> 'a kernel_scheme) option" where
  "console_put_char io ch d s = do {
     (d, s) \<leftarrow> console_acquire d s;
     let d = d\<lparr>con_screen := put_char io ch (con_screen d)\<rparr>;
     console_release d s
   }"

definition console_put_int :: "'c print_ops \<Rightarrow> u32 \<Rightarrow> 'c console_dev \<Rightarrow> 'a kernel_scheme \<Rightarrow> ('c console_dev \<times> 'a kernel_scheme) option" where
  "console_put_int io num d s = do {
     (d, s) \<leftarrow> console_acquire d s;
     let d = d\<lparr>con_screen := put_int io num (con_screen d)\<rparr>;
     console_release d s
   }"

definition console_put_hex :: "'c print_ops \<Rightarrow> u32 \<Rightarrow> 'c console_dev \<Rightarrow> 'a kernel_scheme \<Rightarrow> ('c console_dev \<times> 'a kernel_scheme) option" where
  "console_put_hex io num d s = do {
     (d, s) \<leftarrow> console_acquire d s;
     let d = d\<lparr>con_screen := put_hex io num (con_screen d)\<rparr>;
     console_release d s
   }"

subsection \<open>Output between acquire and release\<close>

text \<open>The shape of the four operations, and what they do when the console is free: the output is made once and the console is free again.\<close>

lemma console_section:
  assumes "lock_free (console_lock d)"
  shows "\<exists>l. console_acquire d s \<bind> (\<lambda>(d, s). console_release (d\<lparr>con_screen := f (con_screen d)\<rparr>) s) =
      Some (d\<lparr>console_lock := l, con_screen := f (con_screen d)\<rparr>, s) \<and> lock_free l"
proof -
  from lock_acquire_free [OF assms] obtain l1 where l1: "lock_acquire (console_lock d) s = Some (l1, s)" "lock_held (running s) 1 l1" by blast
  from lock_release_held [OF l1(2)] obtain l2 where l2: "lock_release l1 s = Some (l2, s)" "lock_free l2" by auto
  then show ?thesis using l1(1)
    by (intro exI [of _ l2]) (cases d, simp add: console_acquire_def console_release_def)
qed

lemma console_init_free: "lock_free (console_lock (console_init d))"
  by (simp add: console_init_def lock_init_def lock_free_def sema_init_def)

lemma console_put:
  assumes "lock_free (console_lock d)"
  shows "\<exists>l. console_put_str io str d s = Some (d\<lparr>console_lock := l, con_screen := put_str io str (con_screen d)\<rparr>, s) \<and> lock_free l"
    and "\<exists>l. console_put_char io ch d s = Some (d\<lparr>console_lock := l, con_screen := put_char io ch (con_screen d)\<rparr>, s) \<and> lock_free l"
    and "\<exists>l. console_put_int io num d s = Some (d\<lparr>console_lock := l, con_screen := put_int io num (con_screen d)\<rparr>, s) \<and> lock_free l"
    and "\<exists>l. console_put_hex io num d s = Some (d\<lparr>console_lock := l, con_screen := put_hex io num (con_screen d)\<rparr>, s) \<and> lock_free l"
  using console_section [OF assms, of s] by (simp_all add: console_put_str_def console_put_char_def console_put_int_def console_put_hex_def Let_def)

end
