(* ===== verification/Heap_Blocks.thy ===== *)
theory Heap_Blocks
  imports Malloc Paging
begin

text \<open>
  The parts of the kernel's heap below \<open>sys_malloc\<close>: what the page allocator leaves alone, the pages it gives, the blocks of a page, and
  the relation between the headers of the pages and the free lists, which each step of the heap keeps.
\<close>

subsection \<open>What the page allocator leaves alone\<close>

definition same_heap :: "mkernel \<Rightarrow> mkernel \<Rightarrow> bool" where
  "same_heap s s' \<longleftrightarrow> running s' = running s \<and> tasks s' = tasks s \<and> arenas s' = arenas s \<and> k_block_descs s' = k_block_descs s \<and>
     kernel_vaddr s' = kernel_vaddr s \<and> pool_lock (kernel_pool s') = pool_lock (kernel_pool s)"

lemma same_heap_refl [simp]: "same_heap s s"
  by (simp add: same_heap_def)

lemma same_heap_trans [trans]: "same_heap s s' \<Longrightarrow> same_heap s' s'' \<Longrightarrow> same_heap s s''"
  by (simp add: same_heap_def)

text \<open>A computation that, when it returns, has left them alone; one rule per construct.\<close>

definition keeps :: "mkernel option \<Rightarrow> mkernel \<Rightarrow> bool" where
  "keeps m s \<longleftrightarrow> (\<forall>s'. m = Some s' \<longrightarrow> same_heap s s')"

lemma bind_SomeE: "m \<bind> f = Some y \<Longrightarrow> (\<And>x. m = Some x \<Longrightarrow> f x = Some y \<Longrightarrow> P) \<Longrightarrow> P"
  by (auto simp: bind_eq_Some_conv)

lemma keepsD: "keeps m s \<Longrightarrow> m = Some s' \<Longrightarrow> same_heap s s'"
  by (simp add: keeps_def)

lemma keeps_Some [intro!]: "same_heap s s' \<Longrightarrow> keeps (Some s') s"
  by (simp add: keeps_def)

lemma keeps_read: "(\<And>v. m = Some v \<Longrightarrow> keeps (f v) s) \<Longrightarrow> keeps (m \<bind> f) s"
  by (auto simp: keeps_def bind_eq_Some_conv)

lemma keeps_read2: "(\<And>a b. m = Some (a, b) \<Longrightarrow> keeps (f a b) s) \<Longrightarrow> keeps (m \<bind> (\<lambda>(a, b). f a b)) s"
  by (auto simp: keeps_def bind_eq_Some_conv)

lemma keeps_bind: "keeps m s \<Longrightarrow> (\<And>s1. same_heap s s1 \<Longrightarrow> keeps (f s1) s1) \<Longrightarrow> keeps (m \<bind> f) s"
  by (auto simp: keeps_def bind_eq_Some_conv intro: same_heap_trans)

lemma keeps_if: "(c \<Longrightarrow> keeps m s) \<Longrightarrow> (\<not> c \<Longrightarrow> keeps m' s) \<Longrightarrow> keeps (if c then m else m') s"
  by simp

lemma keeps_from: "same_heap s s1 \<Longrightarrow> keeps m s1 \<Longrightarrow> keeps m s"
  by (auto simp: keeps_def intro: same_heap_trans)

lemma keeps_vwrite: "keeps (vwrite va v s) s"
  by (auto simp: keeps_def vwrite_def same_heap_def)

lemma keeps_vzero: "keeps (vzero n va s) s"
  by (induction n arbitrary: va s) (auto intro!: keeps_bind keeps_vwrite)

lemma keeps_sync_pde: "keeps (sync_pde ps i v s) s"
proof (induction ps arbitrary: s)
  case (Cons p ps)
  show ?case unfolding sync_pde.simps
    by (rule keeps_read, rule keeps_bind [OF keeps_if]) (auto intro: keeps_vwrite Cons.IH)
qed auto

lemma palloc_same: "palloc PF_KERNEL s = Some (f, s') \<Longrightarrow> same_heap s s'"
  by (auto simp: palloc_def Let_def bind_eq_Some_conv same_heap_def upd_pool_def split: if_splits)

lemma lock_section_same:
  assumes "pool_lock (kernel_pool s) = lock_at (running s) n" "n + 1 \<noteq> 0"
    and "mem_lock_acquire PF_KERNEL s = Some s1" "palloc PF_KERNEL s1 = Some (f, s2)" "mem_lock_release PF_KERNEL s2 = Some s3"
  shows "same_heap s s3"
proof -
  have s1: "s1 = s\<lparr>kernel_pool := kernel_pool s\<lparr>pool_lock := lock_at (running s) (n + 1)\<rparr>\<rparr>"
    using assms(1-3) by (simp add: mem_lock_acquire_def pool_of_def upd_pool_def)
  have 2: "same_heap s1 s2" by (rule palloc_same [OF assms(4)])
  then have "pool_lock (kernel_pool s2) = lock_at (running s2) (n + 1)" by (simp add: same_heap_def s1)
  then have "s3 = s2\<lparr>kernel_pool := kernel_pool s2\<lparr>pool_lock := lock_at (running s2) n\<rparr>\<rparr>"
    using assms(2,5) by (simp add: mem_lock_release_def pool_of_def upd_pool_def)
  then show ?thesis using 2 assms(1) by (simp add: same_heap_def s1)
qed

text \<open>The entry of a new page table in the directories.\<close>

lemma keeps_new_pde:
  "keeps (if 768 \<le> i \<and> i < 1023
     then do {
       pde_val \<leftarrow> vread p t;
       cache \<leftarrow> arr_set (kernel_pde_cache t) (unat (i - 768)) pde_val;
       s \<leftarrow> vwrite (KERNEL_PAGE_DIR + i * 4) pde_val (t\<lparr>kernel_pde_cache := cache\<rparr>);
       sync_pde (thread_all_list s) i pde_val s
     }
     else Some t) t"
  apply (rule keeps_if, rule keeps_read, rule keeps_read)
  subgoal for v cache
    by (rule keeps_from [of _ "t\<lparr>kernel_pde_cache := cache\<rparr>"]) (simp add: same_heap_def, intro keeps_bind keeps_vwrite keeps_sync_pde)
  by auto

lemma keeps_page_table_add:
  assumes "pool_lock (kernel_pool s) = lock_at (running s) n" "n + 1 \<noteq> 0"
  shows "keeps (page_table_add va pa s) s"
  unfolding page_table_add_def Let_def
  apply (rule keeps_read, rule keeps_if)
   apply (intro keeps_read keeps_vwrite)
  apply (rule keeps_read, rule keeps_read2, rule keeps_read)
  apply (rule keeps_from [OF lock_section_same [OF assms]], assumption+)
  by (rule keeps_bind [OF keeps_vwrite] keeps_bind [OF keeps_new_pde] keeps_bind [OF keeps_vzero] keeps_read keeps_vwrite)+

subsection \<open>Pages\<close>

definition page :: "nat \<Rightarrow> u32" where "page n = K_HEAP_START + word_of_nat n * PG_SIZE"

text \<open>The pool of virtual addresses: what \<^verbatim>\<open>mem_pool_init\<close> sets up, with every page below 4 GB.\<close>

definition va_ok :: "virtual_addr \<Rightarrow> bool" where
  "va_ok va \<longleftrightarrow> wf_bitmap (vaddr_bitmap va) \<and> vaddr_start va = K_HEAP_START \<and> bits_total (vaddr_bitmap va) \<le> 261888"

lemma unat_page: "n < 261888 \<Longrightarrow> unat (page n) = 0xc0100000 + 4096 * n"
proof -
  assume n: "n < 261888"
  then have "unat (word_of_nat n :: u32) = n" by (simp add: unsigned_of_nat take_bit_nat_eq_self)
  then have "unat (word_of_nat n * PG_SIZE) = 4096 * n"
    using n by (subst unat_mult_lem [THEN iffD1]) (simp_all add: PG_SIZE_def)
  then show ?thesis using n unfolding page_def
    by (subst unat_add_lem [THEN iffD1]) (simp_all add: K_HEAP_START_def)
qed

lemma page_inj: "m < 261888 \<Longrightarrow> n < 261888 \<Longrightarrow> page m = page n \<longleftrightarrow> m = n"
  using unat_page by (metis add_left_cancel mult_left_cancel zero_neq_numeral)

lemma page_idx: "n < 261888 \<Longrightarrow> (page n - K_HEAP_START) div PG_SIZE = word_of_nat n"
proof -
  assume n: "n < 261888"
  then have "unat (word_of_nat n :: u32) = n" by (simp add: unsigned_of_nat take_bit_nat_eq_self)
  moreover from this have "unat (word_of_nat n * PG_SIZE) = 4096 * n"
    using n by (subst unat_mult_lem [THEN iffD1]) (simp_all add: PG_SIZE_def)
  ultimately show ?thesis by (simp add: page_def word_unat_eq_iff unat_div)
qed

lemma page_props: "n < 261888 \<Longrightarrow> page n \<noteq> 0 \<and> \<not> page n < 0xc0000000 \<and> frame (page n) = page n"
proof -
  assume "n < 261888"
  note u = unat_page [OF this]
  have "(0xc0100000 + 4096 * n) mod 4096 = 0" by presburger
  then have "frame (page n) = page n" by (simp add: unat_mod_frame u)
  moreover have "page n \<noteq> 0" "\<not> page n < 0xc0000000" using u by (auto simp: word_less_nat_alt)
  ultimately show ?thesis by simp
qed


lemma map_one_page:
  assumes "pool_lock (kernel_pool s) = lock_at (running s) n" "n + 1 \<noteq> 0" "map_pages 1 PF_KERNEL va s = Some (ok, s')"
  shows "same_heap s s'"
proof -
  from assms(3) obtain f s1 where 1: "palloc PF_KERNEL s = Some (f, s1)" and
    2: "f = 0 \<and> s' = s1 \<or> page_table_add va f s1 = Some s'" by (auto simp: bind_eq_Some_conv split: if_splits)
  have 3: "same_heap s s1" by (rule palloc_same [OF 1])
  then have "pool_lock (kernel_pool s1) = lock_at (running s1) n" using assms(1) by (simp add: same_heap_def)
  from keepsD [OF keeps_page_table_add [OF this assms(2)]] 2 3 show ?thesis by (blast intro: same_heap_trans)
qed

text \<open>\<^verbatim>\<open>malloc_page(PF_KERNEL, 1)\<close>: the page it returns was free; when it returns \<^verbatim>\<open>NULL\<close> a virtual page may be lost.\<close>

definition took_page :: "mkernel \<Rightarrow> nat option \<Rightarrow> mkernel \<Rightarrow> bool" where
  "took_page s n s' \<longleftrightarrow> (\<exists>va. same_heap (s\<lparr>kernel_vaddr := va\<rparr>) s' \<and> va_ok va \<and>
     bitmap_used (vaddr_bitmap (kernel_vaddr s)) \<subseteq> bitmap_used (vaddr_bitmap va) \<and>
     (case n of None \<Rightarrow> True | Some n \<Rightarrow> n < 261888 \<and> n \<notin> bitmap_used (vaddr_bitmap (kernel_vaddr s)) \<and> n \<in> bitmap_used (vaddr_bitmap va)))"

lemma malloc_page_takes:
  assumes va: "va_ok (kernel_vaddr s)" and l: "pool_lock (kernel_pool s) = lock_at (running s) n" "n + 1 \<noteq> 0"
    and m: "malloc_page PF_KERNEL 1 s = Some (a, s')"
  shows "a = 0 \<and> took_page s None s' \<or> (\<exists>n. a = page n \<and> took_page s (Some n) s')"
proof -
  let ?va = "kernel_vaddr s" and ?b = "vaddr_bitmap (kernel_vaddr s)"
  have wf: "wf_bitmap ?b" using va by (simp add: va_ok_def)
  from m obtain v s1 where g: "vaddr_get PF_KERNEL 1 s = Some (v, s1)" and
    c: "(if v = 0 then Some (0, s1) else do { (ok, s) \<leftarrow> map_pages 1 PF_KERNEL v s1; Some (if ok then v else 0, s) }) = Some (a, s')"
    unfolding malloc_page_def unat_1 by (auto simp: bind_eq_Some_conv [of _ _ "(a, s')"] simp del: map_pages.simps)
  from bitmap_take [OF wf] show ?thesis
  proof (elim disjE exE conjE)
    fix i b assume i: "bitmap_scan ?b 1 = Some (int i)" "i < bits_total ?b" "i \<notin> bitmap_used ?b"
      "bitmap_set ?b (word_of_nat i) 1 = Some b" "wf_bitmap b" "length (bits b) = length (bits ?b)"
      "bitmap_used b = insert i (bitmap_used ?b)"
    have 1: "v = page i" "s1 = s\<lparr>kernel_vaddr := ?va\<lparr>vaddr_bitmap := b\<rparr>\<rparr>"
      using g i(1,4) va by (simp_all add: vaddr_get_def vaddr_pool_def set_vbits_def page_def va_ok_def Let_def)
    have ib: "i < 261888" using i(2) va by (simp add: va_ok_def)
    then have "v \<noteq> 0" using page_props [of i] 1(1) by simp
    then obtain r where r: "map_pages 1 PF_KERNEL v s1 = Some r" "(case r of (ok, s) \<Rightarrow> Some (if ok then v else 0, s)) = Some (a, s')"
      using c by (simp only: if_False bind_eq_Some_conv) blast
    then obtain ok where ok: "map_pages 1 PF_KERNEL v s1 = Some (ok, s')" "a = (if ok then v else 0)" by (cases r) simp
    have "same_heap s1 s'" by (rule map_one_page [OF _ l(2) ok(1)]) (simp add: 1(2) l(1))
    then have "took_page s (Some i) s'" "took_page s None s'" unfolding took_page_def using va
      by (auto intro!: exI [of _ "?va\<lparr>vaddr_bitmap := b\<rparr>"] simp: 1(2) i(3,5-7) ib va_ok_def)
    then show ?thesis using ok(2) 1(1) by (cases ok) auto
  next
    assume "bitmap_scan ?b 1 = Some (- 1)"
    then have "v = 0" "s1 = s" using g by (simp_all add: vaddr_get_def vaddr_pool_def)
    moreover have "took_page s None s" unfolding took_page_def by (rule exI [of _ "kernel_vaddr s"]) (simp add: va same_heap_def)
    ultimately show ?thesis using c by auto
  qed
qed


subsection \<open>Blocks\<close>

text \<open>The descriptors \<^verbatim>\<open>block_desc_init\<close> makes: class \<open>i\<close> has blocks of \<open>16 * 2 ^ i\<close> bytes.\<close>

definition class_size :: "nat \<Rightarrow> nat" where "class_size i = 16 * 2 ^ i"

definition class_blocks :: "nat \<Rightarrow> nat" where "class_blocks i = 4088 div class_size i"

definition desc_ok :: "nat \<Rightarrow> mem_block_desc \<Rightarrow> bool" where
  "desc_ok i d \<longleftrightarrow> unat (block_size d) = class_size i \<and> unat (blocks_per_arena d) = class_blocks i"

lemma lt7: "(i :: nat) < 7 \<longleftrightarrow> i \<in> {0, 1, 2, 3, 4, 5, 6}"
  by auto

lemma class_bounds: "i < 7 \<Longrightarrow> 16 \<le> class_size i \<and> class_size i \<le> 1024 \<and> 3 \<le> class_blocks i \<and> class_blocks i \<le> 255"
  unfolding lt7 by (auto simp: class_size_def class_blocks_def)

lemma class_fits: "i < 7 \<Longrightarrow> k < class_blocks i \<Longrightarrow> 8 + k * class_size i + class_size i \<le> 4096"
proof -
  assume "i < 7" and k: "k < class_blocks i"
  have "(k + 1) * class_size i \<le> class_blocks i * class_size i" using k by (intro mult_le_mono1) simp
  also have "\<dots> \<le> 4088" by (simp add: class_blocks_def)
  finally show ?thesis by simp
qed

text \<open>The address of block \<open>k\<close> of the page \<open>a\<close>.\<close>

definition block :: "nat \<Rightarrow> u32 \<Rightarrow> nat \<Rightarrow> u32" where
  "block i a k = a + ARENA_SIZE + word_of_nat k * word_of_nat (class_size i)"

lemma arena_blocks_eq: "desc_ok i d \<Longrightarrow> arena_blocks d a = map (block i a) [0..<class_blocks i]"
proof -
  assume d: "desc_ok i d"
  then have "word_of_nat (unat (block_size d)) = (word_of_nat (class_size i) :: u32)" by (simp only: desc_ok_def)
  then have "block_size d = word_of_nat (class_size i)" by simp
  then show ?thesis using d by (simp add: arena_blocks_def block_def desc_ok_def)
qed

lemma unat_block:
  assumes "i < 7" "k < class_blocks i" "n < 261888"
  shows "unat (block i (page n) k) = unat (page n) + 8 + k * class_size i"
proof -
  note f = class_fits [OF assms(1,2)] class_bounds [OF assms(1)]
  have p: "unat (page n) + 4096 \<le> 4294967296" using unat_page [OF assms(3)] assms(3) by simp
  have "unat (word_of_nat (k * class_size i) :: u32) = k * class_size i"
    using f by (simp add: unsigned_of_nat take_bit_nat_eq_self del: of_nat_mult)
  moreover have "unat (page n + ARENA_SIZE) = unat (page n) + 8"
    using p by (subst unat_add_lem [THEN iffD1]) (simp_all add: ARENA_SIZE_def)
  ultimately show ?thesis using p f unfolding block_def
    by (subst unat_add_lem [THEN iffD1]) (simp_all flip: of_nat_mult)
qed

lemma block_frame: "i < 7 \<Longrightarrow> k < class_blocks i \<Longrightarrow> n < 261888 \<Longrightarrow> frame (block i (page n) k) = page n"
proof -
  assume a: "i < 7" "k < class_blocks i" "n < 261888"
  note f = class_fits [OF a(1,2)] class_bounds [OF a(1)]
  have "unat (block i (page n) k) = 4096 * (0xc0100 + n) + (8 + k * class_size i)"
    using unat_block [OF a] unat_page [OF a(3)] by simp
  moreover have "8 + k * class_size i < 4096" using f by linarith
  ultimately have "unat (block i (page n) k) div 4096 = 0xc0100 + n" by simp
  then show ?thesis using unat_page [OF a(3)] by (simp add: word_unat_eq_iff unat_frame)
qed

lemma block_inj:
  assumes "i < 7" "k < class_blocks i" "l < class_blocks i" "n < 261888"
  shows "block i (page n) k = block i (page n) l \<longleftrightarrow> k = l"
proof -
  have "class_size i \<noteq> 0" by (simp add: class_size_def)
  then show ?thesis using unat_block [OF assms(1,2,4)] unat_block [OF assms(1,3,4)] by (auto simp: word_unat_eq_iff)
qed

definition blocks :: "nat \<Rightarrow> u32 \<Rightarrow> u32 set" where
  "blocks i a = block i a ` {..<class_blocks i}"

lemma set_arena_blocks: "desc_ok i d \<Longrightarrow> set (arena_blocks d a) = blocks i a"
  by (auto simp: arena_blocks_eq blocks_def)

lemma distinct_arena_blocks: "i < 7 \<Longrightarrow> n < 261888 \<Longrightarrow> desc_ok i d \<Longrightarrow> distinct (arena_blocks d (page n))"
  by (auto simp: arena_blocks_eq distinct_map inj_on_def block_inj)

lemma card_blocks: "i < 7 \<Longrightarrow> n < 261888 \<Longrightarrow> card (blocks i (page n)) = class_blocks i"
  unfolding blocks_def by (subst card_image) (auto simp: inj_on_def block_inj)

lemma blocks_frame: "i < 7 \<Longrightarrow> n < 261888 \<Longrightarrow> b \<in> blocks i (page n) \<Longrightarrow> frame b = page n"
  by (auto simp: blocks_def block_frame)


subsection \<open>The invariant\<close>

text \<open>The heap as three parts: the virtual pages in use, the free list of each class and the headers of the pages. A page of class \<open>i\<close>
  counts its blocks that are on the free list, and a block on the free list lies in a page of its class.\<close>

definition hdr_ok :: "(nat \<Rightarrow> u32 list) \<Rightarrow> u32 \<Rightarrow> arena \<Rightarrow> bool" where
  "hdr_ok F a ar \<longleftrightarrow> a_desc ar = None \<or> (\<exists>i < 7. a_desc ar = Some (K_Desc i) \<and> unat (a_cnt ar) = card (blocks i a \<inter> set (F i)))"

definition in_class :: "(u32 \<Rightarrow> arena option) \<Rightarrow> nat \<Rightarrow> u32 \<Rightarrow> bool" where
  "in_class A i b \<longleftrightarrow> i < 7 \<and> b \<in> blocks i (frame b) \<and> (\<exists>ar. A (frame b) = Some ar \<and> a_desc ar = Some (K_Desc i))"

definition parts_ok :: "nat set \<Rightarrow> (nat \<Rightarrow> u32 list) \<Rightarrow> (u32 \<Rightarrow> arena option) \<Rightarrow> bool" where
  "parts_ok U F A \<longleftrightarrow> (\<forall>a ar. A a = Some ar \<longrightarrow> (\<exists>n \<in> U. n < 261888 \<and> a = page n) \<and> hdr_ok F a ar) \<and>
     (\<forall>i < 7. distinct (F i) \<and> (\<forall>b \<in> set (F i). in_class A i b))"

definition live_in :: "(nat \<Rightarrow> u32 list) \<Rightarrow> (u32 \<Rightarrow> arena option) \<Rightarrow> (u32 \<times> nat) set" where
  "live_in F A = {(b, i). in_class A i b \<and> b \<notin> set (F i)}"

lemma parts_page: "parts_ok U F A \<Longrightarrow> A a = Some ar \<Longrightarrow> \<exists>n \<in> U. n < 261888 \<and> a = page n"
  by (simp add: parts_ok_def)

lemma parts_ok_mono: "parts_ok U F A \<Longrightarrow> U \<subseteq> U' \<Longrightarrow> parts_ok U' F A"
  unfolding parts_ok_def by blast

text \<open>A new page, all its blocks on a free list that was empty.\<close>

lemma parts_add:
  assumes ok: "parts_ok U F A" and n: "n \<notin> U" "n < 261888" and i: "i < 7" "F i = []"
    and l: "set l = blocks i (page n)" "distinct l" and ar: "a_desc ar = Some (K_Desc i)" "unat (a_cnt ar) = class_blocks i"
  shows "parts_ok (insert n U) (F(i := l)) (A(page n \<mapsto> ar))" "live_in (F(i := l)) (A(page n \<mapsto> ar)) = live_in F A"
proof -
  have new: "A (page n) = None" using parts_page [OF ok, of "page n"] n page_inj [OF n(2)] by (cases "A (page n)") auto
  have none: "\<not> in_class A i b" if "frame b = page n" for b using new that by (simp add: in_class_def)
  have hdr: "hdr_ok (F(i := l)) a x" if "A a = Some x" "a \<noteq> page n" for a x
  proof -
    from parts_page [OF ok that(1)] obtain m where m: "m < 261888" "a = page m" by blast
    have "blocks i a \<inter> set l = {}"
      using blocks_frame [OF i(1) m(1)] blocks_frame [OF i(1) n(2)] m(2) that(2) l(1) by (metis disjoint_iff)
    moreover have "hdr_ok F a x" using ok that(1) by (simp add: parts_ok_def)
    ultimately show ?thesis using i(2) by (auto simp: hdr_ok_def)
  qed
  have "hdr_ok (F(i := l)) (page n) ar" using i(1) ar l(1) card_blocks [OF i(1) n(2)] by (simp add: hdr_ok_def)
  moreover have "in_class (A(page n \<mapsto> ar)) i b" if "b \<in> set l" for b
    using that blocks_frame [OF i(1) n(2), of b] l(1) i(1) ar(1) by (simp add: in_class_def)
  moreover have "in_class (A(page n \<mapsto> ar)) j b" if "in_class A j b" for j b
    using that new by (auto simp: in_class_def)
  ultimately show "parts_ok (insert n U) (F(i := l)) (A(page n \<mapsto> ar))"
    using ok hdr l(2) n(2) unfolding parts_ok_def by (auto split: if_splits)
  show "live_in (F(i := l)) (A(page n \<mapsto> ar)) = live_in F A"
  proof -
    have "in_class (A(page n \<mapsto> ar)) j b \<and> b \<notin> set ((F(i := l)) j) \<longleftrightarrow> in_class A j b \<and> b \<notin> set (F j)" for j b
      using none [of b] new l(1) ar(1) i(2) by (cases "frame b = page n") (auto simp: in_class_def blocks_frame [OF i(1) n(2)])
    then show ?thesis by (simp add: live_in_def)
  qed
qed

text \<open>The first block of a free list is taken.\<close>

lemma in_class_cong: "(\<And>a. map_option a_desc (A a) = map_option a_desc (A' a)) \<Longrightarrow> in_class A i b = in_class A' i b"
proof -
  assume *: "\<And>a. map_option a_desc (A a) = map_option a_desc (A' a)"
  show ?thesis using * [of "frame b"] by (cases "A (frame b)"; cases "A' (frame b)") (auto simp: in_class_def)
qed

lemma hdr_ok_other:
  assumes "hdr_ok F a ar" "\<And>j. j < 7 \<Longrightarrow> blocks j a \<inter> set (F' j) = blocks j a \<inter> set (F j)"
  shows "hdr_ok F' a ar"
  using assms unfolding hdr_ok_def by metis

lemma parts_take:
  assumes ok: "parts_ok U F A" and i: "i < 7" "F i = b # l" and ar: "A (frame b) = Some ar"
  shows "parts_ok U (F(i := l)) (A(frame b \<mapsto> ar\<lparr>a_cnt := a_cnt ar - 1\<rparr>))"
    "live_in (F(i := l)) (A(frame b \<mapsto> ar\<lparr>a_cnt := a_cnt ar - 1\<rparr>)) = insert (b, i) (live_in F A)" "(b, i) \<notin> live_in F A"
proof -
  let ?A = "A(frame b \<mapsto> ar\<lparr>a_cnt := a_cnt ar - 1\<rparr>)"
  have c: "in_class ?A j x = in_class A j x" for j x using ar by (intro in_class_cong) simp
  have b: "in_class A i b" "b \<notin> set l" "distinct l" using ok i unfolding parts_ok_def by (metis distinct.simps(2) list.set_intros(1))+
  then have ari: "a_desc ar = Some (K_Desc i)" "b \<in> blocks i (frame b)" using ar by (auto simp: in_class_def)
  have "hdr_ok F (frame b) ar" using ok ar by (simp add: parts_ok_def)
  then have cnt: "unat (a_cnt ar) = card (blocks i (frame b) \<inter> set (F i))" using ari(1) by (auto simp: hdr_ok_def)
  have fin: "finite (blocks i (frame b) \<inter> set (F i))" by simp
  have "blocks i (frame b) \<inter> set l = blocks i (frame b) \<inter> set (F i) - {b}" using i(2) b(2) by auto
  then have card: "card (blocks i (frame b) \<inter> set l) = unat (a_cnt ar) - 1" "0 < unat (a_cnt ar)"
    using cnt ari(2) i(2) card_Diff_singleton [of b "blocks i (frame b) \<inter> set (F i)"] card_gt_0_iff [of "blocks i (frame b) \<inter> set (F i)"] by auto
  then have hb: "hdr_ok (F(i := l)) (frame b) (ar\<lparr>a_cnt := a_cnt ar - 1\<rparr>)"
    using i(1) ari(1) by (auto simp: hdr_ok_def unat_sub_if')
  have ho: "hdr_ok (F(i := l)) a x" if "A a = Some x" "a \<noteq> frame b" for a x
  proof (rule hdr_ok_other [of F])
    show "hdr_ok F a x" using ok that(1) by (simp add: parts_ok_def)
    from parts_page [OF ok that(1)] obtain m where "m < 261888" "a = page m" by blast
    then have "b \<notin> blocks i a" using blocks_frame [OF i(1), of m b] that(2) by auto
    then show "blocks j a \<inter> set ((F(i := l)) j) = blocks j a \<inter> set (F j)" for j using i(2) by auto
  qed
  show "parts_ok U (F(i := l)) ?A"
    using ok hb ho b(3) i(2) ar unfolding parts_ok_def c by auto
  show "live_in (F(i := l)) ?A = insert (b, i) (live_in F A)" "(b, i) \<notin> live_in F A"
    using b i(2) unfolding live_in_def c by auto
qed


text \<open>A block in use goes back to the end of its free list.\<close>

lemma parts_put:
  assumes ok: "parts_ok U F A" and b: "(b, i) \<in> live_in F A" and ar: "A (frame b) = Some ar"
  shows "parts_ok U (F(i := F i @ [b])) (A(frame b \<mapsto> ar\<lparr>a_cnt := a_cnt ar + 1\<rparr>))"
    "live_in (F(i := F i @ [b])) (A(frame b \<mapsto> ar\<lparr>a_cnt := a_cnt ar + 1\<rparr>)) = live_in F A - {(b, i)}"
    "unat (a_cnt ar + 1) = card (blocks i (frame b) \<inter> set (F i @ [b]))"
proof -
  let ?A = "A(frame b \<mapsto> ar\<lparr>a_cnt := a_cnt ar + 1\<rparr>)"
  have c: "in_class ?A j x = in_class A j x" for j x using ar by (intro in_class_cong) simp
  have i: "i < 7" and bi: "in_class A i b" "b \<notin> set (F i)" and ari: "a_desc ar = Some (K_Desc i)" "b \<in> blocks i (frame b)"
    using b ar by (auto simp: live_in_def in_class_def)
  have "hdr_ok F (frame b) ar" using ok ar by (simp add: parts_ok_def)
  then have cnt: "unat (a_cnt ar) = card (blocks i (frame b) \<inter> set (F i))" using ari(1) by (auto simp: hdr_ok_def)
  from parts_page [OF ok ar] obtain n where n: "n < 261888" "frame b = page n" by blast
  have "card (blocks i (frame b) \<inter> set (F i)) \<le> class_blocks i"
    using card_mono [of "blocks i (frame b)"] card_blocks [OF i n(1)] n(2) by (simp add: blocks_def)
  then have "unat (a_cnt ar) + 1 < 2 ^ 32" using cnt class_bounds [OF i] by simp
  then have "unat (a_cnt ar + 1) = unat (a_cnt ar) + 1" by (subst unat_add_lem [THEN iffD1]) simp_all
  moreover have "blocks i (frame b) \<inter> set (F i @ [b]) = insert b (blocks i (frame b) \<inter> set (F i))" using ari(2) by auto
  ultimately show card: "unat (a_cnt ar + 1) = card (blocks i (frame b) \<inter> set (F i @ [b]))" using cnt bi(2) by simp
  then have hb: "hdr_ok (F(i := F i @ [b])) (frame b) (ar\<lparr>a_cnt := a_cnt ar + 1\<rparr>)" using i ari(1) by (simp add: hdr_ok_def)
  have ho: "hdr_ok (F(i := F i @ [b])) a x" if "A a = Some x" "a \<noteq> frame b" for a x
  proof (rule hdr_ok_other [of F])
    show "hdr_ok F a x" using ok that(1) by (simp add: parts_ok_def)
    from parts_page [OF ok that(1)] obtain m where "m < 261888" "a = page m" by blast
    then have "b \<notin> blocks i a" using blocks_frame [OF i, of m b] that(2) by auto
    then show "blocks j a \<inter> set ((F(i := F i @ [b])) j) = blocks j a \<inter> set (F j)" for j by auto
  qed
  show "parts_ok U (F(i := F i @ [b])) ?A" using ok hb ho bi ar unfolding parts_ok_def c by auto
  show "live_in (F(i := F i @ [b])) ?A = live_in F A - {(b, i)}" unfolding live_in_def c by auto
qed

text \<open>A page all of whose blocks are free is given back; its blocks leave the free list.\<close>

lemma remove_all_filter:
  "distinct l \<Longrightarrow> distinct bs \<Longrightarrow> set bs \<subseteq> set l \<Longrightarrow> remove_all bs l = Some (filter (\<lambda>x. x \<notin> set bs) l)"
proof (induction bs arbitrary: l)
  case (Cons b bs)
  have "remove1 b l = filter (\<lambda>x. x \<noteq> b) l" using Cons.prems(1)
    by (auto simp: distinct_remove1_removeAll removeAll_filter_not_eq intro: filter_cong)
  moreover have "remove_all bs (filter (\<lambda>x. x \<noteq> b) l) = Some (filter (\<lambda>x. x \<notin> set bs) (filter (\<lambda>x. x \<noteq> b) l))"
    using Cons.prems by (intro Cons.IH) auto
  ultimately show ?case using Cons.prems(3) by (auto intro: filter_cong)
qed simp

lemma parts_drop:
  assumes ok: "parts_ok U F A" and ar: "A (page n) = Some ar" "a_desc ar = Some (K_Desc i)" and n: "n < 261888" and i: "i < 7"
    and all: "blocks i (page n) \<subseteq> set (F i)" and l: "l = filter (\<lambda>x. x \<notin> blocks i (page n)) (F i)"
  shows "parts_ok (U - {n}) (F(i := l)) (A(page n := None))" "live_in (F(i := l)) (A(page n := None)) = live_in F A"
proof -
  have c: "in_class (A(page n := None)) j b \<longleftrightarrow> in_class A j b \<and> frame b \<noteq> page n" for j b by (auto simp: in_class_def)
  have cls: "j = i \<and> b \<in> blocks i (page n)" if "in_class A j b" "frame b = page n" for j b
    using that ar by (auto simp: in_class_def)
  have "hdr_ok (F(i := l)) a x" if "A a = Some x" "a \<noteq> page n" for a x
  proof (rule hdr_ok_other [of F])
    show "hdr_ok F a x" using ok that(1) by (simp add: parts_ok_def)
    from parts_page [OF ok that(1)] obtain m where "m < 261888" "a = page m" by blast
    then have "blocks i a \<inter> blocks i (page n) = {}"
      using blocks_frame [OF i] n that(2) by (metis disjoint_iff)
    then show "blocks j a \<inter> set ((F(i := l)) j) = blocks j a \<inter> set (F j)" for j using l by auto
  qed
  moreover have "a \<noteq> page n \<Longrightarrow> A a = Some x \<Longrightarrow> \<exists>m \<in> U - {n}. m < 261888 \<and> a = page m" for a x
    using parts_page [OF ok] by blast
  moreover have "in_class A j b \<and> frame b \<noteq> page n" if "j < 7" "b \<in> set ((F(i := l)) j)" for j b
    using that ok cls [of j b] l unfolding parts_ok_def by (auto split: if_splits)
  moreover have "distinct ((F(i := l)) j)" if "j < 7" for j using that ok l by (auto simp: parts_ok_def)
  ultimately show "parts_ok (U - {n}) (F(i := l)) (A(page n := None))"
    unfolding parts_ok_def c by (simp split: if_splits)
  show "live_in (F(i := l)) (A(page n := None)) = live_in F A"
    unfolding live_in_def c using cls all l blocks_frame [OF i n] by (auto split: if_splits)
qed

end
