(* ===== verification/Block_Heap.thy ===== *)
theory Block_Heap
  imports Prelude
begin

text \<open>
  The contract the clients of a heap rely on: a request that is served gives a block that was not in use, a block given back is not in
  use any more, and nothing else changes hands. What follows for sequences of requests is proved once here.
\<close>

locale block_heap =
  fixes inv :: "'s \<Rightarrow> bool" and used :: "'s \<Rightarrow> 'b set" and ask :: "'r \<Rightarrow> bool"
    and give :: "'r \<Rightarrow> 's \<Rightarrow> ('b option \<times> 's) option" and release :: "'b \<Rightarrow> 's \<Rightarrow> 's option"
  assumes give_none: "inv s \<Longrightarrow> ask r \<Longrightarrow> give r s = Some (None, s') \<Longrightarrow> inv s' \<and> used s' = used s"
    and give_some: "inv s \<Longrightarrow> ask r \<Longrightarrow> give r s = Some (Some b, s') \<Longrightarrow> inv s' \<and> b \<notin> used s \<and> used s' = insert b (used s)"
    and release_used: "inv s \<Longrightarrow> b \<in> used s \<Longrightarrow> release b s = Some s' \<Longrightarrow> inv s' \<and> used s' = used s - {b}"
begin

primrec give_all :: "'r list \<Rightarrow> 's \<Rightarrow> ('b option list \<times> 's) option" where
  "give_all [] s = Some ([], s)"
| "give_all (r # rs) s = do { (b, s) \<leftarrow> give r s; (bs, s) \<leftarrow> give_all rs s; Some (b # bs, s) }"

primrec release_all :: "'b list \<Rightarrow> 's \<Rightarrow> 's option" where
  "release_all [] s = Some s"
| "release_all (b # bs) s = do { s \<leftarrow> release b s; release_all bs s }"

text \<open>The blocks that were served.\<close>

definition served :: "'b option list \<Rightarrow> 'b list" where
  "served bs = map the (filter (\<lambda>b. b \<noteq> None) bs)"

lemma give_all_distinct:
  "inv s \<Longrightarrow> \<forall>r \<in> set rs. ask r \<Longrightarrow> give_all rs s = Some (bs, s') \<Longrightarrow>
   inv s' \<and> distinct (served bs) \<and> set (served bs) \<inter> used s = {} \<and> used s' = used s \<union> set (served bs)"
proof (induction rs arbitrary: s bs)
  case (Cons r rs)
  from Cons.prems(3) obtain b s1 bs' where g: "give r s = Some (b, s1)" "give_all rs s1 = Some (bs', s')" "bs = b # bs'"
    by (auto simp: bind_eq_Some_conv)
  have r: "ask r" "\<forall>r \<in> set rs. ask r" using Cons.prems(2) by simp_all
  show ?case
  proof (cases b)
    case None
    with give_none [OF Cons.prems(1) r(1)] g(1) have "inv s1" "used s1 = used s" by auto
    with Cons.IH [OF _ r(2) g(2)] show ?thesis using None g(3) by (simp add: served_def)
  next
    case (Some x)
    with give_some [OF Cons.prems(1) r(1)] g(1) have "inv s1" "x \<notin> used s" "used s1 = insert x (used s)" by auto
    with Cons.IH [OF _ r(2) g(2)] show ?thesis using Some g(3) by (auto simp: served_def)
  qed
qed (simp add: served_def)

lemma release_all_used:
  "inv s \<Longrightarrow> distinct bs \<Longrightarrow> set bs \<subseteq> used s \<Longrightarrow> release_all bs s = Some s' \<Longrightarrow> inv s' \<and> used s' = used s - set bs"
proof (induction bs arbitrary: s)
  case (Cons b bs)
  from Cons.prems(4) obtain s1 where s1: "release b s = Some s1" "release_all bs s1 = Some s'" by (auto simp: bind_eq_Some_conv)
  with release_used [OF Cons.prems(1)] Cons.prems(3) have u: "inv s1" "used s1 = used s - {b}" by auto
  with Cons.IH [OF u(1) _ _ s1(2)] Cons.prems(2,3) show ?case by auto
qed simp

text \<open>Giving back all that was served leaves the blocks that were in use before.\<close>

lemma give_back:
  assumes "inv s" "\<forall>r \<in> set rs. ask r" "give_all rs s = Some (bs, s1)" "release_all (served bs) s1 = Some s2"
  shows "inv s2 \<and> used s2 = used s"
proof -
  from give_all_distinct [OF assms(1-3)] have g: "inv s1" "distinct (served bs)" "set (served bs) \<inter> used s = {}" "used s1 = used s \<union> set (served bs)"
    by auto
  from release_all_used [OF g(1,2) _ assms(4)] g(3,4) show ?thesis by auto
qed

end

end
