(* ===== verification/Heap_Correct.thy ===== *)
theory Heap_Correct
  imports Heap_Blocks Block_Heap
begin

text \<open>
  The heap of the kernel threads: what \<open>sys_malloc\<close> and \<open>sys_free\<close> keep for requests of up to 1024 bytes. The blocks handed out are
  compared with the free lists and the counters in the headers of the pages; \<open>heap_ok\<close> is the invariant and \<open>live\<close> the set of the blocks
  in use. They are a \<open>block_heap\<close>.
\<close>

subsection \<open>The invariant of the kernel's heap\<close>

definition used_pages :: "mkernel \<Rightarrow> nat set" where "used_pages s = bitmap_used (vaddr_bitmap (kernel_vaddr s))"
definition free_lists :: "mkernel \<Rightarrow> nat \<Rightarrow> u32 list" where "free_lists s = (\<lambda>i. free_list (k_block_descs s ! i))"
definition headers :: "mkernel \<Rightarrow> u32 \<Rightarrow> arena option" where "headers s = (\<lambda>a. arenas s (None, a))"

definition heap_ok :: "mkernel \<Rightarrow> bool" where
  "heap_ok s \<longleftrightarrow> va_ok (kernel_vaddr s) \<and> length (k_block_descs s) = 7 \<and> (\<forall>i < 7. desc_ok i (k_block_descs s ! i)) \<and>
     parts_ok (used_pages s) (free_lists s) (headers s)"

definition live :: "mkernel \<Rightarrow> (u32 \<times> nat) set" where
  "live s = live_in (free_lists s) (headers s)"

text \<open>A kernel thread runs and has the lock of the pool \<open>n\<close> times; nobody waits for it.\<close>

definition kthread :: "u32 \<Rightarrow> mkernel \<Rightarrow> bool" where
  "kthread n s \<longleftrightarrow> (\<exists>cur. tasks s (running s) = Some cur \<and> pgdir cur = 0) \<and> pool_lock (kernel_pool s) = lock_at (running s) n"

lemma same_heap_keeps:
  assumes "same_heap s s'"
  shows "heap_ok s' = heap_ok s" "live s' = live s" "kthread n s' = kthread n s" "free_lists s' = free_lists s" "headers s' = headers s"
  using assms by (simp_all add: same_heap_def heap_ok_def live_def kthread_def used_pages_def free_lists_def headers_def)

lemma kthread_lock:
  "kthread 0 s \<Longrightarrow> mem_lock_acquire PF_KERNEL s = Some s' \<Longrightarrow> kthread 1 s' \<and> heap_ok s' = heap_ok s \<and> live s' = live s \<and> free_lists s' = free_lists s \<and>
     pm s' = pm s \<and> cr3 s' = cr3 s"
  "kthread 0 s \<Longrightarrow> \<exists>s'. mem_lock_acquire PF_KERNEL s = Some s'"
  "kthread 1 s \<Longrightarrow> \<exists>s'. mem_lock_release PF_KERNEL s = Some s' \<and> kthread 0 s' \<and> heap_ok s' = heap_ok s \<and> live s' = live s \<and> pm s' = pm s \<and> cr3 s' = cr3 s"
  using lock_release_at [of 0 "running s" s]
  by (auto simp: kthread_def mem_lock_acquire_def mem_lock_release_def pool_of_def upd_pool_def heap_ok_def live_def used_pages_def
      free_lists_def headers_def)

lemma set_free_list_ok:
  assumes "length (k_block_descs s) = 7" "i < 7"
  shows "\<exists>s'. set_free_list (K_Desc i) l s = Some s' \<and> free_lists s' = (free_lists s)(i := l) \<and> headers s' = headers s \<and> used_pages s' = used_pages s \<and>
    kernel_vaddr s' = kernel_vaddr s \<and> length (k_block_descs s') = 7 \<and> kthread n s' = kthread n s \<and> running s' = running s \<and>
    (\<forall>j. desc_ok j (k_block_descs s' ! j) = desc_ok j (k_block_descs s ! j)) \<and> pm s' = pm s \<and> cr3 s' = cr3 s \<and> arenas s' = arenas s"
proof -
  let ?d = "k_block_descs s ! i"
  have "set_free_list (K_Desc i) l s = Some (s\<lparr>k_block_descs := (k_block_descs s)[i := ?d\<lparr>free_list := l\<rparr>]\<rparr>)"
    using assms by (simp add: set_free_list_def)
  then show ?thesis using assms
    by (auto simp: free_lists_def headers_def used_pages_def kthread_def desc_ok_def fun_eq_iff nth_list_update_if)
qed

lemma arena_at_page:
  assumes "n < 261888"
  shows "get_arena (page n) s = headers s (page n)" "headers (set_arena (page n) x s) = (headers s)(page n := x)"
    "free_lists (set_arena a x s) = free_lists s" "used_pages (set_arena a x s) = used_pages s" "kthread m (set_arena a x s) = kthread m s"
    "k_block_descs (set_arena a x s) = k_block_descs s" "kernel_vaddr (set_arena a x s) = kernel_vaddr s"
  using page_props [OF assms]
  by (auto simp: get_arena_def set_arena_def arena_key_def headers_def free_lists_def used_pages_def kthread_def fun_eq_iff)

lemma find_desc_first:
  "\<exists>d \<in> set ds. sz \<le> block_size d \<Longrightarrow> find_desc sz ds < length ds \<and> sz \<le> block_size (ds ! find_desc sz ds) \<and>
     (\<forall>j < find_desc sz ds. block_size (ds ! j) < sz)"
  by (induction ds) (auto simp: less_Suc_eq_0_disj not_le, blast)

lemma find_desc_class:
  assumes "heap_ok s" "sz \<le> 1024"
  shows "find_desc sz (k_block_descs s) < 7" "unat sz \<le> class_size (find_desc sz (k_block_descs s))"
    "j < find_desc sz (k_block_descs s) \<Longrightarrow> class_size j < unat sz"
proof -
  have l: "length (k_block_descs s) = 7" and d: "i < 7 \<Longrightarrow> desc_ok i (k_block_descs s ! i)" for i using assms(1) by (simp_all add: heap_ok_def)
  have "unat (block_size (k_block_descs s ! 6)) = 1024" using d [of 6] by (simp add: desc_ok_def class_size_def)
  then have "sz \<le> block_size (k_block_descs s ! 6)" using assms(2) by (simp add: word_le_nat_alt)
  then have ex: "\<exists>d \<in> set (k_block_descs s). sz \<le> block_size d" using l by (intro bexI [of _ "k_block_descs s ! 6"]) simp_all
  note f = find_desc_first [OF ex]
  then show *: "find_desc sz (k_block_descs s) < 7" using l by simp
  from f d [OF *] show "unat sz \<le> class_size (find_desc sz (k_block_descs s))" by (simp add: desc_ok_def word_le_nat_alt)
  show "j < find_desc sz (k_block_descs s) \<Longrightarrow> class_size j < unat sz"
    using f d [of j] * by (auto simp: desc_ok_def word_less_nat_alt)
qed


text \<open>A page more for class \<open>i\<close>: its header and its blocks on the free list.\<close>

lemma add_arena_ok:
  assumes s0: "desc_ok i d" "parts_ok U (free_lists s) (headers s)" "free_lists s i = []"
    and s: "length (k_block_descs s) = 7" "\<forall>j < 7. desc_ok j (k_block_descs s ! j)" "va_ok (kernel_vaddr s)" "kthread 1 s"
    and n: "i < 7" "n < 261888" "n \<notin> U" "insert n U \<subseteq> used_pages s"
    and fl: "set_free_list (K_Desc i) (arena_blocks d (page n))
      (set_arena (page n) (Some \<lparr>a_desc = Some (K_Desc i), a_cnt = blocks_per_arena d\<rparr>) s) = Some s'"
  shows "heap_ok s' \<and> kthread 1 s' \<and> live s' = live s \<and> free_lists s' i \<noteq> []"
proof -
  let ?ar = "\<lparr>a_desc = Some (K_Desc i), a_cnt = blocks_per_arena d\<rparr>"
  let ?s = "set_arena (page n) (Some ?ar) s"
  note a = arena_at_page [OF n(2)]
  from set_free_list_ok [of ?s i "arena_blocks d (page n)" 1] fl s(1) n(1)
  have s': "free_lists s' = (free_lists s)(i := arena_blocks d (page n))" "headers s' = (headers s)(page n \<mapsto> ?ar)"
    "used_pages s' = used_pages s" "kernel_vaddr s' = kernel_vaddr s" "length (k_block_descs s') = 7" "kthread 1 s' = kthread 1 s"
    "\<forall>j. desc_ok j (k_block_descs s' ! j) = desc_ok j (k_block_descs s ! j)" by (auto simp: a)
  have "parts_ok (insert n U) (free_lists s') (headers s')" "live s' = live s" unfolding s'(1,2) live_def
    using parts_add [OF s0(2) n(3,2,1) s0(3), of "arena_blocks d (page n)" ?ar] s0(1)
      set_arena_blocks [OF s0(1)] distinct_arena_blocks [OF n(1,2) s0(1)] by (simp_all add: desc_ok_def)
  moreover have "arena_blocks d (page n) \<noteq> []" using class_bounds [OF n(1)] by (simp add: arena_blocks_eq [OF s0(1)])
  ultimately show ?thesis using s s' parts_ok_mono [OF _ n(4)] by (simp add: heap_ok_def)
qed

lemma new_arena_ok:
  assumes ok: "heap_ok s" "kthread 1 s" "i < 7" "free_lists s i = []" and new: "new_arena PF_KERNEL (K_Desc i) s = Some (got, s')"
  shows "heap_ok s' \<and> kthread 1 s' \<and> live s' = live s \<and> (got \<longrightarrow> free_lists s' i \<noteq> [])"
proof -
  from new obtain a s1 where m: "malloc_page PF_KERNEL 1 s = Some (a, s1)" by (auto simp: new_arena_def bind_eq_Some_conv)
  have "pool_lock (kernel_pool s) = lock_at (running s) 1" using ok(2) by (simp add: kthread_def)
  from malloc_page_takes [OF _ this _ m] ok(1) have "a = 0 \<and> took_page s None s1 \<or> (\<exists>n. a = page n \<and> took_page s (Some n) s1)"
    by (simp add: heap_ok_def)
  then obtain va where va: "same_heap (s\<lparr>kernel_vaddr := va\<rparr>) s1" "va_ok va" "used_pages s \<subseteq> bitmap_used (vaddr_bitmap va)" and
    n: "a = 0 \<or> (\<exists>n. a = page n \<and> n < 261888 \<and> n \<notin> used_pages s \<and> n \<in> bitmap_used (vaddr_bitmap va))"
    by (auto simp: took_page_def used_pages_def)
  have u: "free_lists (s\<lparr>kernel_vaddr := va\<rparr>) = free_lists s" "headers (s\<lparr>kernel_vaddr := va\<rparr>) = headers s" "kthread 1 (s\<lparr>kernel_vaddr := va\<rparr>) = kthread 1 s"
    by (simp_all add: free_lists_def headers_def kthread_def)
  show ?thesis
  proof (cases "a = 0")
    case True
    have "s' = s1" "\<not> got" using new m True by (simp_all add: new_arena_def)
    moreover have "heap_ok (s\<lparr>kernel_vaddr := va\<rparr>)"
      using ok(1) va(2) parts_ok_mono [OF _ va(3)] unfolding heap_ok_def u by (simp add: used_pages_def)
    ultimately show ?thesis using same_heap_keeps [OF va(1)] ok(2) u by (simp add: live_def)
  next
    case False
    with n obtain n where n: "a = page n" "n < 261888" "n \<notin> used_pages s" "n \<in> bitmap_used (vaddr_bitmap va)" by blast
    let ?d = "k_block_descs s ! i"
    have d: "desc_ok i ?d" "length (k_block_descs s) = 7" using ok(1,3) by (simp_all add: heap_ok_def)
    obtain s2 where z: "vzero (unat PG_SIZE div 4) a s1 = Some s2"
      using new m False by (cases "vzero (unat PG_SIZE div 4) a s1") (simp_all add: new_arena_def)
    have sh: "same_heap (s\<lparr>kernel_vaddr := va\<rparr>) s2" using va(1) keepsD [OF keeps_vzero z] by (rule same_heap_trans)
    have k: "k_block_descs s2 = k_block_descs s" "kernel_vaddr s2 = va" using sh by (simp_all add: same_heap_def)
    note k2 = same_heap_keeps(3-5) [OF sh, unfolded u]
    have "get_desc (K_Desc i) s2 = Some ?d" "free_list ?d = []" using k d(2) ok(3,4) by (simp_all add: get_desc_def free_lists_def)
    then obtain s3 where 3: "set_free_list (K_Desc i) (arena_blocks ?d (page n))
        (set_arena (page n) (Some \<lparr>a_desc = Some (K_Desc i), a_cnt = blocks_per_arena ?d\<rparr>) s2) = Some s3" "s' = s3"
      using new m False z n(1) by (auto simp: new_arena_def bind_eq_Some_conv)
    have "heap_ok s3 \<and> kthread 1 s3 \<and> live s3 = live s2 \<and> free_lists s3 i \<noteq> []"
      using ok n va k k2 d u(3) by (intro add_arena_ok [OF d(1) _ _ _ _ _ _ ok(3) n(2,3) _ 3(1)]) (simp_all add: heap_ok_def used_pages_def)
    then show ?thesis using 3(2) k2 by (simp add: live_def)
  qed
qed

lemma take_block_ok:
  assumes ok: "heap_ok s" "kthread 1 s" "i < 7" "free_lists s i \<noteq> []"
  shows "\<exists>b s'. take_block (K_Desc i) s = Some (b, s') \<and> heap_ok s' \<and> kthread 1 s' \<and> (b, i) \<notin> live s \<and> live s' = insert (b, i) (live s) \<and>
    b = hd (free_lists s i) \<and> pm s' = pm s \<and> cr3 s' = cr3 s"
proof -
  from ok(4) obtain b l where bl: "free_lists s i = b # l" by (cases "free_lists s i") auto
  have p: "parts_ok (used_pages s) (free_lists s) (headers s)" and len: "length (k_block_descs s) = 7" using ok(1) by (simp_all add: heap_ok_def)
  then have "in_class (headers s) i b" using ok(3) bl unfolding parts_ok_def by (metis list.set_intros(1))
  then obtain ar where ar: "headers s (frame b) = Some ar" by (auto simp: in_class_def)
  from parts_page [OF p ar] obtain n where n: "n < 261888" "frame b = page n" by blast
  obtain s1 where s1: "set_free_list (K_Desc i) l s = Some s1" "free_lists s1 = (free_lists s)(i := l)" "headers s1 = headers s"
    "used_pages s1 = used_pages s" "kernel_vaddr s1 = kernel_vaddr s" "length (k_block_descs s1) = 7" "kthread 1 s1 = kthread 1 s"
    "\<forall>j. desc_ok j (k_block_descs s1 ! j) = desc_ok j (k_block_descs s ! j)" "pm s1 = pm s" "cr3 s1 = cr3 s"
    using set_free_list_ok [OF len ok(3), of l 1] by blast
  note a = arena_at_page [OF n(1)]
  let ?s = "set_arena (page n) (Some (ar\<lparr>a_cnt := a_cnt ar - 1\<rparr>)) s1"
  have "get_desc (K_Desc i) s = Some (k_block_descs s ! i)" "free_list (k_block_descs s ! i) = b # l"
    using len ok(3) bl by (simp_all add: get_desc_def free_lists_def)
  then have "take_block (K_Desc i) s = Some (b, ?s)"
    using s1(1,3) n(2) ar by (simp add: take_block_def a frame_def)
  moreover have "heap_ok ?s" "kthread 1 ?s" "live ?s = insert (b, i) (live s)" "(b, i) \<notin> live s"
    using ok(1,2) parts_take [OF p ok(3) bl ar] s1 n(2) by (simp_all add: heap_ok_def live_def a)
  moreover have "pm ?s = pm s" "cr3 ?s = cr3 s" using s1(9,10) by (simp_all add: set_arena_def)
  ultimately show ?thesis using bl by (intro exI [of _ b] exI [of _ ?s]) simp
qed


subsection \<open>Allocation\<close>

definition fits :: "u32 \<Rightarrow> nat \<Rightarrow> bool" where
  "fits sz i \<longleftrightarrow> i < 7 \<and> unat sz \<le> class_size i \<and> (\<forall>j < i. class_size j < unat sz)"

text \<open>The part of \<open>sys_malloc\<close> behind the choice of the class.\<close>

definition malloc_small :: "nat \<Rightarrow> mkernel \<Rightarrow> (u32 \<times> mkernel) option" where
  "malloc_small i s1 = do {
     (ok, s) \<leftarrow> (if free_lists s1 i = [] then new_arena PF_KERNEL (K_Desc i) s1 else Some (True, s1));
     if \<not> ok then do { s \<leftarrow> mem_lock_release PF_KERNEL s; Some (0, s) }
     else do {
       (blk, s) \<leftarrow> take_block (K_Desc i) s;
       s \<leftarrow> mem_lock_release PF_KERNEL s;
       s \<leftarrow> vzero (unat (block_size (k_block_descs s1 ! i)) div 4) blk s;
       Some (blk, s)
     }
   }"

lemma sys_malloc_class:
  assumes "kthread 0 s" "heap_ok s" "0 < sz" "sz \<le> 1024"
  obtains i s1 where "fits sz i" "heap_ok s1" "kthread 1 s1" "live s1 = live s" "free_lists s1 = free_lists s" "pm s1 = pm s" "cr3 s1 = cr3 s"
    "sys_malloc sz s = malloc_small i s1"
proof -
  from assms(1) obtain cur where cur: "tasks s (running s) = Some cur" "pgdir cur = 0" by (auto simp: kthread_def)
  from kthread_lock(1,2) [OF assms(1)] obtain s1 where s1: "mem_lock_acquire PF_KERNEL s = Some s1" "kthread 1 s1" "heap_ok s1" "live s1 = live s"
    "free_lists s1 = free_lists s" "pm s1 = pm s" "cr3 s1 = cr3 s" using assms(2) by blast
  let ?i = "find_desc sz (k_block_descs s1)"
  note f = find_desc_class [OF s1(3) assms(4)]
  have "get_desc (K_Desc ?i) s1 = Some (k_block_descs s1 ! ?i)" using f(1) s1(3) by (simp add: get_desc_def heap_ok_def)
  moreover have "sz \<noteq> 0" "\<not> 1024 < sz" using assms(3,4) by auto
  ultimately have "sys_malloc sz s = malloc_small ?i s1" using s1(1) cur
    by (simp add: sys_malloc_def malloc_small_def Let_def free_lists_def cong: if_cong)
  then show thesis using that [of ?i s1] f s1 by (simp add: fits_def)
qed

text \<open>What a call that returns has done, and that it does return when a block is on the list and the page of the block is mapped.\<close>

lemma malloc_small_ok:
  assumes ok: "heap_ok s" "kthread 1 s" "i < 7" and m: "malloc_small i s = Some (p, s')"
  shows "heap_ok s' \<and> kthread 0 s' \<and> (p = 0 \<and> live s' = live s \<or> (p, i) \<notin> live s \<and> live s' = insert (p, i) (live s))"
proof -
  from m obtain got s2 where g: "(if free_lists s i = [] then new_arena PF_KERNEL (K_Desc i) s else Some (True, s)) = Some (got, s2)"
    by - (rule bind_SomeE [OF m [unfolded malloc_small_def]], metis surj_pair)
  have s2: "heap_ok s2" "kthread 1 s2" "live s2 = live s" "got \<longrightarrow> free_lists s2 i \<noteq> []"
    using g ok new_arena_ok [OF ok] by (auto split: if_splits)
  show ?thesis
  proof (cases got)
    case False
    from kthread_lock(3) [OF s2(2)] obtain s3 where "mem_lock_release PF_KERNEL s2 = Some s3" "kthread 0 s3" "heap_ok s3 = heap_ok s2" "live s3 = live s2"
      by blast
    then show ?thesis using m g s2 False by (simp add: malloc_small_def)
  next
    case True
    from take_block_ok [OF s2(1,2) ok(3)] s2(4) True obtain b s3 where b: "take_block (K_Desc i) s2 = Some (b, s3)" "heap_ok s3" "kthread 1 s3"
      "(b, i) \<notin> live s2" "live s3 = insert (b, i) (live s2)" by blast
    from kthread_lock(3) [OF b(3)] obtain s4 where s4: "mem_lock_release PF_KERNEL s3 = Some s4" "kthread 0 s4" "heap_ok s4 = heap_ok s3" "live s4 = live s3"
      by blast
    from m g b(1) s4(1) True have p: "p = b" "vzero (unat (block_size (k_block_descs s ! i)) div 4) b s4 = Some s'"
      by (auto simp: malloc_small_def bind_eq_Some_conv)
    from same_heap_keeps [OF keepsD [OF keeps_vzero p(2)]] b s2 s4 p(1) show ?thesis by auto
  qed
qed

lemma sys_malloc_ok:
  assumes ok: "kthread 0 s" "heap_ok s" "0 < sz" "sz \<le> 1024" and m: "sys_malloc sz s = Some (p, s')"
  shows "heap_ok s' \<and> kthread 0 s' \<and> (p = 0 \<and> live s' = live s \<or> (\<exists>i. fits sz i \<and> (p, i) \<notin> live s \<and> live s' = insert (p, i) (live s)))"
proof -
  obtain i s1 where "fits sz i" "heap_ok s1" "kthread 1 s1" "live s1 = live s" "sys_malloc sz s = malloc_small i s1"
    by (rule sys_malloc_class [OF ok])
  then show ?thesis using malloc_small_ok [of s1 i p s'] m by (auto simp: fits_def)
qed

lemma vzero_cong:
  "pm s' = pm s \<Longrightarrow> cr3 s' = cr3 s \<Longrightarrow> (vzero n a s' = None) = (vzero n a (s :: mkernel) = None)"
proof (induction n arbitrary: a s s')
  case (Suc n)
  show ?case
  proof (cases "walk (pm s) (cr3 s) a")
    case (Some p)
    then show ?thesis using Suc.prems Suc.IH [of "s'\<lparr>pm := (pm s)(p := 0)\<rparr>" "s\<lparr>pm := (pm s)(p := 0)\<rparr>" "a + 4"] by (simp add: vwrite_def)
  qed (use Suc.prems in \<open>simp add: vwrite_def\<close>)
qed simp

lemma sys_malloc_returns:
  assumes ok: "kthread 0 s" "heap_ok s" "0 < sz" "sz \<le> 1024" and b: "fits sz i" "free_lists s i = b # l"
    and mapped: "vzero (class_size i div 4) b s \<noteq> None"
  shows "\<exists>s'. sys_malloc sz s = Some (b, s')"
proof -
  obtain j s1 where j: "fits sz j" and s1: "heap_ok s1" "kthread 1 s1" "free_lists s1 = free_lists s" "pm s1 = pm s" "cr3 s1 = cr3 s"
    "sys_malloc sz s = malloc_small j s1" by (rule sys_malloc_class [OF ok])
  have "j = i" using j b(1) unfolding fits_def by (metis linorder_neqE_nat not_le)
  have i: "i < 7" "free_lists s1 i \<noteq> []" using b s1(3) by (simp_all add: fits_def)
  from take_block_ok [OF s1(1,2) i] obtain b' s3 where t: "take_block (K_Desc i) s1 = Some (b', s3)" "kthread 1 s3" "pm s3 = pm s" "cr3 s3 = cr3 s"
    and "b' = hd (free_lists s1 i)" using s1(4,5) by auto
  then have "b' = b" using b(2) s1(3) by simp
  from kthread_lock(3) [OF t(2)] obtain s4 where s4: "mem_lock_release PF_KERNEL s3 = Some s4" "pm s4 = pm s" "cr3 s4 = cr3 s" using t(3,4) by auto
  moreover have "unat (block_size (k_block_descs s1 ! i)) = class_size i" using s1(1) i(1) by (simp add: heap_ok_def desc_ok_def)
  moreover have "vzero (class_size i div 4) b s4 \<noteq> None" using mapped vzero_cong [OF s4(2,3)] by simp
  ultimately show ?thesis using t(1) i(2) \<open>j = i\<close> \<open>b' = b\<close> by (auto simp: s1(6) malloc_small_def)
qed


subsection \<open>Release\<close>

lemma keeps_pfree: "keeps (pfree PF_KERNEL pa s) s"
  by (auto simp: keeps_def pfree_def Let_def bind_eq_Some_conv same_heap_def upd_pool_def)

lemma keeps_unmap_pages: "keeps (unmap_pages n PF_KERNEL va s) s"
proof (induction n arbitrary: va s)
  case (Suc n)
  show ?case unfolding unmap_pages.simps
    by (rule keeps_read) (rule keeps_bind [OF keeps_pfree] keeps_bind [OF keeps_vwrite] Suc.IH)+
qed auto

lemma mfree_page_gives:
  assumes va: "va_ok (kernel_vaddr s)" and n: "n \<in> used_pages s" and m: "mfree_page PF_KERNEL (page n) 1 s = Some s'"
  shows "\<exists>va. same_heap (s\<lparr>kernel_vaddr := va\<rparr>) s' \<and> va_ok va \<and> bitmap_used (vaddr_bitmap va) = used_pages s - {n}"
proof -
  let ?va = "kernel_vaddr s" and ?b = "vaddr_bitmap (kernel_vaddr s)"
  have nb: "n < bits_total ?b" "n < 261888" using n va bitmap_used_bound [of n ?b] by (simp_all add: used_pages_def va_ok_def)
  from m obtain s1 where u: "unmap_pages (unat (1 :: u32)) PF_KERNEL (page n) s = Some s1" and
    r: "(do { va \<leftarrow> vaddr_pool PF_KERNEL s1; b \<leftarrow> set_bits (unat (1 :: u32)) ((page n - vaddr_start va) div PG_SIZE) 0 (vaddr_bitmap va);
      set_vbits PF_KERNEL b s1 }) = Some s'"
    unfolding mfree_page_def ASSERT_bind_Some by (blast elim: bind_SomeE)
  have k: "same_heap s s1" by (rule keepsD [OF keeps_unmap_pages u])
  then have kv: "kernel_vaddr s1 = ?va" by (simp add: same_heap_def)
  have un: "unat (word_of_nat n :: u32) = n" using nb(2) by (simp add: unsigned_of_nat take_bit_nat_eq_self)
  from bitmap_set_used [of ?b "word_of_nat n" 0] va nb(1) obtain b where
    b: "bitmap_set ?b (word_of_nat n) 0 = Some b" "wf_bitmap b" "length (bits b) = length (bits ?b)" "bitmap_used b = bitmap_used ?b - {n}"
    by (auto simp: va_ok_def un)
  have "s' = s1\<lparr>kernel_vaddr := ?va\<lparr>vaddr_bitmap := b\<rparr>\<rparr>"
    using r b(1) va by (simp add: vaddr_pool_def set_vbits_def kv page_idx [OF nb(2)] va_ok_def)
  then have "same_heap (s\<lparr>kernel_vaddr := ?va\<lparr>vaddr_bitmap := b\<rparr>\<rparr>) s'" using k by (simp add: same_heap_def)
  then show ?thesis using b va by (intro exI [of _ "?va\<lparr>vaddr_bitmap := b\<rparr>"]) (simp add: va_ok_def used_pages_def)
qed

text \<open>The page of a block on the way out: its blocks leave the list, the page goes back, the header is gone.\<close>

lemma drop_arena_ok:
  assumes s: "length (k_block_descs s) = 7" "\<forall>j < 7. desc_ok j (k_block_descs s ! j)" "va_ok (kernel_vaddr s)" "kthread 1 s"
    and p: "parts_ok (used_pages s) F (headers s)" and d: "desc_ok i d" "i < 7" and n: "n < 261888"
    and ar: "headers s (page n) = Some ar" "a_desc ar = Some (K_Desc i)" and all: "blocks i (page n) \<subseteq> set (F i)"
    and F: "\<And>j. j \<noteq> i \<Longrightarrow> free_lists s j = F j"
    and run: "(do { l \<leftarrow> remove_all (arena_blocks d (page n)) (F i); s \<leftarrow> set_free_list (K_Desc i) l s;
      s \<leftarrow> mfree_page PF_KERNEL (page n) 1 s; Some (set_arena (page n) None s) }) = Some s'"
  shows "heap_ok s' \<and> kthread 1 s' \<and> live s' = live_in F (headers s)"
proof -
  let ?l = "filter (\<lambda>x. x \<notin> blocks i (page n)) (F i)"
  have "distinct (F i)" using p d(2) by (simp add: parts_ok_def)
  then have "remove_all (arena_blocks d (page n)) (F i) = Some ?l"
    using remove_all_filter [of "F i" "arena_blocks d (page n)"] distinct_arena_blocks [OF d(2) n d(1)] all by (simp add: set_arena_blocks [OF d(1)])
  moreover obtain s1 where s1: "set_free_list (K_Desc i) ?l s = Some s1" "free_lists s1 = (free_lists s)(i := ?l)" "headers s1 = headers s"
    "used_pages s1 = used_pages s" "kernel_vaddr s1 = kernel_vaddr s" "length (k_block_descs s1) = 7" "kthread 1 s1 = kthread 1 s"
    "\<forall>j. desc_ok j (k_block_descs s1 ! j) = desc_ok j (k_block_descs s ! j)"
    using set_free_list_ok [OF s(1) d(2), of ?l 1] by blast
  ultimately obtain s2 where m: "mfree_page PF_KERNEL (page n) 1 s1 = Some s2" and s': "s' = set_arena (page n) None s2"
    using run by (auto simp: bind_eq_Some_conv)
  from parts_page [OF p ar(1)] n have "n \<in> used_pages s1" using page_inj s1(4) by auto
  from mfree_page_gives [OF _ this m] s(3) s1(4,5) obtain va where va: "same_heap (s1\<lparr>kernel_vaddr := va\<rparr>) s2" "va_ok va"
    "bitmap_used (vaddr_bitmap va) = used_pages s - {n}" by auto
  have k: "free_lists s2 = (free_lists s)(i := ?l)" "headers s2 = headers s" "kthread 1 s2 = kthread 1 s" "kernel_vaddr s2 = va" "k_block_descs s2 = k_block_descs s1"
    using va(1) s1 by (auto simp: same_heap_def free_lists_def headers_def kthread_def)
  have "(free_lists s)(i := ?l) = F(i := ?l)" using F by auto
  then show ?thesis
    using parts_drop [OF p ar n d(2) all refl] s s1(6,8) va(2,3) k unfolding s'
    by (simp add: heap_ok_def live_def arena_at_page [OF n] used_pages_def)
qed


lemma free_small_ok:
  assumes ok: "heap_ok s" "kthread 1 s" and b: "(b, i) \<in> live s"
  shows "free_small PF_KERNEL (K_Desc i) b s = Some s' \<Longrightarrow> heap_ok s' \<and> kthread 1 s' \<and> live s' = live s - {(b, i)}"
    and "card (blocks i (frame b) \<inter> set (free_lists s i)) + 1 < class_blocks i \<Longrightarrow> free_small PF_KERNEL (K_Desc i) b s \<noteq> None"
proof -
  from b obtain ar where i: "i < 7" and ar: "headers s (frame b) = Some ar" "a_desc ar = Some (K_Desc i)" "b \<in> blocks i (frame b)" "b \<notin> set (free_lists s i)"
    by (auto simp: live_def live_in_def in_class_def)
  have p: "parts_ok (used_pages s) (free_lists s) (headers s)" and len: "length (k_block_descs s) = 7" and d: "desc_ok i (k_block_descs s ! i)"
    using ok(1) i by (simp_all add: heap_ok_def)
  from parts_page [OF p ar(1)] obtain n where n: "n < 261888" "frame b = page n" by blast
  obtain s1 where s1: "set_free_list (K_Desc i) (free_lists s i @ [b]) s = Some s1" "free_lists s1 = (free_lists s)(i := free_lists s i @ [b])"
    "headers s1 = headers s" "used_pages s1 = used_pages s" "kernel_vaddr s1 = kernel_vaddr s" "length (k_block_descs s1) = 7"
    "kthread 1 s1 = kthread 1 s" "\<forall>j. desc_ok j (k_block_descs s1 ! j) = desc_ok j (k_block_descs s ! j)"
    using set_free_list_ok [OF len i, of "free_lists s i @ [b]" 1] by blast
  note a = arena_at_page [OF n(1)]
  let ?ar = "ar\<lparr>a_cnt := a_cnt ar + 1\<rparr>"
  let ?s2 = "set_arena (page n) (Some ?ar) s1" and ?d = "k_block_descs s ! i"
  have "(b, i) \<in> live_in (free_lists s) (headers s)" using b by (simp add: live_def)
  note put = parts_put [OF p this ar(1), folded s1(2)]
  have s2: "free_lists ?s2 = free_lists s1" "headers ?s2 = (headers s)(frame b \<mapsto> ?ar)" "used_pages ?s2 = used_pages s" "kthread 1 ?s2"
    using s1 ok(2) n(2) by (simp_all add: a)
  have run: "free_small PF_KERNEL (K_Desc i) b s = (if a_cnt ar + 1 = blocks_per_arena ?d
      then do { l \<leftarrow> remove_all (arena_blocks ?d (page n)) (free_lists s1 i); s \<leftarrow> set_free_list (K_Desc i) l ?s2;
        s \<leftarrow> mfree_page PF_KERNEL (page n) 1 s; Some (set_arena (page n) None s) }
      else Some ?s2)"
    using len i s1(1-3) ar(1) n(2) by (simp add: free_small_def get_desc_def free_lists_def a frame_def Let_def)
  have all: "a_cnt ar + 1 = blocks_per_arena ?d \<longleftrightarrow> blocks i (page n) \<subseteq> set (free_lists s1 i)"
  proof -
    have "a_cnt ar + 1 = blocks_per_arena ?d \<longleftrightarrow> card (blocks i (page n) \<inter> set (free_lists s1 i)) = card (blocks i (page n))"
      using put(3) d card_blocks [OF i n(1)] n(2) s1(2) by (simp add: desc_ok_def word_unat_eq_iff)
    also have "\<dots> \<longleftrightarrow> blocks i (page n) \<subseteq> set (free_lists s1 i)"
      by (metis Int_lower1 card_subset_eq finite_imageI finite_lessThan inf.absorb_iff1 blocks_def)
    finally show ?thesis .
  qed
  show "heap_ok s' \<and> kthread 1 s' \<and> live s' = live s - {(b, i)}" if r: "free_small PF_KERNEL (K_Desc i) b s = Some s'"
  proof (cases "a_cnt ar + 1 = blocks_per_arena ?d")
    case False
    then have s': "s' = ?s2" using r run by simp
    show ?thesis unfolding s' using ok(1) put(1,2) s1 s2 by (simp add: heap_ok_def live_def a n(2))
  next
    case True
    have "heap_ok s' \<and> kthread 1 s' \<and> live s' = live_in (free_lists s1) (headers ?s2)"
      using ok(1) s1 put(1) s2 d i n ar(2) True [unfolded all] True r run
      by (intro drop_arena_ok [of ?s2 "free_lists s1" i ?d n ?ar]) (simp_all add: a heap_ok_def)
    then show ?thesis using put(2) s2(2) by (simp add: live_def)
  qed
  show "free_small PF_KERNEL (K_Desc i) b s \<noteq> None" if c: "card (blocks i (frame b) \<inter> set (free_lists s i)) + 1 < class_blocks i"
  proof -
    have "blocks i (frame b) \<inter> set (free_lists s i @ [b]) = insert b (blocks i (frame b) \<inter> set (free_lists s i))" using ar(3) by auto
    then have "unat (a_cnt ar + 1) < class_blocks i" using put(3) c ar(4) by simp
    then show ?thesis using run d by (auto simp: desc_ok_def)
  qed
qed

lemma sys_free_unfold:
  assumes "kthread 0 s" "heap_ok s" "(p, i) \<in> live s"
  obtains s1 where "heap_ok s1" "kthread 1 s1" "live s1 = live s" "free_lists s1 = free_lists s"
    "sys_free p s = free_small PF_KERNEL (K_Desc i) p s1 \<bind> mem_lock_release PF_KERNEL"
proof -
  from assms(1) obtain cur where cur: "tasks s (running s) = Some cur" "pgdir cur = 0" by (auto simp: kthread_def)
  from kthread_lock(1,2) [OF assms(1)] obtain s1 where s1: "mem_lock_acquire PF_KERNEL s = Some s1" "kthread 1 s1" "heap_ok s1" "live s1 = live s"
    "free_lists s1 = free_lists s" using assms(2) by blast
  have "(p, i) \<in> live s1" using assms(3) s1(4) by simp
  then obtain ar where ar: "headers s1 (frame p) = Some ar" "a_desc ar = Some (K_Desc i)"
    by (auto simp: live_def live_in_def in_class_def)
  have "parts_ok (used_pages s1) (free_lists s1) (headers s1)" using s1(3) by (simp add: heap_ok_def)
  from parts_page [OF this ar(1)] obtain n where n: "n < 261888" "frame p = page n" by blast
  with ar have "get_arena (p AND 0xfffff000) s1 = Some ar" by (simp add: arena_at_page flip: frame_def)
  moreover have "p \<noteq> 0" using n page_props [OF n(1)] by (auto simp: frame_def)
  ultimately have "sys_free p s = free_small PF_KERNEL (K_Desc i) p s1 \<bind> mem_lock_release PF_KERNEL"
    using cur s1(1) ar(2) by (simp add: sys_free_def Let_def)
  then show thesis using that s1 by blast
qed

lemma sys_free_ok:
  assumes ok: "kthread 0 s" "heap_ok s" "(p, i) \<in> live s"
  shows "sys_free p s = Some s' \<Longrightarrow> heap_ok s' \<and> kthread 0 s' \<and> live s' = live s - {(p, i)}"
    and "card (blocks i (frame p) \<inter> set (free_lists s i)) + 1 < class_blocks i \<Longrightarrow> \<exists>s'. sys_free p s = Some s'"
proof -
  obtain s1 where s1: "heap_ok s1" "kthread 1 s1" "live s1 = live s" "free_lists s1 = free_lists s" and
    f: "sys_free p s = free_small PF_KERNEL (K_Desc i) p s1 \<bind> mem_lock_release PF_KERNEL" by (rule sys_free_unfold [OF ok])
  have l: "(p, i) \<in> live s1" using ok(3) s1(3) by simp
  note fs = free_small_ok [OF s1(1,2) l]
  show "heap_ok s' \<and> kthread 0 s' \<and> live s' = live s - {(p, i)}" if "sys_free p s = Some s'"
    by (rule bind_SomeE [OF that [unfolded f]]) (use fs(1) kthread_lock(3) s1(3) in fastforce)
  show "\<exists>s'. sys_free p s = Some s'" if "card (blocks i (frame p) \<inter> set (free_lists s i)) + 1 < class_blocks i"
    using fs that kthread_lock(3) s1(4) unfolding f by fastforce
qed


subsection \<open>The contract\<close>

text \<open>The class of a request, and the two calls as a \<open>block_heap\<close> of kernel threads: a block is its address with its class.\<close>

definition class_of :: "u32 \<Rightarrow> nat" where
  "class_of sz = length (takeWhile (\<lambda>i. class_size i < unat sz) [0..<7])"

definition heap_give :: "u32 \<Rightarrow> mkernel \<Rightarrow> ((u32 \<times> nat) option \<times> mkernel) option" where
  "heap_give sz s = map_option (\<lambda>(p, s). (if p = 0 then None else Some (p, class_of sz), s)) (sys_malloc sz s)"

definition heap_release :: "u32 \<times> nat \<Rightarrow> mkernel \<Rightarrow> mkernel option" where
  "heap_release x s = sys_free (fst x) s"

lemma fits_class: "fits sz i \<Longrightarrow> class_of sz = i"
proof -
  assume f: "fits sz i"
  then have "[0..<7] = [0..<i] @ i # [Suc i..<7]" using upt_add_eq_append [of 0 i "7 - i"] upt_conv_Cons [of i 7] by (simp add: fits_def)
  moreover have "takeWhile (\<lambda>i. class_size i < unat sz) ([0..<i] @ i # [Suc i..<7]) = [0..<i]"
    using f by (subst takeWhile_append2) (auto simp: fits_def)
  ultimately show ?thesis by (simp add: class_of_def del: upt_Suc)
qed

lemma live_not_null: "heap_ok s \<Longrightarrow> (b, i) \<in> live s \<Longrightarrow> b \<noteq> 0"
proof
  assume s: "heap_ok s" "(b, i) \<in> live s" "b = 0"
  then obtain ar where "headers s (frame 0) = Some ar" by (auto simp: live_def live_in_def in_class_def)
  moreover have "parts_ok (used_pages s) (free_lists s) (headers s)" using s(1) by (simp add: heap_ok_def)
  ultimately obtain n where "n < 261888" "frame 0 = page n" using parts_page by blast
  then show False using page_props [of n] by (simp add: frame_def)
qed

interpretation kheap: block_heap "\<lambda>s. heap_ok s \<and> kthread 0 s" live "\<lambda>sz. 0 < sz \<and> sz \<le> 1024" heap_give heap_release
proof
  fix s r s' assume "heap_ok s \<and> kthread 0 s" "0 < r \<and> r \<le> 1024" "heap_give r s = Some (None, s')"
  then show "(heap_ok s' \<and> kthread 0 s') \<and> live s' = live s"
    using sys_malloc_ok [of s r 0 s'] live_not_null [of s' 0] by (auto simp: heap_give_def split: if_splits)
next
  fix s r b s' assume a: "heap_ok s \<and> kthread 0 s" "0 < r \<and> r \<le> 1024" "heap_give r s = Some (Some b, s')"
  then obtain p where "sys_malloc r s = Some (p, s')" "p \<noteq> 0" "b = (p, class_of r)" by (auto simp: heap_give_def split: if_splits)
  then show "(heap_ok s' \<and> kthread 0 s') \<and> b \<notin> live s \<and> live s' = insert b (live s)"
    using sys_malloc_ok [of s r p s'] a(1,2) fits_class by auto
next
  fix s b s' assume "heap_ok s \<and> kthread 0 s" "b \<in> live s" "heap_release b s = Some s'"
  then show "(heap_ok s' \<and> kthread 0 s') \<and> live s' = live s - {b}"
    using sys_free_ok(1) [of s "fst b" "snd b" s'] by (auto simp: heap_release_def)
qed

text \<open>The blocks a kernel thread gets one after the other are different and are not in use by anyone else; when it gives all of them
  back the heap has the blocks in use that it had before.\<close>

lemma requests_and_releases:
  assumes "heap_ok s" "kthread 0 s" "\<forall>sz \<in> set szs. 0 < sz \<and> sz \<le> 1024" "kheap.give_all szs s = Some (bs, s1)"
  shows "distinct (kheap.served bs) \<and> set (kheap.served bs) \<inter> live s = {}"
    and "kheap.release_all (kheap.served bs) s1 = Some s2 \<Longrightarrow> heap_ok s2 \<and> live s2 = live s"
  using kheap.give_all_distinct [of s szs bs s1] kheap.give_back [of s szs bs s1 s2] assms by auto

subsection \<open>Runs\<close>

text \<open>What \<^verbatim>\<open>mem_init\<close> leaves: the seven classes, no page in them.\<close>

definition heap_start :: "mkernel \<Rightarrow> bool" where
  "heap_start s \<longleftrightarrow> va_ok (kernel_vaddr s) \<and> k_block_descs s = block_desc_init \<and> headers s = (\<lambda>_. None) \<and> kthread 0 s"

lemma desc_loop_nth:
  "i < n \<Longrightarrow> desc_loop n bs ! i = \<lparr>block_size = push_bit i bs, blocks_per_arena = (PG_SIZE - 8) div push_bit i bs, free_list = []\<rparr>"
  by (induction n arbitrary: i bs) (auto simp: less_Suc_eq_0_disj)

lemma length_desc_loop: "length (desc_loop n bs) = n"
  by (induction n arbitrary: bs) simp_all

lemma init_desc_ok: "i < 7 \<Longrightarrow> desc_ok i (desc_loop 7 16 ! i)"
proof -
  assume i: "i < 7"
  then have "unat (push_bit i (16 :: u32)) = class_size i" unfolding lt7 by (auto simp: class_size_def)
  moreover have "unat (PG_SIZE - 8) = 4088" by (simp add: PG_SIZE_def)
  ultimately show ?thesis using i by (simp add: desc_ok_def desc_loop_nth unat_div class_blocks_def)
qed

lemma empty_heap_ok:
  assumes "va_ok (kernel_vaddr s)" "k_block_descs s = block_desc_init" "headers s = (\<lambda>_. None)"
  shows "heap_ok s" "live s = {}"
proof -
  have k: "k_block_descs s = desc_loop 7 16" using assms(2) by (simp add: block_desc_init_def MEM_BLOCK_DESC_CNT_def)
  then have "length (k_block_descs s) = 7" "\<forall>i < 7. desc_ok i (k_block_descs s ! i)" "\<forall>i < 7. free_lists s i = []"
    using init_desc_ok by (simp_all add: length_desc_loop free_lists_def desc_loop_nth)
  then show "heap_ok s" "live s = {}" using assms by (auto simp: heap_ok_def parts_ok_def live_def live_in_def in_class_def)
qed

text \<open>The steps of a run: requests of up to 1024 bytes, the release of blocks in use, and anything that leaves the heap alone.\<close>

inductive heap_run :: "mkernel \<Rightarrow> mkernel \<Rightarrow> bool" for s0 where
  start: "heap_run s0 s0"
| malloc: "heap_run s0 s \<Longrightarrow> 0 < sz \<Longrightarrow> sz \<le> 1024 \<Longrightarrow> sys_malloc sz s = Some (p, s') \<Longrightarrow> heap_run s0 s'"
| free: "heap_run s0 s \<Longrightarrow> (p, i) \<in> live s \<Longrightarrow> sys_free p s = Some s' \<Longrightarrow> heap_run s0 s'"
| other: "heap_run s0 s \<Longrightarrow> same_heap s s' \<Longrightarrow> heap_run s0 s'"

lemma heap_run_ok: "heap_run s0 s \<Longrightarrow> heap_ok s0 \<Longrightarrow> kthread 0 s0 \<Longrightarrow> heap_ok s \<and> kthread 0 s"
proof (induction rule: heap_run.induct)
  case (malloc s sz p s') then show ?case using sys_malloc_ok by blast
next
  case (free s p i s') then show ?case using sys_free_ok(1) by blast
next
  case (other s s') then show ?case using same_heap_keeps by blast
qed simp

text \<open>Two blocks do not overlap; a block lies behind the header in its page.\<close>

definition apart :: "u32 \<times> nat \<Rightarrow> u32 \<times> nat \<Rightarrow> bool" where
  "apart x y \<longleftrightarrow> unat (fst x) + class_size (snd x) \<le> unat (fst y) \<or> unat (fst y) + class_size (snd y) \<le> unat (fst x)"

definition inside :: "u32 \<times> nat \<Rightarrow> bool" where
  "inside x \<longleftrightarrow> unat (frame (fst x)) + 8 \<le> unat (fst x) \<and> unat (fst x) + class_size (snd x) \<le> unat (frame (fst x)) + 4096"

lemma live_block:
  assumes "heap_ok s" "(b, i) \<in> live s"
  obtains n k where "i < 7" "n < 261888" "k < class_blocks i" "frame b = page n" "b = block i (page n) k"
    "unat b = unat (page n) + 8 + k * class_size i"
proof -
  from assms(2) obtain ar where i: "i < 7" and ar: "headers s (frame b) = Some ar" "b \<in> blocks i (frame b)"
    by (auto simp: live_def live_in_def in_class_def)
  have "parts_ok (used_pages s) (free_lists s) (headers s)" using assms(1) by (simp add: heap_ok_def)
  from parts_page [OF this ar(1)] obtain n where n: "n < 261888" "frame b = page n" by blast
  with ar(2) obtain k where "k < class_blocks i" "b = block i (page n) k" by (auto simp: blocks_def)
  then show thesis using that i n unat_block [OF i _ n(1)] by metis
qed

lemma live_apart:
  assumes ok: "heap_ok s" and x: "(b, i) \<in> live s" "(c, j) \<in> live s" "(b, i) \<noteq> (c, j)"
  shows "apart (b, i) (c, j)"
proof -
  obtain n k where b: "i < 7" "n < 261888" "k < class_blocks i" "frame b = page n" "b = block i (page n) k" "unat b = unat (page n) + 8 + k * class_size i"
    by (rule live_block [OF ok x(1)])
  obtain m l where c: "j < 7" "m < 261888" "l < class_blocks j" "frame c = page m" "c = block j (page m) l" "unat c = unat (page m) + 8 + l * class_size j"
    by (rule live_block [OF ok x(2)])
  note f = class_fits [OF b(1,3)] class_fits [OF c(1,3)] unat_page [OF b(2)] unat_page [OF c(2)]
  show ?thesis
  proof (cases "n = m")
    case True
    with x b(4) c(4) have "i = j" by (auto simp: live_def live_in_def in_class_def)
    with x(3) b(5) c(5) True have "k \<noteq> l" by auto
    then have "k < l \<or> l < k" by arith
    then have "(k + 1) * class_size i \<le> l * class_size i \<or> (l + 1) * class_size i \<le> k * class_size i"
      by (metis Suc_eq_plus1 Suc_leI mult_le_mono1)
    then show ?thesis using b(6) c(6) True \<open>i = j\<close> by (auto simp: apart_def)
  next
    case False
    then have "n + 1 \<le> m \<or> m + 1 \<le> n" by arith
    then show ?thesis using b(6) c(6) f by (auto simp: apart_def)
  qed
qed

lemma live_inside: "heap_ok s \<Longrightarrow> x \<in> live s \<Longrightarrow> inside x"
proof -
  assume ok: "heap_ok s" and x: "x \<in> live s"
  obtain n k where b: "snd x < 7" "n < 261888" "k < class_blocks (snd x)" "frame (fst x) = page n" "fst x = block (snd x) (page n) k"
    "unat (fst x) = unat (page n) + 8 + k * class_size (snd x)" using live_block [OF ok, of "fst x" "snd x"] x by auto
  then show ?thesis using class_fits [OF b(1,3)] by (simp add: inside_def)
qed


text \<open>C7: The heap of a kernel thread stays sound. From the heap that \<^verbatim>\<open>mem_init\<close> leaves, or any sound one, through any sequence of
  \<^verbatim>\<open>sys_malloc\<close> of up to 1024 bytes, \<^verbatim>\<open>sys_free\<close> of blocks in use and steps that do not touch the heap: every block in use lies in its page
  behind the header, no two blocks in use overlap, and the counters in the headers match the free lists (\<open>heap_ok\<close>), so that a page goes
  back to the pool exactly when its last block is released.\<close>

theorem heap_stays_sound:
  assumes "heap_start s0 \<or> heap_ok s0 \<and> kthread 0 s0" and "heap_run s0 s"
  shows "heap_ok s \<and> pairwise apart (live s) \<and> (\<forall>x \<in> live s. inside x)"
proof -
  have "heap_ok s0" "kthread 0 s0" using assms(1) empty_heap_ok(1) [of s0] by (auto simp: heap_start_def)
  with heap_run_ok [OF assms(2)] have ok: "heap_ok s" by blast
  then show ?thesis using live_apart [OF ok] live_inside [OF ok] by (auto simp: pairwise_def)
qed

lemma other_block_in_use:
  assumes ok: "heap_ok s" and x: "(p, i) \<in> live s" "(c, i) \<in> live s" "c \<noteq> p" "frame c = frame p"
  shows "card (blocks i (frame p) \<inter> set (free_lists s i)) + 1 < class_blocks i"
proof -
  obtain n k where b: "i < 7" "n < 261888" "frame p = page n" by (rule live_block [OF ok x(1)])
  have l: "p \<in> blocks i (page n)" "c \<in> blocks i (page n)" "p \<notin> set (free_lists s i)" "c \<notin> set (free_lists s i)"
    using x b(3) by (auto simp: live_def live_in_def in_class_def)
  then have "blocks i (page n) \<inter> set (free_lists s i) \<subseteq> blocks i (page n) - {p, c}" by auto
  then have "card (blocks i (page n) \<inter> set (free_lists s i)) \<le> card (blocks i (page n) - {p, c})"
    by (intro card_mono) (simp_all add: blocks_def)
  also have "\<dots> = class_blocks i - 2" using l x(3) card_blocks [OF b(1,2)] by (subst card_Diff_subset) simp_all
  finally show ?thesis using class_bounds [OF b(1)] unfolding b(3) by linarith
qed


subsection \<open>A heap with one page\<close>

text \<open>The second page of the kernel's addresses, mapped to the frame 0x200000, is a page of blocks of 16 bytes; all but the third are in use.\<close>

definition demo_used :: mkernel where
  "demo_used = demo_mkernel\<lparr>pm := (\<lambda>_. 0)(0x100c00 := 0x101007, 0x101404 := 0x200007),
     kernel_vaddr := \<lparr>vaddr_bitmap = \<lparr>btmp_bytes_len = 1, bits = [3]\<rparr>, vaddr_start = K_HEAP_START\<rparr>,
     k_block_descs := (desc_loop 7 16)[0 := \<lparr>block_size = 16, blocks_per_arena = 255, free_list = [block 0 (page 1) 2]\<rparr>],
     arenas := [(None, page 1) \<mapsto> \<lparr>a_desc = Some (K_Desc 0), a_cnt = 1\<rparr>]\<rparr>"

lemma demo_used_fields:
  "kernel_vaddr demo_used = \<lparr>vaddr_bitmap = \<lparr>btmp_bytes_len = 1, bits = [3]\<rparr>, vaddr_start = K_HEAP_START\<rparr>"
  "k_block_descs demo_used = (desc_loop 7 16)[0 := \<lparr>block_size = 16, blocks_per_arena = 255, free_list = [block 0 (page 1) 2]\<rparr>]"
  "headers demo_used = [page 1 \<mapsto> \<lparr>a_desc = Some (K_Desc 0), a_cnt = 1\<rparr>]" "kthread 0 demo_used"
  "pm demo_used = (\<lambda>_. 0)(0x100c00 := 0x101007, 0x101404 := 0x200007)" "cr3 demo_used = 0x100000"
  by (auto simp: demo_used_def headers_def fun_eq_iff kthread_def demo_mkernel_def kernel.extend_def demo_kernel_def demo_pool_def lock_at_def demo_task_def)

lemma demo_used_lists: "i < 7 \<Longrightarrow> free_lists demo_used i = (if i = 0 then [block 0 (page 1) 2] else [])"
  by (simp add: free_lists_def demo_used_fields length_desc_loop desc_loop_nth nth_list_update)

lemma demo_class: "in_class (headers demo_used) j b \<longleftrightarrow> j = 0 \<and> b \<in> blocks 0 (page 1)"
  using blocks_frame [of 0 1 b] by (auto simp: in_class_def demo_used_fields)

lemma demo_block: "k < 255 \<Longrightarrow> block 0 (page 1) k \<in> blocks 0 (page 1)"
  by (simp add: blocks_def class_blocks_def class_size_def)

lemma demo_used_ok: "heap_ok demo_used"
proof -
  have "1 \<in> used_pages demo_used" by (simp add: used_pages_def demo_used_fields bitmap_used_def clear_def bit_numeral_rec)
  then have "\<exists>n \<in> used_pages demo_used. n < 261888 \<and> page (Suc 0) = page n" by (intro bexI [of _ 1]) simp_all
  moreover have "va_ok (kernel_vaddr demo_used)" by (simp add: demo_used_fields va_ok_def wf_bitmap_def)
  moreover have "length (k_block_descs demo_used) = 7" by (simp add: demo_used_fields length_desc_loop)
  moreover have "desc_ok i (k_block_descs demo_used ! i)" if "i < 7" for i
    using that init_desc_ok [OF that] by (cases "i = 0") (simp_all add: demo_used_fields length_desc_loop desc_ok_def class_size_def class_blocks_def)
  moreover have "blocks 0 (page 1) \<inter> set (free_lists demo_used 0) = {block 0 (page 1) 2}" using demo_block [of 2] by (auto simp: demo_used_lists)
  ultimately show ?thesis using demo_block [of 2] unfolding heap_ok_def parts_ok_def demo_class
    by (auto simp: demo_used_fields(3) hdr_ok_def demo_used_lists split: if_splits)
qed

lemma demo_used_live: "k < 255 \<Longrightarrow> k \<noteq> 2 \<Longrightarrow> (block 0 (page 1) k, 0) \<in> live demo_used"
  using demo_block [of k] block_inj [of 0 k 2 1] unfolding live_def live_in_def demo_class
  by (simp add: demo_used_lists class_blocks_def class_size_def)

lemma demo_addr: "block 0 (page 1) 2 = 0xc0101028"
  by (simp add: block_def page_def class_size_def K_HEAP_START_def PG_SIZE_def ARENA_SIZE_def)

lemma demo_walk:
  "m 0x100c00 = 0x101007 \<Longrightarrow> m 0x101404 = 0x200007 \<Longrightarrow> PDE_IDX a = 768 \<Longrightarrow> PTE_IDX a = 257 \<Longrightarrow>
   walk m 0x100000 a = Some (0x200000 + (a AND 0xfff))"
  by (simp add: walk_def pde_phys_def pte_phys_def frame_def present_def)

lemma demo_used_mapped: "vzero 4 (block 0 (page 1) 2) demo_used \<noteq> None"
proof -
  have "PDE_IDX 0xc0101028 = 768" "PDE_IDX 0xc010102c = 768" "PDE_IDX 0xc0101030 = 768" "PDE_IDX 0xc0101034 = 768"
    "PTE_IDX 0xc0101028 = 257" "PTE_IDX 0xc010102c = 257" "PTE_IDX 0xc0101030 = 257" "PTE_IDX 0xc0101034 = 257"
    by (simp_all add: PDE_IDX_def PTE_IDX_def)
  moreover have "(4 :: nat) = Suc (Suc (Suc (Suc 0)))" by simp
  ultimately show ?thesis unfolding demo_addr by (simp only: vzero.simps) (simp add: vwrite_def demo_walk demo_used_fields)
qed

theorem heap_stays_sound_witness:
  "\<exists>s. sys_free (block 0 (page 1) 5) demo_used = Some s \<and> heap_ok s \<and> pairwise apart (live s) \<and> (block 0 (page 1) 0, 0) \<in> live s \<and>
     apart (block 0 (page 1) 0, 0) (block 0 (page 1) 7, 0)"
proof -
  have l: "(block 0 (page 1) 5, 0) \<in> live demo_used" by (rule demo_used_live) simp_all
  have "card (blocks 0 (frame (block 0 (page 1) 5)) \<inter> set (free_lists demo_used 0)) \<le> card {block 0 (page 1) 2}"
    by (rule card_mono) (auto simp: demo_used_lists)
  then have "card (blocks 0 (frame (block 0 (page 1) 5)) \<inter> set (free_lists demo_used 0)) + 1 < class_blocks 0"
    by (simp add: class_blocks_def class_size_def)
  with sys_free_ok [OF demo_used_fields(4) demo_used_ok l] obtain s where
    s: "sys_free (block 0 (page 1) 5) demo_used = Some s" "live s = live demo_used - {(block 0 (page 1) 5, 0)}" by blast
  have r: "heap_run demo_used s" by (rule heap_run.free [OF heap_run.start l s(1)])
  have "heap_ok s \<and> pairwise apart (live s) \<and> (\<forall>x \<in> live s. inside x)"
    by (rule heap_stays_sound [OF _ r]) (simp add: demo_used_ok demo_used_fields(4))
  moreover have "(block 0 (page 1) 0, 0) \<in> live s" "(block 0 (page 1) 7, 0) \<in> live s" "block 0 (page 1) 0 \<noteq> block 0 (page 1) 7"
    using demo_used_live [of 0] demo_used_live [of 7] block_inj [of 0 _ _ 1] s(2) by (simp_all add: class_blocks_def class_size_def)
  ultimately show ?thesis using s(1) by (auto simp: pairwise_def)
qed


end
