(* ===== verification/Spec2Isabelle.thy ===== *)
theory Spec2Isabelle
  imports Kstring Klist Keyboard Mem_Init Malloc Stdio Tss Process File_Io Format Dir_Correct Dma Ide_Correct Part_Scan Shell Syscall Console Heap_Correct
begin

text \<open>
  A verification library for LinkOS, a small 32-bit kernel for the PC (\<^verbatim>\<open>src/code\<close>): a preemptive scheduler, locks, paging and heaps,
  drivers for keyboard, timer, DMA controller and ATA disks, an ext2-like file system and a shell. Every function of the C code that
  changes state is translated to a definition, the functions are composed the way the code composes them, and the theorems say what
  each part does. The text in front of a theorem numbered C1 to C40 states the property in words.

  Conventions. An operation that can stop the machine or wait for ever (a failing \<^verbatim>\<open>ASSERT\<close>, a \<^verbatim>\<open>PANIC\<close>, a page fault of the kernel, a read
  outside an array, a lock another thread holds, a key that is not typed) is a function into \<open>option\<close> and \<open>None\<close> is that outcome; a
  property that says that a call returns therefore shows that none of these happens. The C integers are words of their width, with
  wrap-around; pointers are words or names of objects, \<^verbatim>\<open>NULL\<close> is 0 or \<open>None\<close>. Loops are structural recursions, functions with a
  termination proof, or \<open>partial_function\<close> where the code itself may not end (chains of boot records, directories, formats); no fuel
  is used. Assembly instructions and hardware are parameters, or small models of the chip where a property is about what the chip does.

  Parts and theories, from the bottom up.

  \<^item> \<open>Prelude\<close>: integer types, \<^verbatim>\<open>ASSERT\<close> (\<^verbatim>\<open>lib/kernel/debug.h\<close>), array access, facts on words and lists.
  \<^item> \<open>Kstring\<close>: \<^verbatim>\<open>lib/string.c\<close> over a byte memory with 32-bit pointers; \<open>Stdio\<close>: \<^verbatim>\<open>lib/usr/stdio.c\<close>, formatted output. Copying, comparing
    and the round trip of printed numbers.
  \<^item> \<open>Bitmap\<close>: \<^verbatim>\<open>lib/kernel/bitmap.c\<close>; the scan is sound, and first-fit for fewer than eight bits. \<open>Allocator\<close>: the interface of everything
    that hands out one item per bit, interpreted for physical frames (\<open>Page_Pool\<close>) and disk blocks (\<open>Fs_Blocks\<close>).
  \<^item> \<open>Klist\<close>: \<^verbatim>\<open>lib/kernel/list.c\<close>, pointers in a store; \<open>Fifo\<close>: the queue interface, interpreted for these lists and for \<open>Ioqueue\<close>,
    the ring buffer of \<^verbatim>\<open>device/ioqueue.c\<close>.
  \<^item> \<open>Rbtree\<close>: \<^verbatim>\<open>lib/kernel/rbtree.c\<close>, the pointer code with its parent links; \<open>Rbtree_Shape\<close>, \<open>Rbtree_Insert\<close>, \<open>Rbtree_Erase\<close>, \<open>Rbtree_Unlink\<close>,
    \<open>Rbtree_Correct\<close>: insertion and removal keep a balanced search tree and return for every tree.
  \<^item> \<open>Interrupt\<close>: \<^verbatim>\<open>kernel/interrupt.c\<close>, the interrupt flag, the descriptor table, the controllers. \<open>Task\<close>: the control block of \<^verbatim>\<open>thread/thread.h\<close>,
    the kernel state, the walk through the page tables.
  \<^item> \<open>Sched\<close>: \<^verbatim>\<open>kernel/sched.c\<close>; \<open>Run_Queue\<close>: the interface of a run queue, interpreted for the red-black tree; \<open>Sched_Correct\<close>: \<^verbatim>\<open>schedule\<close> returns
    and switches to a thread of least virtual runtime. \<open>Blocking\<close>: blocking, waking, yielding, the timer interrupt.
  \<^item> \<open>Sync\<close>: \<^verbatim>\<open>thread/sync.c\<close>, on the kernel state and as a transition system with preemption between any two statements: mutual exclusion and
    no lost wake-up as invariants of all reachable states.
  \<^item> \<open>Memory\<close>: \<^verbatim>\<open>kernel/memory.c\<close>; \<open>Page_Arith\<close>, \<open>Page_Pool\<close>, \<open>Paging\<close>, \<open>Mem_Init\<close>: the self-mapped page directory, what mapping a page changes,
    the layout of the pools. \<open>Malloc\<close>: \<^verbatim>\<open>sys_malloc\<close> and \<^verbatim>\<open>sys_free\<close> of \<^verbatim>\<open>kernel/syscall.c\<close>; \<open>Heap_Blocks\<close>, \<open>Heap_Correct\<close>: the invariant of the
    kernel's heap and that live blocks never overlap; \<open>Block_Heap\<close>: the interface of a heap, interpreted for the two calls; behind this header:
    \<^verbatim>\<open>mem_init\<close> leaves the heap this starts from.
  \<^item> \<open>Thread\<close>: \<^verbatim>\<open>thread/thread.c\<close>; \<open>Process\<close>: \<^verbatim>\<open>userprog/process.c\<close>; \<open>Tss\<close>: \<^verbatim>\<open>userprog/tss.c\<close>, the descriptors of \<^verbatim>\<open>kernel/global.h\<close> and the rest of
    \<^verbatim>\<open>device/timer.c\<close>; \<open>Syscall\<close>: \<^verbatim>\<open>lib/usr/syscall.c\<close>, the entry in \<^verbatim>\<open>kernel/kernel.asm\<close> and the table of \<^verbatim>\<open>kernel/syscall.c\<close>.
  \<^item> \<open>Keyboard\<close>: \<^verbatim>\<open>device/keyboard.c\<close>; \<open>Console\<close>: \<^verbatim>\<open>device/console.c\<close>; \<open>Dma\<close>: \<^verbatim>\<open>device/dma.c\<close> with a channel of the 8237A; \<open>Ide\<close>: \<^verbatim>\<open>device/ide.c\<close> over
    port instructions; \<open>Ide_Correct\<close>: with an ATA controller it implements the disk the file system is proved on; \<open>Part_Scan\<close>: partition tables.
  \<^item> \<open>Fs_Disk\<close>: data of the file system and the disk as an array of bytes; \<open>Inode\<close>: \<^verbatim>\<open>fs/inode.c\<close>; \<open>Fs_Blocks\<close>, \<open>Block_Index\<close>, \<open>Block_Alloc\<close>,
    \<open>Inode_Disk\<close>: the index of an inode as a map from block numbers to blocks, and inodes on disk; \<open>File\<close>: \<^verbatim>\<open>fs/file.c\<close>, \<open>File_Correct\<close>,
    \<open>File_Io\<close>: reading and writing against the contents of a file; \<open>Dir\<close>: \<^verbatim>\<open>fs/dir.c\<close>, \<open>Dir_Correct\<close>: a directory is a map from names; \<open>Path\<close>,
    \<open>Fs\<close>: path lookup and the system calls of \<^verbatim>\<open>fs/fs.c\<close>; \<open>Fs_Init\<close>, \<open>Format\<close>: formatting and mounting give a sound file system.
  \<^item> \<open>Shell\<close>: \<^verbatim>\<open>shell/shell.c\<close> and \<^verbatim>\<open>printk\<close>; a line typed at the keyboard becomes the arguments of a command, and a round of the shell.

  How the parts meet. The scheduler uses the tree through \<open>run_queue\<close>; locks and blocking use the scheduler; memory and heap use locks and
  bitmaps; the file system is proved for every heap that serves its requests (\<open>heap_serves\<close>, a hypothesis with an instance) and on the disk
  the driver implements; the shell calls the file system and formats with \<open>Stdio\<close>. Kernel state is one record, extended from \<open>Task\<close> to
  \<open>Memory\<close> to \<open>Thread\<close>; the file system and the disk driver have records of their own.

  Bounds. Pools of physical pages below 4 GB, kernel addresses from 0xc0100000 to 4 GB (261888 pages), heap requests up to 1024 bytes for the
  heap invariant (larger ones are whole pages), partitions that fit the 163840 sectors of the driver for formatting, files below 4 GB, so that
  the third level of the index is not reached by reads and writes, directories of at most 1036 blocks; each is what the code itself can reach.

  Abstractions. The header of a heap page and the links inside free blocks are kept beside the memory image, so a stray write of a thread into
  them is outside the model; the TLB is coherent; \<^verbatim>\<open>switch_to\<close> exchanges the running thread; the messages kernel code prints with \<^verbatim>\<open>printk\<close> are
  left out except those of the shell, of \<^verbatim>\<open>sys_write\<close> and of the console.

  Not modelled: the boot sector and loader, the drawing routines of \<^verbatim>\<open>lib/kernel/print.asm\<close> and the stubs of \<^verbatim>\<open>kernel/kernel.asm\<close> other than the
  system call entry, which are assembly below the C code; \<^verbatim>\<open>main\<close> and \<^verbatim>\<open>init_all\<close>, which call the initialisation of each part in order (each of
  these is modelled with its part); \<^verbatim>\<open>panic_spin\<close> and the page fault handler, which print and halt; headers with port instructions and types.
\<close>

subsection \<open>The start of the kernel's heap\<close>

text \<open>A machine of 32 MB as the loader leaves it: the first 4 MB mapped at 0 and at 0xc0000000, the size of the memory at 0xb08.\<close>

definition boot_machine :: mkernel where
  "boot_machine = boot_mkernel\<lparr>pm := (pm boot_mkernel)(0x100000 := 0x101007, 0x101000 := 7, 0xb08 := 0x2000000)\<rparr>"

text \<open>C9: The heap at the start. \<^verbatim>\<open>mem_init\<close> on the memory the loader reports (with at least 16 free pages after the count is cut to 16 bits), with
  a kernel directory that maps itself and has a table for the first kernel heap page, returns; the heap it leaves is well formed, has no block in
  use and has taken only the page of the kernel directory; the cache has the 255 entries of the directory that every process shares; and
  as soon as the main thread has its control block, without a directory of its own, this is the state from which the heap stays sound.\<close>

theorem mem_init_starts_heap:
  assumes "vread 0xb08 s = Some all_mem" and "0x200000 \<le> unat all_mem" and "16 \<le> (unat all_mem - 0x200000) div 4096 mod 65536"
    and "self_mapped (pm s) (cr3 s)" and "present (pm s (pde_phys (cr3 s) K_HEAP_START))"
    and "\<not> present (pm s (pte_phys (pm s) (cr3 s) K_HEAP_START))"
    and "frame (pm s (pde_phys (cr3 s) K_HEAP_START)) \<noteq> cr3 s" and "headers s = (\<lambda>_. None)"
  shows "\<exists>s'. mem_init raw s = Some s' \<and> heap_ok s' \<and> live s' = {} \<and> used_pages s' = {0} \<and>
    kernel_pde_cache s' = map (\<lambda>i. pm s' (cr3 s' + (768 + word_of_nat i) * 4)) [0..<255] \<and>
    (\<forall>cur. pgdir cur = 0 \<longrightarrow> heap_start (s'\<lparr>tasks := (tasks s')(running s' \<mapsto> cur)\<rparr>))"
proof -
  note [simp del] = upt_rec_numeral
  have n: "16 \<le> free_pages all_mem" using assms(3) by (simp add: free_pages_def)
  from mem_pool_init_run [OF assms(2) n assms(4-6), of raw] obtain vb where
    vb: "wf_bitmap vb" "length (bits vb) = free_pages all_mem div 2 div 8" "bitmap_used vb = {0}" and
    run: "mem_pool_init raw all_mem s = Some (s\<lparr>kernel_pool := new_pool 0x200000 (free_pages all_mem div 2),
      user_pool := new_pool (0x200000 + word_of_nat (free_pages all_mem div 2 * 4096)) (free_pages all_mem - free_pages all_mem div 2),
      kernel_vaddr := \<lparr>vaddr_bitmap = vb, vaddr_start = K_HEAP_START\<rparr>,
      pm := (pm s)(pte_phys (pm s) (cr3 s) K_HEAP_START := 0x100000 OR PG_ATTR)\<rparr>)" (is "_ = Some ?s1") by blast
  define s1 where "s1 = ?s1"
  have s1: "kernel_vaddr s1 = \<lparr>vaddr_bitmap = vb, vaddr_start = K_HEAP_START\<rparr>" "pool_lock (kernel_pool s1) = lock_init"
    "pm s1 = (pm s)(pte_phys (pm s) (cr3 s) K_HEAP_START := 0x100000 OR PG_ATTR)" "cr3 s1 = cr3 s" "arenas s1 = arenas s"
    by (simp_all add: s1_def new_pool_def)
  note run = run [folded s1_def]
  have "frame (0x100000 :: u32) = 0x100000" by (simp add: frame_def)
  from present_case_maps(1) [OF assms(4,5,7) this] have sm: "self_mapped (pm s1) (cr3 s1)" using s1 by simp
  let ?c = "map (\<lambda>i. pm s1 (cr3 s1 + (768 + word_of_nat i) * 4)) [0..<255]"
  let ?s = "s1\<lparr>k_block_descs := block_desc_init, kernel_pde_cache := ?c\<rparr>"
  have m: "mem_init raw s = Some ?s"
    using cache_pdes_reads [of "s1\<lparr>k_block_descs := block_desc_init\<rparr>" 0 255] sm assms(1) run by (simp add: mem_init_def)
  have "free_pages all_mem < 65536" by (simp add: free_pages_def)
  then have va: "va_ok (kernel_vaddr ?s)" using s1(1) vb by (simp add: va_ok_def)
  have h: "headers ?s = (\<lambda>_. None)" using assms(8) s1(5) by (simp add: headers_def)
  have "heap_start (?s\<lparr>tasks := (tasks ?s)(running ?s \<mapsto> cur)\<rparr>)" if "pgdir cur = 0" for cur
    using va h s1(2) that by (simp add: heap_start_def kthread_def headers_def lock_at_def lock_init_def)
  then show ?thesis using m empty_heap_ok [of ?s] va h vb(3) s1(1) by (intro exI [of _ ?s]) (simp add: used_pages_def)
qed

theorem mem_init_starts_heap_witness:
  "\<exists>s'. mem_init (\<lambda>_. 0xff) boot_machine = Some s' \<and> heap_ok s' \<and> live s' = {} \<and> used_pages s' = {0}"
proof -
  have f: "cr3 boot_machine = 0x100000" "arenas boot_machine = (\<lambda>_. None)"
    "pm boot_machine = (\<lambda>_. 0)(0x100ffc := 0x100007, 0x100c00 := 0x101007, 0x100000 := 0x101007, 0x101000 := 7, 0xb08 := 0x2000000)"
    by (simp_all add: boot_machine_def boot_mkernel_def demo_mkernel_fields) (simp add: demo_mkernel_def kernel.extend_def)
  have i: "pde_phys 0x100000 K_HEAP_START = 0x100c00" "pde_phys 0x100000 0xb08 = 0x100000"
    by (simp_all add: pde_phys_def frame_def PDE_IDX_def K_HEAP_START_def)
  then have j: "pte_phys (pm boot_machine) 0x100000 K_HEAP_START = 0x101400" "pte_phys (pm boot_machine) 0x100000 0xb08 = 0x101000"
    by (simp_all add: f pte_phys_def frame_def PTE_IDX_def K_HEAP_START_def)
  have "vread 0xb08 boot_machine = Some 0x2000000" using i j by (simp add: vread_def walk_def f frame_def present_def)
  from mem_init_starts_heap [OF this, where raw = "\<lambda>_. 0xff"] show ?thesis
    using i j by (simp add: f self_mapped_def frame_def present_def headers_def) blast
qed

end
